(* ===== verification/Prelude.thy ===== *)
theory Prelude
  imports Main "HOL-Library.Word" "HOL-Library.Char_ord" "HOL-Library.List_Lexorder"
begin

text \<open>
  Shared vocabulary of the development: panics as values, the result type every
  fallible routine of the engine returns, left-to-right traversal of a list by a
  fallible routine (the shape of every `for` loop of the engine that calls code
  which may panic), checked indexing, and the generic facts about them.

  A Rust panic is a value @panic@ carrying the literal text of the panic message
  (the arguments interpolated into the message are not modelled).
\<close>

named_theorems res_simps \<open>evaluation rules of the result combinators\<close>
named_theorems len_simps \<open>length facts of the columns and batches\<close>

section \<open>Panics and results\<close>

datatype panic =
    Panicked string
  | Index_Out_Of_Bounds
  | Divide_By_Zero
  | Arith_Overflow
  | Assert_Failed

datatype 'a res = Ok 'a | Panic panic

definition and_then :: "'a res \<Rightarrow> ('a \<Rightarrow> 'b res) \<Rightarrow> 'b res" where
  "and_then r f = (case r of Ok x \<Rightarrow> f x | Panic p \<Rightarrow> Panic p)"

definition map_res :: "('a \<Rightarrow> 'b) \<Rightarrow> 'a res \<Rightarrow> 'b res" where
  "map_res f r = (case r of Ok x \<Rightarrow> Ok (f x) | Panic p \<Rightarrow> Panic p)"

definition is_ok :: "'a res \<Rightarrow> bool" where
  "is_ok r = (case r of Ok _ \<Rightarrow> True | Panic _ \<Rightarrow> False)"

definition expect :: "string \<Rightarrow> 'a option \<Rightarrow> 'a res" where
  "expect msg x = (case x of Some v \<Rightarrow> Ok v | None \<Rightarrow> Panic (Panicked msg))"

definition guard_res :: "bool \<Rightarrow> panic \<Rightarrow> unit res" where
  "guard_res b p = (if b then Ok () else Panic p)"

lemma and_then_simps [simp, res_simps]:
  "and_then (Ok x) f = f x"
  "and_then (Panic p) f = Panic p"
  by (simp_all add: and_then_def)

lemma map_res_simps [simp, res_simps]:
  "map_res f (Ok x) = Ok (f x)"
  "map_res f (Panic p) = Panic p"
  by (simp_all add: map_res_def)

lemma is_ok_simps [simp, res_simps]:
  "is_ok (Ok x)"
  "\<not> is_ok (Panic p)"
  by (simp_all add: is_ok_def)

lemma expect_simps [simp, res_simps]:
  "expect m (Some v) = Ok v"
  "expect m None = Panic (Panicked m)"
  by (simp_all add: expect_def)

lemma guard_res_simps [simp, res_simps]:
  "guard_res True p = Ok ()"
  "guard_res False p = Panic p"
  by (simp_all add: guard_res_def)

lemma and_then_cong [fundef_cong]:
  assumes "r = r'" and "\<And>x. r' = Ok x \<Longrightarrow> f x = f' x"
  shows "and_then r f = and_then r' f'"
  using assms by (cases r') auto

lemma and_then_eq_Ok: "and_then r f = Ok y \<longleftrightarrow> (\<exists>x. r = Ok x \<and> f x = Ok y)"
  by (cases r) auto

lemma map_res_eq_Ok: "map_res f r = Ok y \<longleftrightarrow> (\<exists>x. r = Ok x \<and> y = f x)"
  by (cases r) auto

lemma guard_res_eq_Ok [simp]: "guard_res b p = Ok u \<longleftrightarrow> b"
  by (simp add: guard_res_def)

lemma expect_eq_Ok: "expect m x = Ok v \<longleftrightarrow> x = Some v"
  by (cases x) auto

lemma is_ok_iff: "is_ok r \<longleftrightarrow> (\<exists>x. r = Ok x)"
  by (cases r) auto

lemma and_then_assoc [simp]: "and_then (and_then r f) g = and_then r (\<lambda>x. and_then (f x) g)"
  by (cases r) auto

lemma and_then_Ok [simp]: "and_then r Ok = r"
  by (cases r) auto

lemma map_res_and_then: "map_res f r = and_then r (\<lambda>x. Ok (f x))"
  by (cases r) auto

lemmas ok_iffs = and_then_eq_Ok map_res_eq_Ok expect_eq_Ok

section \<open>Loops over lists\<close>

fun traverse :: "('a \<Rightarrow> 'b res) \<Rightarrow> 'a list \<Rightarrow> 'b list res" where
  "traverse f [] = Ok []"
| "traverse f (x # xs) =
     and_then (f x) (\<lambda>y. and_then (traverse f xs) (\<lambda>ys. Ok (y # ys)))"

fun fold_res :: "('s \<Rightarrow> 'a \<Rightarrow> 's res) \<Rightarrow> 's \<Rightarrow> 'a list \<Rightarrow> 's res" where
  "fold_res f s [] = Ok s"
| "fold_res f s (x # xs) = and_then (f s x) (\<lambda>s'. fold_res f s' xs)"

definition idx :: "'a list \<Rightarrow> nat \<Rightarrow> 'a res" where
  "idx xs i = (if i < length xs then Ok (xs ! i) else Panic Index_Out_Of_Bounds)"

lemma traverse_cong [fundef_cong]:
  assumes "xs = ys" and "\<And>x. x \<in> set ys \<Longrightarrow> f x = g x"
  shows "traverse f xs = traverse g ys"
  using assms(2) unfolding assms(1) by (induction ys) auto

lemma fold_res_cong [fundef_cong]:
  assumes "xs = ys" and "s = t" and "\<And>s x. x \<in> set ys \<Longrightarrow> f s x = g s x"
  shows "fold_res f s xs = fold_res g t ys"
proof -
  have "(\<And>s x. x \<in> set ys \<Longrightarrow> f s x = g s x) \<Longrightarrow> fold_res f t ys = fold_res g t ys"
  proof (induction ys arbitrary: t)
    case (Cons a ys)
    have "f t a = g t a" using Cons.prems by simp
    moreover have "\<And>t'. fold_res f t' ys = fold_res g t' ys"
      using Cons.IH Cons.prems by simp
    ultimately show ?case by simp
  qed simp
  then show ?thesis using assms by simp
qed

lemma traverse_eq_Ok: "traverse f xs = Ok ys \<longleftrightarrow> list_all2 (\<lambda>x y. f x = Ok y) xs ys"
  by (induction xs arbitrary: ys) (auto simp: and_then_eq_Ok list_all2_Cons1)

lemma traverse_length [len_simps]: "traverse f xs = Ok ys \<Longrightarrow> length ys = length xs"
  by (auto simp: traverse_eq_Ok dest: list_all2_lengthD)

lemma traverse_nth: "traverse f xs = Ok ys \<Longrightarrow> i < length xs \<Longrightarrow> f (xs ! i) = Ok (ys ! i)"
  by (auto simp: traverse_eq_Ok list_all2_conv_all_nth)

lemma traverse_all_Ok:
  "(\<And>x. x \<in> set xs \<Longrightarrow> f x = Ok (g x)) \<Longrightarrow> traverse f xs = Ok (List.map g xs)"
  by (induction xs) auto

lemma traverse_Ok_id [simp]: "traverse Ok xs = Ok xs"
  by (induction xs) auto

lemma traverse_Ok_map [simp]: "traverse (\<lambda>x. Ok (g x)) xs = Ok (List.map g xs)"
  by (induction xs) auto

lemma traverse_map [simp]: "traverse f (List.map g xs) = traverse (\<lambda>x. f (g x)) xs"
  by (induction xs) auto

lemma traverse_append:
  "traverse f (xs @ ys) =
     and_then (traverse f xs) (\<lambda>a. and_then (traverse f ys) (\<lambda>b. Ok (a @ b)))"
proof (induction xs)
  case Nil
  show ?case by (cases "traverse f ys") auto
qed (auto intro: arg_cong2 [where f = and_then])

lemma traverse_is_ok: "is_ok (traverse f xs) \<longleftrightarrow> (\<forall>x\<in>set xs. is_ok (f x))"
proof (induction xs)
  case (Cons a xs)
  then show ?case by (cases "f a"; cases "traverse f xs") auto
qed simp

lemma traverse_set: "traverse f xs = Ok ys \<Longrightarrow> y \<in> set ys \<Longrightarrow> \<exists>x\<in>set xs. f x = Ok y"
  by (induction xs arbitrary: ys) (auto simp: and_then_eq_Ok)

lemma fold_res_append:
  "fold_res f s (xs @ ys) = and_then (fold_res f s xs) (\<lambda>s'. fold_res f s' ys)"
proof (induction xs arbitrary: s)
  case (Cons a xs)
  then show ?case by (cases "f s a") simp_all
qed simp

lemma fold_res_Ok: "(\<And>s x. x \<in> set xs \<Longrightarrow> f s x = Ok (g s x)) \<Longrightarrow> fold_res f s xs = Ok (foldl g s xs)"
  by (induction xs arbitrary: s) auto

lemma idx_simps [simp]:
  "i < length xs \<Longrightarrow> idx xs i = Ok (xs ! i)"
  "\<not> i < length xs \<Longrightarrow> idx xs i = Panic Index_Out_Of_Bounds"
  by (simp_all add: idx_def)

lemma idx_eq_Ok: "idx xs i = Ok x \<longleftrightarrow> i < length xs \<and> x = xs ! i"
  by (auto simp: idx_def)

lemma traverse_idx_all [simp]: "traverse (idx xs) [0..<length xs] = Ok xs"
  by (subst traverse_all_Ok [where g = "\<lambda>i. xs ! i"]) (auto simp: map_nth)

section \<open>Outcomes\<close>

text \<open>@outcome P Q r@: a returned value satisfies @Q@, a panic satisfies @P@.\<close>

definition outcome :: "(panic \<Rightarrow> bool) \<Rightarrow> ('a \<Rightarrow> bool) \<Rightarrow> 'a res \<Rightarrow> bool" where
  "outcome P Q r = (case r of Ok x \<Rightarrow> Q x | Panic p \<Rightarrow> P p)"

lemma outcome_simps [simp, res_simps]:
  "outcome P Q (Ok x) = Q x"
  "outcome P Q (Panic p) = P p"
  by (simp_all add: outcome_def)

lemma outcome_and_then:
  "outcome P R r \<Longrightarrow> (\<And>x. r = Ok x \<Longrightarrow> R x \<Longrightarrow> outcome P Q (f x)) \<Longrightarrow> outcome P Q (and_then r f)"
  by (cases r) auto

lemma outcome_map_res: "outcome P Q (map_res f r) = outcome P (\<lambda>x. Q (f x)) r"
  by (cases r) auto

lemma outcome_mono:
  "outcome P Q r \<Longrightarrow> (\<And>p. P p \<Longrightarrow> P' p) \<Longrightarrow> (\<And>x. Q x \<Longrightarrow> Q' x) \<Longrightarrow> outcome P' Q' r"
  by (cases r) auto

lemma outcome_traverse:
  "(\<And>x. x \<in> set xs \<Longrightarrow> outcome P (Q x) (f x)) \<Longrightarrow> outcome P (\<lambda>ys. list_all2 Q xs ys) (traverse f xs)"
proof (induction xs)
  case (Cons x xs)
  then have "outcome P (Q x) (f x)" "outcome P (\<lambda>ys. list_all2 Q xs ys) (traverse f xs)" by auto
  then show ?case by (cases "f x"; cases "traverse f xs") auto
qed simp

lemma outcome_never: "outcome (\<lambda>p. False) Q r \<longleftrightarrow> (\<exists>x. r = Ok x \<and> Q x)"
  by (cases r) auto

text \<open>Position of the first element that satisfies a predicate
  (`iter().position(..)`).\<close>

fun position :: "('a \<Rightarrow> bool) \<Rightarrow> 'a list \<Rightarrow> nat option" where
  "position p [] = None"
| "position p (x # xs) = (if p x then Some 0 else map_option Suc (position p xs))"

lemma position_Some:
  "position p xs = Some i \<Longrightarrow> i < length xs \<and> p (xs ! i) \<and> (\<forall>j<i. \<not> p (xs ! j))"
proof (induction xs arbitrary: i)
  case (Cons a xs)
  then show ?case by (cases i) (auto simp: less_Suc_eq_0_disj split: if_splits)
qed simp

lemma position_None: "position p xs = None \<longleftrightarrow> (\<forall>x\<in>set xs. \<not> p x)"
  by (induction xs) auto

text \<open>Insertion-ordered de-duplication (a fresh element is pushed at the end).\<close>

definition push_new :: "'a list \<Rightarrow> 'a \<Rightarrow> 'a list" where
  "push_new xs x = (if x \<in> set xs then xs else xs @ [x])"

lemma set_push_new [simp]: "set (push_new xs x) = insert x (set xs)"
  by (auto simp: push_new_def)

lemma distinct_push_new [simp]: "distinct xs \<Longrightarrow> distinct (push_new xs x)"
  by (auto simp: push_new_def)

end
