(* ===== verification/Rust_Text.thy ===== *)
theory Rust_Text
  imports Prelude
begin

text \<open>
  The part of Rust's @char@, @str@ and integer formatting/parsing the engine uses.

  A Rust `String` is a HOL @string@: a list of characters, each the Unicode scalar
  value U+0000 .. U+00FF of its code (the Latin-1 block).  On that block the
  character classes are the ones of Unicode, not only their ASCII part.  Decoding
  bytes that denote a character outside the block is the explicit outcome
  @outside_model@, never a silently wrong string.
\<close>

type_synonym byte = "8 word"

abbreviation code :: "char \<Rightarrow> nat" where
  "code c \<equiv> of_char c"

definition outside_model :: panic where
  "outside_model = Panicked ''character outside U+0000..U+00FF (outside the model)''"

section \<open>Character classes\<close>

definition is_ascii_digit :: "char \<Rightarrow> bool" where
  "is_ascii_digit c = (48 \<le> code c \<and> code c \<le> 57)"

definition is_alphabetic :: "char \<Rightarrow> bool" where
  "is_alphabetic c =
     (let n = code c in
      (65 \<le> n \<and> n \<le> 90) \<or> (97 \<le> n \<and> n \<le> 122) \<or> n = 170 \<or> n = 181 \<or> n = 186
      \<or> (192 \<le> n \<and> n \<noteq> 215 \<and> n \<noteq> 247))"

definition is_whitespace :: "char \<Rightarrow> bool" where
  "is_whitespace c =
     (let n = code c in (9 \<le> n \<and> n \<le> 13) \<or> n = 32 \<or> n = 133 \<or> n = 160)"

text \<open>The upper case of U+00B5 and U+00FF lies outside the block; both stay unchanged.
  The engine only compares upper-cased text with ASCII words.\<close>

definition upper_char :: "char \<Rightarrow> string" where
  "upper_char c =
     (let n = code c in
      if (97 \<le> n \<and> n \<le> 122) \<or> (224 \<le> n \<and> n \<le> 254 \<and> n \<noteq> 247) then [char_of (n - 32)]
      else if n = 223 then ''SS'' else [c])"

definition lower_char :: "char \<Rightarrow> char" where
  "lower_char c =
     (let n = code c in
      if (65 \<le> n \<and> n \<le> 90) \<or> (192 \<le> n \<and> n \<le> 222 \<and> n \<noteq> 215) then char_of (n + 32) else c)"

definition ascii_lower_char :: "char \<Rightarrow> char" where
  "ascii_lower_char c =
     (let n = code c in if 65 \<le> n \<and> n \<le> 90 then char_of (n + 32) else c)"

definition to_uppercase :: "string \<Rightarrow> string" where
  "to_uppercase s = concat (List.map upper_char s)"

definition to_lowercase :: "string \<Rightarrow> string" where
  "to_lowercase s = List.map lower_char s"

definition eq_ignore_ascii_case :: "string \<Rightarrow> string \<Rightarrow> bool" where
  "eq_ignore_ascii_case a b \<longleftrightarrow> List.map ascii_lower_char a = List.map ascii_lower_char b"

definition trim :: "string \<Rightarrow> string" where
  "trim s = rev (dropWhile is_whitespace (rev (dropWhile is_whitespace s)))"

lemma digit_not_alphabetic: "is_ascii_digit c \<Longrightarrow> \<not> is_alphabetic c"
  by (auto simp: is_ascii_digit_def is_alphabetic_def Let_def)

lemma digit_not_whitespace: "is_ascii_digit c \<Longrightarrow> \<not> is_whitespace c"
  by (auto simp: is_ascii_digit_def is_whitespace_def Let_def)

lemma alphabetic_not_whitespace: "is_alphabetic c \<Longrightarrow> \<not> is_whitespace c"
  by (auto simp: is_alphabetic_def is_whitespace_def Let_def)

section \<open>Decimal integers\<close>

definition digit :: "nat \<Rightarrow> char" where
  "digit n = char_of (48 + n)"

fun show_nat :: "nat \<Rightarrow> string" where
  "show_nat n = (if n < 10 then [digit n] else show_nat (n div 10) @ [digit (n mod 10)])"

declare show_nat.simps [simp del]

definition show_int :: "int \<Rightarrow> string" where
  "show_int i = (if i < 0 then ''-'' @ show_nat (nat (- i)) else show_nat (nat i))"

definition digits_value :: "string \<Rightarrow> nat" where
  "digits_value ds = foldl (\<lambda>acc c. acc * 10 + (code c - 48)) 0 ds"

text \<open>`str::parse` for a signed integer type: one optional sign, at least one ASCII
  digit, nothing else, and the value in range.\<close>

definition parse_int :: "string \<Rightarrow> int option" where
  "parse_int s =
     (let (neg, ds) = (case s of [] \<Rightarrow> (False, [])
                       | c # cs \<Rightarrow> if c = CHR ''-'' then (True, cs)
                                   else if c = CHR ''+'' then (False, cs) else (False, s))
      in if ds = [] \<or> \<not> list_all is_ascii_digit ds then None
         else Some (if neg then - int (digits_value ds) else int (digits_value ds)))"

definition parse_i64 :: "string \<Rightarrow> 64 word option" where
  "parse_i64 s = (case parse_int s of None \<Rightarrow> None
     | Some i \<Rightarrow> if - (2 ^ 63) \<le> i \<and> i < 2 ^ 63 then Some (word_of_int i) else None)"

definition show_signed :: "'a::len word \<Rightarrow> string" where
  "show_signed w = show_int (sint w)"

definition show_unsigned :: "'a::len word \<Rightarrow> string" where
  "show_unsigned w = show_nat (unat w)"

lemma code_digit [simp]: "n < 10 \<Longrightarrow> code (digit n) = 48 + n"
  by (simp add: digit_def)

lemma is_ascii_digit_digit [simp]: "n < 10 \<Longrightarrow> is_ascii_digit (digit n)"
  by (simp add: is_ascii_digit_def)

lemma show_nat_ne [simp]: "show_nat n \<noteq> []"
  by (subst show_nat.simps) simp

lemma show_nat_digits: "list_all is_ascii_digit (show_nat n)"
proof (induction n rule: less_induct)
  case (less n)
  show ?case
  proof (cases "n < 10")
    case False
    then have "list_all is_ascii_digit (show_nat (n div 10))" using less by simp
    with False show ?thesis by (subst show_nat.simps) simp
  qed (subst show_nat.simps, simp)
qed

lemma digits_value_snoc: "digits_value (ds @ [c]) = digits_value ds * 10 + (code c - 48)"
  by (simp add: digits_value_def)

lemma digits_value_show: "digits_value (show_nat n) = n"
proof (induction n rule: less_induct)
  case (less n)
  show ?case
  proof (cases "n < 10")
    case True
    then show ?thesis by (subst show_nat.simps) (simp add: digits_value_def)
  next
    case False
    then have "digits_value (show_nat (n div 10)) = n div 10" using less by simp
    with False show ?thesis by (subst show_nat.simps) (simp add: digits_value_snoc)
  qed
qed

lemma show_nat_head: "\<exists>c cs. show_nat n = c # cs \<and> is_ascii_digit c \<and> list_all is_ascii_digit cs"
  using show_nat_digits [of n] by (cases "show_nat n") auto

lemma parse_int_show: "parse_int (show_int i) = Some i"
proof -
  obtain c cs where c: "show_nat (nat i) = c # cs" "is_ascii_digit c"
    using show_nat_head by blast
  then have "c \<noteq> CHR ''-''" "c \<noteq> CHR ''+''" by (auto simp: is_ascii_digit_def)
  with c show ?thesis
    using show_nat_digits [of "nat i"] show_nat_digits [of "nat (- i)"]
      digits_value_show [of "nat i"] digits_value_show [of "nat (- i)"]
    by (auto simp: parse_int_def show_int_def)
qed

lemma parse_i64_show: "parse_i64 (show_signed w) = Some w"
  using sint_ge [of w] sint_lt [of w] by (simp add: parse_i64_def show_signed_def parse_int_show)

section \<open>UTF-8\<close>

definition cont_byte :: "nat \<Rightarrow> bool" where
  "cont_byte n = (128 \<le> n \<and> n < 192)"

text \<open>`std::str::from_utf8`: @None@ for malformed input; a well-formed character
  outside the modelled block is @outside_model@.\<close>

fun utf8_chars :: "nat list \<Rightarrow> string option res" where
  "utf8_chars [] = Ok (Some [])"
| "utf8_chars (a # r) =
     (if a < 128 then map_res (map_option ((#) (char_of a))) (utf8_chars r)
      else if a < 194 then Ok None
      else case r of
        [] \<Rightarrow> Ok None
      | b # r2 \<Rightarrow>
          if a < 224 then
            (if \<not> cont_byte b then Ok None
             else if a < 196
             then map_res (map_option ((#) (char_of ((a - 192) * 64 + (b - 128))))) (utf8_chars r2)
             else and_then (utf8_chars r2) (\<lambda>t. if t = None then Ok None else Panic outside_model))
          else if a < 240 then
            (case r2 of
               c # r3 \<Rightarrow>
                 if cont_byte b \<and> cont_byte c \<and> (a = 224 \<longrightarrow> 160 \<le> b) \<and> (a = 237 \<longrightarrow> b < 160)
                 then and_then (utf8_chars r3) (\<lambda>t. if t = None then Ok None else Panic outside_model)
                 else Ok None
             | [] \<Rightarrow> Ok None)
          else if a < 245 then
            (case r2 of
               c # d # r4 \<Rightarrow>
                 if cont_byte b \<and> cont_byte c \<and> cont_byte d \<and> (a = 240 \<longrightarrow> 144 \<le> b) \<and> (a = 244 \<longrightarrow> b < 144)
                 then and_then (utf8_chars r4) (\<lambda>t. if t = None then Ok None else Panic outside_model)
                 else Ok None
             | _ \<Rightarrow> Ok None)
          else Ok None)"

definition from_utf8 :: "byte list \<Rightarrow> string option res" where
  "from_utf8 bs = utf8_chars (List.map unat bs)"

text \<open>`String::from_utf8_lossy`: every malformed sequence becomes U+FFFD, a character
  outside the block.\<close>

definition from_utf8_lossy :: "byte list \<Rightarrow> string res" where
  "from_utf8_lossy bs = and_then (from_utf8 bs)
     (\<lambda>t. case t of Some s \<Rightarrow> Ok s | None \<Rightarrow> Panic outside_model)"

definition utf8_encode :: "string \<Rightarrow> byte list" where
  "utf8_encode s = concat (List.map (\<lambda>c. let n = code c in
     if n < 128 then [word_of_nat n]
     else [word_of_nat (192 + n div 64), word_of_nat (128 + n mod 64)]) s)"

lemma unat_byte: "n < 256 \<Longrightarrow> unat (word_of_nat n :: byte) = n"
  by (simp add: unat_of_nat take_bit_nat_eq_self)

lemma utf8_two: "194 \<le> a \<Longrightarrow> a < 196 \<Longrightarrow> cont_byte b \<Longrightarrow>
  utf8_chars (a # b # r)
    = map_res (map_option ((#) (char_of ((a - 192) * 64 + (b - 128))))) (utf8_chars r)"
  by simp

declare utf8_chars.simps(2) [simp del]

lemma utf8_one: "a < 128 \<Longrightarrow>
  utf8_chars (a # r) = map_res (map_option ((#) (char_of a))) (utf8_chars r)"
  by (simp add: utf8_chars.simps(2))

lemma from_utf8_encode: "from_utf8 (utf8_encode s) = Ok (Some s)"
proof (induction s)
  case (Cons c s)
  let ?n = "code c"
  have c: "?n < 256" using mod_less_divisor [of 256 "code c"] by simp
  have IH: "utf8_chars (List.map unat (utf8_encode s)) = Ok (Some s)"
    using Cons by (simp add: from_utf8_def)
  show ?case
  proof (cases "?n < 128")
    case True
    then have "utf8_encode (c # s) = word_of_nat ?n # utf8_encode s"
      by (simp add: utf8_encode_def)
    then show ?thesis using IH True c by (simp add: from_utf8_def unat_byte utf8_one)
  next
    case False
    have e: "utf8_encode (c # s) = word_of_nat (192 + ?n div 64) # word_of_nat (128 + ?n mod 64) # utf8_encode s"
      using False by (simp add: utf8_encode_def Let_def)
    have "?n div 64 < 4" using c by (simp add: less_mult_imp_div_less)
    then have b: "192 + ?n div 64 < 256" "128 + ?n mod 64 < 256"
      and r: "194 \<le> 192 + ?n div 64" "192 + ?n div 64 < 196"
      using False c by auto
    have "cont_byte (128 + ?n mod 64)" unfolding cont_byte_def by simp
    moreover have "((192 + ?n div 64) - 192) * 64 + ((128 + ?n mod 64) - 128) = ?n" by simp
    ultimately have "utf8_chars ((192 + ?n div 64) # (128 + ?n mod 64) # List.map unat (utf8_encode s))
      = Ok (Some (c # s))"
      using r IH by (subst utf8_two) auto
    then show ?thesis 
      unfolding from_utf8_def e using b by (simp add: unat_byte del: of_nat_add)
  qed
qed (simp add: from_utf8_def utf8_encode_def)

end
