(* ===== verification/Floats.thy ===== *)
theory Floats
  imports Rust_Text
begin

text \<open>
  IEEE 754 binary32 and binary64 as Rust's @f32@ and @f64@ use them: a value is its
  bit pattern (a 32 or 64 bit word), decoded to sign, integer significand and exponent;
  every operation computes the exact rational result and rounds once, to nearest, ties to
  even.  All definitions compute.  A NaN result is the canonical quiet NaN (Rust leaves the
  payload of a NaN result unspecified).

  A format is the pair of the number of stored significand bits and of exponent bits:
  @(23, 8)@ and @(52, 11)@.
\<close>

type_synonym f32 = "32 word"
type_synonym f64 = "64 word"

section \<open>Decoding\<close>

datatype fval = FNaN | FInf bool | FFin bool nat int
  \<comment> \<open>@FFin s m e@ is (-1)^s * m * 2^e\<close>

type_synonym format = "nat \<times> nat"

definition fmt32 :: format where "fmt32 = (23, 8)"
definition fmt64 :: format where "fmt64 = (52, 11)"

definition fmt_emin :: "format \<Rightarrow> int" where
  "fmt_emin f = 2 - 2 ^ (snd f - 1) - int (fst f)"

definition decode_bits :: "format \<Rightarrow> nat \<Rightarrow> fval" where
  "decode_bits f n =
     (let mb = fst f; eb = snd f;
          s = (n div 2 ^ (mb + eb)) mod 2 = 1;
          e = (n div 2 ^ mb) mod 2 ^ eb;
          m = n mod 2 ^ mb
      in if e = 2 ^ eb - 1 then (if m = 0 then FInf s else FNaN)
         else if e = 0 then FFin s m (fmt_emin f)
         else FFin s (m + 2 ^ mb) (fmt_emin f + int e - 1))"

section \<open>Rounding a non-negative rational\<close>

fun bit_length :: "nat \<Rightarrow> nat" where
  "bit_length n = (if n = 0 then 0 else Suc (bit_length (n div 2)))"

declare bit_length.simps [simp del]

definition div_half_even :: "nat \<Rightarrow> nat \<Rightarrow> nat" where
  "div_half_even n d =
     (let q = n div d; r = n mod d
      in if 2 * r > d \<or> (2 * r = d \<and> odd q) then q + 1 else q)"

definition scale_quot :: "nat \<Rightarrow> nat \<Rightarrow> int \<Rightarrow> nat \<times> nat" where
  "scale_quot num den e = (if e \<le> 0 then (num * 2 ^ nat (- e), den) else (num, den * 2 ^ nat e))"

text \<open>Magnitude bits of num/den.\<close>

definition round_bits :: "format \<Rightarrow> nat \<Rightarrow> nat \<Rightarrow> nat" where
  "round_bits f num den =
     (if num = 0 then 0 else
      let mb = fst f; emin = fmt_emin f;
          e0 = max emin (int (bit_length num) - int (bit_length den) - 1 - int mb);
          (n0, d0) = scale_quot num den e0;
          e = (if 2 ^ (mb + 1) \<le> n0 div d0 then e0 + 1 else e0);
          (n1, d1) = scale_quot num den e
      in min (nat (e - emin) * 2 ^ mb + div_half_even n1 d1) ((2 ^ snd f - 1) * 2 ^ mb))"

definition sign_bit :: "format \<Rightarrow> bool \<Rightarrow> nat" where
  "sign_bit f s = (if s then 2 ^ (fst f + snd f) else 0)"

definition inf_bits :: "format \<Rightarrow> nat" where
  "inf_bits f = (2 ^ snd f - 1) * 2 ^ fst f"

definition nan_bits :: "format \<Rightarrow> nat" where
  "nan_bits f = inf_bits f + 2 ^ (fst f - 1)"

definition round_rat :: "format \<Rightarrow> bool \<Rightarrow> nat \<Rightarrow> nat \<Rightarrow> nat" where
  "round_rat f s num den = sign_bit f s + round_bits f num den"

text \<open>(-1)^s * m * 2^e, rounded to the format.\<close>

definition round_fin :: "format \<Rightarrow> bool \<Rightarrow> nat \<Rightarrow> int \<Rightarrow> nat" where
  "round_fin f s m e = (if 0 \<le> e then round_rat f s (m * 2 ^ nat e) 1
                        else round_rat f s m (2 ^ nat (- e)))"

definition encode_val :: "format \<Rightarrow> fval \<Rightarrow> nat" where
  "encode_val f v = (case v of FNaN \<Rightarrow> nan_bits f
     | FInf s \<Rightarrow> sign_bit f s + inf_bits f
     | FFin s m e \<Rightarrow> round_fin f s m e)"

section \<open>Arithmetic on decoded values, rounded to a format\<close>

definition signed_mant :: "bool \<Rightarrow> nat \<Rightarrow> int" where
  "signed_mant s m = (if s then - int m else int m)"

definition align :: "bool \<Rightarrow> nat \<Rightarrow> int \<Rightarrow> int \<Rightarrow> int" where
  "align s m e e0 = signed_mant s m * 2 ^ nat (e - e0)"

definition fadd :: "format \<Rightarrow> fval \<Rightarrow> fval \<Rightarrow> nat" where
  "fadd f a b = (case (a, b) of
      (FNaN, _) \<Rightarrow> nan_bits f
    | (_, FNaN) \<Rightarrow> nan_bits f
    | (FInf s, FInf t) \<Rightarrow> if s = t then sign_bit f s + inf_bits f else nan_bits f
    | (FInf s, _) \<Rightarrow> sign_bit f s + inf_bits f
    | (_, FInf t) \<Rightarrow> sign_bit f t + inf_bits f
    | (FFin s m e, FFin t n g) \<Rightarrow>
        (let e0 = min e g; z = align s m e e0 + align t n g e0
         in if z = 0 then sign_bit f (s \<and> t)
            else round_fin f (z < 0) (nat \<bar>z\<bar>) e0))"

definition fneg :: "fval \<Rightarrow> fval" where
  "fneg a = (case a of FNaN \<Rightarrow> FNaN | FInf s \<Rightarrow> FInf (\<not> s) | FFin s m e \<Rightarrow> FFin (\<not> s) m e)"

definition fsub :: "format \<Rightarrow> fval \<Rightarrow> fval \<Rightarrow> nat" where
  "fsub f a b = fadd f a (fneg b)"

definition fmul :: "format \<Rightarrow> fval \<Rightarrow> fval \<Rightarrow> nat" where
  "fmul f a b = (case (a, b) of
      (FNaN, _) \<Rightarrow> nan_bits f
    | (_, FNaN) \<Rightarrow> nan_bits f
    | (FInf s, FInf t) \<Rightarrow> sign_bit f (s \<noteq> t) + inf_bits f
    | (FInf s, FFin t n g) \<Rightarrow> if n = 0 then nan_bits f else sign_bit f (s \<noteq> t) + inf_bits f
    | (FFin s m e, FInf t) \<Rightarrow> if m = 0 then nan_bits f else sign_bit f (s \<noteq> t) + inf_bits f
    | (FFin s m e, FFin t n g) \<Rightarrow> round_fin f (s \<noteq> t) (m * n) (e + g))"

definition fdiv :: "format \<Rightarrow> fval \<Rightarrow> fval \<Rightarrow> nat" where
  "fdiv f a b = (case (a, b) of
      (FNaN, _) \<Rightarrow> nan_bits f
    | (_, FNaN) \<Rightarrow> nan_bits f
    | (FInf s, FInf t) \<Rightarrow> nan_bits f
    | (FInf s, FFin t n g) \<Rightarrow> sign_bit f (s \<noteq> t) + inf_bits f
    | (FFin s m e, FInf t) \<Rightarrow> sign_bit f (s \<noteq> t)
    | (FFin s m e, FFin t n g) \<Rightarrow>
        if n = 0 then (if m = 0 then nan_bits f else sign_bit f (s \<noteq> t) + inf_bits f)
        else (let (num, den) = scale_quot m n (g - e) in round_rat f (s \<noteq> t) num den))"

text \<open>Partial order: @None@ when an operand is NaN, else the sign of the difference.\<close>

definition fcmp :: "fval \<Rightarrow> fval \<Rightarrow> int option" where
  "fcmp a b = (case (a, b) of
      (FNaN, _) \<Rightarrow> None
    | (_, FNaN) \<Rightarrow> None
    | (FInf s, FInf t) \<Rightarrow> Some (if s = t then 0 else if s then - 1 else 1)
    | (FInf s, _) \<Rightarrow> Some (if s then - 1 else 1)
    | (_, FInf t) \<Rightarrow> Some (if t then 1 else - 1)
    | (FFin s m e, FFin t n g) \<Rightarrow>
        (let e0 = min e g in Some (sgn (align s m e e0 - align t n g e0))))"

text \<open>Square root, by the integer root of a scaled significand with a sticky bit.\<close>

fun isqrt_search :: "nat \<Rightarrow> nat \<Rightarrow> nat \<Rightarrow> nat" where
  "isqrt_search 0 r n = r"
| "isqrt_search (Suc k) r n =
     (let r' = r + 2 ^ k in isqrt_search k (if r' * r' \<le> n then r' else r) n)"

definition fsqrt :: "format \<Rightarrow> fval \<Rightarrow> nat" where
  "fsqrt f a = (case a of
      FNaN \<Rightarrow> nan_bits f
    | FInf s \<Rightarrow> if s then nan_bits f else inf_bits f
    | FFin s m e \<Rightarrow>
        if m = 0 then sign_bit f s else if s then nan_bits f
        else (let e' = (if even e then e else e - 1); m' = (if even e then m else 2 * m);
                  k = fst f + 2; n = m' * 4 ^ k;
                  r = isqrt_search (bit_length n) 0 n;
                  sticky = (if r * r = n then 0 else 1)
              in round_fin f False (2 * r + sticky) (e' div 2 - int k - 1)))"

section \<open>The two types\<close>

definition f32_val :: "f32 \<Rightarrow> fval" where "f32_val x = decode_bits fmt32 (unat x)"
definition f64_val :: "f64 \<Rightarrow> fval" where "f64_val x = decode_bits fmt64 (unat x)"

definition f32_add :: "f32 \<Rightarrow> f32 \<Rightarrow> f32" where
  "f32_add x y = word_of_nat (fadd fmt32 (f32_val x) (f32_val y))"
definition f32_sub :: "f32 \<Rightarrow> f32 \<Rightarrow> f32" where
  "f32_sub x y = word_of_nat (fsub fmt32 (f32_val x) (f32_val y))"
definition f32_mul :: "f32 \<Rightarrow> f32 \<Rightarrow> f32" where
  "f32_mul x y = word_of_nat (fmul fmt32 (f32_val x) (f32_val y))"
definition f32_div :: "f32 \<Rightarrow> f32 \<Rightarrow> f32" where
  "f32_div x y = word_of_nat (fdiv fmt32 (f32_val x) (f32_val y))"

definition f64_add :: "f64 \<Rightarrow> f64 \<Rightarrow> f64" where
  "f64_add x y = word_of_nat (fadd fmt64 (f64_val x) (f64_val y))"
definition f64_sub :: "f64 \<Rightarrow> f64 \<Rightarrow> f64" where
  "f64_sub x y = word_of_nat (fsub fmt64 (f64_val x) (f64_val y))"
definition f64_mul :: "f64 \<Rightarrow> f64 \<Rightarrow> f64" where
  "f64_mul x y = word_of_nat (fmul fmt64 (f64_val x) (f64_val y))"
definition f64_div :: "f64 \<Rightarrow> f64 \<Rightarrow> f64" where
  "f64_div x y = word_of_nat (fdiv fmt64 (f64_val x) (f64_val y))"
definition f64_sqrt :: "f64 \<Rightarrow> f64" where
  "f64_sqrt x = word_of_nat (fsqrt fmt64 (f64_val x))"

definition f32_of_int :: "int \<Rightarrow> f32" where
  "f32_of_int i = word_of_nat (round_fin fmt32 (i < 0) (nat \<bar>i\<bar>) 0)"
definition f64_of_int :: "int \<Rightarrow> f64" where
  "f64_of_int i = word_of_nat (round_fin fmt64 (i < 0) (nat \<bar>i\<bar>) 0)"

definition f64_of_f32 :: "f32 \<Rightarrow> f64" where
  "f64_of_f32 x = word_of_nat (encode_val fmt64 (f32_val x))"
definition f32_of_f64 :: "f64 \<Rightarrow> f32" where
  "f32_of_f64 x = word_of_nat (encode_val fmt32 (f64_val x))"

text \<open>`as i64` from a float: truncation toward zero, saturating, NaN to zero.\<close>

definition trunc_val :: "fval \<Rightarrow> int \<Rightarrow> int \<Rightarrow> int" where
  "trunc_val v lo hi = (case v of FNaN \<Rightarrow> 0 | FInf s \<Rightarrow> if s then lo else hi
     | FFin s m e \<Rightarrow>
        (let t = (if 0 \<le> e then m * 2 ^ nat e else m div 2 ^ nat (- e));
             i = signed_mant s t
         in max lo (min hi i)))"

definition i64_of_f64 :: "f64 \<Rightarrow> 64 word" where
  "i64_of_f64 x = word_of_int (trunc_val (f64_val x) (- (2 ^ 63)) (2 ^ 63 - 1))"
definition i64_of_f32 :: "f32 \<Rightarrow> 64 word" where
  "i64_of_f32 x = word_of_int (trunc_val (f32_val x) (- (2 ^ 63)) (2 ^ 63 - 1))"

definition cmp_is :: "(int \<Rightarrow> bool) \<Rightarrow> int option \<Rightarrow> bool" where
  "cmp_is p c = (case c of None \<Rightarrow> False | Some i \<Rightarrow> p i)"

definition f64_lt :: "f64 \<Rightarrow> f64 \<Rightarrow> bool" where
  "f64_lt x y = cmp_is (\<lambda>i. i < 0) (fcmp (f64_val x) (f64_val y))"
definition f64_eq :: "f64 \<Rightarrow> f64 \<Rightarrow> bool" where
  "f64_eq x y = cmp_is (\<lambda>i. i = 0) (fcmp (f64_val x) (f64_val y))"
definition f64_le :: "f64 \<Rightarrow> f64 \<Rightarrow> bool" where
  "f64_le x y = cmp_is (\<lambda>i. i \<le> 0) (fcmp (f64_val x) (f64_val y))"
definition f32_lt :: "f32 \<Rightarrow> f32 \<Rightarrow> bool" where
  "f32_lt x y = cmp_is (\<lambda>i. i < 0) (fcmp (f32_val x) (f32_val y))"
definition f32_eq :: "f32 \<Rightarrow> f32 \<Rightarrow> bool" where
  "f32_eq x y = cmp_is (\<lambda>i. i = 0) (fcmp (f32_val x) (f32_val y))"
definition f32_le :: "f32 \<Rightarrow> f32 \<Rightarrow> bool" where
  "f32_le x y = cmp_is (\<lambda>i. i \<le> 0) (fcmp (f32_val x) (f32_val y))"

section \<open>Decimal text\<close>

text \<open>`str::parse` for floats: an optional sign, then `inf`, `infinity` or `nan` in any
  ASCII case, or digits with at most one point (at least one digit), and an optional
  exponent.\<close>

definition span_digits :: "string \<Rightarrow> string \<times> string" where
  "span_digits s = (takeWhile is_ascii_digit s, dropWhile is_ascii_digit s)"

definition parse_exponent :: "string \<Rightarrow> int option" where
  "parse_exponent s = (case s of [] \<Rightarrow> Some 0
     | c # cs \<Rightarrow> if c = CHR ''e'' \<or> c = CHR ''E'' then parse_int cs else None)"

definition parse_float :: "format \<Rightarrow> string \<Rightarrow> nat option" where
  "parse_float f s =
     (let (neg, body) = (case s of [] \<Rightarrow> (False, [])
                         | c # cs \<Rightarrow> if c = CHR ''-'' then (True, cs)
                                     else if c = CHR ''+'' then (False, cs) else (False, s));
          low = List.map ascii_lower_char body
      in if low = ''inf'' \<or> low = ''infinity'' then Some (sign_bit f neg + inf_bits f)
         else if low = ''nan'' then Some (sign_bit f neg + nan_bits f)
         else
          (let (ip, r) = span_digits body;
               (fp, r') = (case r of [] \<Rightarrow> ([], [])
                           | c # cs \<Rightarrow> if c = CHR ''.'' then span_digits cs else ([], r))
           in if ip = [] \<and> fp = [] then None
              else case parse_exponent r' of None \<Rightarrow> None
              | Some x \<Rightarrow>
                 (let m = digits_value (ip @ fp); e = x - int (length fp)
                  in Some (if 0 \<le> e then round_rat f neg (m * 10 ^ nat e) 1
                           else round_rat f neg m (10 ^ nat (- e))))))"

definition parse_f32 :: "string \<Rightarrow> f32 option" where
  "parse_f32 s = map_option word_of_nat (parse_float fmt32 s)"
definition parse_f64 :: "string \<Rightarrow> f64 option" where
  "parse_f64 s = map_option word_of_nat (parse_float fmt64 s)"

text \<open>`Display`: the fewest significant decimal digits that read back as the same value
  (nearest candidates first), written without an exponent.  @decimal_exp@ is the decimal
  exponent of the leading digit.\<close>

fun decimal_exp_up :: "nat \<Rightarrow> nat \<Rightarrow> nat \<Rightarrow> nat" where
  "decimal_exp_up 0 num den = 0"
| "decimal_exp_up (Suc k) num den =
     (if num < 10 * den then 0 else Suc (decimal_exp_up k num (10 * den)))"

fun decimal_exp_down :: "nat \<Rightarrow> nat \<Rightarrow> nat \<Rightarrow> nat" where
  "decimal_exp_down 0 num den = 0"
| "decimal_exp_down (Suc k) num den =
     (if den \<le> num then 0 else Suc (decimal_exp_down k (10 * num) den))"

definition decimal_exp :: "nat \<Rightarrow> nat \<Rightarrow> int" where
  "decimal_exp num den = (if den \<le> num then int (decimal_exp_up 400 num den)
                          else - int (decimal_exp_down 400 num den))"

definition scale10 :: "nat \<Rightarrow> nat \<Rightarrow> int \<Rightarrow> nat \<times> nat" where
  "scale10 num den e = (if 0 \<le> e then (num * 10 ^ nat e, den) else (num, den * 10 ^ nat (- e)))"

text \<open>Candidates with @k@ digits: the quotient rounded down and up, nearest first.\<close>

definition digit_candidates :: "nat \<Rightarrow> nat \<Rightarrow> int \<Rightarrow> nat \<Rightarrow> nat list" where
  "digit_candidates num den x k =
     (let (n, d) = scale10 num den (int k - 1 - x); q = n div d; r = n mod d
      in if 2 * r < d \<or> (2 * r = d \<and> even q) then [q, q + 1] else [q + 1, q])"

fun shortest :: "format \<Rightarrow> nat \<Rightarrow> nat \<Rightarrow> nat \<Rightarrow> int \<Rightarrow> nat \<Rightarrow> nat \<Rightarrow> nat \<times> int" where
  "shortest f bits num den x k 0 = (hd (digit_candidates num den x k), x - int k + 1)"
| "shortest f bits num den x k (Suc fuel) =
     (let e = x - int k + 1 in
      case List.filter (\<lambda>c. (let (n, d) = scale10 c 1 e in round_bits f n d) = bits)
             (digit_candidates num den x k) of
        c # _ \<Rightarrow> (c, e)
      | [] \<Rightarrow> shortest f bits num den x (k + 1) fuel)"

definition show_decimal :: "nat \<Rightarrow> int \<Rightarrow> string" where
  "show_decimal c e =
     (if 0 \<le> e then show_nat c @ replicate (nat e) (CHR ''0'')
      else let ds = show_nat c; k = nat (- e);
               padded = replicate (k + 1 - length ds) (CHR ''0'') @ ds;
               ip = take (length padded - k) padded;
               fp = rev (dropWhile (\<lambda>d. d = CHR ''0'') (rev (drop (length padded - k) padded)))
           in if fp = [] then ip else ip @ ''.'' @ fp)"

definition show_float :: "format \<Rightarrow> fval \<Rightarrow> string" where
  "show_float f v = (case v of FNaN \<Rightarrow> ''NaN''
     | FInf s \<Rightarrow> (if s then ''-inf'' else ''inf'')
     | FFin s m e \<Rightarrow>
        (if s then ''-'' else '''') @
        (if m = 0 then ''0''
         else let (num, den) = (if 0 \<le> e then (m * 2 ^ nat e, 1) else (m, 2 ^ nat (- e)));
                  (c, x) = shortest f (round_bits f num den) num den (decimal_exp num den) 1 17
              in show_decimal c x))"

definition show_f32 :: "f32 \<Rightarrow> string" where "show_f32 x = show_float fmt32 (f32_val x)"
definition show_f64 :: "f64 \<Rightarrow> string" where "show_f64 x = show_float fmt64 (f64_val x)"

end
