(* ===== verification/Arrow_Data.thy ===== *)
theory Arrow_Data
  imports Floats
begin

text \<open>
  The columnar data model (crate @datatypes@): Arrow data types, scalar values, fields and
  schemas, the three column vectors (an Arrow array, a repeated literal, the coercing
  wrapper of crate @physical-plan@) and the append-only vector builder.

  arrow-rs itself is a library: an Arrow array is modelled as its data type and its list
  of cells, @array_wf@ says that every cell is null or of that type (what the typed arrays
  of arrow-rs guarantee by construction), and the constructor of a record batch, which may
  refuse its arguments, is a parameter of the model (theory Record_Batch).
\<close>

section \<open>Data types and scalars\<close>

datatype DataType =
    T_Null | T_Boolean
  | T_Int8 | T_Int16 | T_Int32 | T_Int64
  | T_UInt8 | T_UInt16 | T_UInt32 | T_UInt64
  | T_Float16 | T_Float32 | T_Float64
  | T_Timestamp_Micro | T_Date32 | T_Interval_DayTime
  | T_Utf8 | T_Binary
  | T_Decimal128 nat int | T_Decimal256 nat int

definition arrow_types :: "DataType list" where
  "arrow_types = [T_Boolean, T_Int8, T_Int16, T_Int32, T_Int64,
     T_UInt8, T_UInt16, T_UInt32, T_UInt64, T_Float32, T_Float64, T_Utf8, T_Binary,
     T_Date32, T_Interval_DayTime, T_Timestamp_Micro]"

datatype ScalarValue =
    V_Null
  | V_Boolean bool
  | V_Int8 "8 word"
  | V_Int16 "16 word"
  | V_Int32 "32 word"
  | V_Int64 "64 word"
  | V_UInt8 "8 word"
  | V_UInt16 "16 word"
  | V_UInt32 "32 word"
  | V_UInt64 "64 word"
  | V_Float32 f32
  | V_Float64 f64
  | V_Utf8 string
  | V_Binary "byte list"
  | V_Date32 "32 word"

fun scalar_type :: "ScalarValue \<Rightarrow> DataType" where
  "scalar_type V_Null = T_Null"
| "scalar_type (V_Boolean _) = T_Boolean"
| "scalar_type (V_Int8 _) = T_Int8"
| "scalar_type (V_Int16 _) = T_Int16"
| "scalar_type (V_Int32 _) = T_Int32"
| "scalar_type (V_Int64 _) = T_Int64"
| "scalar_type (V_UInt8 _) = T_UInt8"
| "scalar_type (V_UInt16 _) = T_UInt16"
| "scalar_type (V_UInt32 _) = T_UInt32"
| "scalar_type (V_UInt64 _) = T_UInt64"
| "scalar_type (V_Float32 _) = T_Float32"
| "scalar_type (V_Float64 _) = T_Float64"
| "scalar_type (V_Utf8 _) = T_Utf8"
| "scalar_type (V_Binary _) = T_Binary"
| "scalar_type (V_Date32 _) = T_Date32"

definition is_null :: "ScalarValue \<Rightarrow> bool" where
  "is_null v = (v = V_Null)"

lemma is_null_simps [simp]: "is_null V_Null" "v \<noteq> V_Null \<Longrightarrow> \<not> is_null v"
  by (simp_all add: is_null_def)

lemma scalar_type_Null [simp]: "scalar_type v = T_Null \<longleftrightarrow> v = V_Null"
  by (cases v) auto

text \<open>A cell fits a column of type @t@.\<close>

definition fits :: "DataType \<Rightarrow> ScalarValue \<Rightarrow> bool" where
  "fits t v = (v = V_Null \<or> scalar_type v = t)"

lemma fits_Null [simp]: "fits t V_Null"
  by (simp add: fits_def)

section \<open>Fields and schemas\<close>

record Field =
  f_name :: string
  f_type :: DataType

record Schema =
  s_fields :: "Field list"

definition new_field :: "string \<Rightarrow> DataType \<Rightarrow> Field" where
  "new_field n t = \<lparr>f_name = n, f_type = t\<rparr>"

definition new_schema :: "Field list \<Rightarrow> Schema" where
  "new_schema fs = \<lparr>s_fields = fs\<rparr>"

lemma field_simps [simp]: "f_name (new_field n t) = n" "f_type (new_field n t) = t"
  by (simp_all add: new_field_def)

lemma schema_simps [simp]: "s_fields (new_schema fs) = fs" "new_schema (s_fields s) = s"
  by (simp_all add: new_schema_def)

abbreviation width :: "Schema \<Rightarrow> nat" where
  "width s \<equiv> length (s_fields s)"

abbreviation col_types :: "Schema \<Rightarrow> DataType list" where
  "col_types s \<equiv> List.map f_type (s_fields s)"

abbreviation col_names :: "Schema \<Rightarrow> string list" where
  "col_names s \<equiv> List.map f_name (s_fields s)"

record arrow_field =
  af_name :: string
  af_type :: DataType
  af_nullable :: bool

definition field_to_arrow :: "Field \<Rightarrow> arrow_field" where
  "field_to_arrow f = \<lparr>af_name = f_name f, af_type = f_type f, af_nullable = True\<rparr>"

definition to_arrow :: "Schema \<Rightarrow> arrow_field list" where
  "to_arrow s = List.map field_to_arrow (s_fields s)"

definition from_arrow :: "arrow_field list \<Rightarrow> Schema" where
  "from_arrow fs = new_schema (List.map (\<lambda>f. new_field (af_name f) (af_type f)) fs)"

definition project :: "Schema \<Rightarrow> nat list \<Rightarrow> Schema res" where
  "project s is = map_res new_schema (traverse (idx (s_fields s)) is)"

definition select_field :: "Schema \<Rightarrow> string \<Rightarrow> Field res" where
  "select_field s n = (case List.filter (\<lambda>f. f_name f = n) (s_fields s) of
      [f] \<Rightarrow> Ok f
    | _ \<Rightarrow> Panic (Panicked ''select: column name matched {} fields (expected exactly 1)''))"

definition select :: "Schema \<Rightarrow> string list \<Rightarrow> Schema res" where
  "select s ns = map_res new_schema (traverse (select_field s) ns)"

lemma from_to_arrow: "from_arrow (to_arrow s) = s"
proof -
  have "List.map (\<lambda>f. new_field (af_name f) (af_type f)) (List.map field_to_arrow fs) = fs" for fs
    by (induction fs) (auto simp: field_to_arrow_def new_field_def)
  then show ?thesis by (simp add: from_arrow_def to_arrow_def)
qed

lemma to_arrow_types [simp]: "List.map af_type (to_arrow s) = col_types s"
  by (simp add: to_arrow_def field_to_arrow_def)

lemma length_to_arrow [simp]: "length (to_arrow s) = width s"
  by (simp add: to_arrow_def)

lemma project_width: "project s is = Ok s' \<Longrightarrow> width s' = length is"
  by (auto simp: project_def map_res_eq_Ok dest: traverse_length)

lemma project_all: "project s [0..<width s] = Ok s"
  by (simp add: project_def)

lemma select_names: "select s ns = Ok s' \<Longrightarrow> col_names s' = ns"
proof -
  assume "select s ns = Ok s'"
  then obtain fs where fs: "traverse (select_field s) ns = Ok fs" "s' = new_schema fs"
    by (auto simp: select_def map_res_eq_Ok)
  have name: "f_name f = n" if "select_field s n = Ok f" for n f
  proof -
    from that have "List.filter (\<lambda>f. f_name f = n) (s_fields s) = [f]"
      by (auto simp: select_field_def split: list.splits)
    then have "f \<in> set (List.filter (\<lambda>f. f_name f = n) (s_fields s))" by simp
    then show ?thesis by simp
  qed
  have "traverse (select_field s) ns = Ok fs \<Longrightarrow> List.map f_name fs = ns"
    by (induction ns arbitrary: fs) (auto simp: and_then_eq_Ok name)
  with fs show ?thesis by simp
qed

section \<open>Arrays and column vectors\<close>

record array =
  arr_type :: DataType
  arr_cells :: "ScalarValue list"

definition array_wf :: "array \<Rightarrow> bool" where
  "array_wf a = list_all (fits (arr_type a)) (arr_cells a)"

text \<open>The types @ArrowFieldVector::value@ and @ArrowVectorBuilder::new@ handle.\<close>

definition supported :: "DataType \<Rightarrow> bool" where
  "supported t = (t \<in> {T_Boolean, T_Int8, T_Int16, T_Int32, T_Int64, T_UInt8, T_UInt16,
     T_UInt32, T_UInt64, T_Float32, T_Float64, T_Utf8, T_Binary, T_Date32})"

definition arrow_value :: "array \<Rightarrow> nat \<Rightarrow> ScalarValue res" where
  "arrow_value a i = and_then (idx (arr_cells a) i)
     (\<lambda>v. if is_null v then Ok V_Null
          else if supported (arr_type a) then Ok v
          else Panic (Panicked ''ArrowFieldVector::value: unsupported data type''))"

datatype ColumnVector =
    Arrow_Field array
  | Literal_Value DataType ScalarValue nat
  | Coerced_Double ColumnVector

fun cv_type :: "ColumnVector \<Rightarrow> DataType" where
  "cv_type (Arrow_Field a) = arr_type a"
| "cv_type (Literal_Value t v n) = t"
| "cv_type (Coerced_Double c) = T_Float64"

fun cv_len :: "ColumnVector \<Rightarrow> nat" where
  "cv_len (Arrow_Field a) = length (arr_cells a)"
| "cv_len (Literal_Value t v n) = n"
| "cv_len (Coerced_Double c) = cv_len c"

text \<open>@CoercedDoubleVector::value@ on one cell.\<close>

definition coerce_cell :: "ScalarValue \<Rightarrow> ScalarValue res" where
  "coerce_cell v = (case v of
      V_Null \<Rightarrow> Ok V_Null
    | V_Float64 x \<Rightarrow> Ok (V_Float64 x)
    | V_Float32 x \<Rightarrow> Ok (V_Float64 (f64_of_f32 x))
    | V_Int64 n \<Rightarrow> Ok (V_Float64 (f64_of_int (sint n)))
    | V_Int32 n \<Rightarrow> Ok (V_Float64 (f64_of_int (sint n)))
    | V_Int16 n \<Rightarrow> Ok (V_Float64 (f64_of_int (sint n)))
    | V_Int8 n \<Rightarrow> Ok (V_Float64 (f64_of_int (sint n)))
    | V_UInt64 n \<Rightarrow> Ok (V_Float64 (f64_of_int (uint n)))
    | V_UInt32 n \<Rightarrow> Ok (V_Float64 (f64_of_int (uint n)))
    | V_UInt16 n \<Rightarrow> Ok (V_Float64 (f64_of_int (uint n)))
    | V_UInt8 n \<Rightarrow> Ok (V_Float64 (f64_of_int (uint n)))
    | _ \<Rightarrow> Panic (Panicked ''Cannot coerce to Double''))"

fun cv_value :: "ColumnVector \<Rightarrow> nat \<Rightarrow> ScalarValue res" where
  "cv_value (Arrow_Field a) i = arrow_value a i"
| "cv_value (Literal_Value t v n) i =
     (if n \<le> i then Panic (Panicked ''LiteralValueVector::value: index out of bounds'')
      else Ok v)"
| "cv_value (Coerced_Double c) i = and_then (cv_value c i) coerce_cell"

text \<open>All cells of a column, in row order: what every row loop of the engine reads.\<close>

definition cv_cells :: "ColumnVector \<Rightarrow> ScalarValue list res" where
  "cv_cells c = traverse (cv_value c) [0..<cv_len c]"

text \<open>Well-formed columns: the cells fit the declared type, which is a supported one.\<close>

fun cv_wf :: "ColumnVector \<Rightarrow> bool" where
  "cv_wf (Arrow_Field a) = (array_wf a \<and> supported (arr_type a))"
| "cv_wf (Literal_Value t v n) = (fits t v \<and> supported t)"
| "cv_wf (Coerced_Double c) =
     (cv_wf c \<and> cv_type c \<in> {T_Int8, T_Int16, T_Int32, T_Int64, T_UInt8, T_UInt16, T_UInt32,
        T_UInt64, T_Float32, T_Float64})"

lemma arrow_value_ok:
  "cv_wf (Arrow_Field a) \<Longrightarrow> i < length (arr_cells a) \<Longrightarrow> arrow_value a i = Ok (arr_cells a ! i)"
  by (auto simp: arrow_value_def is_null_def)

lemma cv_cells_Arrow [simp]: "cv_wf (Arrow_Field a) \<Longrightarrow> cv_cells (Arrow_Field a) = Ok (arr_cells a)"
  unfolding cv_cells_def
  by (subst traverse_all_Ok [where g = "\<lambda>i. arr_cells a ! i"]) (auto simp: arrow_value_ok map_nth)

lemma fits_cases:
  assumes "fits t v"
  obtains "v = V_Null" | "scalar_type v = t"
  using assms by (auto simp: fits_def)

lemma coerce_cell_fits:
  "fits t v \<Longrightarrow> t \<in> {T_Int8, T_Int16, T_Int32, T_Int64, T_UInt8, T_UInt16, T_UInt32,
        T_UInt64, T_Float32, T_Float64} \<Longrightarrow> \<exists>w. coerce_cell v = Ok w \<and> fits T_Float64 w
        \<and> (w = V_Null \<longleftrightarrow> v = V_Null)"
  by (cases v) (auto simp: coerce_cell_def fits_def)

lemma cv_wf_value:
  "cv_wf c \<Longrightarrow> i < cv_len c \<Longrightarrow> \<exists>v. cv_value c i = Ok v \<and> fits (cv_type c) v"
proof (induction c arbitrary: i)
  case (Arrow_Field a)
  then show ?case by (auto simp: arrow_value_ok array_wf_def list_all_length)
next
  case (Literal_Value t v n)
  then show ?case by simp
next
  case (Coerced_Double c)
  then obtain v where "cv_value c i = Ok v" "fits (cv_type c) v" by auto
  then show ?case using coerce_cell_fits [of "cv_type c" v] Coerced_Double.prems by auto
qed

lemma cv_wf_supported: "cv_wf c \<Longrightarrow> supported (cv_type c)"
  by (cases c) (auto simp: supported_def)

lemma cv_wf_cells:
  "cv_wf c \<Longrightarrow> \<exists>vs. cv_cells c = Ok vs \<and> length vs = cv_len c \<and> list_all (fits (cv_type c)) vs"
proof -
  assume wf: "cv_wf c"
  have "is_ok (cv_cells c)" unfolding cv_cells_def traverse_is_ok
    using cv_wf_value [OF wf] by (fastforce simp: is_ok_iff)
  then obtain vs where vs: "cv_cells c = Ok vs" by (auto simp: is_ok_iff)
  then have len: "length vs = cv_len c" by (auto simp: cv_cells_def dest: traverse_length)
  have "fits (cv_type c) (vs ! i)" if "i < cv_len c" for i
    using cv_wf_value [OF wf that] traverse_nth [OF vs [unfolded cv_cells_def], of i] that by auto
  then show ?thesis using vs len by (auto simp: list_all_length)
qed

lemma cv_cells_nth: "cv_cells c = Ok vs \<Longrightarrow> i < cv_len c \<Longrightarrow> cv_value c i = Ok (vs ! i)"
  using traverse_nth [of "cv_value c" "[0..<cv_len c]" vs i] by (simp add: cv_cells_def)

lemma cv_cells_len [len_simps]: "cv_cells c = Ok vs \<Longrightarrow> length vs = cv_len c"
  by (auto simp: cv_cells_def dest: traverse_length)

section \<open>The vector builder\<close>

record builder =
  b_type :: DataType
  b_cells :: "ScalarValue list"

definition builder_new :: "DataType \<Rightarrow> builder res" where
  "builder_new t = (if supported t then Ok \<lparr>b_type = t, b_cells = []\<rparr>
     else Panic (Panicked ''ArrowVectorBuilder::new: unsupported data type''))"

definition append_null :: "builder \<Rightarrow> builder" where
  "append_null b = b\<lparr>b_cells := b_cells b @ [V_Null]\<rparr>"

definition append_value :: "builder \<Rightarrow> ScalarValue \<Rightarrow> builder res" where
  "append_value b v =
     (if is_null v then Ok (append_null b)
      else if scalar_type v = b_type b then Ok (b\<lparr>b_cells := b_cells b @ [v]\<rparr>)
      else Panic (Panicked ''ArrowVectorBuilder::append_value: cannot append''))"

definition build :: "builder \<Rightarrow> array" where
  "build b = \<lparr>arr_type = b_type b, arr_cells = b_cells b\<rparr>"

text \<open>The loop of every routine that builds a column: a fresh builder of the type, then for
  each row its value computed and appended, then sealed.\<close>

definition build_rows :: "DataType \<Rightarrow> nat \<Rightarrow> (nat \<Rightarrow> ScalarValue res) \<Rightarrow> array res" where
  "build_rows t n f = and_then (builder_new t) (\<lambda>b.
     map_res build (fold_res (\<lambda>b i. and_then (f i) (append_value b)) b [0..<n]))"

lemma append_value_Ok:
  "append_value b v = Ok b' \<longleftrightarrow> fits (b_type b) v \<and> b' = b\<lparr>b_cells := b_cells b @ [v]\<rparr>"
  by (auto simp: append_value_def append_null_def fits_def is_null_def)

lemma append_rows:
  "fold_res (\<lambda>b i. and_then (f i) (append_value b)) b is = Ok b' \<longleftrightarrow>
     (\<exists>vs. traverse f is = Ok vs \<and> list_all (fits (b_type b)) vs
        \<and> b' = b\<lparr>b_cells := b_cells b @ vs\<rparr>)"
proof (induction "is" arbitrary: b)
  case (Cons i "is")
  show ?case
  proof (cases "f i")
    case (Ok v)
    show ?thesis
    proof (cases "fits (b_type b) v")
      case True
      then have "append_value b v = Ok (b\<lparr>b_cells := b_cells b @ [v]\<rparr>)"
        by (simp add: append_value_Ok)
      then show ?thesis using Ok True by (auto simp: Cons.IH and_then_eq_Ok)
    next
      case False
      then show ?thesis using Ok
        by (auto simp: and_then_eq_Ok append_value_Ok)
    qed
  qed simp
qed auto

lemma build_rows_eq_Ok:
  "build_rows t n f = Ok a \<longleftrightarrow>
     supported t \<and> (\<exists>vs. traverse f [0..<n] = Ok vs \<and> list_all (fits t) vs
       \<and> a = \<lparr>arr_type = t, arr_cells = vs\<rparr>)"
  by (auto simp: build_rows_def builder_new_def and_then_eq_Ok map_res_eq_Ok append_rows build_def)

lemma build_rows_total:
  "supported t \<Longrightarrow> (\<And>i. i < n \<Longrightarrow> \<exists>v. f i = Ok v \<and> fits t v) \<Longrightarrow> \<exists>a. build_rows t n f = Ok a"
proof -
  assume t: "supported t" and f: "\<And>i. i < n \<Longrightarrow> \<exists>v. f i = Ok v \<and> fits t v"
  then have "is_ok (traverse f [0..<n])" unfolding traverse_is_ok by (fastforce simp: is_ok_iff)
  then obtain vs where vs: "traverse f [0..<n] = Ok vs" by (auto simp: is_ok_iff)
  have "fits t v" if "v \<in> set vs" for v
    using traverse_set [OF vs that] f by fastforce
  then show ?thesis using t vs by (auto simp: build_rows_eq_Ok list_all_iff)
qed

lemma append_rows_outcome:
  "(\<And>i. i \<in> set is \<Longrightarrow> outcome P (fits (b_type b)) (f i)) \<Longrightarrow>
   outcome P (\<lambda>b'. b_type b' = b_type b \<and> length (b_cells b') = length (b_cells b) + length is
       \<and> (list_all (fits (b_type b)) (b_cells b) \<longrightarrow> list_all (fits (b_type b')) (b_cells b')))
     (fold_res (\<lambda>b i. and_then (f i) (append_value b)) b is)"
proof (induction "is" arbitrary: b)
  case (Cons i "is")
  then have i: "outcome P (fits (b_type b)) (f i)" by simp
  show ?case
  proof (cases "f i")
    case (Ok v)
    then have v: "fits (b_type b) v" using i by simp
    let ?b = "b\<lparr>b_cells := b_cells b @ [v]\<rparr>"
    have "append_value b v = Ok ?b" using v by (simp add: append_value_Ok)
    moreover have "outcome P (\<lambda>b'. b_type b' = b_type ?b \<and> length (b_cells b') = length (b_cells ?b) + length is
       \<and> (list_all (fits (b_type ?b)) (b_cells ?b) \<longrightarrow> list_all (fits (b_type b')) (b_cells b')))
     (fold_res (\<lambda>b i. and_then (f i) (append_value b)) ?b is)"
      by (rule Cons.IH) (use Cons.prems in simp)
    ultimately show ?thesis using Ok v by (auto elim: outcome_mono)
  qed (use i in simp)
qed simp

lemma build_rows_outcome:
  assumes "supported t" and "\<And>i. i < n \<Longrightarrow> outcome P (fits t) (f i)"
  shows "outcome P (\<lambda>a. cv_wf (Arrow_Field a) \<and> arr_type a = t \<and> length (arr_cells a) = n) (build_rows t n f)"
  using append_rows_outcome [of "[0..<n]" P "\<lparr>b_type = t, b_cells = []\<rparr>" f] assms
  by (auto simp: build_rows_def builder_new_def outcome_map_res build_def array_wf_def elim!: outcome_mono)

lemma build_rows_wf:
  assumes "build_rows t n f = Ok a"
  shows "cv_wf (Arrow_Field a)" "arr_type a = t" "length (arr_cells a) = n"
    "i < n \<Longrightarrow> f i = Ok (arr_cells a ! i)"
  using assms by (auto simp: build_rows_eq_Ok array_wf_def dest: traverse_length traverse_nth)

end
