(* ===== verification/Environment.thy ===== *)
theory Environment
  imports Arrow_Data "HOL-Library.Multiset"
begin

text \<open>
  Record batches, streams of batches, and the record of everything the engine calls that
  is not its own source: arrow-rs (the checks of @RecordBatch::try_new@, CSV and Parquet
  readers, the IPC file format, the Debug text of a data type), chrono (a
  date is its number of days since the Unix epoch), the platform's natural logarithm, and the two
  things the Rust standard library leaves unspecified (the hash function of
  @DefaultHasher@ and the iteration order of a @HashMap@).  Every definition that reaches
  one of them takes the record @env@ as an argument; @env_ok@ collects the documented
  behaviour the theorems rely on, and @ref_env@ is a concrete instance that has it.
\<close>

section \<open>Record batches and streams\<close>

record RecordBatch =
  rb_schema :: "arrow_field list"
  rb_columns :: "array list"
  rb_rows :: nat

definition row_count :: "RecordBatch \<Rightarrow> nat" where
  "row_count b = rb_rows b"

definition column_count :: "RecordBatch \<Rightarrow> nat" where
  "column_count b = length (rb_columns b)"

definition batch_field :: "RecordBatch \<Rightarrow> nat \<Rightarrow> ColumnVector res" where
  "batch_field b i = map_res Arrow_Field (idx (rb_columns b) i)"

text \<open>What arrow-rs guarantees of every batch it hands out: the columns match the
  schema's types and have the batch's row count; and every type is one the engine reads.\<close>

definition batch_wf :: "RecordBatch \<Rightarrow> bool" where
  "batch_wf b =
     (List.map af_type (rb_schema b) = List.map arr_type (rb_columns b)
      \<and> (\<forall>a\<in>set (rb_columns b). length (arr_cells a) = rb_rows b \<and> cv_wf (Arrow_Field a)))"

text \<open>The iterator an operator returns: each element is the outcome of one pull.\<close>

type_synonym stream = "RecordBatch res list"

definition collect :: "stream \<Rightarrow> RecordBatch list res" where
  "collect s = traverse id s"

section \<open>The parameters\<close>

text \<open>What a @Hasher@ receives.\<close>

datatype hash_write =
    H_Discr nat
  | H_U8 "8 word" | H_U16 "16 word" | H_U32 "32 word" | H_U64 "64 word"
  | H_Bytes "byte list"

record env =
  batch_ok :: "arrow_field list \<Rightarrow> array list \<Rightarrow> bool"
  libm_ln :: "f64 \<Rightarrow> f64"
  hash_finish :: "hash_write list \<Rightarrow> 64 word"
  map_order :: "ScalarValue list list \<Rightarrow> ScalarValue list list"
  csv_infer :: "string \<Rightarrow> bool \<Rightarrow> 8 word \<Rightarrow> arrow_field list res"
  csv_read :: "string \<Rightarrow> arrow_field list \<Rightarrow> bool \<Rightarrow> nat \<Rightarrow> 8 word \<Rightarrow> nat list option \<Rightarrow> stream res"
  parquet_schema :: "string \<Rightarrow> arrow_field list res"
  parquet_read :: "string \<Rightarrow> string list option \<Rightarrow> stream res"
  ipc_read_back :: "RecordBatch list \<Rightarrow> stream"
  debug_type :: "DataType \<Rightarrow> string"
  date_display :: "int \<Rightarrow> string"
  date_parse :: "string \<Rightarrow> int option"

text \<open>@RecordBatch::try_new@ as arrow documents it: at least one column, one column per
  field, of the field's type, all of one length (every field the engine builds is
  nullable).\<close>

definition try_new_spec :: "arrow_field list \<Rightarrow> array list \<Rightarrow> bool" where
  "try_new_spec fs cs =
     (cs \<noteq> [] \<and> List.map af_type fs = List.map arr_type cs
      \<and> (\<forall>c\<in>set cs. length (arr_cells c) = length (arr_cells (hd cs))))"

text \<open>An Arrow IPC file has one schema, that of the first batch written to it; a file of batches
  that share it reads back as it was written.  Of other files nothing is assumed.\<close>

definition one_schema :: "RecordBatch list \<Rightarrow> bool" where
  "one_schema bs = list_all (\<lambda>b. rb_schema b = rb_schema (hd bs)) bs"

definition env_ok :: "env \<Rightarrow> bool" where
  "env_ok E \<longleftrightarrow>
     (\<forall>fs cs. list_all af_nullable fs \<longrightarrow> batch_ok E fs cs = try_new_spec fs cs)
     \<and> (\<forall>ks. mset (map_order E ks) = mset ks)
     \<and> (\<forall>bs. one_schema bs \<longrightarrow> ipc_read_back E bs = List.map Ok bs)"

lemma one_schemaI: "(\<And>b. b \<in> set bs \<Longrightarrow> rb_schema b = fs) \<Longrightarrow> one_schema bs"
  by (cases bs) (simp_all add: one_schema_def list_all_iff)

lemma env_ok_batch: "env_ok E \<Longrightarrow> list_all af_nullable fs \<Longrightarrow> batch_ok E fs cs = try_new_spec fs cs"
  by (simp add: env_ok_def)

lemma env_ok_order: "env_ok E \<Longrightarrow> mset (map_order E ks) = mset ks"
  by (simp add: env_ok_def)

lemma env_ok_order_set: "env_ok E \<Longrightarrow> set (map_order E ks) = set ks"
  using env_ok_order mset_eq_setD by blast

lemma env_ok_order_length: "env_ok E \<Longrightarrow> length (map_order E ks) = length ks"
  using env_ok_order mset_eq_length by blast

lemma env_ok_order_distinct: "env_ok E \<Longrightarrow> distinct (map_order E ks) = distinct ks"
  using env_ok_order mset_eq_imp_distinct_iff by blast

lemma env_ok_ipc: "env_ok E \<Longrightarrow> one_schema bs \<Longrightarrow> ipc_read_back E bs = List.map Ok bs"
  by (simp add: env_ok_def)

text \<open>A concrete instance: maps iterate in reverse order of insertion, the hash adds up
  the written bytes, no file exists.\<close>

definition hash_byte :: "hash_write \<Rightarrow> nat" where
  "hash_byte w = (case w of H_Discr n \<Rightarrow> n | H_U8 x \<Rightarrow> unat x | H_U16 x \<Rightarrow> unat x
     | H_U32 x \<Rightarrow> unat x | H_U64 x \<Rightarrow> unat x | H_Bytes bs \<Rightarrow> sum_list (List.map unat bs))"

definition ref_env :: env where
  "ref_env = \<lparr>
     batch_ok = try_new_spec,
     libm_ln = (\<lambda>x. x),
     hash_finish = (\<lambda>ws. word_of_nat (sum_list (List.map hash_byte ws))),
     map_order = rev,
     csv_infer = (\<lambda>f h d. Panic (Panicked ''cannot open'')),
     csv_read = (\<lambda>f s h n d p. Panic (Panicked ''cannot open'')),
     parquet_schema = (\<lambda>f. Panic (Panicked ''cannot open'')),
     parquet_read = (\<lambda>f p. Panic (Panicked ''cannot open'')),
     ipc_read_back = List.map Ok,
     debug_type = (\<lambda>t. ''DataType''),
     date_display = show_int,
     date_parse = parse_int\<rparr>"

lemma ref_env_simps [simp]:
  "batch_ok ref_env = try_new_spec"
  "hash_finish ref_env = (\<lambda>ws. word_of_nat (sum_list (List.map hash_byte ws)))"
  "map_order ref_env = rev"
  "ipc_read_back ref_env = List.map Ok"
  by (simp_all add: ref_env_def)

lemma ref_env_ok: "env_ok ref_env"
  by (simp add: env_ok_def)

section \<open>Building batches\<close>

definition try_new :: "env \<Rightarrow> string \<Rightarrow> arrow_field list \<Rightarrow> array list \<Rightarrow> RecordBatch res" where
  "try_new E msg fs cs =
     (if batch_ok E fs cs
      then Ok \<lparr>rb_schema = fs, rb_columns = cs, rb_rows = length (arr_cells (hd cs))\<rparr>
      else Panic (Panicked msg))"

definition column_to_array :: "ColumnVector \<Rightarrow> array res" where
  "column_to_array c = build_rows (cv_type c) (cv_len c) (cv_value c)"

definition create :: "env \<Rightarrow> Schema \<Rightarrow> ColumnVector list \<Rightarrow> RecordBatch res" where
  "create E s cs = and_then (traverse column_to_array cs)
     (try_new E ''record_batch::create'' (to_arrow s))"

definition show_cell :: "ScalarValue \<Rightarrow> string res" where
  "show_cell v = (case v of
      V_Null \<Rightarrow> Ok ''null''
    | V_Boolean b \<Rightarrow> Ok (if b then ''true'' else ''false'')
    | V_Int8 n \<Rightarrow> Ok (show_signed n)
    | V_Int16 n \<Rightarrow> Ok (show_signed n)
    | V_Int32 n \<Rightarrow> Ok (show_signed n)
    | V_Int64 n \<Rightarrow> Ok (show_signed n)
    | V_UInt8 n \<Rightarrow> Ok (show_unsigned n)
    | V_UInt16 n \<Rightarrow> Ok (show_unsigned n)
    | V_UInt32 n \<Rightarrow> Ok (show_unsigned n)
    | V_UInt64 n \<Rightarrow> Ok (show_unsigned n)
    | V_Float32 x \<Rightarrow> Ok (show_f32 x)
    | V_Float64 x \<Rightarrow> Ok (show_f64 x)
    | V_Utf8 s \<Rightarrow> Ok s
    | V_Binary bs \<Rightarrow> from_utf8_lossy bs
    | V_Date32 d \<Rightarrow> Ok (show_signed d))"

fun join_with :: "string \<Rightarrow> string list \<Rightarrow> string" where
  "join_with sep [] = []"
| "join_with sep [x] = x"
| "join_with sep (x # y # xs) = x @ sep @ join_with sep (y # xs)"

definition to_csv :: "RecordBatch \<Rightarrow> string res" where
  "to_csv b = map_res concat (traverse (\<lambda>r.
     map_res (\<lambda>cells. join_with '','' cells @ [CHR 0x0A])
       (traverse (\<lambda>c. and_then (idx (rb_columns b) c) (\<lambda>a. and_then (arrow_value a r) show_cell))
          [0..<column_count b])) [0..<row_count b])"

lemma column_to_array_cells:
  "cv_cells c = Ok vs \<Longrightarrow> supported (cv_type c) \<Longrightarrow> list_all (fits (cv_type c)) vs \<Longrightarrow>
     column_to_array c = Ok \<lparr>arr_type = cv_type c, arr_cells = vs\<rparr>"
  by (simp add: column_to_array_def build_rows_eq_Ok cv_cells_def)

lemma column_to_array_wf:
  assumes "cv_wf c"
  obtains vs where "cv_cells c = Ok vs" "length vs = cv_len c" "list_all (fits (cv_type c)) vs"
    "column_to_array c = Ok \<lparr>arr_type = cv_type c, arr_cells = vs\<rparr>"
proof -
  obtain vs where "cv_cells c = Ok vs" "length vs = cv_len c" "list_all (fits (cv_type c)) vs"
    using cv_wf_cells [OF assms] by blast
  moreover from this have "column_to_array c = Ok \<lparr>arr_type = cv_type c, arr_cells = vs\<rparr>"
    using cv_wf_supported [OF assms] by (simp add: column_to_array_cells)
  ultimately show ?thesis using that by blast
qed

lemma column_to_array_Arrow [simp]:
  "cv_wf (Arrow_Field a) \<Longrightarrow> column_to_array (Arrow_Field a) = Ok a"
  by (simp add: column_to_array_cells array_wf_def)

lemma to_arrow_nullable [simp]: "list_all af_nullable (to_arrow s)"
  by (simp add: to_arrow_def field_to_arrow_def list_all_iff)

lemma create_arrays:
  assumes "env_ok E" and "list_all cv_wf (List.map Arrow_Field as)"
  shows "create E s (List.map Arrow_Field as) =
     (if as \<noteq> [] \<and> col_types s = List.map arr_type as
         \<and> (\<forall>a\<in>set as. length (arr_cells a) = length (arr_cells (hd as)))
      then Ok \<lparr>rb_schema = to_arrow s, rb_columns = as, rb_rows = length (arr_cells (hd as))\<rparr>
      else Panic (Panicked ''record_batch::create''))"
proof -
  have "traverse column_to_array (List.map Arrow_Field as) = Ok as"
    using assms(2) by (induction as) auto
  then show ?thesis
    using assms(1) by (auto simp: create_def try_new_def env_ok_batch try_new_spec_def)
qed

lemma create_wf:
  assumes "env_ok E" "create E s cs = Ok b" "list_all cv_wf cs"
  shows "batch_wf b" "rb_schema b = to_arrow s" "cs \<noteq> []"
    "\<forall>c\<in>set cs. cv_len c = rb_rows b" "List.map cv_type cs = col_types s"
    "list_all2 (\<lambda>c a. column_to_array c = Ok a) cs (rb_columns b)"
proof -
  obtain as where as: "traverse column_to_array cs = Ok as" "batch_ok E (to_arrow s) as"
    "b = \<lparr>rb_schema = to_arrow s, rb_columns = as, rb_rows = length (arr_cells (hd as))\<rparr>"
    using assms(2) by (auto simp: create_def and_then_eq_Ok try_new_def split: if_splits)
  have spec: "try_new_spec (to_arrow s) as" using as(2) assms(1) by (simp add: env_ok_batch)
  have rel: "list_all2 (\<lambda>c a. column_to_array c = Ok a) cs as"
    using as(1) by (simp add: traverse_eq_Ok)
  have each: "column_to_array c = Ok a \<Longrightarrow> cv_wf c \<Longrightarrow>
     arr_type a = cv_type c \<and> length (arr_cells a) = cv_len c \<and> cv_wf (Arrow_Field a)" for c a
    by (frule cv_wf_supported, erule column_to_array_wf) (auto simp: array_wf_def)
  have rel2: "list_all2 (\<lambda>c a. arr_type a = cv_type c \<and> length (arr_cells a) = cv_len c
      \<and> cv_wf (Arrow_Field a)) cs as"
    using rel assms(3) by (induction rule: list_all2_induct) (auto simp: each simp del: cv_wf.simps)
  have types: "List.map arr_type as = List.map cv_type cs"
    using rel2 by (induction rule: list_all2_induct) auto
  have wf: "\<forall>a\<in>set as. cv_wf (Arrow_Field a)"
    using rel2 by (induction rule: list_all2_induct) auto
  have len: "length as = length cs" using rel by (simp add: list_all2_lengthD)
  show "rb_schema b = to_arrow s" using as(3) by simp
  show "cs \<noteq> []" using spec len by (cases cs) (auto simp: try_new_spec_def)
  show "List.map cv_type cs = col_types s" using spec types by (simp add: try_new_spec_def)
  show "list_all2 (\<lambda>c a. column_to_array c = Ok a) cs (rb_columns b)" using as(3) rel by simp
  have sel: "rb_columns b = as" "rb_schema b = to_arrow s" "rb_rows b = length (arr_cells (hd as))"
    using as(3) by simp_all
  have rows: "length (arr_cells a) = rb_rows b" if "a \<in> set as" for a
    unfolding sel(3) using that spec by (auto simp only: try_new_spec_def)
  have t: "List.map af_type (to_arrow s) = List.map arr_type as"
    using spec by (simp only: try_new_spec_def)
  show "batch_wf b" unfolding batch_wf_def sel(1,2) using t wf rows by blast
  have "\<forall>i<length cs. cv_len (cs ! i) = length (arr_cells (as ! i))"
    using rel2 by (simp add: list_all2_conv_all_nth)
  then have "cv_len (cs ! i) = rb_rows b" if "i < length cs" for i
    using that rows len by simp
  then show "\<forall>c\<in>set cs. cv_len c = rb_rows b" by (metis in_set_conv_nth)
qed

text \<open>The rows of a batch.\<close>

definition batch_row :: "RecordBatch \<Rightarrow> nat \<Rightarrow> ScalarValue list" where
  "batch_row b i = List.map (\<lambda>a. arr_cells a ! i) (rb_columns b)"

definition batch_rows :: "RecordBatch \<Rightarrow> ScalarValue list list" where
  "batch_rows b = List.map (batch_row b) [0..<rb_rows b]"

definition stream_rows :: "RecordBatch list \<Rightarrow> ScalarValue list list" where
  "stream_rows bs = concat (List.map batch_rows bs)"

lemma length_batch_rows [simp, len_simps]: "length (batch_rows b) = rb_rows b"
  by (simp add: batch_rows_def)

lemma batch_field_wf:
  "batch_wf b \<Longrightarrow> i < column_count b \<Longrightarrow>
     batch_field b i = Ok (Arrow_Field (rb_columns b ! i)) \<and> cv_wf (Arrow_Field (rb_columns b ! i))
     \<and> length (arr_cells (rb_columns b ! i)) = rb_rows b"
  by (auto simp: batch_field_def column_count_def batch_wf_def)

end
