(* ===== verification/Phys_Expr.thy ===== *)
theory Phys_Expr
  imports Environment
begin

text \<open>
  Physical expressions (crate @physical-plan@: expressions, column, cast, math, boolean,
  binary, unary-math and date expressions).  An expression evaluates against a record batch
  to a whole column.  The Rust trait objects are the constructors of @phys_expr@; the three
  template methods (@evaluate_binary@, @evaluate_boolean@, @evaluate_unary@) are functions
  of the two evaluated columns and a per-cell kernel.

  Overflowing machine arithmetic written with plain operators panics (the dev profile of
  the workspace); where the source writes @wrapping_add@ and so on, words wrap.
\<close>

datatype math_op = Op_Add | Op_Subtract | Op_Multiply | Op_Divide

datatype bool_op = Op_And | Op_Or | Op_Eq | Op_Neq | Op_Lt | Op_LtEq | Op_Gt | Op_GtEq

datatype phys_expr =
    Column_Expr nat
  | Literal_Long "64 word"
  | Literal_Double f64
  | Literal_String string
  | Literal_Date "32 word"
  | Literal_Interval_Days "64 word"
  | Cast_Expr phys_expr DataType
  | Math_Expr math_op phys_expr phys_expr
  | Boolean_Expr bool_op phys_expr phys_expr
  | Sqrt_Expr phys_expr
  | Log_Expr phys_expr
  | Date_Subtract_Interval phys_expr phys_expr
  | Date_Add_Interval phys_expr phys_expr

section \<open>Extractors and numeric conversions\<close>

fun sel_i8 :: "ScalarValue \<Rightarrow> 8 word option" where
  "sel_i8 (V_Int8 x) = Some x" | "sel_i8 _ = None"
fun sel_i16 :: "ScalarValue \<Rightarrow> 16 word option" where
  "sel_i16 (V_Int16 x) = Some x" | "sel_i16 _ = None"
fun sel_i32 :: "ScalarValue \<Rightarrow> 32 word option" where
  "sel_i32 (V_Int32 x) = Some x" | "sel_i32 _ = None"
fun sel_i64 :: "ScalarValue \<Rightarrow> 64 word option" where
  "sel_i64 (V_Int64 x) = Some x" | "sel_i64 _ = None"
fun sel_f32 :: "ScalarValue \<Rightarrow> f32 option" where
  "sel_f32 (V_Float32 x) = Some x" | "sel_f32 _ = None"
fun sel_f64 :: "ScalarValue \<Rightarrow> f64 option" where
  "sel_f64 (V_Float64 x) = Some x" | "sel_f64 _ = None"
fun sel_date :: "ScalarValue \<Rightarrow> 32 word option" where
  "sel_date (V_Date32 x) = Some x" | "sel_date _ = None"

definition as_i8 :: "ScalarValue \<Rightarrow> 8 word res" where "as_i8 v = expect ''expected Int8'' (sel_i8 v)"
definition as_i16 :: "ScalarValue \<Rightarrow> 16 word res" where "as_i16 v = expect ''expected Int16'' (sel_i16 v)"
definition as_i32 :: "ScalarValue \<Rightarrow> 32 word res" where "as_i32 v = expect ''expected Int32'' (sel_i32 v)"
definition as_i64 :: "ScalarValue \<Rightarrow> 64 word res" where "as_i64 v = expect ''expected Int64'' (sel_i64 v)"
definition as_f32 :: "ScalarValue \<Rightarrow> f32 res" where "as_f32 v = expect ''expected Float32'' (sel_f32 v)"
definition as_f64 :: "ScalarValue \<Rightarrow> f64 res" where "as_f64 v = expect ''expected Float64'' (sel_f64 v)"

definition number_to_i64 :: "ScalarValue \<Rightarrow> 64 word res" where
  "number_to_i64 v = (case v of
      V_Int8 n \<Rightarrow> Ok (scast n)
    | V_Int16 n \<Rightarrow> Ok (scast n)
    | V_Int32 n \<Rightarrow> Ok (scast n)
    | V_Int64 n \<Rightarrow> Ok n
    | V_UInt8 n \<Rightarrow> Ok (ucast n)
    | V_UInt16 n \<Rightarrow> Ok (ucast n)
    | V_UInt32 n \<Rightarrow> Ok (ucast n)
    | V_UInt64 n \<Rightarrow> Ok n
    | V_Float32 x \<Rightarrow> Ok (i64_of_f32 x)
    | V_Float64 x \<Rightarrow> Ok (i64_of_f64 x)
    | V_Date32 d \<Rightarrow> Ok (scast d)
    | _ \<Rightarrow> Panic (Panicked ''expected a number''))"

definition number_to_f64 :: "ScalarValue \<Rightarrow> f64 res" where
  "number_to_f64 v = (case v of
      V_Int8 n \<Rightarrow> Ok (f64_of_int (sint n))
    | V_Int16 n \<Rightarrow> Ok (f64_of_int (sint n))
    | V_Int32 n \<Rightarrow> Ok (f64_of_int (sint n))
    | V_Int64 n \<Rightarrow> Ok (f64_of_int (sint n))
    | V_UInt8 n \<Rightarrow> Ok (f64_of_int (uint n))
    | V_UInt16 n \<Rightarrow> Ok (f64_of_int (uint n))
    | V_UInt32 n \<Rightarrow> Ok (f64_of_int (uint n))
    | V_UInt64 n \<Rightarrow> Ok (f64_of_int (uint n))
    | V_Float32 x \<Rightarrow> Ok (f64_of_f32 x)
    | V_Float64 x \<Rightarrow> Ok x
    | _ \<Rightarrow> Panic (Panicked ''expected a number''))"

section \<open>Arithmetic cells\<close>

text \<open>Signed division truncates; a zero divisor and MIN / -1 panic.\<close>

definition div_signed :: "'a::len word \<Rightarrow> 'a word \<Rightarrow> 'a word res" where
  "div_signed a b =
     (if b = 0 then Panic Divide_By_Zero
      else if sint a = - (2 ^ (LENGTH('a) - 1)) \<and> sint b = - 1 then Panic Arith_Overflow
      else Ok (word_of_int (sgn (sint a) * sgn (sint b) * (\<bar>sint a\<bar> div \<bar>sint b\<bar>))))"

definition int_kernel :: "math_op \<Rightarrow> 'a::len word \<Rightarrow> 'a word \<Rightarrow> 'a word res" where
  "int_kernel op a b = (case op of
      Op_Add \<Rightarrow> Ok (a + b)
    | Op_Subtract \<Rightarrow> Ok (a - b)
    | Op_Multiply \<Rightarrow> Ok (a * b)
    | Op_Divide \<Rightarrow> div_signed a b)"

definition f32_kernel :: "math_op \<Rightarrow> f32 \<Rightarrow> f32 \<Rightarrow> f32 res" where
  "f32_kernel op a b = Ok (case op of Op_Add \<Rightarrow> f32_add a b | Op_Subtract \<Rightarrow> f32_sub a b
     | Op_Multiply \<Rightarrow> f32_mul a b | Op_Divide \<Rightarrow> f32_div a b)"

definition f64_kernel :: "math_op \<Rightarrow> f64 \<Rightarrow> f64 \<Rightarrow> f64 res" where
  "f64_kernel op a b = Ok (case op of Op_Add \<Rightarrow> f64_add a b | Op_Subtract \<Rightarrow> f64_sub a b
     | Op_Multiply \<Rightarrow> f64_mul a b | Op_Divide \<Rightarrow> f64_div a b)"

definition math_arm ::
  "(ScalarValue \<Rightarrow> 'a res) \<Rightarrow> ('a \<Rightarrow> ScalarValue) \<Rightarrow> ('a \<Rightarrow> 'a \<Rightarrow> 'a res) \<Rightarrow> ScalarValue \<Rightarrow> ScalarValue \<Rightarrow> ScalarValue res" where
  "math_arm sel wrap f l r =
     and_then (sel l) (\<lambda>a. and_then (sel r) (\<lambda>b. map_res wrap (f a b)))"

definition math_evaluate_cell ::
  "math_op \<Rightarrow> ScalarValue \<Rightarrow> ScalarValue \<Rightarrow> DataType \<Rightarrow> ScalarValue res" where
  "math_evaluate_cell op l r t =
     (if is_null l \<or> is_null r then Ok V_Null
      else case t of
        T_Int8 \<Rightarrow> math_arm as_i8 V_Int8 (int_kernel op) l r
      | T_Int16 \<Rightarrow> math_arm as_i16 V_Int16 (int_kernel op) l r
      | T_Int32 \<Rightarrow> math_arm as_i32 V_Int32 (int_kernel op) l r
      | T_Int64 \<Rightarrow> math_arm as_i64 V_Int64 (int_kernel op) l r
      | T_Float32 \<Rightarrow> math_arm as_f32 V_Float32 (f32_kernel op) l r
      | T_Float64 \<Rightarrow> math_arm as_f64 V_Float64 (f64_kernel op) l r
      | _ \<Rightarrow> Panic (Panicked ''Unsupported data type in math expression''))"

text \<open>A two-column kernel, cell by cell, into a fresh column.\<close>

definition zip_cells :: "(ScalarValue \<Rightarrow> ScalarValue \<Rightarrow> ScalarValue res) \<Rightarrow> ColumnVector \<Rightarrow> ColumnVector
    \<Rightarrow> nat \<Rightarrow> ScalarValue res" where
  "zip_cells f l r i = and_then (cv_value l i) (\<lambda>a. and_then (cv_value r i) (f a))"

definition math_evaluate_pair :: "math_op \<Rightarrow> ColumnVector \<Rightarrow> ColumnVector \<Rightarrow> ColumnVector res" where
  "math_evaluate_pair op l r = map_res Arrow_Field
     (build_rows (cv_type l) (cv_len l) (zip_cells (\<lambda>a b. math_evaluate_cell op a b (cv_type l)) l r))"

definition is_numeric :: "DataType \<Rightarrow> bool" where
  "is_numeric t = (case t of
      T_Int8 \<Rightarrow> True | T_Int16 \<Rightarrow> True | T_Int32 \<Rightarrow> True | T_Int64 \<Rightarrow> True
    | T_UInt8 \<Rightarrow> True | T_UInt16 \<Rightarrow> True | T_UInt32 \<Rightarrow> True | T_UInt64 \<Rightarrow> True
    | T_Float16 \<Rightarrow> True | T_Float32 \<Rightarrow> True | T_Float64 \<Rightarrow> True
    | T_Decimal128 _ _ \<Rightarrow> True | T_Decimal256 _ _ \<Rightarrow> True
    | _ \<Rightarrow> False)"

definition coerce_to_double :: "ColumnVector \<Rightarrow> ColumnVector" where
  "coerce_to_double c = (if cv_type c = T_Float64 then c else Coerced_Double c)"

definition coerce_types :: "ColumnVector \<Rightarrow> ColumnVector \<Rightarrow> (ColumnVector \<times> ColumnVector) res" where
  "coerce_types l r =
     (if is_numeric (cv_type l) \<and> is_numeric (cv_type r)
      then Ok (coerce_to_double l, coerce_to_double r)
      else Panic (Panicked ''Binary expression operands do not have the same type and cannot be coerced''))"

definition evaluate_binary :: "math_op \<Rightarrow> ColumnVector \<Rightarrow> ColumnVector \<Rightarrow> ColumnVector res" where
  "evaluate_binary op l r =
     (if cv_len l \<noteq> cv_len r then Panic Assert_Failed
      else if cv_type l \<noteq> cv_type r
      then and_then (coerce_types l r) (\<lambda>(cl, cr). math_evaluate_pair op cl cr)
      else math_evaluate_pair op l r)"

section \<open>Three-valued comparison and logic\<close>

datatype ordering = Less | Equal | Greater

definition cmp_signed :: "'a::len word \<Rightarrow> 'a word \<Rightarrow> ordering" where
  "cmp_signed a b = (if a <s b then Less else if a = b then Equal else Greater)"

definition cmp_unsigned :: "'a::len word \<Rightarrow> 'a word \<Rightarrow> ordering" where
  "cmp_unsigned a b = (if a < b then Less else if a = b then Equal else Greater)"

definition cmp_string :: "string \<Rightarrow> string \<Rightarrow> ordering" where
  "cmp_string a b = (if a < b then Less else if a = b then Equal else Greater)"

definition sign_ordering :: "int \<Rightarrow> ordering" where
  "sign_ordering i = (if i < 0 then Less else if i = 0 then Equal else Greater)"

definition f64_partial_cmp :: "f64 \<Rightarrow> f64 \<Rightarrow> ordering option" where
  "f64_partial_cmp a b = map_option sign_ordering (fcmp (f64_val a) (f64_val b))"

definition f32_partial_cmp :: "f32 \<Rightarrow> f32 \<Rightarrow> ordering option" where
  "f32_partial_cmp a b = map_option sign_ordering (fcmp (f32_val a) (f32_val b))"

text \<open>The Rust operator token of each comparison, on the operands' ordering (@None@: a NaN).\<close>

definition op_holds :: "bool_op \<Rightarrow> ordering option \<Rightarrow> bool" where
  "op_holds op c = (case op of
      Op_Eq \<Rightarrow> c = Some Equal
    | Op_Neq \<Rightarrow> c \<noteq> Some Equal
    | Op_Lt \<Rightarrow> c = Some Less
    | Op_LtEq \<Rightarrow> c = Some Less \<or> c = Some Equal
    | Op_Gt \<Rightarrow> c = Some Greater
    | Op_GtEq \<Rightarrow> c = Some Greater \<or> c = Some Equal
    | _ \<Rightarrow> False)"

definition cmp_opt :: "'a option \<Rightarrow> 'a option \<Rightarrow> ('a \<Rightarrow> 'a \<Rightarrow> bool) \<Rightarrow> bool option" where
  "cmp_opt l r f = (case (l, r) of (Some a, Some b) \<Rightarrow> Some (f a b) | _ \<Rightarrow> None)"

definition as_opt :: "string \<Rightarrow> (ScalarValue \<Rightarrow> 'a option) \<Rightarrow> ScalarValue \<Rightarrow> 'a option res" where
  "as_opt msg sel v = (if is_null v then Ok None else map_res Some (expect msg (sel v)))"

definition as_opt_str :: "ScalarValue \<Rightarrow> string option res" where
  "as_opt_str v = (case v of
      V_Null \<Rightarrow> Ok None
    | V_Utf8 s \<Rightarrow> Ok (Some s)
    | V_Binary b \<Rightarrow> from_utf8 b
    | _ \<Rightarrow> Panic (Panicked ''expected Utf8/Binary''))"

definition as_opt_bool :: "ScalarValue \<Rightarrow> bool option res" where
  "as_opt_bool v = (case v of
      V_Null \<Rightarrow> Ok None
    | V_Boolean b \<Rightarrow> Ok (Some b)
    | V_Int8 n \<Rightarrow> Ok (Some (n = 1))
    | V_Int16 n \<Rightarrow> Ok (Some (n = 1))
    | V_Int32 n \<Rightarrow> Ok (Some (n = 1))
    | V_Int64 n \<Rightarrow> Ok (Some (n = 1))
    | V_UInt8 n \<Rightarrow> Ok (Some (n = 1))
    | V_UInt16 n \<Rightarrow> Ok (Some (n = 1))
    | V_UInt32 n \<Rightarrow> Ok (Some (n = 1))
    | V_UInt64 n \<Rightarrow> Ok (Some (n = 1))
    | _ \<Rightarrow> Panic (Panicked ''Cannot convert to bool''))"

fun and3 :: "bool option \<Rightarrow> bool option \<Rightarrow> bool option" where
  "and3 (Some False) _ = Some False"
| "and3 _ (Some False) = Some False"
| "and3 (Some True) (Some True) = Some True"
| "and3 _ _ = None"

fun or3 :: "bool option \<Rightarrow> bool option \<Rightarrow> bool option" where
  "or3 (Some True) _ = Some True"
| "or3 _ (Some True) = Some True"
| "or3 (Some False) (Some False) = Some False"
| "or3 _ _ = None"

definition cmp_arm :: "(ScalarValue \<Rightarrow> 'a option res) \<Rightarrow> ('a \<Rightarrow> 'a \<Rightarrow> ordering option) \<Rightarrow> bool_op
    \<Rightarrow> ScalarValue \<Rightarrow> ScalarValue \<Rightarrow> bool option res" where
  "cmp_arm sel c op l r =
     and_then (sel l) (\<lambda>a. and_then (sel r) (\<lambda>b. Ok (cmp_opt a b (\<lambda>x y. op_holds op (c x y)))))"

definition compare_typed :: "bool_op \<Rightarrow> ScalarValue \<Rightarrow> ScalarValue \<Rightarrow> DataType \<Rightarrow> bool option res" where
  "compare_typed op l r t = (case t of
      T_Int8 \<Rightarrow> cmp_arm (as_opt ''expected Int8'' sel_i8) (\<lambda>x y. Some (cmp_signed x y)) op l r
    | T_Int16 \<Rightarrow> cmp_arm (as_opt ''expected Int16'' sel_i16) (\<lambda>x y. Some (cmp_signed x y)) op l r
    | T_Int32 \<Rightarrow> cmp_arm (as_opt ''expected Int32'' sel_i32) (\<lambda>x y. Some (cmp_signed x y)) op l r
    | T_Int64 \<Rightarrow> cmp_arm (as_opt ''expected Int64'' sel_i64) (\<lambda>x y. Some (cmp_signed x y)) op l r
    | T_Float32 \<Rightarrow> cmp_arm (as_opt ''expected Float32'' sel_f32) f32_partial_cmp op l r
    | T_Float64 \<Rightarrow> cmp_arm (as_opt ''expected Float64'' sel_f64) f64_partial_cmp op l r
    | T_Utf8 \<Rightarrow> cmp_arm as_opt_str (\<lambda>x y. Some (cmp_string x y)) op l r
    | T_Date32 \<Rightarrow> cmp_arm (as_opt ''expected Date32'' sel_date) (\<lambda>x y. Some (cmp_signed x y)) op l r
    | _ \<Rightarrow> Panic (Panicked ''Unsupported data type in comparison expression''))"

definition compare_value :: "bool_op \<Rightarrow> ScalarValue \<Rightarrow> ScalarValue \<Rightarrow> DataType \<Rightarrow> bool option res" where
  "compare_value op l r t = (case op of
      Op_And \<Rightarrow> and_then (as_opt_bool l) (\<lambda>a. map_res (and3 a) (as_opt_bool r))
    | Op_Or \<Rightarrow> and_then (as_opt_bool l) (\<lambda>a. map_res (or3 a) (as_opt_bool r))
    | _ \<Rightarrow> compare_typed op l r t)"

definition bool_cell :: "bool option \<Rightarrow> ScalarValue" where
  "bool_cell b = (case b of Some x \<Rightarrow> V_Boolean x | None \<Rightarrow> V_Null)"

definition evaluate_boolean :: "bool_op \<Rightarrow> ColumnVector \<Rightarrow> ColumnVector \<Rightarrow> ColumnVector res" where
  "evaluate_boolean op l r =
     (if cv_len l \<noteq> cv_len r then Panic Assert_Failed
      else if cv_type l \<noteq> cv_type r then Panic (Panicked ''Cannot compare values of different type'')
      else map_res Arrow_Field (build_rows T_Boolean (cv_len l)
             (zip_cells (\<lambda>a b. map_res bool_cell (compare_value op a b (cv_type l))) l r)))"

section \<open>Casts, unary functions, dates\<close>

definition parse_trimmed :: "string \<Rightarrow> (string \<Rightarrow> 'a option) \<Rightarrow> string \<Rightarrow> 'a res" where
  "parse_trimmed msg p s = expect msg (p (trim s))"

definition to_i64 :: "ScalarValue \<Rightarrow> 64 word res" where
  "to_i64 v = (case v of
      V_Int8 n \<Rightarrow> Ok (scast n)
    | V_Int16 n \<Rightarrow> Ok (scast n)
    | V_Int32 n \<Rightarrow> Ok (scast n)
    | V_Int64 n \<Rightarrow> Ok n
    | V_UInt8 n \<Rightarrow> Ok (ucast n)
    | V_UInt16 n \<Rightarrow> Ok (ucast n)
    | V_UInt32 n \<Rightarrow> Ok (ucast n)
    | V_UInt64 n \<Rightarrow> Ok n
    | V_Float32 x \<Rightarrow> Ok (i64_of_f32 x)
    | V_Float64 x \<Rightarrow> Ok (i64_of_f64 x)
    | V_Utf8 s \<Rightarrow> parse_trimmed ''cannot cast string to integer'' parse_i64 s
    | V_Binary b \<Rightarrow> and_then (from_utf8_lossy b) (parse_trimmed ''cannot cast bytes to integer'' parse_i64)
    | _ \<Rightarrow> Panic (Panicked ''Cannot cast value to integer''))"

definition to_f32 :: "ScalarValue \<Rightarrow> f32 res" where
  "to_f32 v = (case v of
      V_Utf8 s \<Rightarrow> parse_trimmed ''cannot cast string to float'' parse_f32 s
    | V_Binary b \<Rightarrow> and_then (from_utf8_lossy b) (parse_trimmed ''cannot cast bytes to float'' parse_f32)
    | V_Float32 x \<Rightarrow> Ok x
    | V_Float64 x \<Rightarrow> Ok (f32_of_f64 x)
    | V_Int8 n \<Rightarrow> Ok (f32_of_int (sint n))
    | V_Int16 n \<Rightarrow> Ok (f32_of_int (sint n))
    | V_Int32 n \<Rightarrow> Ok (f32_of_int (sint n))
    | V_Int64 n \<Rightarrow> Ok (f32_of_int (sint n))
    | V_UInt8 n \<Rightarrow> Ok (f32_of_int (uint n))
    | V_UInt16 n \<Rightarrow> Ok (f32_of_int (uint n))
    | V_UInt32 n \<Rightarrow> Ok (f32_of_int (uint n))
    | V_UInt64 n \<Rightarrow> Ok (f32_of_int (uint n))
    | _ \<Rightarrow> Panic (Panicked ''Cannot cast value to float''))"

definition to_f64 :: "ScalarValue \<Rightarrow> f64 res" where
  "to_f64 v = (case v of
      V_Utf8 s \<Rightarrow> parse_trimmed ''cannot cast string to double'' parse_f64 s
    | V_Binary b \<Rightarrow> and_then (from_utf8_lossy b) (parse_trimmed ''cannot cast bytes to double'' parse_f64)
    | V_Float64 x \<Rightarrow> Ok x
    | V_Float32 x \<Rightarrow> Ok (f64_of_f32 x)
    | V_Int8 n \<Rightarrow> Ok (f64_of_int (sint n))
    | V_Int16 n \<Rightarrow> Ok (f64_of_int (sint n))
    | V_Int32 n \<Rightarrow> Ok (f64_of_int (sint n))
    | V_Int64 n \<Rightarrow> Ok (f64_of_int (sint n))
    | V_UInt8 n \<Rightarrow> Ok (f64_of_int (uint n))
    | V_UInt16 n \<Rightarrow> Ok (f64_of_int (uint n))
    | V_UInt32 n \<Rightarrow> Ok (f64_of_int (uint n))
    | V_UInt64 n \<Rightarrow> Ok (f64_of_int (uint n))
    | _ \<Rightarrow> Panic (Panicked ''Cannot cast value to double''))"

definition scalar_to_string :: "ScalarValue \<Rightarrow> string res" where
  "scalar_to_string v = (if is_null v then Ok [] else show_cell v)"

definition cast_cell :: "DataType \<Rightarrow> ScalarValue \<Rightarrow> ScalarValue res" where
  "cast_cell t v =
     (if is_null v then Ok V_Null
      else case t of
        T_Int8 \<Rightarrow> map_res (\<lambda>n. V_Int8 (ucast n)) (to_i64 v)
      | T_Int16 \<Rightarrow> map_res (\<lambda>n. V_Int16 (ucast n)) (to_i64 v)
      | T_Int32 \<Rightarrow> map_res (\<lambda>n. V_Int32 (ucast n)) (to_i64 v)
      | T_Int64 \<Rightarrow> map_res V_Int64 (to_i64 v)
      | T_Float32 \<Rightarrow> map_res V_Float32 (to_f32 v)
      | T_Float64 \<Rightarrow> map_res V_Float64 (to_f64 v)
      | T_Utf8 \<Rightarrow> map_res V_Utf8 (scalar_to_string v)
      | _ \<Rightarrow> Panic (Panicked ''Cast is not supported''))"

definition evaluate_cast :: "DataType \<Rightarrow> ColumnVector \<Rightarrow> ColumnVector res" where
  "evaluate_cast t c = map_res Arrow_Field
     (build_rows t (cv_len c) (\<lambda>i. and_then (cv_value c i) (cast_cell t)))"

definition evaluate_unary :: "(f64 \<Rightarrow> f64) \<Rightarrow> ColumnVector \<Rightarrow> ColumnVector res" where
  "evaluate_unary f c = map_res Arrow_Field
     (build_rows T_Float64 (cv_len c) (\<lambda>i. and_then (cv_value c i)
        (\<lambda>v. if is_null v then Ok V_Null else map_res (\<lambda>x. V_Float64 (f x)) (number_to_f64 v))))"

definition checked_word :: "int \<Rightarrow> 'a::len word res" where
  "checked_word i = (if - (2 ^ (LENGTH('a) - 1)) \<le> i \<and> i < 2 ^ (LENGTH('a) - 1)
     then Ok (word_of_int i) else Panic Arith_Overflow)"

definition add_i32 :: "32 word \<Rightarrow> 32 word \<Rightarrow> 32 word res" where
  "add_i32 a b = checked_word (sint a + sint b)"

definition sub_i32 :: "32 word \<Rightarrow> 32 word \<Rightarrow> 32 word res" where
  "sub_i32 a b = checked_word (sint a - sint b)"

definition date_cell :: "(32 word \<Rightarrow> 32 word \<Rightarrow> 32 word res) \<Rightarrow> ScalarValue \<Rightarrow> ScalarValue \<Rightarrow> ScalarValue res" where
  "date_cell f d i =
     (if is_null d \<or> is_null i then Ok V_Null
      else and_then (number_to_i64 d) (\<lambda>a. and_then (number_to_i64 i) (\<lambda>b.
             map_res V_Date32 (f (ucast a) (ucast b)))))"

definition date_interval :: "(32 word \<Rightarrow> 32 word \<Rightarrow> 32 word res) \<Rightarrow> ColumnVector \<Rightarrow> ColumnVector \<Rightarrow> ColumnVector res" where
  "date_interval f d i = map_res Arrow_Field
     (build_rows T_Date32 (cv_len d) (zip_cells (date_cell f) d i))"

section \<open>Evaluation\<close>

fun evaluate :: "env \<Rightarrow> phys_expr \<Rightarrow> RecordBatch \<Rightarrow> ColumnVector res" where
  "evaluate E (Column_Expr i) b = batch_field b i"
| "evaluate E (Literal_Long n) b = Ok (Literal_Value T_Int64 (V_Int64 n) (row_count b))"
| "evaluate E (Literal_Double x) b = Ok (Literal_Value T_Float64 (V_Float64 x) (row_count b))"
| "evaluate E (Literal_String s) b = Ok (Literal_Value T_Utf8 (V_Utf8 s) (row_count b))"
| "evaluate E (Literal_Date d) b = Ok (Literal_Value T_Date32 (V_Date32 d) (row_count b))"
| "evaluate E (Literal_Interval_Days n) b = Ok (Literal_Value T_Int64 (V_Int64 n) (row_count b))"
| "evaluate E (Cast_Expr e t) b = and_then (evaluate E e b) (evaluate_cast t)"
| "evaluate E (Math_Expr op l r) b =
     and_then (evaluate E l b) (\<lambda>x. and_then (evaluate E r b) (evaluate_binary op x))"
| "evaluate E (Boolean_Expr op l r) b =
     and_then (evaluate E l b) (\<lambda>x. and_then (evaluate E r b) (evaluate_boolean op x))"
| "evaluate E (Sqrt_Expr e) b = and_then (evaluate E e b) (evaluate_unary f64_sqrt)"
| "evaluate E (Log_Expr e) b = and_then (evaluate E e b) (evaluate_unary (libm_ln E))"
| "evaluate E (Date_Subtract_Interval l r) b =
     and_then (evaluate E l b) (\<lambda>x. and_then (evaluate E r b) (date_interval sub_i32 x))"
| "evaluate E (Date_Add_Interval l r) b =
     and_then (evaluate E l b) (\<lambda>x. and_then (evaluate E r b) (date_interval add_i32 x))"

section \<open>Display\<close>

definition math_symbol :: "math_op \<Rightarrow> string" where
  "math_symbol op = (case op of Op_Add \<Rightarrow> ''+'' | Op_Subtract \<Rightarrow> ''-'' | Op_Multiply \<Rightarrow> ''*'' | Op_Divide \<Rightarrow> ''/'')"

definition math_op_name :: "math_op \<Rightarrow> string" where
  "math_op_name op = (case op of Op_Add \<Rightarrow> ''add'' | Op_Subtract \<Rightarrow> ''subtract''
     | Op_Multiply \<Rightarrow> ''multiply'' | Op_Divide \<Rightarrow> ''divide'')"

definition bool_symbol :: "bool_op \<Rightarrow> string" where
  "bool_symbol op = (case op of Op_And \<Rightarrow> ''AND'' | Op_Or \<Rightarrow> ''OR'' | Op_Eq \<Rightarrow> ''='' | Op_Neq \<Rightarrow> ''!=''
     | Op_Lt \<Rightarrow> ''<'' | Op_LtEq \<Rightarrow> ''<='' | Op_Gt \<Rightarrow> ''>'' | Op_GtEq \<Rightarrow> ''>='')"

definition bool_op_name :: "bool_op \<Rightarrow> string" where
  "bool_op_name op = (case op of Op_And \<Rightarrow> ''and'' | Op_Or \<Rightarrow> ''or'' | Op_Eq \<Rightarrow> ''eq'' | Op_Neq \<Rightarrow> ''neq''
     | Op_Lt \<Rightarrow> ''lt'' | Op_LtEq \<Rightarrow> ''lteq'' | Op_Gt \<Rightarrow> ''gt'' | Op_GtEq \<Rightarrow> ''gteq'')"

fun show_phys_expr :: "env \<Rightarrow> phys_expr \<Rightarrow> string" where
  "show_phys_expr E (Column_Expr i) = ''#'' @ show_nat i"
| "show_phys_expr E (Literal_Long n) = show_signed n"
| "show_phys_expr E (Literal_Double x) = show_f64 x"
| "show_phys_expr E (Literal_String s) = [CHR 0x27] @ s @ [CHR 0x27]"
| "show_phys_expr E (Literal_Date d) = show_signed d"
| "show_phys_expr E (Literal_Interval_Days n) = show_signed n"
| "show_phys_expr E (Cast_Expr e t) = ''CAST('' @ show_phys_expr E e @ '' AS '' @ debug_type E t @ '')''"
| "show_phys_expr E (Math_Expr op l r) = show_phys_expr E l @ math_symbol op @ show_phys_expr E r"
| "show_phys_expr E (Boolean_Expr op l r) = show_phys_expr E l @ '' '' @ bool_symbol op @ '' '' @ show_phys_expr E r"
| "show_phys_expr E (Sqrt_Expr e) = ''sqrt('' @ show_phys_expr E e @ '')''"
| "show_phys_expr E (Log_Expr e) = ''log('' @ show_phys_expr E e @ '')''"
| "show_phys_expr E (Date_Subtract_Interval l r) = show_phys_expr E l @ '' - '' @ show_phys_expr E r"
| "show_phys_expr E (Date_Add_Interval l r) = show_phys_expr E l @ '' + '' @ show_phys_expr E r"

end
