(* ===== verification/Expr_Typing.thy ===== *)
theory Expr_Typing
  imports Phys_Expr
begin

text \<open>
  A static type system for physical expressions and its soundness: on a well-formed batch a
  well-typed expression yields a well-formed column of its type with one cell per row, and
  the only panics left are the ones that depend on the data (division, failed text
  conversion, date overflow), none for the expressions @total_expr@ accepts.
\<close>

section \<open>Static types\<close>

definition number_types :: "DataType list" where
  "number_types = [T_Int8, T_Int16, T_Int32, T_Int64, T_UInt8, T_UInt16, T_UInt32, T_UInt64,
     T_Float32, T_Float64]"

definition math_types :: "DataType list" where
  "math_types = [T_Int8, T_Int16, T_Int32, T_Int64, T_Float32, T_Float64]"

definition compare_types :: "DataType list" where
  "compare_types = [T_Int8, T_Int16, T_Int32, T_Int64, T_Float32, T_Float64, T_Utf8, T_Date32]"

definition logic_types :: "DataType list" where
  "logic_types = [T_Boolean, T_Int8, T_Int16, T_Int32, T_Int64, T_UInt8, T_UInt16, T_UInt32, T_UInt64]"

definition castable :: "DataType \<Rightarrow> DataType \<Rightarrow> bool" where
  "castable s t =
     ((t \<in> set math_types \<and> (s \<in> set number_types \<or> s = T_Utf8 \<or> s = T_Binary))
      \<or> (t = T_Utf8 \<and> supported s))"

definition math_type :: "DataType \<Rightarrow> DataType \<Rightarrow> DataType option" where
  "math_type s t =
     (if s = t then (if s \<in> set math_types then Some s else None)
      else if s \<in> set number_types \<and> t \<in> set number_types then Some T_Float64 else None)"

definition bool_type :: "bool_op \<Rightarrow> DataType \<Rightarrow> DataType \<Rightarrow> DataType option" where
  "bool_type op s t =
     (if s = t \<and> s \<in> set (if op = Op_And \<or> op = Op_Or then logic_types else compare_types)
      then Some T_Boolean else None)"

definition date_type :: "DataType \<Rightarrow> DataType \<Rightarrow> DataType option" where
  "date_type s t = (if s \<in> set (T_Date32 # number_types) \<and> t \<in> set (T_Date32 # number_types)
     then Some T_Date32 else None)"

definition opt2 :: "('a \<Rightarrow> 'b \<Rightarrow> 'c option) \<Rightarrow> 'a option \<Rightarrow> 'b option \<Rightarrow> 'c option" where
  "opt2 f a b = (case (a, b) of (Some x, Some y) \<Rightarrow> f x y | _ \<Rightarrow> None)"

lemma opt2_Some: "opt2 f a b = Some c \<longleftrightarrow> (\<exists>x y. a = Some x \<and> b = Some y \<and> f x y = Some c)"
  by (auto simp: opt2_def split: option.splits)

fun expr_type :: "DataType list \<Rightarrow> phys_expr \<Rightarrow> DataType option" where
  "expr_type ts (Column_Expr i) = (if i < length ts then Some (ts ! i) else None)"
| "expr_type ts (Literal_Long n) = Some T_Int64"
| "expr_type ts (Literal_Double x) = Some T_Float64"
| "expr_type ts (Literal_String s) = Some T_Utf8"
| "expr_type ts (Literal_Date d) = Some T_Date32"
| "expr_type ts (Literal_Interval_Days n) = Some T_Int64"
| "expr_type ts (Cast_Expr e t) =
     (case expr_type ts e of Some s \<Rightarrow> if castable s t then Some t else None | None \<Rightarrow> None)"
| "expr_type ts (Math_Expr op l r) = opt2 math_type (expr_type ts l) (expr_type ts r)"
| "expr_type ts (Boolean_Expr op l r) = opt2 (bool_type op) (expr_type ts l) (expr_type ts r)"
| "expr_type ts (Sqrt_Expr e) =
     (case expr_type ts e of Some s \<Rightarrow> if s \<in> set number_types then Some T_Float64 else None | None \<Rightarrow> None)"
| "expr_type ts (Log_Expr e) =
     (case expr_type ts e of Some s \<Rightarrow> if s \<in> set number_types then Some T_Float64 else None | None \<Rightarrow> None)"
| "expr_type ts (Date_Subtract_Interval l r) = opt2 date_type (expr_type ts l) (expr_type ts r)"
| "expr_type ts (Date_Add_Interval l r) = opt2 date_type (expr_type ts l) (expr_type ts r)"

definition cast_total :: "DataType \<Rightarrow> DataType \<Rightarrow> bool" where
  "cast_total s t = (s \<noteq> T_Binary \<and> (s = T_Utf8 \<longrightarrow> t = T_Utf8))"

fun total_expr :: "DataType list \<Rightarrow> phys_expr \<Rightarrow> bool" where
  "total_expr ts (Cast_Expr e t) =
     (total_expr ts e \<and> (case expr_type ts e of Some s \<Rightarrow> cast_total s t | None \<Rightarrow> False))"
| "total_expr ts (Math_Expr op l r) =
     (total_expr ts l \<and> total_expr ts r \<and>
      (op = Op_Divide \<longrightarrow> expr_type ts (Math_Expr op l r) \<in> {Some T_Float32, Some T_Float64}))"
| "total_expr ts (Boolean_Expr op l r) = (total_expr ts l \<and> total_expr ts r)"
| "total_expr ts (Sqrt_Expr e) = total_expr ts e"
| "total_expr ts (Log_Expr e) = total_expr ts e"
| "total_expr ts (Date_Subtract_Interval l r) = False"
| "total_expr ts (Date_Add_Interval l r) = False"
| "total_expr ts _ = True"

definition data_panic :: "panic \<Rightarrow> bool" where
  "data_panic p \<longleftrightarrow> p \<in> {Divide_By_Zero, Arith_Overflow, outside_model,
     Panicked ''cannot cast string to integer'', Panicked ''cannot cast bytes to integer'',
     Panicked ''cannot cast string to float'', Panicked ''cannot cast bytes to float'',
     Panicked ''cannot cast string to double'', Panicked ''cannot cast bytes to double''}"

definition allowed :: "bool \<Rightarrow> panic \<Rightarrow> bool" where
  "allowed tot p = (\<not> tot \<and> data_panic p)"

lemma allowed_mono: "allowed a p \<Longrightarrow> (b \<Longrightarrow> a) \<Longrightarrow> allowed b p"
  by (auto simp: allowed_def)

lemma data_panics [simp]:
  "data_panic Divide_By_Zero" "data_panic Arith_Overflow" "data_panic outside_model"
  by (simp_all add: data_panic_def)

section \<open>Cells\<close>

lemma fits_inv:
  "fits T_Boolean v \<Longrightarrow> v = V_Null \<or> (\<exists>x. v = V_Boolean x)"
  "fits T_Int8 v \<Longrightarrow> v = V_Null \<or> (\<exists>x. v = V_Int8 x)"
  "fits T_Int16 v \<Longrightarrow> v = V_Null \<or> (\<exists>x. v = V_Int16 x)"
  "fits T_Int32 v \<Longrightarrow> v = V_Null \<or> (\<exists>x. v = V_Int32 x)"
  "fits T_Int64 v \<Longrightarrow> v = V_Null \<or> (\<exists>x. v = V_Int64 x)"
  "fits T_UInt8 v \<Longrightarrow> v = V_Null \<or> (\<exists>x. v = V_UInt8 x)"
  "fits T_UInt16 v \<Longrightarrow> v = V_Null \<or> (\<exists>x. v = V_UInt16 x)"
  "fits T_UInt32 v \<Longrightarrow> v = V_Null \<or> (\<exists>x. v = V_UInt32 x)"
  "fits T_UInt64 v \<Longrightarrow> v = V_Null \<or> (\<exists>x. v = V_UInt64 x)"
  "fits T_Float32 v \<Longrightarrow> v = V_Null \<or> (\<exists>x. v = V_Float32 x)"
  "fits T_Float64 v \<Longrightarrow> v = V_Null \<or> (\<exists>x. v = V_Float64 x)"
  "fits T_Utf8 v \<Longrightarrow> v = V_Null \<or> (\<exists>x. v = V_Utf8 x)"
  "fits T_Binary v \<Longrightarrow> v = V_Null \<or> (\<exists>x. v = V_Binary x)"
  "fits T_Date32 v \<Longrightarrow> v = V_Null \<or> (\<exists>x. v = V_Date32 x)"
  by (cases v; simp add: fits_def)+

lemma fits_simps [simp]:
  "fits t (V_Boolean a) \<longleftrightarrow> t = T_Boolean" "fits t (V_Int8 b) \<longleftrightarrow> t = T_Int8"
  "fits t (V_Int16 c) \<longleftrightarrow> t = T_Int16" "fits t (V_Int32 d) \<longleftrightarrow> t = T_Int32"
  "fits t (V_Int64 e) \<longleftrightarrow> t = T_Int64" "fits t (V_Float32 f) \<longleftrightarrow> t = T_Float32"
  "fits t (V_Float64 g) \<longleftrightarrow> t = T_Float64" "fits t (V_Utf8 h) \<longleftrightarrow> t = T_Utf8"
  "fits t (V_Date32 i) \<longleftrightarrow> t = T_Date32" "fits t (V_Binary j) \<longleftrightarrow> t = T_Binary"
  by (auto simp: fits_def)

lemmas cell_defs = math_arm_def as_i8_def as_i16_def as_i32_def as_i64_def as_f32_def as_f64_def

lemma div_signed_outcome: "outcome data_panic (\<lambda>_. True) (div_signed a b)"
  by (simp add: div_signed_def)

lemma int_kernel_outcome: "outcome (allowed (op \<noteq> Op_Divide)) (\<lambda>_. True) (int_kernel op a b)"
  using div_signed_outcome [of a b]
  by (cases op) (auto simp: int_kernel_def allowed_def elim!: outcome_mono)

lemma math_cell_outcome:
  assumes "t \<in> set math_types" "fits t l" "fits t r"
  shows "outcome (allowed (op = Op_Divide \<longrightarrow> t \<in> {T_Float32, T_Float64})) (fits t)
           (math_evaluate_cell op l r t)"
proof (cases "l = V_Null \<or> r = V_Null")
  case True
  then show ?thesis by (auto simp: math_evaluate_cell_def)
next
  case False
  have k: "outcome (allowed (op \<noteq> Op_Divide)) (\<lambda>x. True) (int_kernel op a b)" for a b :: "'a::len word"
    by (rule int_kernel_outcome)
  have i8: "outcome (allowed (op \<noteq> Op_Divide)) (fits T_Int8) (map_res V_Int8 (int_kernel op a b))" for a b
    using k [of a b] by (simp add: outcome_map_res)
  have i16: "outcome (allowed (op \<noteq> Op_Divide)) (fits T_Int16) (map_res V_Int16 (int_kernel op a b))" for a b
    using k [of a b] by (simp add: outcome_map_res)
  have i32: "outcome (allowed (op \<noteq> Op_Divide)) (fits T_Int32) (map_res V_Int32 (int_kernel op a b))" for a b
    using k [of a b] by (simp add: outcome_map_res)
  have i64: "outcome (allowed (op \<noteq> Op_Divide)) (fits T_Int64) (map_res V_Int64 (int_kernel op a b))" for a b
    using k [of a b] by (simp add: outcome_map_res)
  show ?thesis
    using assms False i8 i16 i32 i64
    by (auto simp: math_types_def math_evaluate_cell_def cell_defs f32_kernel_def f64_kernel_def
        dest!: fits_inv)
qed

lemma compare_typed_outcome:
  assumes "t \<in> set compare_types" "fits t l" "fits t r"
  shows "outcome (\<lambda>_. False) (\<lambda>_. True) (compare_typed op l r t)"
  using assms
  by (auto simp: compare_types_def compare_typed_def cmp_arm_def as_opt_def as_opt_str_def
      dest!: fits_inv)

lemma as_opt_bool_outcome:
  "t \<in> set logic_types \<Longrightarrow> fits t v \<Longrightarrow> outcome (\<lambda>_. False) (\<lambda>_. True) (as_opt_bool v)"
  by (auto simp: logic_types_def as_opt_bool_def dest!: fits_inv)

lemma compare_value_outcome:
  assumes "bool_type op t t = Some u" "fits t l" "fits t r"
  shows "outcome (\<lambda>_. False) (\<lambda>_. True) (compare_value op l r t)"
proof (cases "op = Op_And \<or> op = Op_Or")
  case True
  then have "t \<in> set logic_types" using assms(1) by (auto simp: bool_type_def split: if_splits)
  then have "outcome (\<lambda>_. False) (\<lambda>_. True) (as_opt_bool l)" "outcome (\<lambda>_. False) (\<lambda>_. True) (as_opt_bool r)"
    using assms by (auto intro: as_opt_bool_outcome)
  then show ?thesis using True by (auto simp: outcome_never compare_value_def)
next
  case False
  then have "t \<in> set compare_types" using assms(1) by (auto simp: bool_type_def split: if_splits)
  then have "outcome (\<lambda>_. False) (\<lambda>_. True) (compare_typed op l r t)"
    using assms by (intro compare_typed_outcome)
  then show ?thesis using False by (cases op) (auto simp: compare_value_def)
qed

lemma bool_cell_fits [simp]: "fits T_Boolean (bool_cell b)"
  by (auto simp: bool_cell_def split: option.splits)

lemma parse_outcome:
  "data_panic (Panicked m) \<Longrightarrow> outcome data_panic (\<lambda>_. True) (parse_trimmed m p s)"
  by (cases "p (trim s)") (auto simp: parse_trimmed_def)

lemma outside_outcome:
  "outcome data_panic (\<lambda>_. True) r \<Longrightarrow>
     outcome data_panic (\<lambda>_. True) (and_then r (\<lambda>t. if t = None then Ok None else Panic outside_model))"
  by (cases r) auto

lemma utf8_chars_outcome: "outcome data_panic (\<lambda>_. True) (utf8_chars ns)"
proof (induction ns rule: length_induct)
  case (1 ns)
  show ?case
  proof (cases ns)
    case (Cons a r)
    have IH: "length m \<le> length r \<Longrightarrow> outcome data_panic (\<lambda>_. True) (utf8_chars m)" for m
      using 1 Cons by auto
    show ?thesis
    proof (cases r)
      case Nil
      then show ?thesis unfolding Cons by (subst utf8_chars.simps(2)) (auto simp: outcome_map_res)
    next
      case r: (Cons b r2)
      have o: "outcome data_panic (\<lambda>_. True) (utf8_chars r)" "outcome data_panic (\<lambda>_. True) (utf8_chars r2)"
        "\<And>c r3. r2 = c # r3 \<Longrightarrow> outcome data_panic (\<lambda>_. True) (utf8_chars r3)"
        "\<And>c d r4. r2 = c # d # r4 \<Longrightarrow> outcome data_panic (\<lambda>_. True) (utf8_chars r4)"
        using IH r by auto
      show ?thesis unfolding Cons
        by (subst utf8_chars.simps(2))
          (use o in \<open>auto simp: r outcome_map_res split: list.split intro: outside_outcome\<close>)
    qed
  qed simp
qed

lemma from_utf8_lossy_outcome: "outcome data_panic (\<lambda>_. True) (from_utf8_lossy b)"
  unfolding from_utf8_lossy_def from_utf8_def
  by (rule outcome_and_then [OF utf8_chars_outcome]) (auto split: option.splits)

lemma parse_bytes_outcome:
  "data_panic (Panicked m) \<Longrightarrow>
     outcome data_panic (\<lambda>_. True) (and_then (from_utf8_lossy b) (parse_trimmed m p))"
  by (rule outcome_and_then [OF from_utf8_lossy_outcome]) (rule parse_outcome)

lemma show_cell_outcome:
  "outcome (\<lambda>p. (\<exists>b. v = V_Binary b) \<and> data_panic p) (\<lambda>_. True) (show_cell v)"
  using from_utf8_lossy_outcome by (cases v) (auto simp: show_cell_def)

lemma data_panic_msgs [simp]:
  "data_panic (Panicked ''cannot cast string to integer'')"
  "data_panic (Panicked ''cannot cast bytes to integer'')"
  "data_panic (Panicked ''cannot cast string to float'')"
  "data_panic (Panicked ''cannot cast bytes to float'')"
  "data_panic (Panicked ''cannot cast string to double'')"
  "data_panic (Panicked ''cannot cast bytes to double'')"
  by (simp_all add: data_panic_def)

lemma to_number_outcome:
  assumes "s \<in> set number_types \<or> s = T_Utf8 \<or> s = T_Binary" "fits s v" "v \<noteq> V_Null"
  shows "outcome (\<lambda>p. (s = T_Utf8 \<or> s = T_Binary) \<and> data_panic p) (\<lambda>_. True) (to_i64 v)"
    "outcome (\<lambda>p. (s = T_Utf8 \<or> s = T_Binary) \<and> data_panic p) (\<lambda>_. True) (to_f32 v)"
    "outcome (\<lambda>p. (s = T_Utf8 \<or> s = T_Binary) \<and> data_panic p) (\<lambda>_. True) (to_f64 v)"
  using assms
  by (auto simp: number_types_def to_i64_def to_f32_def to_f64_def dest!: fits_inv
      intro!: parse_outcome parse_bytes_outcome)

lemma cast_cell_outcome:
  assumes "castable s t" "fits s v"
  shows "outcome (allowed (cast_total s t)) (fits t) (cast_cell t v)"
proof (cases "v = V_Null")
  case False
  consider (num) "t \<in> set math_types" "s \<in> set number_types \<or> s = T_Utf8 \<or> s = T_Binary"
    | (str) "t = T_Utf8" "supported s" using assms(1) by (auto simp: castable_def)
  then show ?thesis
  proof cases
    case num
    have al: "(s = T_Utf8 \<or> s = T_Binary) \<and> data_panic p \<Longrightarrow> allowed (cast_total s t) p" for p
      using num(1) by (auto simp: allowed_def cast_total_def math_types_def)
    have o: "outcome (allowed (cast_total s t)) (\<lambda>_. True) (to_i64 v)"
      "outcome (allowed (cast_total s t)) (\<lambda>_. True) (to_f32 v)"
      "outcome (allowed (cast_total s t)) (\<lambda>_. True) (to_f64 v)"
      by (rule outcome_mono [OF to_number_outcome(1) [OF num(2) assms(2) False] al], assumption, simp)
        (rule outcome_mono [OF to_number_outcome(2) [OF num(2) assms(2) False] al], assumption, simp,
         rule outcome_mono [OF to_number_outcome(3) [OF num(2) assms(2) False] al], assumption, simp)
    show ?thesis using num(1) False o
      by (auto simp: math_types_def cast_cell_def outcome_map_res)
  next
    case str
    have "v = V_Binary b \<Longrightarrow> s = T_Binary" for b using assms(2) by (auto simp: fits_def)
    then have al: "(\<exists>b. v = V_Binary b) \<and> data_panic p \<Longrightarrow> allowed (cast_total s t) p" for p
      by (auto simp: allowed_def cast_total_def)
    show ?thesis using str(1) False outcome_mono [OF show_cell_outcome al]
      by (auto simp: cast_cell_def outcome_map_res scalar_to_string_def)
  qed
qed (simp add: cast_cell_def)

lemma number_to_f64_outcome:
  "s \<in> set number_types \<Longrightarrow> fits s v \<Longrightarrow> v \<noteq> V_Null \<Longrightarrow> outcome (\<lambda>_. False) (\<lambda>_. True) (number_to_f64 v)"
  by (auto simp: number_types_def number_to_f64_def dest!: fits_inv)

lemma number_to_i64_outcome:
  "s \<in> set (T_Date32 # number_types) \<Longrightarrow> fits s v \<Longrightarrow> v \<noteq> V_Null \<Longrightarrow>
     outcome (\<lambda>_. False) (\<lambda>_. True) (number_to_i64 v)"
  by (auto simp: number_types_def number_to_i64_def dest!: fits_inv)

section \<open>Columns\<close>

definition good_col :: "DataType \<Rightarrow> nat \<Rightarrow> ColumnVector \<Rightarrow> bool" where
  "good_col t n c = (cv_wf c \<and> cv_type c = t \<and> cv_len c = n)"

lemma good_col_value: "good_col t n c \<Longrightarrow> i < n \<Longrightarrow> outcome (\<lambda>_. False) (fits t) (cv_value c i)"
  unfolding outcome_never good_col_def using cv_wf_value by blast

lemma good_rows:
  assumes "supported t" and "\<And>i. i < n \<Longrightarrow> outcome P (fits t) (f i)"
  shows "outcome P (good_col t n) (map_res Arrow_Field (build_rows t n f))"
  using build_rows_outcome [of t n P f] assms
  by (auto simp: outcome_map_res good_col_def elim!: outcome_mono)

lemma never_any: "outcome (\<lambda>_. False) Q r \<Longrightarrow> outcome P Q r"
  by (erule outcome_mono) auto

lemma zip_cells_outcome:
  assumes "good_col s n l" "good_col t n r" "i < n"
    and "\<And>a b. fits s a \<Longrightarrow> fits t b \<Longrightarrow> outcome P Q (f a b)"
  shows "outcome P Q (zip_cells f l r i)"
  unfolding zip_cells_def
  by (rule outcome_and_then [OF never_any [OF good_col_value [OF assms(1,3)]]],
      rule outcome_and_then [OF never_any [OF good_col_value [OF assms(2,3)]]], rule assms(4))

lemma map_cells_outcome:
  assumes "good_col s n c" "i < n" and "\<And>a. fits s a \<Longrightarrow> outcome P Q (f a)"
  shows "outcome P Q (and_then (cv_value c i) f)"
  by (rule outcome_and_then [OF never_any [OF good_col_value [OF assms(1,2)]]]) (rule assms(3))

lemma math_pair_outcome:
  assumes "t \<in> set math_types" "good_col t n l" "good_col t n r"
  shows "outcome (allowed (op = Op_Divide \<longrightarrow> t \<in> {T_Float32, T_Float64})) (good_col t n)
           (math_evaluate_pair op l r)"
proof -
  have sup: "supported t" using assms(1) by (auto simp: math_types_def supported_def)
  have tl: "cv_type l = t" "cv_len l = n" using assms(2) by (auto simp: good_col_def)
  show ?thesis unfolding math_evaluate_pair_def tl
    by (rule good_rows [OF sup])
      (rule zip_cells_outcome [OF assms(2,3)], assumption, rule math_cell_outcome [OF assms(1)])
qed

lemma coerce_good:
  "good_col s n c \<Longrightarrow> s \<in> set number_types \<Longrightarrow> good_col T_Float64 n (coerce_to_double c)"
  by (auto simp: good_col_def coerce_to_double_def number_types_def)

lemma number_types_numeric: "s \<in> set number_types \<Longrightarrow> is_numeric s"
  by (auto simp: number_types_def is_numeric_def)

lemma evaluate_binary_outcome:
  assumes "good_col s n l" "good_col t n r" "math_type s t = Some u"
  shows "outcome (allowed (op = Op_Divide \<longrightarrow> u \<in> {T_Float32, T_Float64})) (good_col u n)
           (evaluate_binary op l r)"
proof (cases "s = t")
  case True
  then show ?thesis using assms math_pair_outcome [of u n l r op]
    by (auto simp: evaluate_binary_def math_type_def good_col_def split: if_splits)
next
  case False
  then have n: "s \<in> set number_types" "t \<in> set number_types" "u = T_Float64"
    using assms(3) by (auto simp: math_type_def split: if_splits)
  then have "good_col u n (coerce_to_double l)" "good_col u n (coerce_to_double r)"
    using coerce_good assms(1,2) by auto
  moreover have "u \<in> set math_types" using n by (simp add: math_types_def)
  ultimately have o: "outcome (allowed (op = Op_Divide \<longrightarrow> u \<in> {T_Float32, T_Float64})) (good_col u n)
     (math_evaluate_pair op (coerce_to_double l) (coerce_to_double r))"
    by (intro math_pair_outcome)
  have c: "cv_len l = cv_len r" "cv_type l \<noteq> cv_type r" "is_numeric (cv_type l)" "is_numeric (cv_type r)"
    using assms(1,2) False n number_types_numeric by (auto simp: good_col_def)
  then show ?thesis using o by (simp add: evaluate_binary_def coerce_types_def)
qed

lemma evaluate_boolean_outcome:
  assumes "good_col s n l" "good_col t n r" "bool_type op s t = Some u"
  shows "outcome (\<lambda>_. False) (good_col u n) (evaluate_boolean op l r)"
proof -
  have st: "s = t" "u = T_Boolean" using assms(3) by (auto simp: bool_type_def split: if_splits)
  have l: "cv_type l = s" "cv_len l = n" and r: "cv_type r = s" "cv_len r = n"
    using assms(1,2) st by (auto simp: good_col_def)
  have cell: "outcome (\<lambda>_. False) (fits T_Boolean) (map_res bool_cell (compare_value op a b s))"
    if "fits s a" "fits t b" for a b
    using compare_value_outcome [of op s u a b] that assms(3) st by (auto simp: outcome_map_res)
  have "outcome (\<lambda>_. False) (good_col T_Boolean n) (map_res Arrow_Field (build_rows T_Boolean n
             (zip_cells (\<lambda>a b. map_res bool_cell (compare_value op a b s)) l r)))"
    by (rule good_rows) (simp add: supported_def, rule zip_cells_outcome [OF assms(1,2)], assumption, rule cell)
  then show ?thesis by (simp add: evaluate_boolean_def l r st)
qed

lemma evaluate_cast_outcome:
  assumes "good_col s n c" "castable s t"
  shows "outcome (allowed (cast_total s t)) (good_col t n) (evaluate_cast t c)"
proof -
  have sup: "supported t" using assms(2) by (auto simp: castable_def math_types_def supported_def)
  have c: "cv_len c = n" using assms(1) by (simp add: good_col_def)
  show ?thesis unfolding evaluate_cast_def c
    by (rule good_rows [OF sup])
      (rule map_cells_outcome [OF assms(1)], assumption, rule cast_cell_outcome [OF assms(2)])
qed

lemma evaluate_unary_outcome:
  assumes "good_col s n c" "s \<in> set number_types"
  shows "outcome (\<lambda>_. False) (good_col T_Float64 n) (evaluate_unary f c)"
proof -
  have c: "cv_len c = n" using assms(1) by (simp add: good_col_def)
  have cell: "outcome (\<lambda>_. False) (fits T_Float64)
      (if is_null a then Ok V_Null else map_res (\<lambda>x. V_Float64 (f x)) (number_to_f64 a))"
    if "fits s a" for a
    using number_to_f64_outcome [OF assms(2) that] by (auto simp: is_null_def outcome_map_res)
  show ?thesis unfolding evaluate_unary_def c
    by (rule good_rows) (simp add: supported_def, rule map_cells_outcome [OF assms(1)], assumption, rule cell)
qed

lemma date_interval_outcome:
  assumes "good_col s n l" "good_col t n r" "date_type s t = Some u"
    and f: "\<And>a b. outcome data_panic (\<lambda>_. True) (f a b)"
  shows "outcome data_panic (good_col u n) (date_interval f l r)"
proof -
  have st: "s \<in> set (T_Date32 # number_types)" "t \<in> set (T_Date32 # number_types)" "u = T_Date32"
    using assms(3) by (auto simp: date_type_def split: if_splits)
  have l: "cv_len l = n" using assms(1) by (simp add: good_col_def)
  have cell: "outcome data_panic (fits T_Date32) (date_cell f a b)" if "fits s a" "fits t b" for a b
  proof (cases "a = V_Null \<or> b = V_Null")
    case False
    then have "\<exists>x. number_to_i64 a = Ok x" "\<exists>y. number_to_i64 b = Ok y"
      using number_to_i64_outcome [OF st(1) that(1)] number_to_i64_outcome [OF st(2) that(2)]
      by (auto simp: outcome_never)
    then show ?thesis using False f by (auto simp: date_cell_def outcome_map_res)
  qed (auto simp: date_cell_def)
  show ?thesis unfolding date_interval_def l st(3)
    by (rule good_rows) (simp add: supported_def, rule zip_cells_outcome [OF assms(1,2)], assumption, rule cell)
qed

lemma checked_word_outcome: "outcome data_panic (\<lambda>_. True) (checked_word i)"
  by (simp add: checked_word_def)

section \<open>Soundness\<close>

abbreviation batch_types :: "RecordBatch \<Rightarrow> DataType list" where
  "batch_types b \<equiv> List.map arr_type (rb_columns b)"

lemma evaluate_outcome:
  assumes "batch_wf b" "expr_type (batch_types b) e = Some t"
  shows "outcome (allowed (total_expr (batch_types b) e)) (good_col t (rb_rows b)) (evaluate E e b)"
  using assms(2)
proof (induction e arbitrary: t)
  case (Column_Expr i)
  then show ?case using batch_field_wf [OF assms(1), of i]
    by (auto simp: good_col_def column_count_def split: if_splits)
next
  case (Cast_Expr e u)
  then obtain s where s: "expr_type (batch_types b) e = Some s" "castable s u" "u = t"
    by (auto split: option.splits if_splits)
  show ?case unfolding evaluate.simps s(3)
    by (rule outcome_and_then [OF outcome_mono [OF Cast_Expr.IH [OF s(1)]]])
      (use s in \<open>auto simp: allowed_def elim!: outcome_mono [OF evaluate_cast_outcome]\<close>)
next
  case (Math_Expr op l r)
  then obtain x y where s: "expr_type (batch_types b) l = Some x" "expr_type (batch_types b) r = Some y"
    "math_type x y = Some t" by (auto simp: opt2_Some)
  show ?case unfolding evaluate.simps
    by (rule outcome_and_then [OF outcome_mono [OF Math_Expr.IH(1) [OF s(1)]]],
        simp add: allowed_def, assumption,
        rule outcome_and_then [OF outcome_mono [OF Math_Expr.IH(2) [OF s(2)]]],
        simp add: allowed_def, assumption,
        rule outcome_mono [OF evaluate_binary_outcome [OF _ _ s(3)]])
      (use s in \<open>auto simp: allowed_def opt2_def\<close>)
next
  case (Boolean_Expr op l r)
  then obtain x y where s: "expr_type (batch_types b) l = Some x" "expr_type (batch_types b) r = Some y"
    "bool_type op x y = Some t" by (auto simp: opt2_Some)
  show ?case unfolding evaluate.simps
    by (rule outcome_and_then [OF outcome_mono [OF Boolean_Expr.IH(1) [OF s(1)]]],
        simp add: allowed_def, assumption,
        rule outcome_and_then [OF outcome_mono [OF Boolean_Expr.IH(2) [OF s(2)]]],
        simp add: allowed_def, assumption,
        rule never_any [OF evaluate_boolean_outcome [OF _ _ s(3)]])
next
  case (Sqrt_Expr e)
  then obtain s where s: "expr_type (batch_types b) e = Some s" "s \<in> set number_types" "t = T_Float64"
    by (auto split: option.splits if_splits)
  show ?case unfolding evaluate.simps s(3)
    by (rule outcome_and_then [OF outcome_mono [OF Sqrt_Expr.IH [OF s(1)]]],
        simp add: allowed_def, assumption, rule never_any [OF evaluate_unary_outcome [OF _ s(2)]])
next
  case (Log_Expr e)
  then obtain s where s: "expr_type (batch_types b) e = Some s" "s \<in> set number_types" "t = T_Float64"
    by (auto split: option.splits if_splits)
  show ?case unfolding evaluate.simps s(3)
    by (rule outcome_and_then [OF outcome_mono [OF Log_Expr.IH [OF s(1)]]],
        simp add: allowed_def, assumption, rule never_any [OF evaluate_unary_outcome [OF _ s(2)]])
next
  case (Date_Subtract_Interval l r)
  then obtain x y where s: "expr_type (batch_types b) l = Some x" "expr_type (batch_types b) r = Some y"
    "date_type x y = Some t" by (auto simp: opt2_Some)
  show ?case unfolding evaluate.simps
    by (rule outcome_and_then [OF outcome_mono [OF Date_Subtract_Interval.IH(1) [OF s(1)]]],
        simp add: allowed_def, assumption,
        rule outcome_and_then [OF outcome_mono [OF Date_Subtract_Interval.IH(2) [OF s(2)]]],
        simp add: allowed_def, assumption,
        rule outcome_mono [OF date_interval_outcome [OF _ _ s(3)]])
      (auto simp: allowed_def sub_i32_def intro: checked_word_outcome)
next
  case (Date_Add_Interval l r)
  then obtain x y where s: "expr_type (batch_types b) l = Some x" "expr_type (batch_types b) r = Some y"
    "date_type x y = Some t" by (auto simp: opt2_Some)
  show ?case unfolding evaluate.simps
    by (rule outcome_and_then [OF outcome_mono [OF Date_Add_Interval.IH(1) [OF s(1)]]],
        simp add: allowed_def, assumption,
        rule outcome_and_then [OF outcome_mono [OF Date_Add_Interval.IH(2) [OF s(2)]]],
        simp add: allowed_def, assumption,
        rule outcome_mono [OF date_interval_outcome [OF _ _ s(3)]])
      (auto simp: allowed_def add_i32_def intro: checked_word_outcome)
qed (auto simp: good_col_def row_count_def supported_def)

section \<open>Properties\<close>

text \<open>C19: Type soundness of expression evaluation.  On a well-formed batch, evaluating an
  expression of static type @t@ either returns a well-formed column of type @t@ with one cell
  per row of the batch, or panics for a reason that lies in the data (division by zero,
  MIN / -1, a date out of range, unparsable text); an expression built without those
  operations never panics.\<close>

theorem evaluate_sound:
  assumes "batch_wf b" "expr_type (batch_types b) e = Some t"
  shows "case evaluate E e b of
      Ok c \<Rightarrow> cv_wf c \<and> cv_type c = t \<and> cv_len c = rb_rows b
    | Panic p \<Rightarrow> \<not> total_expr (batch_types b) e \<and> data_panic p"
  using evaluate_outcome [OF assms, of E]
  by (auto simp: outcome_def good_col_def allowed_def split: res.splits)

definition sample_batch :: RecordBatch where
  "sample_batch = \<lparr>rb_schema = to_arrow (new_schema [new_field ''id'' T_Int32, new_field ''name'' T_Utf8]),
     rb_columns = [\<lparr>arr_type = T_Int32, arr_cells = [V_Int32 7, V_Null, V_Int32 9]\<rparr>,
                   \<lparr>arr_type = T_Utf8, arr_cells = [V_Utf8 ''a'', V_Utf8 ''b'', V_Null]\<rparr>],
     rb_rows = 3\<rparr>"

lemma sample_batch_wf: "batch_wf sample_batch"
  by (simp add: sample_batch_def batch_wf_def array_wf_def supported_def new_field_def
      to_arrow_def field_to_arrow_def)

theorem evaluate_sound_witness:
  "case evaluate ref_env (Boolean_Expr Op_Gt (Cast_Expr (Column_Expr 0) T_Int64) (Literal_Long 8)) sample_batch of
      Ok c \<Rightarrow> cv_wf c \<and> cv_type c = T_Boolean \<and> cv_len c = 3
    | Panic p \<Rightarrow> False"
proof -
  let ?e = "Boolean_Expr Op_Gt (Cast_Expr (Column_Expr 0) T_Int64) (Literal_Long 8)"
  have "expr_type (batch_types sample_batch) ?e = Some T_Boolean"
    "total_expr (batch_types sample_batch) ?e" "rb_rows sample_batch = 3"
    by (simp_all add: sample_batch_def castable_def math_types_def number_types_def opt2_def
        bool_type_def compare_types_def cast_total_def)
  then show ?thesis using evaluate_sound [OF sample_batch_wf, of ?e T_Boolean ref_env]
    by (auto split: res.splits)
qed

definition truth_rank :: "bool option \<Rightarrow> nat" where
  "truth_rank b = (case b of Some False \<Rightarrow> 0 | None \<Rightarrow> 1 | Some True \<Rightarrow> 2)"

definition not3 :: "bool option \<Rightarrow> bool option" where
  "not3 b = map_option Not b"

text \<open>The logical operators are SQL's three-valued logic: on the truth order
  FALSE < UNKNOWN < TRUE, @and3@ is the minimum and @or3@ the maximum of its operands, so
  each is commutative, associative and idempotent, and they are De Morgan duals.\<close>

lemma kleene_logic:
  "truth_rank (and3 a b) = min (truth_rank a) (truth_rank b)
   \<and> truth_rank (or3 a b) = max (truth_rank a) (truth_rank b)
   \<and> not3 (and3 a b) = or3 (not3 a) (not3 b)"
  by (cases a; cases b; cases "the a"; cases "the b") (auto simp: truth_rank_def not3_def)

definition lift_cmp :: "('a \<Rightarrow> 'a \<Rightarrow> 'b) \<Rightarrow> 'a option \<Rightarrow> 'a option \<Rightarrow> 'b option" where
  "lift_cmp c a b = (case (a, b) of (Some x, Some y) \<Rightarrow> Some (c x y) | _ \<Rightarrow> None)"

lemma lift_cmp_None [simp]: "lift_cmp c a b = None \<longleftrightarrow> a = None \<or> b = None"
  by (auto simp: lift_cmp_def split: option.splits)

lemma cmp_arm_lift:
  "sel l = Ok a \<Longrightarrow> sel r = Ok b \<Longrightarrow> cmp_arm sel c op l r = Ok (map_option (op_holds op) (lift_cmp c a b))"
  by (auto simp: cmp_arm_def cmp_opt_def lift_cmp_def split: option.splits)

lemma as_opt_sel:
  "v = V_Null \<or> sel v \<noteq> None \<Longrightarrow> \<exists>a. as_opt m sel v = Ok a \<and> (a = None \<longleftrightarrow> is_null v)"
  by (auto simp: as_opt_def is_null_def)

lemma as_opt_arm:
  assumes "l = V_Null \<or> sel l \<noteq> None" "r = V_Null \<or> sel r \<noteq> None"
    and "\<And>op. op \<noteq> Op_And \<Longrightarrow> op \<noteq> Op_Or \<Longrightarrow> f op = cmp_arm (as_opt m sel) c op l r"
  shows "\<exists>z. (z = None \<longleftrightarrow> is_null l \<or> is_null r) \<and>
     (\<forall>op. op \<noteq> Op_And \<longrightarrow> op \<noteq> Op_Or \<longrightarrow> f op = Ok (map_option (op_holds op) z))"
proof -
  obtain a b where "as_opt m sel l = Ok a" "a = None \<longleftrightarrow> is_null l"
    "as_opt m sel r = Ok b" "b = None \<longleftrightarrow> is_null r"
    using as_opt_sel assms(1,2) by metis
  then show ?thesis using assms(3)
    by (intro exI [of _ "lift_cmp c a b"]) (auto simp: cmp_arm_lift)
qed

lemma compare_value_comparison:
  "op \<noteq> Op_And \<Longrightarrow> op \<noteq> Op_Or \<Longrightarrow> compare_value op l r t = compare_typed op l r t"
  by (cases op) (simp_all add: compare_value_def)

lemma compare_ordering:
  assumes "t \<in> set compare_types" "fits t l" "fits t r"
  shows "\<exists>z. (z = None \<longleftrightarrow> is_null l \<or> is_null r) \<and>
     (\<forall>op. op \<noteq> Op_And \<longrightarrow> op \<noteq> Op_Or \<longrightarrow> compare_value op l r t = Ok (map_option (op_holds op) z))"
proof (cases "t = T_Utf8")
  case True
  then obtain a b where "as_opt_str l = Ok a" "a = None \<longleftrightarrow> is_null l"
    "as_opt_str r = Ok b" "b = None \<longleftrightarrow> is_null r"
    using assms(2,3) by (auto simp: as_opt_str_def dest!: fits_inv)
  then show ?thesis using True
    by (intro exI [of _ "lift_cmp (\<lambda>x y. Some (cmp_string x y)) a b"])
      (auto simp: compare_value_comparison compare_typed_def cmp_arm_lift)
next
  case False
  consider "t = T_Int8" | "t = T_Int16" | "t = T_Int32" | "t = T_Int64" | "t = T_Float32"
    | "t = T_Float64" | "t = T_Date32" using assms(1) False by (auto simp: compare_types_def)
  then show ?thesis
  proof cases
    case 1
    show ?thesis unfolding 1 using assms(2,3) unfolding 1
      by (intro as_opt_arm [where sel = sel_i8 and m = "''expected Int8''" and c = "\<lambda>x y. Some (cmp_signed x y)"])
        (auto simp: compare_value_comparison compare_typed_def dest!: fits_inv)
  next
    case 2
    show ?thesis unfolding 2 using assms(2,3) unfolding 2
      by (intro as_opt_arm [where sel = sel_i16 and m = "''expected Int16''" and c = "\<lambda>x y. Some (cmp_signed x y)"])
        (auto simp: compare_value_comparison compare_typed_def dest!: fits_inv)
  next
    case 3
    show ?thesis unfolding 3 using assms(2,3) unfolding 3
      by (intro as_opt_arm [where sel = sel_i32 and m = "''expected Int32''" and c = "\<lambda>x y. Some (cmp_signed x y)"])
        (auto simp: compare_value_comparison compare_typed_def dest!: fits_inv)
  next
    case 4
    show ?thesis unfolding 4 using assms(2,3) unfolding 4
      by (intro as_opt_arm [where sel = sel_i64 and m = "''expected Int64''" and c = "\<lambda>x y. Some (cmp_signed x y)"])
        (auto simp: compare_value_comparison compare_typed_def dest!: fits_inv)
  next
    case 5
    show ?thesis unfolding 5 using assms(2,3) unfolding 5
      by (intro as_opt_arm [where sel = sel_f32 and m = "''expected Float32''" and c = "f32_partial_cmp"])
        (auto simp: compare_value_comparison compare_typed_def dest!: fits_inv)
  next
    case 6
    show ?thesis unfolding 6 using assms(2,3) unfolding 6
      by (intro as_opt_arm [where sel = sel_f64 and m = "''expected Float64''" and c = "f64_partial_cmp"])
        (auto simp: compare_value_comparison compare_typed_def dest!: fits_inv)
  next
    case 7
    show ?thesis unfolding 7 using assms(2,3) unfolding 7
      by (intro as_opt_arm [where sel = sel_date and m = "''expected Date32''" and c = "\<lambda>x y. Some (cmp_signed x y)"])
        (auto simp: compare_value_comparison compare_typed_def dest!: fits_inv)
  qed
qed

text \<open>C27: A comparison of two cells of one comparable type never panics, is UNKNOWN exactly when
  an operand is NULL (SQL null propagation), and otherwise @!=@ negates @=@, while @>=@ and
  @<@, @>@ and @<=@ exclude each other (both are false on a NaN).\<close>

theorem compare_null_propagation:
  assumes "t \<in> set compare_types" "fits t l" "fits t r"
  shows "(\<exists>eq ne lt ge gt le.
     compare_value Op_Eq l r t = Ok eq \<and> compare_value Op_Neq l r t = Ok ne \<and>
     compare_value Op_Lt l r t = Ok lt \<and> compare_value Op_GtEq l r t = Ok ge \<and>
     compare_value Op_Gt l r t = Ok gt \<and> compare_value Op_LtEq l r t = Ok le \<and>
     (\<forall>c\<in>{eq, ne, lt, ge, gt, le}. c = None \<longleftrightarrow> is_null l \<or> is_null r) \<and>
     ne = not3 eq \<and> and3 lt ge \<noteq> Some True \<and> and3 gt le \<noteq> Some True \<and>
     le = or3 lt eq \<and> ge = or3 gt eq)"
proof -
  obtain z where z: "z = None \<longleftrightarrow> is_null l \<or> is_null r"
    "\<And>op. op \<noteq> Op_And \<Longrightarrow> op \<noteq> Op_Or \<Longrightarrow> compare_value op l r t = Ok (map_option (op_holds op) z)"
    using compare_ordering [OF assms] by blast
  show ?thesis unfolding z(1) [symmetric]
    by (cases z; cases "the z"; cases "the (the z)") (auto simp: z(2) op_holds_def not3_def)
qed

theorem compare_null_propagation_witness:
  "\<exists>eq. compare_value Op_Eq (V_Utf8 ''a'') V_Null T_Utf8 = Ok eq \<and> eq = None"
  using compare_null_propagation [of T_Utf8 "V_Utf8 ''a''" V_Null] by (auto simp: compare_types_def)

end
