(* ===== verification/Accumulators.thy ===== *)
theory Accumulators
  imports Expr_Typing "HOL-Library.Product_Lexorder"
begin

text \<open>
  Aggregate expressions and their accumulators (crate @physical-plan@: aggregate_expression,
  min/max/sum/avg/count_expression, and the @Accumulator@ trait of expressions).  The
  locale @partial_aggregation@ states the contract two-stage aggregation needs of an
  accumulator; it is interpreted on the accumulators that satisfy it.
\<close>

section \<open>Accumulators\<close>

datatype aggr_kind = Agg_Min | Agg_Max | Agg_Sum | Agg_Count | Agg_Avg

datatype phys_aggr = Aggr (aggr_fun: aggr_kind) (input_expression: phys_expr)

datatype AccumulatorValue = Scalar ScalarValue | Avg_State f64 "32 word"

datatype accumulator =
    Min_Acc ScalarValue
  | Max_Acc ScalarValue
  | Sum_Acc ScalarValue
  | Count_Acc "32 word"
  | Avg_Acc f64 "32 word"

definition new_accumulator :: "aggr_kind \<Rightarrow> accumulator" where
  "new_accumulator k = (case k of
      Agg_Min \<Rightarrow> Min_Acc V_Null
    | Agg_Max \<Rightarrow> Max_Acc V_Null
    | Agg_Sum \<Rightarrow> Sum_Acc V_Null
    | Agg_Count \<Rightarrow> Count_Acc 0
    | Agg_Avg \<Rightarrow> Avg_Acc 0 0)"

definition create_accumulator :: "phys_aggr \<Rightarrow> accumulator" where
  "create_accumulator a = new_accumulator (aggr_fun a)"

definition cmp_scalar :: "ScalarValue \<Rightarrow> ScalarValue \<Rightarrow> ordering option res" where
  "cmp_scalar a b = (case (a, b) of
      (V_Int8 x, V_Int8 y) \<Rightarrow> Ok (Some (cmp_signed x y))
    | (V_Int16 x, V_Int16 y) \<Rightarrow> Ok (Some (cmp_signed x y))
    | (V_Int32 x, V_Int32 y) \<Rightarrow> Ok (Some (cmp_signed x y))
    | (V_Int64 x, V_Int64 y) \<Rightarrow> Ok (Some (cmp_signed x y))
    | (V_UInt8 x, V_UInt8 y) \<Rightarrow> Ok (Some (cmp_unsigned x y))
    | (V_UInt16 x, V_UInt16 y) \<Rightarrow> Ok (Some (cmp_unsigned x y))
    | (V_UInt32 x, V_UInt32 y) \<Rightarrow> Ok (Some (cmp_unsigned x y))
    | (V_UInt64 x, V_UInt64 y) \<Rightarrow> Ok (Some (cmp_unsigned x y))
    | (V_Float32 x, V_Float32 y) \<Rightarrow> Ok (f32_partial_cmp x y)
    | (V_Float64 x, V_Float64 y) \<Rightarrow> Ok (f64_partial_cmp x y)
    | (V_Utf8 x, V_Utf8 y) \<Rightarrow> Ok (Some (cmp_string x y))
    | (V_Date32 x, V_Date32 y) \<Rightarrow> Ok (Some (cmp_signed x y))
    | _ \<Rightarrow> Panic (Panicked ''MIN/MAX is not implemented for type''))"

definition scalar_lt :: "ScalarValue \<Rightarrow> ScalarValue \<Rightarrow> bool res" where
  "scalar_lt a b = map_res (\<lambda>c. c = Some Less) (cmp_scalar a b)"

definition scalar_gt :: "ScalarValue \<Rightarrow> ScalarValue \<Rightarrow> bool res" where
  "scalar_gt a b = map_res (\<lambda>c. c = Some Greater) (cmp_scalar a b)"

definition scalar_add :: "ScalarValue \<Rightarrow> ScalarValue \<Rightarrow> ScalarValue res" where
  "scalar_add a b = (case (a, b) of
      (V_Int8 x, V_Int8 y) \<Rightarrow> Ok (V_Int8 (x + y))
    | (V_Int16 x, V_Int16 y) \<Rightarrow> Ok (V_Int16 (x + y))
    | (V_Int32 x, V_Int32 y) \<Rightarrow> Ok (V_Int32 (x + y))
    | (V_Int64 x, V_Int64 y) \<Rightarrow> Ok (V_Int64 (x + y))
    | (V_UInt8 x, V_UInt8 y) \<Rightarrow> Ok (V_UInt8 (x + y))
    | (V_UInt16 x, V_UInt16 y) \<Rightarrow> Ok (V_UInt16 (x + y))
    | (V_UInt32 x, V_UInt32 y) \<Rightarrow> Ok (V_UInt32 (x + y))
    | (V_UInt64 x, V_UInt64 y) \<Rightarrow> Ok (V_UInt64 (x + y))
    | (V_Float32 x, V_Float32 y) \<Rightarrow> Ok (V_Float32 (f32_add x y))
    | (V_Float64 x, V_Float64 y) \<Rightarrow> Ok (V_Float64 (f64_add x y))
    | _ \<Rightarrow> Panic (Panicked ''SUM is not implemented for type''))"

definition min_accumulate :: "ScalarValue \<Rightarrow> ScalarValue \<Rightarrow> ScalarValue res" where
  "min_accumulate s v =
     (if is_null v then Ok s
      else if is_null s then Ok v
      else map_res (\<lambda>b. if b then v else s) (scalar_lt v s))"

definition max_accumulate :: "ScalarValue \<Rightarrow> ScalarValue \<Rightarrow> ScalarValue res" where
  "max_accumulate s v =
     (if is_null v then Ok s
      else if is_null s then Ok v
      else map_res (\<lambda>b. if b then v else s) (scalar_gt v s))"

definition sum_accumulate :: "ScalarValue \<Rightarrow> ScalarValue \<Rightarrow> ScalarValue res" where
  "sum_accumulate s v =
     (if is_null v then Ok s else if is_null s then Ok v else scalar_add s v)"

definition count_accumulate :: "32 word \<Rightarrow> ScalarValue \<Rightarrow> 32 word res" where
  "count_accumulate n v = (if is_null v then Ok n else add_i32 n 1)"

definition accumulate :: "accumulator \<Rightarrow> ScalarValue \<Rightarrow> accumulator res" where
  "accumulate acc v = (case acc of
      Min_Acc s \<Rightarrow> map_res Min_Acc (min_accumulate s v)
    | Max_Acc s \<Rightarrow> map_res Max_Acc (max_accumulate s v)
    | Sum_Acc s \<Rightarrow> map_res Sum_Acc (sum_accumulate s v)
    | Count_Acc n \<Rightarrow> map_res Count_Acc (count_accumulate n v)
    | Avg_Acc s n \<Rightarrow>
        if is_null v then Ok (Avg_Acc s n)
        else and_then (add_i32 n 1) (\<lambda>n'.
             and_then (number_to_f64 v) (\<lambda>x. Ok (Avg_Acc (f64_add s x) n'))))"

definition final_value :: "accumulator \<Rightarrow> ScalarValue" where
  "final_value acc = (case acc of
      Min_Acc s \<Rightarrow> s
    | Max_Acc s \<Rightarrow> s
    | Sum_Acc s \<Rightarrow> s
    | Count_Acc n \<Rightarrow> V_Int32 n
    | Avg_Acc s n \<Rightarrow> if n = 0 then V_Null else V_Float64 (f64_div s (f64_of_int (sint n))))"

definition intermediate_value :: "accumulator \<Rightarrow> AccumulatorValue" where
  "intermediate_value acc = (case acc of
      Avg_Acc s n \<Rightarrow> if n = 0 then Scalar V_Null else Avg_State s n
    | _ \<Rightarrow> Scalar (final_value acc))"

definition count_merge :: "32 word \<Rightarrow> ScalarValue \<Rightarrow> 32 word res" where
  "count_merge n v = (if is_null v then Ok n
     else and_then (number_to_i64 v) (\<lambda>m. add_i32 n (ucast m)))"

definition merge :: "accumulator \<Rightarrow> AccumulatorValue \<Rightarrow> accumulator res" where
  "merge acc other = (case acc of
      Count_Acc n \<Rightarrow> (case other of Scalar v \<Rightarrow> map_res Count_Acc (count_merge n v) | _ \<Rightarrow> Ok acc)
    | Avg_Acc s n \<Rightarrow> (case other of
          Avg_State t m \<Rightarrow> map_res (Avg_Acc (f64_add s t)) (add_i32 n m)
        | Scalar v \<Rightarrow> if is_null v then Ok acc else Panic (Panicked ''Cannot merge AVG with''))
    | _ \<Rightarrow> (case other of Scalar v \<Rightarrow> accumulate acc v | _ \<Rightarrow> Ok acc))"

definition show_aggr :: "env \<Rightarrow> phys_aggr \<Rightarrow> string" where
  "show_aggr E a = (case aggr_fun a of Agg_Min \<Rightarrow> ''MIN('' | Agg_Max \<Rightarrow> ''MAX('' | Agg_Sum \<Rightarrow> ''SUM(''
      | Agg_Count \<Rightarrow> ''COUNT('' | Agg_Avg \<Rightarrow> ''AVG('') @ show_phys_expr E (input_expression a) @ '')''"

section \<open>The contract of two-stage aggregation\<close>

text \<open>Folding values into a state, exporting a state and merging an exported state.  The
  laws: merging the export of the start state changes nothing, and merging after one more
  value was folded into the other side is folding that value in after the merge.  Both
  sides of the laws are results: a step that panics panics on both sides.\<close>

locale partial_aggregation =
  fixes init :: 's
    and step :: "'s \<Rightarrow> 'v \<Rightarrow> 's res"
    and export :: "'s \<Rightarrow> 'i"
    and join :: "'s \<Rightarrow> 'i \<Rightarrow> 's res"
    and inv :: "'s \<Rightarrow> bool"
    and valid :: "'v \<Rightarrow> bool"
  assumes inv_init: "inv init"
    and inv_step: "inv s \<Longrightarrow> valid v \<Longrightarrow> step s v = Ok s' \<Longrightarrow> inv s'"
    and join_init: "inv s \<Longrightarrow> join s (export init) = Ok s"
    and join_step: "inv s \<Longrightarrow> inv t \<Longrightarrow> valid v \<Longrightarrow>
      and_then (step t v) (\<lambda>t'. join s (export t')) = and_then (join s (export t)) (\<lambda>s'. step s' v)"
begin

lemma inv_fold: "inv s \<Longrightarrow> list_all valid vs \<Longrightarrow> fold_res step s vs = Ok s' \<Longrightarrow> inv s'"
proof (induction vs arbitrary: s)
  case (Cons v vs)
  then obtain t where "step s v = Ok t" "fold_res step t vs = Ok s'" by (auto simp: and_then_eq_Ok)
  then show ?case using Cons inv_step by auto
qed simp

text \<open>Merging a partial run into a state is continuing the run from that state.\<close>

lemma join_run:
  assumes "inv s" "list_all valid vs"
  shows "and_then (fold_res step init vs) (\<lambda>t. join s (export t)) = fold_res step s vs"
  using assms(2)
proof (induction vs rule: rev_induct)
  case Nil
  show ?case using assms(1) by (simp add: join_init)
next
  case (snoc v vs)
  then have IH: "and_then (fold_res step init vs) (\<lambda>t. join s (export t)) = fold_res step s vs"
    and v: "valid v" "list_all valid vs" by auto
  show ?case
  proof (cases "fold_res step init vs")
    case (Ok t)
    then have t: "inv t" using inv_fold inv_init v(2) by blast
    have "and_then (fold_res step init (vs @ [v])) (\<lambda>t. join s (export t))
          = and_then (step t v) (\<lambda>t'. join s (export t'))"
      using Ok by (simp add: fold_res_append)
    also have "\<dots> = and_then (join s (export t)) (\<lambda>s'. step s' v)"
      using join_step assms(1) t v(1) by blast
    also have "join s (export t) = fold_res step s vs" using IH Ok by simp
    finally show ?thesis by (simp add: fold_res_append)
  next
    case (Panic p)
    then have "fold_res step s vs = Panic p" using IH by simp
    then show ?thesis using Panic by (simp add: fold_res_append)
  qed
qed

text \<open>Two stages: each part is folded from the start state, then the exports are merged in
  order; the result is the single-stage fold over all parts.\<close>

definition two_stage :: "'v list list \<Rightarrow> 's res" where
  "two_stage parts =
     fold_res (\<lambda>s vs. and_then (fold_res step init vs) (\<lambda>t. join s (export t))) init parts"

lemma two_stage_from:
  "inv s \<Longrightarrow> list_all (list_all valid) parts \<Longrightarrow>
     fold_res (\<lambda>s vs. and_then (fold_res step init vs) (\<lambda>t. join s (export t))) s parts
     = fold_res step s (concat parts)"
proof (induction parts arbitrary: s)
  case (Cons vs parts)
  have eq: "and_then (fold_res step init vs) (\<lambda>t. join s (export t)) = fold_res step s vs"
    using join_run Cons.prems by simp
  show ?case
  proof (cases "fold_res step s vs")
    case (Ok s')
    then have "inv s'" using inv_fold Cons.prems by auto
    then show ?thesis using Cons eq Ok by (simp add: fold_res_append)
  qed (simp add: eq fold_res_append)
qed simp

lemma two_stage_eq: "list_all (list_all valid) parts \<Longrightarrow> two_stage parts = fold_res step init (concat parts)"
  unfolding two_stage_def by (rule two_stage_from) (simp_all add: inv_init)

end

section \<open>Order and addition of cells\<close>

definition not_float :: "ScalarValue \<Rightarrow> bool" where
  "not_float v = (scalar_type v \<noteq> T_Float32 \<and> scalar_type v \<noteq> T_Float64)"

definition ord_types :: "DataType list" where
  "ord_types = [T_Int8, T_Int16, T_Int32, T_Int64, T_UInt8, T_UInt16, T_UInt32, T_UInt64, T_Utf8, T_Date32]"

definition int_types :: "DataType list" where
  "int_types = [T_Int8, T_Int16, T_Int32, T_Int64, T_UInt8, T_UInt16, T_UInt32, T_UInt64]"

definition same_type_in :: "DataType list \<Rightarrow> ScalarValue \<Rightarrow> ScalarValue \<Rightarrow> bool" where
  "same_type_in ts a b = (scalar_type a = scalar_type b \<and> scalar_type a \<in> set ts)"

text \<open>The value a cell is ordered by.\<close>

definition scalar_key :: "ScalarValue \<Rightarrow> int \<times> string" where
  "scalar_key v = (case v of
      V_Int8 n \<Rightarrow> (sint n, []) | V_Int16 n \<Rightarrow> (sint n, []) | V_Int32 n \<Rightarrow> (sint n, [])
    | V_Int64 n \<Rightarrow> (sint n, []) | V_Date32 n \<Rightarrow> (sint n, [])
    | V_UInt8 n \<Rightarrow> (uint n, []) | V_UInt16 n \<Rightarrow> (uint n, []) | V_UInt32 n \<Rightarrow> (uint n, [])
    | V_UInt64 n \<Rightarrow> (uint n, []) | V_Utf8 s \<Rightarrow> (0, s) | _ \<Rightarrow> (0, []))"

definition key_ordering :: "ScalarValue \<Rightarrow> ScalarValue \<Rightarrow> ordering" where
  "key_ordering a b = (if scalar_key a < scalar_key b then Less
     else if scalar_key a = scalar_key b then Equal else Greater)"

lemma cmp_signed_sint:
  "cmp_signed a b = (if sint a < sint b then Less else if sint a = sint b then Equal else Greater)"
  by (auto simp: cmp_signed_def word_sless_alt signed_word_eqI)

lemma cmp_unsigned_uint:
  "cmp_unsigned a b = (if uint a < uint b then Less else if uint a = uint b then Equal else Greater)"
  by (auto simp: cmp_unsigned_def word_less_def unsigned_word_eqI)

lemma cmp_scalar_eq:
  assumes "not_float a" "a \<noteq> V_Null"
  shows "cmp_scalar a b = (if same_type_in ord_types a b then Ok (Some (key_ordering a b))
     else Panic (Panicked ''MIN/MAX is not implemented for type''))"
proof (cases "scalar_type a = scalar_type b")
  case True
  then show ?thesis using assms
    by (cases a; cases b)
      (simp_all add: cmp_scalar_def not_float_def same_type_in_def ord_types_def key_ordering_def
        scalar_key_def cmp_signed_sint cmp_unsigned_uint cmp_string_def)
next
  case False
  then show ?thesis using assms
    by (cases a; cases b) (simp_all add: cmp_scalar_def same_type_in_def)
qed

lemma scalar_key_inject:
  "same_type_in ord_types a b \<Longrightarrow> scalar_key a = scalar_key b \<longleftrightarrow> a = b"
  by (cases a; cases b) (auto simp: same_type_in_def ord_types_def scalar_key_def intro: signed_word_eqI unsigned_word_eqI)

lemma scalar_lt_eq:
  "not_float a \<Longrightarrow> a \<noteq> V_Null \<Longrightarrow> scalar_lt a b = (if same_type_in ord_types a b
     then Ok (scalar_key a < scalar_key b) else Panic (Panicked ''MIN/MAX is not implemented for type''))"
  by (simp add: scalar_lt_def cmp_scalar_eq key_ordering_def)

lemma scalar_gt_eq:
  "not_float a \<Longrightarrow> a \<noteq> V_Null \<Longrightarrow> scalar_gt a b = (if same_type_in ord_types a b
     then Ok (scalar_key b < scalar_key a) else Panic (Panicked ''MIN/MAX is not implemented for type''))"
  by (auto simp: scalar_gt_def cmp_scalar_eq key_ordering_def not_less)

lemma same_type_in_sym: "same_type_in ts a b = same_type_in ts b a"
  by (auto simp: same_type_in_def)

lemma same_type_in_trans: "same_type_in ts a b \<Longrightarrow> same_type_in ts b c = same_type_in ts a c"
  by (auto simp: same_type_in_def)

lemma scalar_add_eq:
  assumes "not_float a" "not_float b"
  shows "(same_type_in int_types a b \<and> (\<exists>c. scalar_add a b = Ok c \<and> scalar_type c = scalar_type a))
     \<or> (\<not> same_type_in int_types a b \<and> scalar_add a b = Panic (Panicked ''SUM is not implemented for type''))"
proof (cases "scalar_type a = scalar_type b")
  case True
  then show ?thesis using assms
    by (cases a; cases b) (simp_all add: scalar_add_def not_float_def same_type_in_def int_types_def)
next
  case False
  then show ?thesis using assms by (cases a; cases b) (simp_all add: scalar_add_def same_type_in_def)
qed

lemma scalar_type_inv:
  "scalar_type v = T_Int8 \<longleftrightarrow> (\<exists>x. v = V_Int8 x)"
  "scalar_type v = T_Int16 \<longleftrightarrow> (\<exists>x. v = V_Int16 x)"
  "scalar_type v = T_Int32 \<longleftrightarrow> (\<exists>x. v = V_Int32 x)"
  "scalar_type v = T_Int64 \<longleftrightarrow> (\<exists>x. v = V_Int64 x)"
  "scalar_type v = T_UInt8 \<longleftrightarrow> (\<exists>x. v = V_UInt8 x)"
  "scalar_type v = T_UInt16 \<longleftrightarrow> (\<exists>x. v = V_UInt16 x)"
  "scalar_type v = T_UInt32 \<longleftrightarrow> (\<exists>x. v = V_UInt32 x)"
  "scalar_type v = T_UInt64 \<longleftrightarrow> (\<exists>x. v = V_UInt64 x)"
  by (cases v; simp)+

lemma scalar_add_assoc:
  assumes "same_type_in int_types a b" "same_type_in int_types b c"
  shows "and_then (scalar_add b c) (scalar_add a) = and_then (scalar_add a b) (\<lambda>x. scalar_add x c)"
proof -
  have t: "scalar_type b = scalar_type a" "scalar_type c = scalar_type a" "scalar_type a \<in> set int_types"
    using assms by (auto simp: same_type_in_def)
  show ?thesis using t
    by (cases a) (auto simp: scalar_add_def int_types_def scalar_type_inv add.assoc)
qed

section \<open>Laws of the running values\<close>

lemma min_accumulate_Null [simp]:
  "min_accumulate V_Null = Ok"
  "min_accumulate s V_Null = Ok s"
  by (rule ext) (auto simp: min_accumulate_def is_null_def)

lemma min_assoc:
  assumes "not_float s" "not_float t" "not_float v"
  shows "and_then (min_accumulate t v) (min_accumulate s)
       = and_then (min_accumulate s t) (\<lambda>s'. min_accumulate s' v)"
proof (cases "s = V_Null \<or> t = V_Null \<or> v = V_Null")
  case True
  then show ?thesis by auto
next
  case False
  then have n: "\<not> is_null s" "\<not> is_null t" "\<not> is_null v" by auto
  show ?thesis
    using assms False n
    by (cases "scalar_type v = scalar_type t"; cases "scalar_type t = scalar_type s";
        cases "scalar_type t \<in> set ord_types")
      (auto simp: min_accumulate_def scalar_lt_eq same_type_in_def)
qed

lemma max_accumulate_Null [simp]:
  "max_accumulate V_Null = Ok"
  "max_accumulate s V_Null = Ok s"
  by (rule ext) (auto simp: max_accumulate_def is_null_def)

lemma max_assoc:
  assumes "not_float s" "not_float t" "not_float v"
  shows "and_then (max_accumulate t v) (max_accumulate s)
       = and_then (max_accumulate s t) (\<lambda>s'. max_accumulate s' v)"
proof (cases "s = V_Null \<or> t = V_Null \<or> v = V_Null")
  case True
  then show ?thesis by auto
next
  case False
  then have n: "\<not> is_null s" "\<not> is_null t" "\<not> is_null v" by auto
  show ?thesis
    using assms False n
    by (cases "scalar_type v = scalar_type t"; cases "scalar_type t = scalar_type s";
        cases "scalar_type t \<in> set ord_types")
      (auto simp: max_accumulate_def scalar_gt_eq same_type_in_def)
qed

lemma sum_accumulate_Null [simp]:
  "sum_accumulate V_Null = Ok"
  "sum_accumulate s V_Null = Ok s"
  by (rule ext) (auto simp: sum_accumulate_def is_null_def)

lemma sum_accumulate_add:
  "s \<noteq> V_Null \<Longrightarrow> v \<noteq> V_Null \<Longrightarrow> sum_accumulate s v = scalar_add s v"
  by (simp add: sum_accumulate_def)

lemma sum_assoc:
  assumes "not_float s" "not_float t" "not_float v"
  shows "and_then (sum_accumulate t v) (sum_accumulate s)
       = and_then (sum_accumulate s t) (\<lambda>s'. sum_accumulate s' v)"
proof (cases "s = V_Null \<or> t = V_Null \<or> v = V_Null")
  case True
  then show ?thesis by auto
next
  case False
  have null: "scalar_add a b = Ok c \<Longrightarrow> c \<noteq> V_Null" for a b c
    by (auto simp: scalar_add_def split: ScalarValue.splits)
  have l: "and_then (sum_accumulate t v) (sum_accumulate s) = and_then (scalar_add t v) (scalar_add s)"
    using False null by (cases "scalar_add t v") (auto simp: sum_accumulate_add)
  have r: "and_then (sum_accumulate s t) (\<lambda>s'. sum_accumulate s' v)
      = and_then (scalar_add s t) (\<lambda>s'. scalar_add s' v)"
    using False null by (cases "scalar_add s t") (auto simp: sum_accumulate_add)
  have nf: "scalar_add a b = Ok c \<Longrightarrow> scalar_type c = scalar_type a \<Longrightarrow> not_float a \<Longrightarrow> not_float c" for a b c
    by (simp add: not_float_def)
  show ?thesis
  proof (cases "same_type_in int_types s t \<and> same_type_in int_types t v")
    case True
    then show ?thesis unfolding l r using scalar_add_assoc by blast
  next
    case F: False
    have "and_then (scalar_add t v) (scalar_add s) = Panic (Panicked ''SUM is not implemented for type'')"
      using scalar_add_eq [OF assms(2,3)] scalar_add_eq [OF assms(1)] nf F assms(2)
      by (fastforce simp: same_type_in_def)
    moreover have "and_then (scalar_add s t) (\<lambda>s'. scalar_add s' v)
        = Panic (Panicked ''SUM is not implemented for type'')"
      using scalar_add_eq [OF assms(1,2)] scalar_add_eq [OF _ assms(3)] nf F assms(1)
      by (fastforce simp: same_type_in_def)
    ultimately show ?thesis unfolding l r by simp
  qed
qed

lemma not_float_Null [simp]: "not_float V_Null"
  by (simp add: not_float_def)

lemma min_not_float: "min_accumulate s v = Ok s' \<Longrightarrow> not_float s \<Longrightarrow> not_float v \<Longrightarrow> not_float s'"
  by (auto simp: min_accumulate_def map_res_eq_Ok split: if_splits)

lemma max_not_float: "max_accumulate s v = Ok s' \<Longrightarrow> not_float s \<Longrightarrow> not_float v \<Longrightarrow> not_float s'"
  by (auto simp: max_accumulate_def map_res_eq_Ok split: if_splits)

lemma sum_not_float:
  assumes "sum_accumulate s v = Ok s'" "not_float s" "not_float v"
  shows "not_float s'"
proof (cases "s = V_Null \<or> v = V_Null")
  case True
  then show ?thesis using assms by auto
next
  case False
  then have "scalar_add s v = Ok s'" using assms(1) by (simp add: sum_accumulate_add)
  then show ?thesis using scalar_add_eq [OF assms(2,3)] assms(2) by (auto simp: not_float_def)
qed

lemma sint_of_int32: "- (2 ^ 31) \<le> i \<Longrightarrow> i < 2 ^ 31 \<Longrightarrow> sint (word_of_int i :: 32 word) = i"
  by (simp add: signed_of_int signed_take_bit_int_eq_self)

lemma add_i32_eq:
  "add_i32 a b = (if - (2 ^ 31) \<le> sint a + sint b \<and> sint a + sint b < 2 ^ 31
     then Ok (a + b) else Panic Arith_Overflow)"
  by (simp add: add_i32_def checked_word_def wi_hom_add [symmetric])

lemma add_i32_sint: "add_i32 a b = Ok c \<Longrightarrow> sint c = sint a + sint b"
  using sint_of_int32 [of "sint a + sint b"] by (auto simp: add_i32_eq split: if_splits)

lemma down_up_cast [simp]: "ucast (scast (m :: 32 word) :: 64 word) = m"
  by (rule bit_word_eqI) (auto simp: bit_simps)

lemma count_merge_Int32 [simp]: "count_merge n (V_Int32 m) = add_i32 n m"
  by (simp add: count_merge_def number_to_i64_def)

lemma count_assoc:
  assumes "0 \<le> sint s" "0 \<le> sint t"
  shows "and_then (add_i32 t 1) (add_i32 s) = and_then (add_i32 s t) (\<lambda>x. add_i32 x 1)"
proof (cases "sint s + (sint t + 1) < 2 ^ 31")
  case True
  then have "add_i32 t 1 = Ok (t + 1)" "add_i32 s t = Ok (s + t)"
    using assms by (simp_all add: add_i32_eq)
  moreover from this have "sint (t + 1) = sint t + 1" "sint (s + t) = sint s + sint t"
    using add_i32_sint by fastforce+
  ultimately show ?thesis using True assms by (simp add: add_i32_eq add.assoc)
next
  case False
  have "and_then (add_i32 t 1) (add_i32 s) = Panic Arith_Overflow"
  proof (cases "add_i32 t 1")
    case (Ok x)
    then have "sint x = sint t + 1" using add_i32_sint by fastforce
    then show ?thesis using Ok False by (simp add: add_i32_eq)
  qed (simp add: add_i32_eq split: if_splits)
  moreover have "and_then (add_i32 s t) (\<lambda>x. add_i32 x 1) = Panic Arith_Overflow"
  proof (cases "add_i32 s t")
    case (Ok x)
    then have "sint x = sint s + sint t" using add_i32_sint by fastforce
    then show ?thesis using Ok False by (simp add: add_i32_eq)
  qed (simp add: add_i32_eq split: if_splits)
  ultimately show ?thesis by simp
qed

section \<open>The accumulators satisfy the contract\<close>

definition min_inv :: "accumulator \<Rightarrow> bool" where
  "min_inv a = (\<exists>s. a = Min_Acc s \<and> not_float s)"
definition max_inv :: "accumulator \<Rightarrow> bool" where
  "max_inv a = (\<exists>s. a = Max_Acc s \<and> not_float s)"
definition sum_inv :: "accumulator \<Rightarrow> bool" where
  "sum_inv a = (\<exists>s. a = Sum_Acc s \<and> not_float s)"
definition count_inv :: "accumulator \<Rightarrow> bool" where
  "count_inv a = (\<exists>n. a = Count_Acc n \<and> 0 \<le> sint n)"

lemmas acc_defs = new_accumulator_def accumulate_def merge_def intermediate_value_def final_value_def

lemma map_res_and_then_distrib: "map_res C (and_then r g) = and_then r (\<lambda>x. map_res C (g x))"
  by (cases r) auto

lemma lift_assoc:
  assumes "and_then (f t v) (f s) = and_then (f s t) (\<lambda>s'. f s' v)"
  shows "and_then (f t v) (\<lambda>t'. map_res C (f s t')) = and_then (f s t) (\<lambda>s'. map_res C (f s' v))"
  using assms by (simp add: map_res_and_then_distrib [symmetric])

lemma and_then_map_res: "and_then (map_res f r) g = and_then r (\<lambda>x. g (f x))"
  by (cases r) auto

interpretation min_parts: partial_aggregation "new_accumulator Agg_Min" accumulate
  intermediate_value merge min_inv not_float
proof
  fix s t v assume "min_inv s" "min_inv t" "not_float v"
  then show "and_then (accumulate t v) (\<lambda>t'. merge s (intermediate_value t'))
      = and_then (merge s (intermediate_value t)) (\<lambda>s'. accumulate s' v)"
    by (auto simp: min_inv_def acc_defs and_then_map_res 
        intro!: lift_assoc [where f = min_accumulate, OF min_assoc])
next
  fix s v s' assume "min_inv s" "not_float v" "accumulate s v = Ok s'"
  then obtain x y where "s = Min_Acc x" "not_float x" "min_accumulate x v = Ok y" "s' = Min_Acc y"
    by (auto simp: min_inv_def acc_defs map_res_eq_Ok)
  with \<open>not_float v\<close> show "min_inv s'" using min_not_float by (auto simp: min_inv_def)
qed (auto simp: min_inv_def acc_defs)

interpretation max_parts: partial_aggregation "new_accumulator Agg_Max" accumulate
  intermediate_value merge max_inv not_float
proof
  fix s t v assume "max_inv s" "max_inv t" "not_float v"
  then show "and_then (accumulate t v) (\<lambda>t'. merge s (intermediate_value t'))
      = and_then (merge s (intermediate_value t)) (\<lambda>s'. accumulate s' v)"
    by (auto simp: max_inv_def acc_defs and_then_map_res 
        intro!: lift_assoc [where f = max_accumulate, OF max_assoc])
next
  fix s v s' assume "max_inv s" "not_float v" "accumulate s v = Ok s'"
  then obtain x y where "s = Max_Acc x" "not_float x" "max_accumulate x v = Ok y" "s' = Max_Acc y"
    by (auto simp: max_inv_def acc_defs map_res_eq_Ok)
  with \<open>not_float v\<close> show "max_inv s'" using max_not_float by (auto simp: max_inv_def)
qed (auto simp: max_inv_def acc_defs)

interpretation sum_parts: partial_aggregation "new_accumulator Agg_Sum" accumulate
  intermediate_value merge sum_inv not_float
proof
  fix s t v assume "sum_inv s" "sum_inv t" "not_float v"
  then show "and_then (accumulate t v) (\<lambda>t'. merge s (intermediate_value t'))
      = and_then (merge s (intermediate_value t)) (\<lambda>s'. accumulate s' v)"
    by (auto simp: sum_inv_def acc_defs and_then_map_res 
        intro!: lift_assoc [where f = sum_accumulate, OF sum_assoc])
next
  fix s v s' assume "sum_inv s" "not_float v" "accumulate s v = Ok s'"
  then obtain x y where "s = Sum_Acc x" "not_float x" "sum_accumulate x v = Ok y" "s' = Sum_Acc y"
    by (auto simp: sum_inv_def acc_defs map_res_eq_Ok)
  with \<open>not_float v\<close> show "sum_inv s'" using sum_not_float by (auto simp: sum_inv_def)
qed (auto simp: sum_inv_def acc_defs)

interpretation count_parts: partial_aggregation "new_accumulator Agg_Count" accumulate
  intermediate_value merge count_inv "\<lambda>_. True"
proof
  fix s t and v :: ScalarValue assume "count_inv s" "count_inv t"
  then obtain m n where mn: "s = Count_Acc m" "0 \<le> sint m" "t = Count_Acc n" "0 \<le> sint n"
    by (auto simp: count_inv_def)
  have "and_then (add_i32 n 1) (\<lambda>x. map_res Count_Acc (add_i32 m x))
      = and_then (add_i32 m n) (\<lambda>x. map_res Count_Acc (add_i32 x 1))"
    using count_assoc [OF mn(2,4)] by (simp add: map_res_and_then_distrib [symmetric])
  then show "and_then (accumulate t v) (\<lambda>t'. merge s (intermediate_value t'))
      = and_then (merge s (intermediate_value t)) (\<lambda>s'. accumulate s' v)"
    using mn by (cases "is_null v") (auto simp: acc_defs and_then_map_res count_accumulate_def map_res_and_then)
next
  fix s s' and v :: ScalarValue assume "count_inv s" "accumulate s v = Ok s'"
  then show "count_inv s'"
    by (auto simp: count_inv_def acc_defs map_res_eq_Ok count_accumulate_def dest!: add_i32_sint split: if_splits)
next
  fix s assume "count_inv s"
  then show "merge s (intermediate_value (new_accumulator Agg_Count)) = Ok s"
    using sint_lt [where 'a = 32] by (auto simp: count_inv_def acc_defs add_i32_eq)
qed (auto simp: count_inv_def acc_defs)

section \<open>What the folds compute\<close>

abbreviation non_null :: "ScalarValue list \<Rightarrow> ScalarValue list" where
  "non_null vs \<equiv> List.filter (\<lambda>v. v \<noteq> V_Null) vs"

definition run_accumulator :: "aggr_kind \<Rightarrow> ScalarValue list \<Rightarrow> accumulator res" where
  "run_accumulator k vs = fold_res accumulate (new_accumulator k) vs"

lemma add_i32_nat:
  "int n < 2 ^ 31 \<Longrightarrow> add_i32 (word_of_int (int n)) 1 =
     (if int n + 1 < 2 ^ 31 then Ok (word_of_int (int n + 1)) else Panic Arith_Overflow)"
  using sint_of_int32 [of "int n"] by (simp add: add_i32_def checked_word_def)

lemma run_count:
  "run_accumulator Agg_Count vs =
     (if length (non_null vs) < 2 ^ 31 then Ok (Count_Acc (word_of_int (int (length (non_null vs)))))
      else Panic Arith_Overflow)"
proof (induction vs rule: rev_induct)
  case Nil
  show ?case by (simp add: run_accumulator_def new_accumulator_def)
next
  case (snoc v vs)
  let ?n = "length (non_null vs)"
  have run: "run_accumulator Agg_Count (vs @ [v])
      = and_then (run_accumulator Agg_Count vs) (\<lambda>a. accumulate a v)"
    by (simp add: run_accumulator_def fold_res_append)
  have *: "int ?n < 2 ^ 31 \<longleftrightarrow> ?n < 2 ^ 31" "int ?n + 1 < 2 ^ 31 \<longleftrightarrow> Suc ?n < 2 ^ 31" by auto
  show ?case
  proof (cases "v = V_Null")
    case True
    then show ?thesis using run snoc by (simp add: accumulate_def count_accumulate_def)
  next
    case False
    then have "run_accumulator Agg_Count (vs @ [v]) =
      (if ?n < 2 ^ 31 then map_res Count_Acc (add_i32 (word_of_int (int ?n)) 1) else Panic Arith_Overflow)"
      using run snoc by (simp add: accumulate_def count_accumulate_def)
    then show ?thesis using False add_i32_nat [of ?n] * by (simp add: algebra_simps)
  qed
qed

text \<open>A least (greatest) cell of the non-null ones, null when there is none.\<close>

definition is_least :: "ScalarValue list \<Rightarrow> ScalarValue \<Rightarrow> bool" where
  "is_least vs m = (if non_null vs = [] then m = V_Null
     else m \<in> set (non_null vs) \<and> (\<forall>v\<in>set (non_null vs). scalar_key m \<le> scalar_key v))"

definition is_greatest :: "ScalarValue list \<Rightarrow> ScalarValue \<Rightarrow> bool" where
  "is_greatest vs m = (if non_null vs = [] then m = V_Null
     else m \<in> set (non_null vs) \<and> (\<forall>v\<in>set (non_null vs). scalar_key v \<le> scalar_key m))"

lemma ord_types_not_float: "t \<in> set ord_types \<Longrightarrow> fits t v \<Longrightarrow> not_float v"
  by (auto simp: ord_types_def fits_def not_float_def)

lemma fits_same_type:
  "t \<in> set ts \<Longrightarrow> fits t a \<Longrightarrow> fits t b \<Longrightarrow> a \<noteq> V_Null \<Longrightarrow> b \<noteq> V_Null \<Longrightarrow> same_type_in ts a b"
  by (auto simp: fits_def same_type_in_def)

lemma run_min:
  "t \<in> set ord_types \<Longrightarrow> list_all (fits t) vs \<Longrightarrow>
     \<exists>m. run_accumulator Agg_Min vs = Ok (Min_Acc m) \<and> is_least vs m \<and> fits t m"
proof (induction vs rule: rev_induct)
  case (snoc v vs)
  then obtain m where m: "run_accumulator Agg_Min vs = Ok (Min_Acc m)" "is_least vs m" "fits t m"
    by auto
  have v: "fits t v" using snoc by simp
  have run: "run_accumulator Agg_Min (vs @ [v]) = map_res Min_Acc (min_accumulate m v)"
    using m(1) by (simp add: run_accumulator_def fold_res_append accumulate_def)
  show ?case
  proof (cases "v = V_Null \<or> m = V_Null")
    case True
    then show ?thesis using m v run by (auto simp: is_least_def filter_empty_conv split: if_splits)
  next
    case False
    then have "min_accumulate m v = Ok (if scalar_key v < scalar_key m then v else m)"
      using fits_same_type [OF snoc.prems(1) v m(3)] ord_types_not_float [OF snoc.prems(1) v]
      by (simp add: min_accumulate_def is_null_def scalar_lt_eq)
    then show ?thesis using run m v False by (fastforce simp: is_least_def split: if_splits)
  qed
qed (simp add: run_accumulator_def new_accumulator_def is_least_def)

lemma run_max:
  "t \<in> set ord_types \<Longrightarrow> list_all (fits t) vs \<Longrightarrow>
     \<exists>m. run_accumulator Agg_Max vs = Ok (Max_Acc m) \<and> is_greatest vs m \<and> fits t m"
proof (induction vs rule: rev_induct)
  case (snoc v vs)
  then obtain m where m: "run_accumulator Agg_Max vs = Ok (Max_Acc m)" "is_greatest vs m" "fits t m"
    by auto
  have v: "fits t v" using snoc by simp
  have run: "run_accumulator Agg_Max (vs @ [v]) = map_res Max_Acc (max_accumulate m v)"
    using m(1) by (simp add: run_accumulator_def fold_res_append accumulate_def)
  show ?case
  proof (cases "v = V_Null \<or> m = V_Null")
    case True
    then show ?thesis using m v run by (auto simp: is_greatest_def filter_empty_conv split: if_splits)
  next
    case False
    then have "max_accumulate m v = Ok (if scalar_key m < scalar_key v then v else m)"
      using fits_same_type [OF snoc.prems(1) v m(3)] ord_types_not_float [OF snoc.prems(1) v]
      by (simp add: max_accumulate_def is_null_def scalar_gt_eq)
    then show ?thesis using run m v False by (fastforce simp: is_greatest_def split: if_splits)
  qed
qed (simp add: run_accumulator_def new_accumulator_def is_greatest_def)

definition int64_of :: "ScalarValue \<Rightarrow> 64 word" where
  "int64_of v = (case v of V_Int64 n \<Rightarrow> n | _ \<Rightarrow> 0)"

lemma run_sum_int64:
  "list_all (fits T_Int64) vs \<Longrightarrow> run_accumulator Agg_Sum vs = Ok (Sum_Acc
     (if non_null vs = [] then V_Null else V_Int64 (sum_list (List.map int64_of vs))))"
proof (induction vs rule: rev_induct)
  case (snoc v vs)
  have run: "run_accumulator Agg_Sum (vs @ [v])
      = and_then (run_accumulator Agg_Sum vs) (\<lambda>a. accumulate a v)"
    by (simp add: run_accumulator_def fold_res_append)
  have null: "non_null vs = [] \<Longrightarrow> sum_list (List.map int64_of vs) = 0"
    by (induction vs) (auto simp: int64_of_def split: if_splits)
  consider "v = V_Null" | n where "v = V_Int64 n" using snoc.prems by (auto dest: fits_inv)
  then show ?case
    using run snoc null
    by cases (auto simp: accumulate_def sum_accumulate_def scalar_add_def int64_of_def)
qed (simp add: run_accumulator_def new_accumulator_def)

section \<open>Properties\<close>

text \<open>C29: Two-stage aggregation is correct for MIN, MAX, SUM and COUNT over non-float values:
  running a partial accumulator over each partition and merging the intermediate values in
  order gives exactly the accumulator (or exactly the panic) of one complete run over all
  partitions concatenated.\<close>

theorem partial_final_equals_complete:
  assumes "k \<noteq> Agg_Avg" "list_all (list_all not_float) parts"
  shows "fold_res (\<lambda>acc vs. and_then (fold_res accumulate (new_accumulator k) vs)
             (\<lambda>part. merge acc (intermediate_value part))) (new_accumulator k) parts
       = fold_res accumulate (new_accumulator k) (concat parts)"
proof (cases k)
  case Agg_Min
  then show ?thesis
    using min_parts.two_stage_eq [OF assms(2)] by (simp add: min_parts.two_stage_def)
next
  case Agg_Max
  then show ?thesis
    using max_parts.two_stage_eq [OF assms(2)] by (simp add: max_parts.two_stage_def)
next
  case Agg_Sum
  then show ?thesis
    using sum_parts.two_stage_eq [OF assms(2)] by (simp add: sum_parts.two_stage_def)
next
  case Agg_Count
  have "list_all (list_all (\<lambda>_. True)) parts" by (simp add: list_all_iff)
  then show ?thesis
    using Agg_Count count_parts.two_stage_eq [of parts] by (simp add: count_parts.two_stage_def)
qed (use assms in simp)

theorem partial_final_equals_complete_witness:
  "fold_res (\<lambda>acc vs. and_then (fold_res accumulate (new_accumulator Agg_Min) vs)
             (\<lambda>part. merge acc (intermediate_value part))) (new_accumulator Agg_Min)
       [[V_Int64 5, V_Null], [V_Int64 3]]
     = fold_res accumulate (new_accumulator Agg_Min) [V_Int64 5, V_Null, V_Int64 3]"
  using partial_final_equals_complete [of Agg_Min "[[V_Int64 5, V_Null], [V_Int64 3]]"]
  by (simp add: not_float_def)

text \<open>C30: What a complete run of each accumulator returns, for a column of an ordered type:
  MIN (MAX) a least (greatest) non-null cell, COUNT the number of non-null cells, or an
  overflow panic when that is 2^31 or more; MIN and MAX of no cell are null and COUNT is 0.\<close>

theorem accumulators_correct:
  assumes "t \<in> set ord_types" "list_all (fits t) vs"
  shows "(\<exists>m. map_res final_value (fold_res accumulate (new_accumulator Agg_Min) vs) = Ok m \<and> is_least vs m)
    \<and> (\<exists>m. map_res final_value (fold_res accumulate (new_accumulator Agg_Max) vs) = Ok m \<and> is_greatest vs m)
    \<and> map_res final_value (fold_res accumulate (new_accumulator Agg_Count) vs) =
        (if length (non_null vs) < 2 ^ 31 then Ok (V_Int32 (word_of_int (int (length (non_null vs)))))
         else Panic Arith_Overflow)"
  using run_min [OF assms] run_max [OF assms] run_count [of vs]
  by (auto simp: run_accumulator_def final_value_def)

theorem accumulators_correct_witness:
  "\<exists>m. map_res final_value (fold_res accumulate (new_accumulator Agg_Min)
      [V_Utf8 ''b'', V_Null, V_Utf8 ''a'']) = Ok m \<and> is_least [V_Utf8 ''b'', V_Null, V_Utf8 ''a''] m"
  using accumulators_correct [of T_Utf8 "[V_Utf8 ''b'', V_Null, V_Utf8 ''a'']"]
  by (simp add: ord_types_def)

text \<open>SUM over an @Int64@ column is the sum of the non-null cells modulo 2^64, null when
  every cell is null, and independent of the order of the rows.\<close>

lemma sum_int64_correct:
  assumes "list_all (fits T_Int64) vs" "mset ws = mset vs"
  shows "map_res final_value (fold_res accumulate (new_accumulator Agg_Sum) vs) =
       Ok (if non_null vs = [] then V_Null else V_Int64 (sum_list (List.map int64_of vs)))
     \<and> map_res final_value (fold_res accumulate (new_accumulator Agg_Sum) ws)
       = map_res final_value (fold_res accumulate (new_accumulator Agg_Sum) vs)"
proof -
  have s: "set ws = set vs" using assms(2) by (rule mset_eq_setD)
  then have ws: "list_all (fits T_Int64) ws" using assms(1) by (simp add: list_all_iff)
  have "sum_list (List.map int64_of ws) = sum_list (List.map int64_of vs)"
    using assms(2) by (metis mset_map sum_mset_sum_list)
  moreover have "non_null ws = [] \<longleftrightarrow> non_null vs = []" using s by (simp add: filter_empty_conv)
  ultimately show ?thesis
    using run_sum_int64 [OF assms(1)] run_sum_int64 [OF ws]
    by (simp add: run_accumulator_def final_value_def)
qed

lemma sum_int64_correct_example:
  "map_res final_value (fold_res accumulate (new_accumulator Agg_Sum) [V_Int64 4, V_Null, V_Int64 (- 6)])
     = Ok (V_Int64 (- 2))"
  using sum_int64_correct [of "[V_Int64 4, V_Null, V_Int64 (- 6)]" "[V_Int64 4, V_Null, V_Int64 (- 6)]"]
  by (simp add: int64_of_def)

end
