(* ===== verification/Data_Source.thy ===== *)
theory Data_Source
  imports Environment
begin

text \<open>
  Data sources (crate @datasource@).  The trait objects are the constructors of
  @data_source@; reading a CSV or Parquet file is arrow-rs (parameters of @env@), what is
  modelled is which schema a source reports and which columns it asks the reader for.
\<close>

record csv_source =
  csv_filename :: string
  csv_schema :: "Schema option"
  csv_has_headers :: bool
  csv_batch_size :: nat
  csv_delimiter :: "8 word"

datatype data_source =
    In_Memory Schema "RecordBatch list"
  | Csv csv_source
  | Parquet string

definition csv_new :: "string \<Rightarrow> Schema option \<Rightarrow> bool \<Rightarrow> nat \<Rightarrow> csv_source" where
  "csv_new f s h n = \<lparr>csv_filename = f, csv_schema = s, csv_has_headers = h, csv_batch_size = n,
     csv_delimiter = 44\<rparr>"

definition csv_tsv :: "string \<Rightarrow> Schema option \<Rightarrow> bool \<Rightarrow> nat \<Rightarrow> csv_source" where
  "csv_tsv f s h n = (csv_new f s h n)\<lparr>csv_delimiter := 9\<rparr>"

definition csv_infer_schema :: "env \<Rightarrow> csv_source \<Rightarrow> Schema res" where
  "csv_infer_schema E c =
     map_res from_arrow (csv_infer E (csv_filename c) (csv_has_headers c) (csv_delimiter c))"

definition ds_schema :: "env \<Rightarrow> data_source \<Rightarrow> Schema res" where
  "ds_schema E ds = (case ds of
      In_Memory s bs \<Rightarrow> Ok s
    | Csv c \<Rightarrow> (case csv_schema c of Some s \<Rightarrow> Ok s | None \<Rightarrow> csv_infer_schema E c)
    | Parquet f \<Rightarrow> map_res from_arrow (parquet_schema E f))"

definition column_position :: "string \<Rightarrow> Schema \<Rightarrow> string \<Rightarrow> nat res" where
  "column_position msg s n = expect msg (position (\<lambda>f. f_name f = n) (s_fields s))"

definition memory_scan :: "env \<Rightarrow> Schema \<Rightarrow> RecordBatch list \<Rightarrow> string list \<Rightarrow> stream res" where
  "memory_scan E s bs ns =
     (if ns = [] then Ok (List.map Ok bs)
      else and_then (traverse (column_position ''InMemoryDataSource::scan: projection column not in schema'' s) ns)
        (\<lambda>is. and_then (select s ns) (\<lambda>ps.
         map_res (List.map Ok) (traverse (\<lambda>b. and_then (traverse (idx (rb_columns b)) is)
           (try_new E ''InMemoryDataSource::scan: failed to build projected RecordBatch'' (to_arrow ps))) bs))))"

definition csv_scan :: "env \<Rightarrow> csv_source \<Rightarrow> string list \<Rightarrow> stream res" where
  "csv_scan E c ns =
     and_then (ds_schema E (Csv c)) (\<lambda>s.
       let read = csv_read E (csv_filename c) (to_arrow s) (csv_has_headers c) (csv_batch_size c) (csv_delimiter c)
       in if ns = [] then read None
          else and_then (traverse (column_position ''CsvDataSource::scan: projection column not in schema'' s) ns)
                 (\<lambda>is. read (Some is)))"

definition parquet_scan :: "env \<Rightarrow> string \<Rightarrow> string list \<Rightarrow> stream res" where
  "parquet_scan E f ns = parquet_read E f (if ns = [] then None else Some ns)"

definition ds_scan :: "env \<Rightarrow> data_source \<Rightarrow> string list \<Rightarrow> stream res" where
  "ds_scan E ds ns = (case ds of
      In_Memory s bs \<Rightarrow> memory_scan E s bs ns
    | Csv c \<Rightarrow> csv_scan E c ns
    | Parquet f \<Rightarrow> parquet_scan E f ns)"

section \<open>Scanning an in-memory source\<close>

text \<open>The batches of a table with schema @s@.\<close>

definition table_wf :: "Schema \<Rightarrow> RecordBatch list \<Rightarrow> bool" where
  "table_wf s bs = (\<forall>b\<in>set bs. batch_wf b \<and> List.map arr_type (rb_columns b) = col_types s)"

lemma column_position_Ok:
  "column_position m s n = Ok i \<Longrightarrow> i < width s \<and> f_name (s_fields s ! i) = n"
  by (auto simp: column_position_def expect_eq_Ok dest: position_Some)

lemma select_field_position:
  assumes "select_field s n = Ok f"
  shows "\<exists>i. column_position m s n = Ok i \<and> i < width s \<and> s_fields s ! i = f"
proof -
  have filt: "List.filter (\<lambda>f. f_name f = n) (s_fields s) = [f]"
    using assms by (auto simp: select_field_def split: list.splits)
  have "f \<in> set (List.filter (\<lambda>f. f_name f = n) (s_fields s))" using filt by simp
  then have f: "f \<in> set (s_fields s)" "f_name f = n" by auto
  obtain i where i: "position (\<lambda>f. f_name f = n) (s_fields s) = Some i"
    using f position_None [of "\<lambda>f. f_name f = n" "s_fields s"] by (cases "position (\<lambda>f. f_name f = n) (s_fields s)") auto
  then have p: "i < width s" "f_name (s_fields s ! i) = n" using position_Some by blast+
  then have "s_fields s ! i \<in> set (List.filter (\<lambda>f. f_name f = n) (s_fields s))" by simp
  then have "s_fields s ! i = f" using filt by simp
  then show ?thesis using i p by (auto simp: column_position_def)
qed

lemma select_positions:
  assumes "select s ns = Ok ps"
  obtains "is" where "traverse (column_position m s) ns = Ok is"
    "traverse (idx (s_fields s)) is = Ok (s_fields ps)" "list_all (\<lambda>i. i < width s) is"
proof -
  obtain fs where fs: "traverse (select_field s) ns = Ok fs" "ps = new_schema fs"
    using assms by (auto simp: select_def map_res_eq_Ok)
  have "\<exists>is. traverse (column_position m s) ns = Ok is \<and> traverse (idx (s_fields s)) is = Ok fs
      \<and> list_all (\<lambda>i. i < width s) is"
    using fs(1)
  proof (induction ns arbitrary: fs)
    case (Cons n ns)
    then obtain f gs where f: "select_field s n = Ok f" "traverse (select_field s) ns = Ok gs" "fs = f # gs"
      by (auto simp: and_then_eq_Ok)
    obtain i where "column_position m s n = Ok i" "i < width s" "s_fields s ! i = f"
      using select_field_position [OF f(1)] by blast
    moreover obtain js where "traverse (column_position m s) ns = Ok js"
      "traverse (idx (s_fields s)) js = Ok gs" "list_all (\<lambda>i. i < width s) js"
      using Cons.IH [OF f(2)] by blast
    ultimately show ?case using f(3) by (intro exI [of _ "i # js"]) simp
  qed simp
  then show ?thesis using that fs(2) by auto
qed

lemma traverse_idx_map:
  "list_all (\<lambda>i. i < length xs) is \<Longrightarrow> traverse (idx xs) is = Ok (List.map ((!) xs) is)"
  by (induction "is") auto

lemma project_batch:
  assumes "env_ok E" "batch_wf b" "List.map arr_type (rb_columns b) = col_types s"
    "select s ns = Ok ps" "ns \<noteq> []" "list_all (\<lambda>i. i < width s) is"
    "traverse (idx (s_fields s)) is = Ok (s_fields ps)"
  obtains b' where "and_then (traverse (idx (rb_columns b)) is) (try_new E m (to_arrow ps)) = Ok b'"
    "batch_wf b'" "rb_schema b' = to_arrow ps" "rb_rows b' = rb_rows b"
    "rb_columns b' = List.map ((!) (rb_columns b)) is"
proof -
  let ?cs = "List.map ((!) (rb_columns b)) is"
  have w: "length (rb_columns b) = width s" using assms(3) by (metis length_map)
  have t: "traverse (idx (rb_columns b)) is = Ok ?cs" using assms(6) w by (simp add: traverse_idx_map)
  have ps: "s_fields ps = List.map ((!) (s_fields s)) is"
    using assms(6,7) by (simp add: traverse_idx_map)
  have "length is = length ns"
    using select_names [OF assms(4)] ps by (metis length_map)
  then have ne: "is \<noteq> []" using assms(5) by auto
  have col: "arr_type (rb_columns b ! i) = f_type (s_fields s ! i)"
    "length (arr_cells (rb_columns b ! i)) = rb_rows b" "cv_wf (Arrow_Field (rb_columns b ! i))"
    if "i < width s" for i
  proof -
    show "arr_type (rb_columns b ! i) = f_type (s_fields s ! i)"
      using assms(3) that w by (metis length_map nth_map)
    have "rb_columns b ! i \<in> set (rb_columns b)" using that w by simp
    then show "length (arr_cells (rb_columns b ! i)) = rb_rows b" "cv_wf (Arrow_Field (rb_columns b ! i))"
      using assms(2) by (auto simp: batch_wf_def)
  qed
  have types: "List.map af_type (to_arrow ps) = List.map arr_type ?cs"
    unfolding to_arrow_types ps using assms(6) col(1) by (auto simp: list_all_iff)
  have lens: "length (arr_cells c) = rb_rows b" if "c \<in> set ?cs" for c
    using that assms(6) col(2) by (auto simp: list_all_iff)
  have hd: "length (arr_cells (hd ?cs)) = rb_rows b" using ne lens by (cases "is") auto
  have "try_new_spec (to_arrow ps) ?cs"
    unfolding try_new_spec_def hd using ne types lens by auto
  then have ok: "batch_ok E (to_arrow ps) ?cs" using assms(1) by (simp add: env_ok_batch)
  let ?b = "\<lparr>rb_schema = to_arrow ps, rb_columns = ?cs, rb_rows = length (arr_cells (hd ?cs))\<rparr>"
  have "and_then (traverse (idx (rb_columns b)) is) (try_new E m (to_arrow ps)) = Ok ?b"
    using t ok by (simp add: try_new_def)
  moreover have "batch_wf ?b"
    unfolding batch_wf_def using types lens hd assms(6) col(3) by (auto simp: list_all_iff simp del: cv_wf.simps)
  ultimately show ?thesis using that hd by simp
qed

end
