(* ===== verification/Logical_Plan.thy ===== *)
theory Logical_Plan
  imports Data_Source
begin

text \<open>
  Logical expressions and plans (crate @logical-plan@): output fields, schemas, children,
  the textual form, the constructors that check or cache, and the @DataFrame@ builder.  A
  calendar date is its number of days since the Unix epoch.  @to_field@ takes the (fallible)
  schema of the input plan where the source takes the plan and asks it for its schema.
\<close>

section \<open>Expressions\<close>

datatype LogicalExpr =
    Column string
  | ColumnIndex nat
  | LiteralString string
  | LiteralLong "64 word"
  | LiteralFloat f32
  | LiteralDouble f64
  | LiteralDate int
  | LiteralIntervalDays "64 word"
  | L_DateSubtract LogicalExpr LogicalExpr
  | L_DateAdd LogicalExpr LogicalExpr
  | L_Cast LogicalExpr DataType
  | L_Not LogicalExpr
  | L_Eq LogicalExpr LogicalExpr
  | L_Neq LogicalExpr LogicalExpr
  | L_Gt LogicalExpr LogicalExpr
  | L_GtEq LogicalExpr LogicalExpr
  | L_Lt LogicalExpr LogicalExpr
  | L_LtEq LogicalExpr LogicalExpr
  | L_And LogicalExpr LogicalExpr
  | L_Or LogicalExpr LogicalExpr
  | L_Add LogicalExpr LogicalExpr
  | L_Subtract LogicalExpr LogicalExpr
  | L_Multiply LogicalExpr LogicalExpr
  | L_Divide LogicalExpr LogicalExpr
  | L_Modulus LogicalExpr LogicalExpr
  | L_Alias LogicalExpr string
  | ScalarFunction string "LogicalExpr list" DataType
  | L_Aggregate AggregateExpr
and AggregateExpr =
    A_Sum LogicalExpr
  | A_Min LogicalExpr
  | A_Max LogicalExpr
  | A_Avg LogicalExpr
  | A_Count LogicalExpr
  | A_CountDistinct LogicalExpr

definition find_field :: "Schema \<Rightarrow> string \<Rightarrow> Field res" where
  "find_field s n = expect ''No column named'' (find (\<lambda>f. f_name f = n) (s_fields s))"

definition retyped :: "string \<Rightarrow> Field res \<Rightarrow> Field res" where
  "retyped n f = map_res (\<lambda>f. new_field n (f_type f)) f"

fun to_field :: "env \<Rightarrow> Schema res \<Rightarrow> LogicalExpr \<Rightarrow> Field res"
  and aggr_to_field :: "env \<Rightarrow> Schema res \<Rightarrow> AggregateExpr \<Rightarrow> Field res" where
  "to_field E s (Column n) = and_then s (\<lambda>s. find_field s n)"
| "to_field E s (ColumnIndex i) = and_then s (\<lambda>s. idx (s_fields s) i)"
| "to_field E s (LiteralString t) = Ok (new_field t T_Utf8)"
| "to_field E s (LiteralLong n) = Ok (new_field (show_signed n) T_Int64)"
| "to_field E s (LiteralFloat x) = Ok (new_field (show_f32 x) T_Float32)"
| "to_field E s (LiteralDouble x) = Ok (new_field (show_f64 x) T_Float64)"
| "to_field E s (LiteralDate d) = Ok (new_field (date_display E d) T_Date32)"
| "to_field E s (LiteralIntervalDays d) = Ok (new_field (show_signed d @ '' days'') T_Interval_DayTime)"
| "to_field E s (L_DateSubtract d i) = Ok (new_field ''date_subtract'' T_Date32)"
| "to_field E s (L_DateAdd d i) = Ok (new_field ''date_add'' T_Date32)"
| "to_field E s (L_Cast e t) = map_res (\<lambda>f. new_field (f_name f) t) (to_field E s e)"
| "to_field E s (L_Not e) = Ok (new_field ''not'' T_Boolean)"
| "to_field E s (L_Eq l r) = Ok (new_field ''eq'' T_Boolean)"
| "to_field E s (L_Neq l r) = Ok (new_field ''neq'' T_Boolean)"
| "to_field E s (L_Gt l r) = Ok (new_field ''gt'' T_Boolean)"
| "to_field E s (L_GtEq l r) = Ok (new_field ''gteq'' T_Boolean)"
| "to_field E s (L_Lt l r) = Ok (new_field ''lt'' T_Boolean)"
| "to_field E s (L_LtEq l r) = Ok (new_field ''lteq'' T_Boolean)"
| "to_field E s (L_And l r) = Ok (new_field ''and'' T_Boolean)"
| "to_field E s (L_Or l r) = Ok (new_field ''or'' T_Boolean)"
| "to_field E s (L_Add l r) = retyped ''add'' (to_field E s l)"
| "to_field E s (L_Subtract l r) = retyped ''subtract'' (to_field E s l)"
| "to_field E s (L_Multiply l r) = retyped ''mult'' (to_field E s l)"
| "to_field E s (L_Divide l r) = retyped ''div'' (to_field E s l)"
| "to_field E s (L_Modulus l r) = retyped ''mod'' (to_field E s l)"
| "to_field E s (L_Alias e a) = retyped a (to_field E s e)"
| "to_field E s (ScalarFunction n args t) = Ok (new_field n t)"
| "to_field E s (L_Aggregate a) = aggr_to_field E s a"
| "aggr_to_field E s (A_Sum e) = retyped ''SUM'' (to_field E s e)"
| "aggr_to_field E s (A_Min e) = retyped ''MIN'' (to_field E s e)"
| "aggr_to_field E s (A_Max e) = retyped ''MAX'' (to_field E s e)"
| "aggr_to_field E s (A_Avg e) = retyped ''AVG'' (to_field E s e)"
| "aggr_to_field E s (A_Count e) = Ok (new_field ''COUNT'' T_Int32)"
| "aggr_to_field E s (A_CountDistinct e) = Ok (new_field ''COUNT_DISTINCT'' T_UInt32)"

fun show_expr :: "env \<Rightarrow> LogicalExpr \<Rightarrow> string" and show_logical_aggr :: "env \<Rightarrow> AggregateExpr \<Rightarrow> string" where
  "show_expr E (Column n) = ''#'' @ n"
| "show_expr E (ColumnIndex i) = ''#'' @ show_nat i"
| "show_expr E (LiteralString s) = [CHR 0x27] @ s @ [CHR 0x27]"
| "show_expr E (LiteralLong n) = show_signed n"
| "show_expr E (LiteralFloat x) = show_f32 x"
| "show_expr E (LiteralDouble x) = show_f64 x"
| "show_expr E (LiteralDate d) = ''DATE '' @ [CHR 0x27] @ date_display E d @ [CHR 0x27]"
| "show_expr E (LiteralIntervalDays d) = ''INTERVAL '' @ [CHR 0x27] @ show_signed d @ '' days'' @ [CHR 0x27]"
| "show_expr E (L_DateSubtract d i) = show_expr E d @ '' - '' @ show_expr E i"
| "show_expr E (L_DateAdd d i) = show_expr E d @ '' + '' @ show_expr E i"
| "show_expr E (L_Cast e t) = ''CAST('' @ show_expr E e @ '' AS '' @ debug_type E t @ '')''"
| "show_expr E (L_Not e) = ''NOT '' @ show_expr E e"
| "show_expr E (L_Eq l r) = show_expr E l @ '' = '' @ show_expr E r"
| "show_expr E (L_Neq l r) = show_expr E l @ '' != '' @ show_expr E r"
| "show_expr E (L_Gt l r) = show_expr E l @ '' > '' @ show_expr E r"
| "show_expr E (L_GtEq l r) = show_expr E l @ '' >= '' @ show_expr E r"
| "show_expr E (L_Lt l r) = show_expr E l @ '' < '' @ show_expr E r"
| "show_expr E (L_LtEq l r) = show_expr E l @ '' <= '' @ show_expr E r"
| "show_expr E (L_And l r) = show_expr E l @ '' AND '' @ show_expr E r"
| "show_expr E (L_Or l r) = show_expr E l @ '' OR '' @ show_expr E r"
| "show_expr E (L_Add l r) = show_expr E l @ '' + '' @ show_expr E r"
| "show_expr E (L_Subtract l r) = show_expr E l @ '' - '' @ show_expr E r"
| "show_expr E (L_Multiply l r) = show_expr E l @ '' * '' @ show_expr E r"
| "show_expr E (L_Divide l r) = show_expr E l @ '' / '' @ show_expr E r"
| "show_expr E (L_Modulus l r) = show_expr E l @ '' % '' @ show_expr E r"
| "show_expr E (L_Alias e a) = show_expr E e @ '' as '' @ a"
| "show_expr E (ScalarFunction n args t) = n @ ''(['' @ join_with '', '' (List.map (show_expr E) args) @ ''])''"
| "show_expr E (L_Aggregate a) = show_logical_aggr E a"
| "show_logical_aggr E (A_Sum e) = ''SUM('' @ show_expr E e @ '')''"
| "show_logical_aggr E (A_Min e) = ''MIN('' @ show_expr E e @ '')''"
| "show_logical_aggr E (A_Max e) = ''MAX('' @ show_expr E e @ '')''"
| "show_logical_aggr E (A_Avg e) = ''AVG('' @ show_expr E e @ '')''"
| "show_logical_aggr E (A_Count e) = ''COUNT('' @ show_expr E e @ '')''"
| "show_logical_aggr E (A_CountDistinct e) = ''COUNT(DISTINCT '' @ show_expr E e @ '')''"

section \<open>Plans\<close>

datatype JoinType = Inner | Left | Right

text \<open>@Scan@ carries the schema computed when it was built.\<close>

datatype LogicalPlan =
    Scan string data_source "string list" Schema
  | Projection LogicalPlan "LogicalExpr list"
  | Selection LogicalPlan LogicalExpr
  | Aggregate LogicalPlan "LogicalExpr list" "AggregateExpr list"
  | Join LogicalPlan LogicalPlan JoinType "(string \<times> string) list"
  | Limit LogicalPlan "32 word"

definition derive_schema :: "env \<Rightarrow> data_source \<Rightarrow> string list \<Rightarrow> Schema res" where
  "derive_schema E ds ns = and_then (ds_schema E ds) (\<lambda>s. if ns = [] then Ok s else select s ns)"

definition scan_new :: "env \<Rightarrow> string \<Rightarrow> data_source \<Rightarrow> string list \<Rightarrow> LogicalPlan res" where
  "scan_new E path ds ns = map_res (Scan path ds ns) (derive_schema E ds ns)"

definition duplicate_keys :: "(string \<times> string) list \<Rightarrow> string list" where
  "duplicate_keys ons = List.map fst (List.filter (\<lambda>(l, r). l = r) ons)"

definition drop_fields :: "string list \<Rightarrow> Field list \<Rightarrow> Field list" where
  "drop_fields ns fs = List.filter (\<lambda>f. f_name f \<notin> set ns) fs"

definition join_schema :: "JoinType \<Rightarrow> (string \<times> string) list \<Rightarrow> Schema \<Rightarrow> Schema \<Rightarrow> Schema" where
  "join_schema jt ons l r = new_schema (case jt of
      Inner \<Rightarrow> s_fields l @ drop_fields (duplicate_keys ons) (s_fields r)
    | Left \<Rightarrow> s_fields l @ drop_fields (duplicate_keys ons) (s_fields r)
    | Right \<Rightarrow> drop_fields (duplicate_keys ons) (s_fields l) @ s_fields r)"

fun plan_schema :: "env \<Rightarrow> LogicalPlan \<Rightarrow> Schema res" where
  "plan_schema E (Scan path ds ns s) = Ok s"
| "plan_schema E (Projection i es) = map_res new_schema (traverse (to_field E (plan_schema E i)) es)"
| "plan_schema E (Selection i e) = plan_schema E i"
| "plan_schema E (Aggregate i gs as) =
     and_then (traverse (to_field E (plan_schema E i)) gs) (\<lambda>gf.
     map_res (\<lambda>af. new_schema (gf @ af)) (traverse (aggr_to_field E (plan_schema E i)) as))"
| "plan_schema E (Join l r jt ons) =
     and_then (plan_schema E l) (\<lambda>ls. map_res (join_schema jt ons ls) (plan_schema E r))"
| "plan_schema E (Limit i n) = plan_schema E i"

fun plan_children :: "LogicalPlan \<Rightarrow> LogicalPlan list" where
  "plan_children (Scan path ds ns s) = []"
| "plan_children (Projection i es) = [i]"
| "plan_children (Selection i e) = [i]"
| "plan_children (Aggregate i gs as) = [i]"
| "plan_children (Join l r jt ons) = [l, r]"
| "plan_children (Limit i n) = [i]"

definition show_join_type :: "JoinType \<Rightarrow> string" where
  "show_join_type jt = (case jt of Inner \<Rightarrow> ''Inner'' | Left \<Rightarrow> ''Left'' | Right \<Rightarrow> ''Right'')"

fun show_plan_node :: "env \<Rightarrow> LogicalPlan \<Rightarrow> string" where
  "show_plan_node E (Scan path ds ns s) =
     (if ns = [] then ''Scan: '' @ path @ ''; projection=None''
      else ''Scan: '' @ path @ ''; projection=['' @ join_with '', '' ns @ '']'')"
| "show_plan_node E (Projection i es) = ''Projection: '' @ join_with '', '' (List.map (show_expr E) es)"
| "show_plan_node E (Selection i e) = ''Selection: '' @ show_expr E e"
| "show_plan_node E (Aggregate i gs as) =
     ''Aggregate: groupExpr=['' @ join_with '', '' (List.map (show_expr E) gs)
     @ ''], aggregateExpr=['' @ join_with '', '' (List.map (show_logical_aggr E) as) @ '']''"
| "show_plan_node E (Join l r jt ons) =
     ''Join: type='' @ show_join_type jt @ '', on=[''
     @ join_with '', '' (List.map (\<lambda>(l, r). ''('' @ l @ '', '' @ r @ '')'') ons) @ '']''"
| "show_plan_node E (Limit i n) = ''Limit: '' @ show_signed n"

lemma plan_children_smaller: "c \<in> set (plan_children p) \<Longrightarrow> size c < size p"
  by (cases p) auto

function format_indent :: "env \<Rightarrow> LogicalPlan \<Rightarrow> nat \<Rightarrow> string" where
  "format_indent E p k = replicate k (CHR 0x09) @ show_plan_node E p @ [CHR 0x0A]
     @ concat (List.map (\<lambda>c. format_indent E c (k + 1)) (plan_children p))"
  by pat_completeness auto
termination by (relation "measure (\<lambda>(E, p, k). size p)") (auto dest: plan_children_smaller)

declare format_indent.simps [simp del]

definition format_plan :: "env \<Rightarrow> LogicalPlan \<Rightarrow> string" where
  "format_plan E p = format_indent E p 0"

section \<open>DataFrame\<close>

record DataFrame =
  df_plan :: LogicalPlan

definition df_project :: "DataFrame \<Rightarrow> LogicalExpr list \<Rightarrow> DataFrame" where
  "df_project d es = \<lparr>df_plan = Projection (df_plan d) es\<rparr>"
definition df_filter :: "DataFrame \<Rightarrow> LogicalExpr \<Rightarrow> DataFrame" where
  "df_filter d e = \<lparr>df_plan = Selection (df_plan d) e\<rparr>"
definition df_aggregate :: "DataFrame \<Rightarrow> LogicalExpr list \<Rightarrow> AggregateExpr list \<Rightarrow> DataFrame" where
  "df_aggregate d gs as = \<lparr>df_plan = Aggregate (df_plan d) gs as\<rparr>"
definition df_limit :: "DataFrame \<Rightarrow> 32 word \<Rightarrow> DataFrame" where
  "df_limit d n = \<lparr>df_plan = Limit (df_plan d) n\<rparr>"
definition df_join :: "DataFrame \<Rightarrow> DataFrame \<Rightarrow> JoinType \<Rightarrow> (string \<times> string) list \<Rightarrow> DataFrame" where
  "df_join d r jt ons = \<lparr>df_plan = Join (df_plan d) (df_plan r) jt ons\<rparr>"
definition df_schema :: "env \<Rightarrow> DataFrame \<Rightarrow> Schema res" where
  "df_schema E d = plan_schema E (df_plan d)"

section \<open>Properties\<close>

lemma drop_fields_names: "List.map f_name (drop_fields ns fs) = List.filter (\<lambda>n. n \<notin> set ns) (List.map f_name fs)"
  by (induction fs) (auto simp: drop_fields_def)

text \<open>The output schema of a join names every column once: if each side has distinct
  names and the two sides share only key columns that are joined under the same name, the
  join's names are distinct, and they are exactly the names of the two sides.\<close>

lemma join_schema_distinct:
  assumes "distinct (col_names l)" "distinct (col_names r)"
    and "set (col_names l) \<inter> set (col_names r) = set (duplicate_keys ons)"
  shows "distinct (col_names (join_schema jt ons l r))
    \<and> set (col_names (join_schema jt ons l r)) = set (col_names l) \<union> set (col_names r)"
  using assms by (cases jt) (auto simp: join_schema_def drop_fields_names)

definition people :: Schema where
  "people = new_schema [new_field ''id'' T_Int32, new_field ''name'' T_Utf8]"
definition orders :: Schema where
  "orders = new_schema [new_field ''id'' T_Int32, new_field ''amount'' T_Int64]"

lemma join_schema_distinct_witness:
  "distinct (col_names (join_schema Inner [(''id'', ''id'')] people orders))"
  using join_schema_distinct [of people orders "[(''id'', ''id'')]" Inner]
  by (simp add: people_def orders_def duplicate_keys_def)

text \<open>The tree form, line by line: the nodes in depth-first order with their depth.\<close>

function preorder :: "LogicalPlan \<Rightarrow> nat \<Rightarrow> (nat \<times> LogicalPlan) list" where
  "preorder p k = (k, p) # concat (List.map (\<lambda>c. preorder c (k + 1)) (plan_children p))"
  by pat_completeness auto
termination by (relation "measure (\<lambda>(p, k). size p)") (auto dest: plan_children_smaller)

declare preorder.simps [simp del]

text \<open>The textual form of a plan has one line per operator: it is the concatenation, in
  depth-first order, of each node's own line, indented by one tab per level of depth.\<close>

lemma format_is_preorder:
  "format_plan E p = concat (List.map (\<lambda>(k, n). replicate k (CHR 0x09) @ show_plan_node E n @ [CHR 0x0A])
     (preorder p 0))"
proof -
  have cc: "concat (List.map f (concat xss)) = concat (List.map (\<lambda>xs. concat (List.map f xs)) xss)"
    for f :: "nat \<times> LogicalPlan \<Rightarrow> string" and xss by (induction xss) auto
  have "format_indent E p k = concat (List.map (\<lambda>(k, n). replicate k (CHR 0x09) @ show_plan_node E n @ [CHR 0x0A])
     (preorder p k))" for k
  proof (induction p k rule: preorder.induct)
    case (1 p k)
    then show ?case
      by (subst format_indent.simps, subst preorder.simps)
        (simp add: cc comp_def cong: map_cong)
  qed
  then show ?thesis by (simp add: format_plan_def)
qed

end
