(* ===== verification/Row_Key.thy ===== *)
theory Row_Key
  imports Environment
begin

text \<open>
  The hashable row key of the hash operators (crate @physical-plan@: row_key, and the
  identical @GroupKey@ of hash_aggregate_exec): float cells are compared and hashed by bit
  pattern, every other cell by the derived equality.  The locale @hash_key@ is the contract
  between @Eq@ and @Hash@ the hash containers and the shuffle partitioning rely on.
\<close>

section \<open>Equality and hashing\<close>

text \<open>The derived @PartialEq@ of @ScalarValue@: IEEE equality on floats.\<close>

definition scalar_partial_eq :: "ScalarValue \<Rightarrow> ScalarValue \<Rightarrow> bool" where
  "scalar_partial_eq a b = (case a of
      V_Float32 x \<Rightarrow> (case b of V_Float32 y \<Rightarrow> f32_eq x y | _ \<Rightarrow> False)
    | V_Float64 x \<Rightarrow> (case b of V_Float64 y \<Rightarrow> f64_eq x y | _ \<Rightarrow> False)
    | _ \<Rightarrow> a = b)"

definition scalar_eq :: "ScalarValue \<Rightarrow> ScalarValue \<Rightarrow> bool" where
  "scalar_eq a b = (case a of
      V_Float32 x \<Rightarrow> (case b of V_Float32 y \<Rightarrow> x = y | _ \<Rightarrow> scalar_partial_eq a b)
    | V_Float64 x \<Rightarrow> (case b of V_Float64 y \<Rightarrow> x = y | _ \<Rightarrow> scalar_partial_eq a b)
    | _ \<Rightarrow> scalar_partial_eq a b)"

definition row_key_eq :: "ScalarValue list \<Rightarrow> ScalarValue list \<Rightarrow> bool" where
  "row_key_eq a b = (length a = length b \<and> list_all (\<lambda>(x, y). scalar_eq x y) (zip a b))"

text \<open>What @hash_scalar@ feeds the hasher: the variant's discriminant, then the payload.\<close>

definition hash_string :: "string \<Rightarrow> hash_write list" where
  "hash_string s = [H_Bytes (utf8_encode s), H_U8 255]"

definition hash_scalar :: "ScalarValue \<Rightarrow> hash_write list" where
  "hash_scalar v = (case v of
      V_Null \<Rightarrow> [H_Discr 0]
    | V_Boolean b \<Rightarrow> [H_Discr 1, H_U8 (if b then 1 else 0)]
    | V_Int8 n \<Rightarrow> [H_Discr 2, H_U8 n]
    | V_Int16 n \<Rightarrow> [H_Discr 3, H_U16 n]
    | V_Int32 n \<Rightarrow> [H_Discr 4, H_U32 n]
    | V_Int64 n \<Rightarrow> [H_Discr 5, H_U64 n]
    | V_UInt8 n \<Rightarrow> [H_Discr 6, H_U8 n]
    | V_UInt16 n \<Rightarrow> [H_Discr 7, H_U16 n]
    | V_UInt32 n \<Rightarrow> [H_Discr 8, H_U32 n]
    | V_UInt64 n \<Rightarrow> [H_Discr 9, H_U64 n]
    | V_Float32 x \<Rightarrow> [H_Discr 10, H_U32 x]
    | V_Float64 x \<Rightarrow> [H_Discr 11, H_U64 x]
    | V_Utf8 s \<Rightarrow> H_Discr 12 # hash_string s
    | V_Binary b \<Rightarrow> [H_Discr 13, H_U64 (word_of_nat (length b)), H_Bytes b]
    | V_Date32 d \<Rightarrow> [H_Discr 14, H_U32 d])"

definition hash_row_key :: "ScalarValue list \<Rightarrow> hash_write list" where
  "hash_row_key k = concat (List.map hash_scalar k)"

lemma scalar_eq_iff: "scalar_eq a b \<longleftrightarrow> a = b"
  by (cases a) (auto simp: scalar_eq_def scalar_partial_eq_def split: ScalarValue.split)

lemma row_key_eq_iff [simp]: "row_key_eq a b \<longleftrightarrow> a = b"
proof (cases "length a = length b")
  case True
  then show ?thesis unfolding row_key_eq_def
    by (induction a b rule: list_induct2) (auto simp: scalar_eq_iff)
qed (auto simp: row_key_eq_def)

section \<open>The contract of a hash key\<close>

locale hash_key =
  fixes eq :: "'k \<Rightarrow> 'k \<Rightarrow> bool"
    and writes :: "'k \<Rightarrow> 'w list"
  assumes eq_refl: "eq a a"
    and eq_sym: "eq a b \<Longrightarrow> eq b a"
    and eq_trans: "eq a b \<Longrightarrow> eq b c \<Longrightarrow> eq a c"
    and eq_writes: "eq a b \<Longrightarrow> writes a = writes b"
begin

definition bucket :: "('w list \<Rightarrow> 64 word) \<Rightarrow> nat \<Rightarrow> 'k \<Rightarrow> nat" where
  "bucket h n k = unat (h (writes k)) mod n"

lemma bucket_eq: "eq a b \<Longrightarrow> bucket h n a = bucket h n b"
  by (simp add: bucket_def eq_writes)

lemma bucket_less: "0 < n \<Longrightarrow> bucket h n k < n"
  by (simp add: bucket_def)

end

interpretation row_key: hash_key row_key_eq hash_row_key
  by unfold_locales auto

section \<open>Distinct keys feed the hasher differently\<close>

lemma utf8_encode_inj: "utf8_encode s = utf8_encode t \<longleftrightarrow> s = t"
  using from_utf8_encode by (metis option.inject res.inject(1))

text \<open>The discriminant determines how many writes of a cell follow, so the writes of a key can be
  cut into those of its cells again.\<close>

lemma hash_scalar_split:
  "hash_scalar v @ xs = hash_scalar w @ ys \<longleftrightarrow> v = w \<and> xs = ys"
  by (cases v; cases w) (auto simp: hash_scalar_def hash_string_def utf8_encode_inj)

lemma hash_row_key_inj: "hash_row_key a = hash_row_key b \<longleftrightarrow> a = b"
proof (induction a arbitrary: b)
  case Nil
  show ?case by (cases b) (auto simp: hash_row_key_def hash_scalar_def hash_string_def split: ScalarValue.splits)
next
  case (Cons v a)
  have split: "hash_row_key (u # us) = hash_scalar u @ hash_row_key us" for u us by (simp add: hash_row_key_def)
  show ?case
  proof (cases b)
    case Nil
    then show ?thesis by (auto simp: hash_row_key_def hash_scalar_def hash_string_def split: ScalarValue.splits)
  qed (simp add: split hash_scalar_split Cons.IH)
qed

section \<open>Properties\<close>

text \<open>C31: Row keys are exact hash keys.  Two keys are equal exactly when they have the same
  cells, floats compared by their bits; the derived equality of cells, which compares floats as
  numbers, differs from this on floats only.  What a key feeds the hasher determines the key: equal keys write the same, different keys, of
  whatever lengths, never do.\<close>

theorem row_key_exact:
  "(row_key_eq a b \<longleftrightarrow> a = b) \<and> (hash_row_key a = hash_row_key b \<longleftrightarrow> row_key_eq a b)
   \<and> (row_key_eq [V_Float64 x] [V_Float64 y] \<longleftrightarrow> x = y) \<and> (row_key_eq [V_Float32 u] [V_Float32 v] \<longleftrightarrow> u = v)
   \<and> {c. scalar_partial_eq c d \<noteq> scalar_eq c d} \<subseteq> range V_Float32 \<union> range V_Float64"
proof -
  have "c \<in> range V_Float32 \<union> range V_Float64" if "scalar_partial_eq c d \<noteq> scalar_eq c d" for c
    using that by (cases c) (auto simp: scalar_eq_def)
  then show ?thesis by (auto simp: hash_row_key_inj)
qed

end
