(* ===== verification/Shuffle.thy ===== *)
theory Shuffle
  imports Row_Key
begin

text \<open>
  Shuffle storage (crate @physical-plan@: shuffle_manager, shuffle_location,
  executor_context).  The local disk is a map from paths to the batches of the Arrow IPC file at
  that path.  Base directory and job id are strings of any shape: joining them resolves
  separators, @.@ and @..@ as @PathBuf::join@ and the operating system do, on a disk without
  symbolic links, with relative paths starting at its root.  Failures of the operating system
  are outside the model.  The locale
  @key_value_store@ is the interface the shuffle writer and reader need of the storage.
\<close>

section \<open>Locations, storage, executor context\<close>

record ShuffleLocation =
  loc_job_uuid :: string
  loc_stage_id :: "32 word"
  loc_partition_id :: "32 word"
  loc_executor_id :: string
  loc_executor_host :: string
  loc_executor_port :: "32 word"

definition new_location ::
  "string \<Rightarrow> 32 word \<Rightarrow> 32 word \<Rightarrow> string \<Rightarrow> string \<Rightarrow> 32 word \<Rightarrow> ShuffleLocation" where
  "new_location job st p e h port = \<lparr>loc_job_uuid = job, loc_stage_id = st, loc_partition_id = p,
     loc_executor_id = e, loc_executor_host = h, loc_executor_port = port\<rparr>"

text \<open>A path is the list of its components from the root of the disk.\<close>

type_synonym path = "string list"

fun split_slash :: "string \<Rightarrow> string list" where
  "split_slash [] = [[]]"
| "split_slash (c # cs) = (if c = CHR ''/'' then [] # split_slash cs
     else (case split_slash cs of x # xs \<Rightarrow> (c # x) # xs | [] \<Rightarrow> [[c]]))"

definition descend :: "path \<Rightarrow> string \<Rightarrow> path" where
  "descend d c = (if c = [] \<or> c = ''.'' then d else if c = ''..'' then butlast d else d @ [c])"

text \<open>@PathBuf::join@: an absolute argument replaces the path, another one extends it.\<close>

definition join_path :: "path \<Rightarrow> string \<Rightarrow> path" where
  "join_path d s = foldl descend (if take 1 s = ''/'' then [] else d) (split_slash s)"

record ShuffleManager =
  base_dir :: string
  sm_files :: "path \<rightharpoonup> RecordBatch list"

definition shuffle_manager_new :: "string \<Rightarrow> ShuffleManager" where
  "shuffle_manager_new d = \<lparr>base_dir = d, sm_files = Map.empty\<rparr>"

definition default_shuffle_manager :: ShuffleManager where
  "default_shuffle_manager = shuffle_manager_new ''/tmp/rquery-shuffle''"

definition partition_dir :: "ShuffleManager \<Rightarrow> string \<Rightarrow> 32 word \<Rightarrow> path" where
  "partition_dir m job st = join_path (join_path (join_path [] (base_dir m)) job) (show_signed st)"

definition partition_file :: "ShuffleManager \<Rightarrow> string \<Rightarrow> 32 word \<Rightarrow> 32 word \<Rightarrow> path" where
  "partition_file m job st p = join_path (partition_dir m job st) (''partition_'' @ show_signed p @ ''.arrow'')"

definition write_partition ::
  "ShuffleManager \<Rightarrow> string \<Rightarrow> 32 word \<Rightarrow> 32 word \<Rightarrow> RecordBatch list \<Rightarrow> ShuffleManager" where
  "write_partition m job st p bs =
     (if bs = [] then m
      else m\<lparr>sm_files := (sm_files m)(partition_file m job st p \<mapsto> bs)\<rparr>)"

definition read_partition :: "env \<Rightarrow> ShuffleManager \<Rightarrow> string \<Rightarrow> 32 word \<Rightarrow> 32 word \<Rightarrow> stream res" where
  "read_partition E m job st p = (case sm_files m (partition_file m job st p) of
      None \<Rightarrow> Panic (Panicked ''Shuffle file not found'')
    | Some bs \<Rightarrow> Ok (ipc_read_back E bs))"

definition remove_dir_all :: "ShuffleManager \<Rightarrow> path \<Rightarrow> ShuffleManager" where
  "remove_dir_all m d =
     m\<lparr>sm_files := (\<lambda>q. if take (length d) q = d then None else sm_files m q)\<rparr>"

definition cleanup_job :: "ShuffleManager \<Rightarrow> string \<Rightarrow> ShuffleManager" where
  "cleanup_job m job = remove_dir_all m (join_path (join_path [] (base_dir m)) job)"

definition cleanup_all :: "ShuffleManager \<Rightarrow> ShuffleManager" where
  "cleanup_all m = remove_dir_all m (join_path [] (base_dir m))"

record ExecutorContext =
  executor_id :: string
  executor_host :: string
  executor_port :: "32 word"
  shuffle_manager :: ShuffleManager

definition executor_context_new :: "string \<Rightarrow> string \<Rightarrow> 32 word \<Rightarrow> string \<Rightarrow> ExecutorContext" where
  "executor_context_new i h p d = \<lparr>executor_id = i, executor_host = h, executor_port = p,
     shuffle_manager = shuffle_manager_new d\<rparr>"

definition with_shuffle_manager :: "string \<Rightarrow> string \<Rightarrow> 32 word \<Rightarrow> ShuffleManager \<Rightarrow> ExecutorContext" where
  "with_shuffle_manager i h p m = \<lparr>executor_id = i, executor_host = h, executor_port = p,
     shuffle_manager = m\<rparr>"

section \<open>Paths determine partitions\<close>

lemma show_signed_inj [simp]: "show_signed (a :: 'a::len word) = show_signed (b :: 'a word) \<longleftrightarrow> a = b"
proof
  assume "show_signed a = show_signed b"
  then have "parse_int (show_int (sint a)) = parse_int (show_int (sint b))"
    by (simp add: show_signed_def)
  then show "a = b" by (simp add: parse_int_show signed_word_eqI)
qed simp

text \<open>A string that names one directory below another.\<close>

definition plain_component :: "string \<Rightarrow> bool" where
  "plain_component s = (s \<notin> {[], ''.'', ''..''} \<and> CHR ''/'' \<notin> set s)"

lemma split_plain: "CHR ''/'' \<notin> set s \<Longrightarrow> split_slash s = [s]"
  by (induction s) auto

lemma join_plain: "plain_component s \<Longrightarrow> join_path d s = d @ [s]"
  by (cases s) (auto simp: join_path_def plain_component_def split_plain descend_def)

lemma show_int_chars: "set (show_int i) \<subseteq> insert (CHR ''-'') {c. is_ascii_digit c}"
  using show_nat_digits [of "nat i"] show_nat_digits [of "nat (- i)"] by (auto simp: show_int_def list_all_iff)

lemma show_signed_plain: "plain_component (show_signed w)"
proof -
  have "CHR ''/'' \<notin> set (show_signed w)" "CHR ''.'' \<notin> set (show_signed w)"
    using show_int_chars [of "sint w"] by (auto simp: show_signed_def is_ascii_digit_def)
  moreover have "show_signed w \<noteq> []" by (simp add: show_signed_def show_int_def)
  ultimately show ?thesis by (auto simp: plain_component_def)
qed

lemma partition_name_plain: "plain_component (''partition_'' @ show_signed w @ ''.arrow'')"
  using show_signed_plain [of w] by (auto simp: plain_component_def)

definition job_dir :: "ShuffleManager \<Rightarrow> string \<Rightarrow> path" where
  "job_dir m job = join_path (join_path [] (base_dir m)) job"

lemma partition_file_path:
  "partition_file m job st p = job_dir m job @ [show_signed st, ''partition_'' @ show_signed p @ ''.arrow'']"
  unfolding partition_file_def partition_dir_def job_dir_def join_plain [OF show_signed_plain] join_plain [OF partition_name_plain] by simp

lemma partition_file_inj:
  "partition_file m job st p = partition_file m job st' p' \<longleftrightarrow> st = st' \<and> p = p'"
  by (auto simp: partition_file_path)

lemma job_dir_plain: "plain_component job \<Longrightarrow> job_dir m job = join_path [] (base_dir m) @ [job]"
  by (simp add: job_dir_def join_plain)

lemma partition_file_jobs:
  "plain_component job \<Longrightarrow> plain_component job' \<Longrightarrow>
     partition_file m job st p = partition_file m job' st' p' \<longleftrightarrow> job = job' \<and> st = st' \<and> p = p'"
  by (auto simp: partition_file_path job_dir_plain)

lemma base_dir_write [simp]: "base_dir (write_partition m job st p bs) = base_dir m"
  by (simp add: write_partition_def)

lemma partition_file_write [simp]:
  "partition_file (write_partition m j s q bs) job st p = partition_file m job st p"
  by (simp add: partition_file_def partition_dir_def)

lemma written_files:
  "sm_files (write_partition m job st p bs) f = (if bs \<noteq> [] \<and> f = partition_file m job st p then Some bs else sm_files m f)"
  by (simp add: write_partition_def)

section \<open>The storage interface\<close>

locale key_value_store =
  fixes get :: "'s \<Rightarrow> 'k \<Rightarrow> 'v option"
    and put :: "'s \<Rightarrow> 'k \<Rightarrow> 'v \<Rightarrow> 's"
    and storable :: "'v \<Rightarrow> bool"
  assumes get_put_same: "storable v \<Longrightarrow> get (put s k v) k = Some v"
    and get_put_other: "k \<noteq> k' \<Longrightarrow> get (put s k v) k' = get s k'"
    and put_unstorable: "\<not> storable v \<Longrightarrow> get (put s k v) k' = get s k'"
begin

definition put_all :: "'s \<Rightarrow> ('k \<times> 'v) list \<Rightarrow> 's" where
  "put_all s kvs = foldl (\<lambda>s (k, v). put s k v) s kvs"

lemma put_all_other: "k \<notin> fst ` set kvs \<Longrightarrow> get (put_all s kvs) k = get s k"
  by (induction kvs arbitrary: s) (auto simp: put_all_def get_put_other split: prod.split)

text \<open>After storing under distinct keys, each key holds its value.\<close>

lemma put_all_get:
  "distinct (List.map fst kvs) \<Longrightarrow> (k, v) \<in> set kvs \<Longrightarrow> storable v \<Longrightarrow> get (put_all s kvs) k = Some v"
proof (induction kvs arbitrary: s)
  case (Cons kv kvs)
  obtain k' v' where kv: "kv = (k', v')" by fastforce
  show ?case
  proof (cases "(k, v) \<in> set kvs")
    case True
    then show ?thesis using Cons kv by (simp add: put_all_def)
  next
    case False
    then have "k = k'" "v = v'" "k \<notin> fst ` set kvs" using Cons.prems kv by force+
    then show ?thesis using put_all_other [of k kvs "put s k' v'"] get_put_same Cons.prems(3) kv
      by (simp add: put_all_def)
  qed
qed simp

end

text \<open>The files of one job, addressed by stage and partition.\<close>

definition sm_get :: "string \<Rightarrow> ShuffleManager \<Rightarrow> 32 word \<times> 32 word \<Rightarrow> RecordBatch list option" where
  "sm_get job m k = sm_files m (partition_file m job (fst k) (snd k))"

definition sm_put :: "string \<Rightarrow> ShuffleManager \<Rightarrow> 32 word \<times> 32 word \<Rightarrow> RecordBatch list \<Rightarrow> ShuffleManager" where
  "sm_put job m k bs = write_partition m job (fst k) (snd k) bs"

lemma sm_get_put:
  "sm_get job (sm_put job m k bs) k' = (if bs \<noteq> [] \<and> k = k' then Some bs else sm_get job m k')"
  by (auto simp: sm_get_def sm_put_def written_files partition_file_inj prod_eq_iff)

interpretation shuffle_files: key_value_store "sm_get job" "sm_put job" "\<lambda>bs. bs \<noteq> []" for job :: string
  by unfold_locales (simp_all add: sm_get_put)

section \<open>Properties\<close>

lemma read_partition_get:
  "read_partition E m job st p = (case sm_get job m (st, p) of
      None \<Rightarrow> Panic (Panicked ''Shuffle file not found'') | Some bs \<Rightarrow> Ok (ipc_read_back E bs))"
  by (simp add: read_partition_def sm_get_def)

lemma base_dir_cleanup [simp]:
  "base_dir (cleanup_job m job) = base_dir m" "base_dir (cleanup_all m) = base_dir m"
  by (simp_all add: cleanup_job_def cleanup_all_def remove_dir_all_def)

lemma partition_file_base: "base_dir m = base_dir m' \<Longrightarrow> partition_file m = partition_file m'"
  by (simp add: fun_eq_iff partition_file_def partition_dir_def)

lemma cleanup_file:
  "sm_files (cleanup_job m job) f = (if take (length (job_dir m job)) f = job_dir m job then None else sm_files m f)"
  "sm_files (cleanup_all m) f = (if take (length (join_path [] (base_dir m))) f = join_path [] (base_dir m) then None else sm_files m f)"
  by (simp_all add: cleanup_job_def cleanup_all_def remove_dir_all_def job_dir_def)



end
