(* ===== verification/Phys_Plan.thy ===== *)
theory Phys_Plan
  imports Accumulators Logical_Plan Shuffle
begin

text \<open>
  Physical operators (crate @physical-plan@): the plan tree, its schema, children and
  rebuilding with new children, and @execute@, which returns the iterator of batches.  An
  operator that maps its input lazily maps the list of pulls; the hash operators and the
  shuffle writer drain their input when executed.  A @HashMap@ from keys to values is an
  association list in insertion order; where the code iterates over the map the order is
  the parameter @map_order@.
\<close>

section \<open>Plans\<close>

datatype AggregateMode = Complete | Partial | Final

datatype phys_plan =
    Scan_Exec data_source "string list"
  | Projection_Exec phys_plan Schema "phys_expr list"
  | Selection_Exec phys_plan phys_expr
  | Limit_Exec phys_plan nat
  | Hash_Aggregate_Exec phys_plan "phys_expr list" "phys_aggr list" Schema AggregateMode
  | Hash_Join_Exec phys_plan phys_plan JoinType "nat list" "nat list" Schema "nat list"
  | Shuffle_Writer_Exec phys_plan "phys_expr list" string "32 word" "32 word"
  | Shuffle_Reader_Exec Schema "ShuffleLocation list"

fun phys_schema :: "env \<Rightarrow> phys_plan \<Rightarrow> Schema res" where
  "phys_schema E (Scan_Exec ds ns) = and_then (ds_schema E ds) (\<lambda>s. select s ns)"
| "phys_schema E (Projection_Exec i s es) = Ok s"
| "phys_schema E (Selection_Exec i e) = phys_schema E i"
| "phys_schema E (Limit_Exec i n) = phys_schema E i"
| "phys_schema E (Hash_Aggregate_Exec i gs as s m) = Ok s"
| "phys_schema E (Hash_Join_Exec l r jt lk rk s ex) = Ok s"
| "phys_schema E (Shuffle_Writer_Exec i es job st n) = phys_schema E i"
| "phys_schema E (Shuffle_Reader_Exec s locs) = Ok s"

fun children :: "phys_plan \<Rightarrow> phys_plan list" where
  "children (Scan_Exec ds ns) = []"
| "children (Projection_Exec i s es) = [i]"
| "children (Selection_Exec i e) = [i]"
| "children (Limit_Exec i n) = [i]"
| "children (Hash_Aggregate_Exec i gs as s m) = [i]"
| "children (Hash_Join_Exec l r jt lk rk s ex) = [l, r]"
| "children (Shuffle_Writer_Exec i es job st n) = [i]"
| "children (Shuffle_Reader_Exec s locs) = []"

definition only_child :: "phys_plan list \<Rightarrow> (phys_plan \<Rightarrow> phys_plan) \<Rightarrow> phys_plan res" where
  "only_child cs f = (case cs of [c] \<Rightarrow> Ok (f c) | _ \<Rightarrow> Panic Assert_Failed)"

fun with_new_children :: "phys_plan \<Rightarrow> phys_plan list \<Rightarrow> phys_plan res" where
  "with_new_children (Scan_Exec ds ns) cs = (if cs = [] then Ok (Scan_Exec ds ns) else Panic Assert_Failed)"
| "with_new_children (Projection_Exec i s es) cs = only_child cs (\<lambda>c. Projection_Exec c s es)"
| "with_new_children (Selection_Exec i e) cs = only_child cs (\<lambda>c. Selection_Exec c e)"
| "with_new_children (Limit_Exec i n) cs = only_child cs (\<lambda>c. Limit_Exec c n)"
| "with_new_children (Hash_Aggregate_Exec i gs as s m) cs =
     only_child cs (\<lambda>c. Hash_Aggregate_Exec c gs as s m)"
| "with_new_children (Hash_Join_Exec l r jt lk rk s ex) cs =
     (case cs of [a, b] \<Rightarrow> Ok (Hash_Join_Exec a b jt lk rk s ex) | _ \<Rightarrow> Panic Assert_Failed)"
| "with_new_children (Shuffle_Writer_Exec i es job st n) cs =
     only_child cs (\<lambda>c. Shuffle_Writer_Exec c es job st n)"
| "with_new_children (Shuffle_Reader_Exec s locs) cs =
     (if cs = [] then Ok (Shuffle_Reader_Exec s locs) else Panic Assert_Failed)"

section \<open>Projection, selection, limit\<close>

definition project_step :: "env \<Rightarrow> Schema \<Rightarrow> phys_expr list \<Rightarrow> RecordBatch \<Rightarrow> RecordBatch res" where
  "project_step E s es b = and_then (traverse (\<lambda>e. evaluate E e b) es) (create E s)"

text \<open>The row numbers @filter@ and @select_rows@ keep.\<close>

definition is_true :: "ScalarValue \<Rightarrow> bool" where
  "is_true v = (v = V_Boolean True)"

definition selected :: "ColumnVector \<Rightarrow> nat list res" where
  "selected sel = map_res (\<lambda>vs. List.filter (\<lambda>i. is_true (vs ! i)) [0..<cv_len sel]) (cv_cells sel)"

definition take_rows :: "ColumnVector \<Rightarrow> nat list \<Rightarrow> ColumnVector res" where
  "take_rows c is = map_res Arrow_Field (build_rows (cv_type c) (length is) (\<lambda>k. cv_value c (is ! k)))"

definition filter_column :: "ColumnVector \<Rightarrow> ColumnVector \<Rightarrow> ColumnVector res" where
  "filter_column c sel = and_then (selected sel) (take_rows c)"

definition batch_columns :: "RecordBatch \<Rightarrow> ColumnVector list res" where
  "batch_columns b = traverse (batch_field b) [0..<column_count b]"

definition select_step :: "env \<Rightarrow> Schema \<Rightarrow> phys_expr \<Rightarrow> RecordBatch \<Rightarrow> RecordBatch res" where
  "select_step E s e b = and_then (evaluate E e b) (\<lambda>sel.
     and_then (traverse (\<lambda>i. and_then (batch_field b i) (\<lambda>c. filter_column c sel)) [0..<column_count b])
       (create E s))"

definition truncate_batch :: "env \<Rightarrow> RecordBatch \<Rightarrow> nat \<Rightarrow> Schema \<Rightarrow> RecordBatch res" where
  "truncate_batch E b n s =
     and_then (traverse (\<lambda>i. and_then (batch_field b i) (\<lambda>c. take_rows c [0..<n])) [0..<column_count b])
       (create E s)"

text \<open>@Iterator::scan@: a pull happens before the budget is looked at.\<close>

fun limit_stream :: "env \<Rightarrow> Schema \<Rightarrow> nat \<Rightarrow> stream \<Rightarrow> stream" where
  "limit_stream E s rem [] = []"
| "limit_stream E s rem (Panic p # xs) = Panic p # limit_stream E s rem xs"
| "limit_stream E s rem (Ok b # xs) =
     (if rem = 0 then []
      else if row_count b \<le> rem then Ok b # limit_stream E s (rem - row_count b) xs
      else truncate_batch E b rem s # limit_stream E s 0 xs)"

section \<open>Building a batch from rows\<close>

definition append_at :: "builder list \<Rightarrow> nat \<Rightarrow> ScalarValue \<Rightarrow> builder list res" where
  "append_at bs i v = and_then (idx bs i) (\<lambda>b. map_res (\<lambda>b'. bs[i := b']) (append_value b v))"

fun append_cells :: "builder list \<Rightarrow> nat \<Rightarrow> ScalarValue res list \<Rightarrow> builder list res" where
  "append_cells bs k [] = Ok bs"
| "append_cells bs k (v # vs) =
     and_then v (\<lambda>x. and_then (append_at bs k x) (\<lambda>bs'. append_cells bs' (k + 1) vs))"

definition new_builders :: "Schema \<Rightarrow> builder list res" where
  "new_builders s = traverse (\<lambda>f. builder_new (f_type f)) (s_fields s)"

definition finish_builders :: "env \<Rightarrow> Schema \<Rightarrow> builder list \<Rightarrow> RecordBatch res" where
  "finish_builders E s bs = create E s (List.map (\<lambda>b. Arrow_Field (build b)) bs)"

section \<open>Hash aggregation\<close>

type_synonym 'v keyed = "(ScalarValue list \<times> 'v) list"

text \<open>@map.entry(key).or_insert_with(..)@ followed by an update of the entry.\<close>

fun upsert :: "ScalarValue list \<Rightarrow> 'v \<Rightarrow> ('v \<Rightarrow> 'v res) \<Rightarrow> 'v keyed \<Rightarrow> 'v keyed res" where
  "upsert k d f [] = map_res (\<lambda>v. [(k, v)]) (f d)"
| "upsert k d f ((k', v) # m) =
     (if row_key_eq k k' then map_res (\<lambda>v'. (k', v') # m) (f v)
      else map_res ((#) (k', v)) (upsert k d f m))"

definition accumulate_mode :: "AggregateMode \<Rightarrow> accumulator \<Rightarrow> ScalarValue \<Rightarrow> accumulator res" where
  "accumulate_mode m acc v = (if m = Final then merge acc (Scalar v) else accumulate acc v)"

definition update_accumulators ::
  "AggregateMode \<Rightarrow> ColumnVector list \<Rightarrow> nat \<Rightarrow> accumulator list \<Rightarrow> accumulator list res" where
  "update_accumulators m inputs row accs =
     traverse (\<lambda>(acc, c). and_then (cv_value c row) (accumulate_mode m acc)) (zip accs inputs)"

definition aggregate_row ::
  "AggregateMode \<Rightarrow> phys_aggr list \<Rightarrow> ColumnVector list \<Rightarrow> ColumnVector list
     \<Rightarrow> accumulator list keyed \<Rightarrow> nat \<Rightarrow> accumulator list keyed res" where
  "aggregate_row m as keys inputs table row =
     and_then (traverse (\<lambda>c. cv_value c row) keys) (\<lambda>key.
       upsert key (List.map create_accumulator as) (update_accumulators m inputs row) table)"

definition aggregate_batch ::
  "env \<Rightarrow> AggregateMode \<Rightarrow> phys_expr list \<Rightarrow> phys_aggr list \<Rightarrow> accumulator list keyed \<Rightarrow> RecordBatch
     \<Rightarrow> accumulator list keyed res" where
  "aggregate_batch E m gs as table b =
     and_then (traverse (\<lambda>e. evaluate E e b) gs) (\<lambda>keys.
     and_then (traverse (\<lambda>a. evaluate E (input_expression a) b) as) (\<lambda>inputs.
       fold_res (aggregate_row m as keys inputs) table [0..<row_count b]))"

definition output_value :: "AggregateMode \<Rightarrow> accumulator \<Rightarrow> ScalarValue res" where
  "output_value m acc =
     (if m = Partial then (case intermediate_value acc of
          Scalar s \<Rightarrow> Ok s
        | Avg_State s n \<Rightarrow> Panic (Panicked ''HashAggregateExec PARTIAL output of AVG intermediate state''))
      else Ok (final_value acc))"

definition emit_group :: "AggregateMode \<Rightarrow> nat \<Rightarrow> builder list
     \<Rightarrow> ScalarValue list \<times> accumulator list \<Rightarrow> builder list res" where
  "emit_group m n bs g = and_then (append_cells bs 0 (List.map Ok (fst g)))
     (\<lambda>bs'. append_cells bs' n (List.map (output_value m) (snd g)))"

definition map_entries :: "env \<Rightarrow> 'v keyed \<Rightarrow> 'v keyed" where
  "map_entries E m = List.map (\<lambda>k. (k, the (map_of m k))) (map_order E (List.map fst m))"

definition aggregate_output ::
  "env \<Rightarrow> AggregateMode \<Rightarrow> nat \<Rightarrow> Schema \<Rightarrow> accumulator list keyed \<Rightarrow> RecordBatch res" where
  "aggregate_output E m n s table = and_then (new_builders s) (\<lambda>bs.
     and_then (fold_res (emit_group m n) bs (map_entries E table)) (finish_builders E s))"

definition aggregate_stream ::
  "env \<Rightarrow> phys_expr list \<Rightarrow> phys_aggr list \<Rightarrow> Schema \<Rightarrow> AggregateMode \<Rightarrow> stream \<Rightarrow> RecordBatch res" where
  "aggregate_stream E gs as s m xs =
     and_then (fold_res (\<lambda>t x. and_then x (aggregate_batch E m gs as t)) [] xs)
       (aggregate_output E m (length gs) s)"

section \<open>Hash join\<close>

definition combine_rows :: "nat list \<Rightarrow> ScalarValue list \<Rightarrow> ScalarValue list \<Rightarrow> ScalarValue list" where
  "combine_rows ex l r = l @ List.map snd (List.filter (\<lambda>(i, v). i \<notin> set ex) (enumerate 0 r))"

definition create_batch :: "env \<Rightarrow> Schema \<Rightarrow> ScalarValue list list \<Rightarrow> RecordBatch res" where
  "create_batch E s rows = and_then (new_builders s) (\<lambda>bs.
     and_then (fold_res (\<lambda>bs row. append_cells bs 0 (List.map Ok row)) bs rows) (finish_builders E s))"

definition key_of :: "ColumnVector list \<Rightarrow> nat list \<Rightarrow> nat \<Rightarrow> ScalarValue list res" where
  "key_of cols keys row = traverse (\<lambda>k. and_then (idx cols k) (\<lambda>c. cv_value c row)) keys"

definition full_row :: "ColumnVector list \<Rightarrow> nat \<Rightarrow> ScalarValue list res" where
  "full_row cols row = traverse (\<lambda>c. cv_value c row) cols"

definition build_batch_rows :: "nat list \<Rightarrow> ScalarValue list list keyed \<Rightarrow> RecordBatch
     \<Rightarrow> ScalarValue list list keyed res" where
  "build_batch_rows keys table b = and_then (batch_columns b) (\<lambda>cols.
     fold_res (\<lambda>t row. and_then (key_of cols keys row) (\<lambda>k. and_then (full_row cols row)
       (\<lambda>r. upsert k [] (\<lambda>rs. Ok (rs @ [r])) t))) table [0..<row_count b])"

definition build_table :: "nat list \<Rightarrow> stream \<Rightarrow> ScalarValue list list keyed res" where
  "build_table keys xs = fold_res (\<lambda>t x. and_then x (build_batch_rows keys t)) [] xs"

text \<open>The output rows of one probe row.\<close>

definition probe_row :: "JoinType \<Rightarrow> nat list \<Rightarrow> nat \<Rightarrow> ScalarValue list list keyed
     \<Rightarrow> ScalarValue list \<Rightarrow> ScalarValue list \<Rightarrow> ScalarValue list list" where
  "probe_row jt ex n table key l = (case map_of table key of
      Some rs \<Rightarrow> List.map (combine_rows ex l) rs
    | None \<Rightarrow> if jt = Left then [combine_rows ex l (replicate n V_Null)] else [])"

definition probe_batch :: "env \<Rightarrow> JoinType \<Rightarrow> nat list \<Rightarrow> nat list \<Rightarrow> nat \<Rightarrow> Schema
     \<Rightarrow> ScalarValue list list keyed \<Rightarrow> RecordBatch list \<Rightarrow> RecordBatch \<Rightarrow> RecordBatch list res" where
  "probe_batch E jt lk ex n s table outs b = and_then (batch_columns b) (\<lambda>cols.
     and_then (traverse (\<lambda>row. and_then (key_of cols lk row) (\<lambda>k. map_res (probe_row jt ex n table k) (full_row cols row)))
        [0..<row_count b])
     (\<lambda>rows. if concat rows = [] then Ok outs
             else map_res (\<lambda>o'. outs @ [o']) (create_batch E s (concat rows))))"

definition matched_keys :: "nat list \<Rightarrow> ScalarValue list list keyed \<Rightarrow> stream \<Rightarrow> ScalarValue list list res" where
  "matched_keys lk table xs = fold_res (\<lambda>ks x. and_then x (\<lambda>b. and_then (batch_columns b) (\<lambda>cols.
     fold_res (\<lambda>ks row. map_res (\<lambda>k. if map_of table k \<noteq> None then push_new ks k else ks) (key_of cols lk row))
       ks [0..<row_count b]))) [] xs"

definition unmatched_rows :: "env \<Rightarrow> nat list \<Rightarrow> nat \<Rightarrow> ScalarValue list list keyed \<Rightarrow> ScalarValue list list
     \<Rightarrow> ScalarValue list list" where
  "unmatched_rows E ex n table ks = concat (List.map (\<lambda>(k, rs).
     if k \<in> set ks then [] else List.map (combine_rows ex (replicate n V_Null)) rs) (map_entries E table))"

text \<open>The three phases over the input iterators: build from the right one, probe with the
  left one, and for a right join walk the left one again for the keys that matched.\<close>

definition join_streams :: "env \<Rightarrow> JoinType \<Rightarrow> nat list \<Rightarrow> nat list \<Rightarrow> Schema \<Rightarrow> nat list
     \<Rightarrow> stream res \<Rightarrow> stream res \<Rightarrow> Schema res \<Rightarrow> Schema res \<Rightarrow> stream res" where
  "join_streams E jt lk rk s ex ls rs lsch rsch =
     and_then rs (\<lambda>rs. and_then (build_table rk rs) (\<lambda>table.
     and_then rsch (\<lambda>rsch. and_then ls (\<lambda>lxs.
     and_then (fold_res (\<lambda>outs x. and_then x (probe_batch E jt lk ex (width rsch) s table outs)) [] lxs) (\<lambda>outs.
       if jt = Right then
         and_then ls (\<lambda>lxs. and_then (matched_keys lk table lxs) (\<lambda>ks. and_then lsch (\<lambda>lsch.
           let um = unmatched_rows E ex (width lsch) table ks
           in if um = [] then Ok (List.map Ok outs)
              else map_res (\<lambda>b. List.map Ok (outs @ [b])) (create_batch E s um))))
       else Ok (List.map Ok outs))))))"

section \<open>Shuffle reader\<close>

definition shuffle_read :: "env \<Rightarrow> ExecutorContext \<Rightarrow> ShuffleLocation list \<Rightarrow> stream res" where
  "shuffle_read E ctx locs =
     (if \<not> list_all (\<lambda>l. loc_executor_id l = executor_id ctx) locs
      then Panic (Panicked ''ShuffleReaderExec: remote shuffle reads require an Arrow Flight client'')
      else Ok (concat (List.map (\<lambda>l. case read_partition E (shuffle_manager ctx) (loc_job_uuid l)
                (loc_stage_id l) (loc_partition_id l) of Ok xs \<Rightarrow> xs | Panic p \<Rightarrow> [Panic p]) locs)))"

section \<open>Execution\<close>

fun execute :: "env \<Rightarrow> ExecutorContext \<Rightarrow> phys_plan \<Rightarrow> stream res" where
  "execute E ctx (Scan_Exec ds ns) = ds_scan E ds ns"
| "execute E ctx (Projection_Exec i s es) =
     map_res (List.map (\<lambda>x. and_then x (project_step E s es))) (execute E ctx i)"
| "execute E ctx (Selection_Exec i e) = and_then (phys_schema E i) (\<lambda>s.
     map_res (List.map (\<lambda>x. and_then x (select_step E s e))) (execute E ctx i))"
| "execute E ctx (Limit_Exec i n) = and_then (phys_schema E i) (\<lambda>s.
     map_res (limit_stream E s n) (execute E ctx i))"
| "execute E ctx (Hash_Aggregate_Exec i gs as s m) =
     and_then (execute E ctx i) (\<lambda>xs. map_res (\<lambda>b. [Ok b]) (aggregate_stream E gs as s m xs))"
| "execute E ctx (Hash_Join_Exec l r jt lk rk s ex) =
     join_streams E jt lk rk s ex (execute E ctx l) (execute E ctx r) (phys_schema E l) (phys_schema E r)"
| "execute E ctx (Shuffle_Writer_Exec i es job st n) =
     Panic (Panicked ''ShuffleWriterExec::execute() does not fit the trait shape'')"
| "execute E ctx (Shuffle_Reader_Exec s locs) = shuffle_read E ctx locs"

section \<open>Shuffle writer\<close>

text \<open>@partition_count as usize@ sign-extends.\<close>

definition i32_as_usize :: "32 word \<Rightarrow> nat" where
  "i32_as_usize n = unat (scast n :: 64 word)"

definition compute_target :: "env \<Rightarrow> nat \<Rightarrow> ScalarValue list \<Rightarrow> nat res" where
  "compute_target E n key = (if n = 0 then Panic Divide_By_Zero
     else Ok (unat (hash_finish E (hash_row_key key)) mod n))"

definition compute_targets :: "env \<Rightarrow> ColumnVector list \<Rightarrow> nat \<Rightarrow> nat \<Rightarrow> nat list res" where
  "compute_targets E keys rows n = traverse (\<lambda>row.
     and_then (traverse (\<lambda>c. cv_value c row) keys) (compute_target E n)) [0..<rows]"

definition select_rows :: "env \<Rightarrow> RecordBatch \<Rightarrow> Schema \<Rightarrow> bool list \<Rightarrow> RecordBatch res" where
  "select_rows E b s keep =
     and_then (traverse (\<lambda>i. and_then (batch_field b i) (\<lambda>c.
         take_rows c (List.filter (\<lambda>r. keep ! r) [0..<length keep]))) [0..<column_count b])
       (create E s)"

definition partition_step :: "env \<Rightarrow> phys_expr list \<Rightarrow> nat \<Rightarrow> Schema \<Rightarrow> RecordBatch list list \<Rightarrow> RecordBatch
     \<Rightarrow> RecordBatch list list res" where
  "partition_step E es n s buffers b =
     and_then (traverse (\<lambda>e. evaluate E e b) es) (\<lambda>keys.
     and_then (compute_targets E keys (row_count b) n) (\<lambda>targets.
       traverse (\<lambda>(p, buf).
         (let keep = List.map (\<lambda>t. t = p) targets
          in if True \<in> set keep then map_res (\<lambda>b'. buf @ [b']) (select_rows E b s keep) else Ok buf))
         (enumerate 0 buffers)))"

definition write_buffers :: "ExecutorContext \<Rightarrow> string \<Rightarrow> 32 word \<Rightarrow> RecordBatch list list
     \<Rightarrow> ShuffleLocation list \<times> ShuffleManager" where
  "write_buffers ctx job st buffers =
     (let filled = List.filter (\<lambda>(p, bs). bs \<noteq> []) (enumerate 0 buffers)
      in (List.map (\<lambda>(p, bs). new_location job st (word_of_nat p) (executor_id ctx)
             (executor_host ctx) (executor_port ctx)) filled,
          foldl (\<lambda>m (p, bs). write_partition m job st (word_of_nat p) bs) (shuffle_manager ctx) filled))"

definition write_shuffle :: "env \<Rightarrow> ExecutorContext \<Rightarrow> phys_plan \<Rightarrow> phys_expr list \<Rightarrow> string \<Rightarrow> 32 word
     \<Rightarrow> 32 word \<Rightarrow> (ShuffleLocation list \<times> ExecutorContext) res" where
  "write_shuffle E ctx i es job st pc =
     (let n = i32_as_usize pc in
      and_then (phys_schema E i) (\<lambda>s. and_then (execute E ctx i) (\<lambda>xs.
      and_then (fold_res (\<lambda>bufs x. and_then x (partition_step E es n s bufs)) (replicate n []) xs)
        (\<lambda>bufs. let (locs, m) = write_buffers ctx job st bufs
                in Ok (locs, ctx\<lparr>shuffle_manager := m\<rparr>)))))"

end
