(* ===== verification/Row_Semantics.thy ===== *)
theory Row_Semantics
  imports Expr_Typing
begin

text \<open>
  A row-at-a-time reference semantics of physical expressions and the equivalence of the
  engine's column-at-a-time evaluation with it: evaluating on a batch succeeds exactly when
  evaluating every row does, and then cell @i@ of the column is the value of row @i@.
\<close>

definition unary_cell :: "(f64 \<Rightarrow> f64) \<Rightarrow> ScalarValue \<Rightarrow> ScalarValue res" where
  "unary_cell f v = (if is_null v then Ok V_Null else map_res (\<lambda>x. V_Float64 (f x)) (number_to_f64 v))"

definition math_row :: "math_op \<Rightarrow> DataType option \<Rightarrow> DataType option \<Rightarrow> ScalarValue \<Rightarrow> ScalarValue \<Rightarrow> ScalarValue res" where
  "math_row op s t a b =
     (if s = t then math_evaluate_cell op a b (the s)
      else and_then (coerce_cell a) (\<lambda>x. and_then (coerce_cell b) (\<lambda>y. math_evaluate_cell op x y T_Float64)))"

fun eval_row :: "env \<Rightarrow> DataType list \<Rightarrow> phys_expr \<Rightarrow> ScalarValue list \<Rightarrow> ScalarValue res" where
  "eval_row E ts (Column_Expr i) r = idx r i"
| "eval_row E ts (Literal_Long n) r = Ok (V_Int64 n)"
| "eval_row E ts (Literal_Double x) r = Ok (V_Float64 x)"
| "eval_row E ts (Literal_String s) r = Ok (V_Utf8 s)"
| "eval_row E ts (Literal_Date d) r = Ok (V_Date32 d)"
| "eval_row E ts (Literal_Interval_Days n) r = Ok (V_Int64 n)"
| "eval_row E ts (Cast_Expr e t) r = and_then (eval_row E ts e r) (cast_cell t)"
| "eval_row E ts (Math_Expr op x y) r = and_then (eval_row E ts x r) (\<lambda>a. and_then (eval_row E ts y r)
     (math_row op (expr_type ts x) (expr_type ts y) a))"
| "eval_row E ts (Boolean_Expr op x y) r = and_then (eval_row E ts x r) (\<lambda>a. and_then (eval_row E ts y r)
     (\<lambda>b. map_res bool_cell (compare_value op a b (the (expr_type ts x)))))"
| "eval_row E ts (Sqrt_Expr e) r = and_then (eval_row E ts e r) (unary_cell f64_sqrt)"
| "eval_row E ts (Log_Expr e) r = and_then (eval_row E ts e r) (unary_cell (libm_ln E))"
| "eval_row E ts (Date_Subtract_Interval x y) r =
     and_then (eval_row E ts x r) (\<lambda>a. and_then (eval_row E ts y r) (date_cell sub_i32 a))"
| "eval_row E ts (Date_Add_Interval x y) r =
     and_then (eval_row E ts x r) (\<lambda>a. and_then (eval_row E ts y r) (date_cell add_i32 a))"

section \<open>Agreement of a column with a row function\<close>

text \<open>@agrees n f r@: the column evaluation @r@ and the row function @f@ on rows @0..<n@.\<close>

definition agrees :: "nat \<Rightarrow> (nat \<Rightarrow> ScalarValue res) \<Rightarrow> ColumnVector res \<Rightarrow> bool" where
  "agrees n f r = (case r of
      Ok c \<Rightarrow> (\<forall>i<n. \<exists>v. f i = Ok v \<and> cv_value c i = Ok v)
    | Panic p \<Rightarrow> (\<exists>i<n. \<exists>q. f i = Panic q))"

lemma agrees_Ok: "agrees n f (Ok c) \<longleftrightarrow> (\<forall>i<n. \<exists>v. f i = Ok v \<and> cv_value c i = Ok v)"
  by (simp add: agrees_def)

lemma agrees_Panic: "agrees n f (Panic p) \<longleftrightarrow> (\<exists>i<n. \<exists>q. f i = Panic q)"
  by (simp add: agrees_def)

lemma agrees_cong: "(\<And>i. i < n \<Longrightarrow> f i = g i) \<Longrightarrow> agrees n f r = agrees n g r"
  by (auto simp: agrees_def split: res.splits)

lemma build_rows_agrees:
  assumes "supported t" "\<And>i. i < n \<Longrightarrow> outcome (\<lambda>_. True) (fits t) (f i)"
  shows "agrees n f (map_res Arrow_Field (build_rows t n f))"
proof (cases "build_rows t n f")
  case (Ok a)
  then have w: "cv_wf (Arrow_Field a)" "length (arr_cells a) = n" and
    c: "\<And>i. i < n \<Longrightarrow> f i = Ok (arr_cells a ! i)" using build_rows_wf by blast+
  have "\<And>i. i < n \<Longrightarrow> cv_value (Arrow_Field a) i = Ok (arr_cells a ! i)"
    using arrow_value_ok [OF w(1)] w(2) by simp
  then show ?thesis using Ok c by (simp add: agrees_Ok)
next
  case (Panic p)
  have "\<exists>i<n. \<exists>q. f i = Panic q"
  proof (rule ccontr)
    assume "\<not> ?thesis"
    then have "\<exists>v. f i = Ok v \<and> fits t v" if "i < n" for i
      using assms(2) [OF that] that by (cases "f i") auto
    then have "\<exists>a. build_rows t n f = Ok a" using build_rows_total [OF assms(1)] by blast
    with Panic show False by simp
  qed
  with Panic show ?thesis by (simp add: agrees_Panic)
qed

text \<open>One operand, then a per-cell kernel.\<close>

lemma agrees_map:
  assumes "agrees n f r" "outcome P (good_col s n) r"
    and step: "\<And>c. good_col s n c \<Longrightarrow> agrees n (\<lambda>i. and_then (cv_value c i) k) (g c)"
  shows "agrees n (\<lambda>i. and_then (f i) k) (and_then r g)"
proof (cases r)
  case (Ok c)
  then have c: "good_col s n c" and v: "\<And>i. i < n \<Longrightarrow> f i = cv_value c i"
    using assms(1,2) by (auto simp: agrees_Ok)
  have "agrees n (\<lambda>i. and_then (f i) k) (g c) = agrees n (\<lambda>i. and_then (cv_value c i) k) (g c)"
    by (rule agrees_cong) (simp add: v)
  then show ?thesis using step [OF c] Ok by simp
next
  case (Panic p)
  then show ?thesis using assms(1) by (auto simp: agrees_Panic)
qed

text \<open>Two operands, then a per-cell kernel.\<close>

lemma agrees_zip:
  assumes "agrees n f r" "agrees n g q" "outcome P (good_col s n) r" "outcome P' (good_col t n) q"
    and step: "\<And>c d. good_col s n c \<Longrightarrow> good_col t n d \<Longrightarrow> agrees n (zip_cells k c d) (h c d)"
  shows "agrees n (\<lambda>i. and_then (f i) (\<lambda>a. and_then (g i) (k a)))
     (and_then r (\<lambda>c. and_then q (h c)))"
proof (cases r)
  case (Ok c)
  then have c: "good_col s n c" and v: "\<And>i. i < n \<Longrightarrow> \<exists>x. f i = Ok x \<and> cv_value c i = Ok x"
    using assms(1,3) by (auto simp: agrees_Ok)
  show ?thesis
  proof (cases q)
    case q: (Ok d)
    then have d: "good_col t n d" and w: "\<And>i. i < n \<Longrightarrow> \<exists>x. g i = Ok x \<and> cv_value d i = Ok x"
      using assms(2,4) by (auto simp: agrees_Ok)
    have "zip_cells k c d i = and_then (f i) (\<lambda>a. and_then (g i) (k a))" if "i < n" for i
      using v [OF that] w [OF that] by (auto simp: zip_cells_def)
    then have "agrees n (zip_cells k c d) (h c d)
        = agrees n (\<lambda>i. and_then (f i) (\<lambda>a. and_then (g i) (k a))) (h c d)"
      by (rule agrees_cong)
    then show ?thesis using step [OF c d] Ok q by simp
  next
    case (Panic p)
    then obtain i where "i < n" "\<exists>p. g i = Panic p" using assms(2) by (auto simp: agrees_Panic)
    then show ?thesis using Ok Panic v [of i] by (auto simp: agrees_Panic)
  qed
next
  case (Panic p)
  then show ?thesis using assms(1) by (auto simp: agrees_Panic)
qed

section \<open>The kernels agree\<close>

lemma zip_rows_agree:
  assumes "supported u" "good_col s n c" "good_col t n d"
    and "\<And>a b. fits s a \<Longrightarrow> fits t b \<Longrightarrow> outcome P (fits u) (k a b)"
  shows "agrees n (zip_cells k c d) (map_res Arrow_Field (build_rows u n (zip_cells k c d)))"
  by (rule build_rows_agrees [OF assms(1)])
    (rule outcome_mono [OF zip_cells_outcome [OF assms(2,3)]], assumption, rule assms(4), auto)

lemma map_rows_agree:
  assumes "supported u" "good_col s n c" "\<And>a. fits s a \<Longrightarrow> outcome P (fits u) (k a)"
  shows "agrees n (\<lambda>i. and_then (cv_value c i) k)
     (map_res Arrow_Field (build_rows u n (\<lambda>i. and_then (cv_value c i) k)))"
  by (rule build_rows_agrees [OF assms(1)])
    (rule outcome_mono [OF map_cells_outcome [OF assms(2)]], assumption, rule assms(3), auto)

lemma math_pair_agrees:
  assumes "t \<in> set math_types" "good_col t n c" "good_col t n d"
  shows "agrees n (zip_cells (\<lambda>a b. math_evaluate_cell op a b t) c d) (math_evaluate_pair op c d)"
proof -
  have c: "cv_type c = t" "cv_len c = n" using assms(2) by (auto simp: good_col_def)
  have "supported t" using assms(1) by (auto simp: math_types_def supported_def)
  then show ?thesis unfolding math_evaluate_pair_def c
    by (rule zip_rows_agree [OF _ assms(2,3)]) (rule math_cell_outcome [OF assms(1)])
qed

lemma coerce_value:
  "good_col s n c \<Longrightarrow> i < n \<Longrightarrow> cv_value (coerce_to_double c) i = and_then (cv_value c i) coerce_cell"
proof -
  assume c: "good_col s n c" and i: "i < n"
  show ?thesis
  proof (cases "s = T_Float64")
    case True
    then obtain v where v: "cv_value c i = Ok v" "fits T_Float64 v"
      using good_col_value [OF c i] by (auto simp: outcome_never)
    then have "coerce_cell v = Ok v" by (auto simp: coerce_cell_def dest!: fits_inv)
    then show ?thesis using v c True by (simp add: coerce_to_double_def good_col_def)
  next
    case False
    then show ?thesis using c by (simp add: coerce_to_double_def good_col_def)
  qed
qed

lemma evaluate_binary_agrees:
  assumes "good_col s n c" "good_col t n d" "math_type s t = Some u"
  shows "agrees n (zip_cells (math_row op (Some s) (Some t)) c d) (evaluate_binary op c d)"
proof (cases "s = t")
  case True
  then have "s \<in> set math_types" using assms(3) by (auto simp: math_type_def split: if_splits)
  then have "agrees n (zip_cells (\<lambda>a b. math_evaluate_cell op a b s) c d) (math_evaluate_pair op c d)"
    using math_pair_agrees assms(1,2) True by blast
  moreover have "math_row op (Some s) (Some t) = (\<lambda>a b. math_evaluate_cell op a b s)"
    using True by (simp add: math_row_def fun_eq_iff)
  ultimately show ?thesis using assms(1,2) True by (simp add: evaluate_binary_def good_col_def)
next
  case False
  then have n: "s \<in> set number_types" "t \<in> set number_types"
    using assms(3) by (auto simp: math_type_def split: if_splits)
  let ?c = "coerce_to_double c" and ?d = "coerce_to_double d"
  have g: "good_col T_Float64 n ?c" "good_col T_Float64 n ?d" using coerce_good assms(1,2) n by auto
  have "agrees n (zip_cells (\<lambda>a b. math_evaluate_cell op a b T_Float64) ?c ?d) (math_evaluate_pair op ?c ?d)"
    by (rule math_pair_agrees [OF _ g]) (simp add: math_types_def)
  moreover have "zip_cells (\<lambda>a b. math_evaluate_cell op a b T_Float64) ?c ?d i
      = zip_cells (math_row op (Some s) (Some t)) c d i" if i: "i < n" for i
  proof -
    obtain v w where "cv_value c i = Ok v" "fits s v" "cv_value d i = Ok w" "fits t w"
      using good_col_value [OF assms(1) i] good_col_value [OF assms(2) i]
      by (auto simp: outcome_never)
    then show ?thesis using False
      by (simp add: zip_cells_def math_row_def coerce_value [OF assms(1) i] coerce_value [OF assms(2) i])
  qed
  then have "agrees n (zip_cells (\<lambda>a b. math_evaluate_cell op a b T_Float64) ?c ?d) (math_evaluate_pair op ?c ?d)
      = agrees n (zip_cells (math_row op (Some s) (Some t)) c d) (math_evaluate_pair op ?c ?d)"
    by (rule agrees_cong)
  ultimately have "agrees n (zip_cells (math_row op (Some s) (Some t)) c d) (math_evaluate_pair op ?c ?d)"
    by simp
  moreover have "cv_len c = cv_len d" "cv_type c \<noteq> cv_type d" "is_numeric (cv_type c)" "is_numeric (cv_type d)"
    using assms(1,2) False n number_types_numeric by (auto simp: good_col_def)
  ultimately show ?thesis by (simp add: evaluate_binary_def coerce_types_def)
qed

lemma evaluate_boolean_agrees:
  assumes "good_col s n c" "good_col t n d" "bool_type op s t = Some u"
  shows "agrees n (zip_cells (\<lambda>a b. map_res bool_cell (compare_value op a b s)) c d) (evaluate_boolean op c d)"
proof -
  have st: "s = t" using assms(3) by (auto simp: bool_type_def split: if_splits)
  have c: "cv_type c = s" "cv_len c = n" and d: "cv_type d = s" "cv_len d = n"
    using assms(1,2) st by (auto simp: good_col_def)
  have cell: "outcome (\<lambda>_. False) (fits T_Boolean) (map_res bool_cell (compare_value op a b s))"
    if "fits s a" "fits t b" for a b
    using compare_value_outcome [of op s u a b] that assms(3) st by (auto simp: outcome_map_res)
  have "agrees n (zip_cells (\<lambda>a b. map_res bool_cell (compare_value op a b s)) c d)
     (map_res Arrow_Field (build_rows T_Boolean n (zip_cells (\<lambda>a b. map_res bool_cell (compare_value op a b s)) c d)))"
    by (rule zip_rows_agree [OF _ assms(1,2) cell]) (simp_all add: supported_def)
  then show ?thesis by (simp add: evaluate_boolean_def c d)
qed

lemma evaluate_cast_agrees:
  assumes "good_col s n c" "castable s t"
  shows "agrees n (\<lambda>i. and_then (cv_value c i) (cast_cell t)) (evaluate_cast t c)"
proof -
  have sup: "supported t" using assms(2) by (auto simp: castable_def math_types_def supported_def)
  have c: "cv_len c = n" using assms(1) by (simp add: good_col_def)
  show ?thesis unfolding evaluate_cast_def c
    by (rule map_rows_agree [OF sup assms(1)]) (rule cast_cell_outcome [OF assms(2)])
qed

lemma unary_cell_outcome:
  "s \<in> set number_types \<Longrightarrow> fits s a \<Longrightarrow> outcome (\<lambda>_. False) (fits T_Float64) (unary_cell f a)"
  using number_to_f64_outcome [of s a] by (auto simp: unary_cell_def is_null_def outcome_map_res)

lemma evaluate_unary_agrees:
  assumes "good_col s n c" "s \<in> set number_types"
  shows "agrees n (\<lambda>i. and_then (cv_value c i) (unary_cell f)) (evaluate_unary f c)"
proof -
  have c: "cv_len c = n" using assms(1) by (simp add: good_col_def)
  have f: "evaluate_unary f c = map_res Arrow_Field
      (build_rows T_Float64 n (\<lambda>i. and_then (cv_value c i) (unary_cell f)))"
    unfolding evaluate_unary_def unary_cell_def c ..
  show ?thesis unfolding f
    by (rule map_rows_agree [OF _ assms(1)]) (simp add: supported_def, rule unary_cell_outcome [OF assms(2)])
qed

lemma date_interval_agrees:
  assumes "good_col s n c" "good_col t n d" "date_type s t = Some u"
  shows "agrees n (zip_cells (date_cell f) c d) (date_interval f c d)"
proof -
  have c: "cv_len c = n" using assms(1) by (simp add: good_col_def)
  have cell: "outcome (\<lambda>_. True) (fits T_Date32) (date_cell f a b)" for a b
  proof -
    have "outcome (\<lambda>_. True) (fits T_Date32) (map_res V_Date32 r)" for r by (cases r) auto
    then show ?thesis
      by (cases "number_to_i64 a"; cases "number_to_i64 b") (auto simp: date_cell_def)
  qed
  show ?thesis unfolding date_interval_def c
    by (rule zip_rows_agree [OF _ assms(1,2)]) (simp add: supported_def, rule cell)
qed

section \<open>Equivalence\<close>

lemma idx_batch_row: "i < column_count b \<Longrightarrow> idx (batch_row b k) i = Ok (arr_cells (rb_columns b ! i) ! k)"
  by (simp add: batch_row_def column_count_def)

lemma evaluate_agrees:
  assumes "batch_wf b" "expr_type (batch_types b) e = Some t"
  shows "agrees (rb_rows b) (\<lambda>i. eval_row E (batch_types b) e (batch_row b i)) (evaluate E e b)"
  using assms(2)
proof (induction e arbitrary: t)
  case (Column_Expr k)
  then have k: "k < column_count b" by (simp add: column_count_def split: if_splits)
  note f = batch_field_wf [OF assms(1) k]
  have "cv_value (Arrow_Field (rb_columns b ! k)) i = Ok (arr_cells (rb_columns b ! k) ! i)" if "i < rb_rows b" for i
    using f that arrow_value_ok by simp
  then show ?case using f k by (simp add: agrees_Ok idx_batch_row)
next
  case (Cast_Expr e u)
  then obtain s where s: "expr_type (batch_types b) e = Some s" "castable s u" "u = t"
    by (auto split: option.splits if_splits)
  show ?case unfolding evaluate.simps eval_row.simps
    by (rule agrees_map [OF Cast_Expr.IH [OF s(1)] evaluate_outcome [OF assms(1) s(1)]])
      (rule evaluate_cast_agrees [OF _ s(2)])
next
  case (Math_Expr op l r)
  then obtain x y where s: "expr_type (batch_types b) l = Some x" "expr_type (batch_types b) r = Some y"
    "math_type x y = Some t" by (auto simp: opt2_Some)
  show ?case unfolding evaluate.simps eval_row.simps s(1,2)
    by (rule agrees_zip [OF Math_Expr.IH(1) [OF s(1)] Math_Expr.IH(2) [OF s(2)]
          evaluate_outcome [OF assms(1) s(1)] evaluate_outcome [OF assms(1) s(2)]])
      (rule evaluate_binary_agrees [OF _ _ s(3)])
next
  case (Boolean_Expr op l r)
  then obtain x y where s: "expr_type (batch_types b) l = Some x" "expr_type (batch_types b) r = Some y"
    "bool_type op x y = Some t" by (auto simp: opt2_Some)
  show ?case unfolding evaluate.simps eval_row.simps s(1) option.sel
    by (rule agrees_zip [OF Boolean_Expr.IH(1) [OF s(1)] Boolean_Expr.IH(2) [OF s(2)]
          evaluate_outcome [OF assms(1) s(1)] evaluate_outcome [OF assms(1) s(2)]])
      (rule evaluate_boolean_agrees [OF _ _ s(3)])
next
  case (Sqrt_Expr e)
  then obtain s where s: "expr_type (batch_types b) e = Some s" "s \<in> set number_types"
    by (auto split: option.splits if_splits)
  show ?case unfolding evaluate.simps eval_row.simps
    by (rule agrees_map [OF Sqrt_Expr.IH [OF s(1)] evaluate_outcome [OF assms(1) s(1)]])
      (rule evaluate_unary_agrees [OF _ s(2)])
next
  case (Log_Expr e)
  then obtain s where s: "expr_type (batch_types b) e = Some s" "s \<in> set number_types"
    by (auto split: option.splits if_splits)
  show ?case unfolding evaluate.simps eval_row.simps
    by (rule agrees_map [OF Log_Expr.IH [OF s(1)] evaluate_outcome [OF assms(1) s(1)]])
      (rule evaluate_unary_agrees [OF _ s(2)])
next
  case (Date_Subtract_Interval l r)
  then obtain x y where s: "expr_type (batch_types b) l = Some x" "expr_type (batch_types b) r = Some y"
    "date_type x y = Some t" by (auto simp: opt2_Some)
  show ?case unfolding evaluate.simps eval_row.simps
    by (rule agrees_zip [OF Date_Subtract_Interval.IH(1) [OF s(1)] Date_Subtract_Interval.IH(2) [OF s(2)]
          evaluate_outcome [OF assms(1) s(1)] evaluate_outcome [OF assms(1) s(2)]])
      (rule date_interval_agrees [OF _ _ s(3)])
next
  case (Date_Add_Interval l r)
  then obtain x y where s: "expr_type (batch_types b) l = Some x" "expr_type (batch_types b) r = Some y"
    "date_type x y = Some t" by (auto simp: opt2_Some)
  show ?case unfolding evaluate.simps eval_row.simps
    by (rule agrees_zip [OF Date_Add_Interval.IH(1) [OF s(1)] Date_Add_Interval.IH(2) [OF s(2)]
          evaluate_outcome [OF assms(1) s(1)] evaluate_outcome [OF assms(1) s(2)]])
      (rule date_interval_agrees [OF _ _ s(3)])
qed (simp_all add: agrees_Ok row_count_def)

text \<open>The column of an expression and its row values, in the form the operators use.\<close>

definition row_value :: "env \<Rightarrow> DataType list \<Rightarrow> phys_expr \<Rightarrow> ScalarValue list \<Rightarrow> ScalarValue" where
  "row_value E ts e r = (case eval_row E ts e r of Ok v \<Rightarrow> v | Panic p \<Rightarrow> V_Null)"

lemma evaluate_Ok_cells:
  assumes "batch_wf b" "expr_type (batch_types b) e = Some t" "evaluate E e b = Ok c"
  shows "good_col t (rb_rows b) c"
    "i < rb_rows b \<Longrightarrow> eval_row E (batch_types b) e (batch_row b i) = Ok (row_value E (batch_types b) e (batch_row b i))"
    "i < rb_rows b \<Longrightarrow> cv_value c i = Ok (row_value E (batch_types b) e (batch_row b i))"
    "i < rb_rows b \<Longrightarrow> fits t (row_value E (batch_types b) e (batch_row b i))"
proof -
  show g: "good_col t (rb_rows b) c" using evaluate_outcome [OF assms(1,2), of E] assms(3) by simp
  have a: "i < rb_rows b \<Longrightarrow> \<exists>v. eval_row E (batch_types b) e (batch_row b i) = Ok v \<and> cv_value c i = Ok v" for i
    using evaluate_agrees [OF assms(1,2), of E] assms(3) by (simp add: agrees_Ok)
  show "i < rb_rows b \<Longrightarrow> eval_row E (batch_types b) e (batch_row b i) = Ok (row_value E (batch_types b) e (batch_row b i))"
    and v: "i < rb_rows b \<Longrightarrow> cv_value c i = Ok (row_value E (batch_types b) e (batch_row b i))"
    using a [of i] by (auto simp: row_value_def)
  show "i < rb_rows b \<Longrightarrow> fits t (row_value E (batch_types b) e (batch_row b i))"
    using v good_col_value [OF g, of i] by simp
qed

lemma evaluate_succeeds:
  assumes "batch_wf b" "expr_type (batch_types b) e = Some t"
    and "\<And>i. i < rb_rows b \<Longrightarrow> is_ok (eval_row E (batch_types b) e (batch_row b i))"
  obtains c where "evaluate E e b = Ok c"
  using evaluate_agrees [OF assms(1,2), of E] assms(3)
  by (cases "evaluate E e b") (fastforce simp: agrees_Panic is_ok_iff)+

section \<open>Properties\<close>

text \<open>C20: Vectorised evaluation equals row-at-a-time evaluation: on a well-formed batch a
  well-typed expression evaluates to a column exactly when the reference semantics
  evaluates on every row, and cell @i@ of that column is the reference value of row @i@;
  in particular the result for a row does not depend on the other rows of the batch.\<close>

theorem evaluate_equals_row_semantics:
  assumes "batch_wf b" "expr_type (batch_types b) e = Some t"
  shows "(is_ok (evaluate E e b) \<longleftrightarrow> (\<forall>i<rb_rows b. is_ok (eval_row E (batch_types b) e (batch_row b i))))
     \<and> (\<forall>c i. evaluate E e b = Ok c \<longrightarrow> i < rb_rows b \<longrightarrow>
          cv_value c i = eval_row E (batch_types b) e (batch_row b i))"
  using evaluate_agrees [OF assms, of E]
  by (cases "evaluate E e b") (fastforce simp: agrees_def)+

theorem evaluate_equals_row_semantics_witness:
  "is_ok (evaluate ref_env (Math_Expr Op_Add (Column_Expr 0) (Column_Expr 0)) sample_batch)"
proof -
  let ?e = "Math_Expr Op_Add (Column_Expr 0) (Column_Expr 0)"
  have t: "expr_type (batch_types sample_batch) ?e = Some T_Int32"
    by (simp add: sample_batch_def opt2_def math_type_def math_types_def)
  have "is_ok (eval_row ref_env (batch_types sample_batch) ?e (batch_row sample_batch i))"
    if "i < rb_rows sample_batch" for i
    using that
    by (auto simp: sample_batch_def batch_row_def math_row_def math_evaluate_cell_def math_arm_def
        as_i32_def int_kernel_def less_Suc_eq numeral_3_eq_3)
  then show ?thesis using evaluate_equals_row_semantics [OF sample_batch_wf t, of ref_env] by blast
qed

end
