(* ===== verification/Phys_Props.thy ===== *)
theory Phys_Props
  imports Phys_Plan Row_Semantics
begin

text \<open>
  Correctness of the physical operators against relational specifications over rows:
  selection is @filter@, projection is @map@, limit is @take@, the hash join is the nested
  loop, the hash aggregate computes one row per distinct key.  A stream whose pulls all
  succeed is the list of its batches.
\<close>

section \<open>Picking rows of a batch\<close>

definition typed :: "Schema \<Rightarrow> RecordBatch \<Rightarrow> bool" where
  "typed s b = (batch_wf b \<and> batch_types b = col_types s \<and> rb_columns b \<noteq> [])"

definition pick_array :: "nat list \<Rightarrow> array \<Rightarrow> array" where
  "pick_array is a = \<lparr>arr_type = arr_type a, arr_cells = List.map ((!) (arr_cells a)) is\<rparr>"

definition pick :: "RecordBatch \<Rightarrow> Schema \<Rightarrow> nat list \<Rightarrow> RecordBatch" where
  "pick b s is = \<lparr>rb_schema = to_arrow s, rb_columns = List.map (pick_array is) (rb_columns b),
     rb_rows = length is\<rparr>"

lemma pick_array_wf:
  "cv_wf (Arrow_Field a) \<Longrightarrow> \<forall>i\<in>set is. i < length (arr_cells a) \<Longrightarrow> cv_wf (Arrow_Field (pick_array is a))"
  by (auto simp: pick_array_def array_wf_def list_all_iff)

lemma take_rows_Arrow:
  assumes "cv_wf (Arrow_Field a)" "\<forall>i\<in>set is. i < length (arr_cells a)"
  shows "take_rows (Arrow_Field a) is = Ok (Arrow_Field (pick_array is a))"
proof -
  have "traverse (\<lambda>k. arrow_value a (is ! k)) [0..<length is] = Ok (List.map (\<lambda>k. arr_cells a ! (is ! k)) [0..<length is])"
    using assms by (intro traverse_all_Ok) (simp add: arrow_value_ok)
  moreover have "List.map (\<lambda>k. arr_cells a ! (is ! k)) [0..<length is] = List.map ((!) (arr_cells a)) is"
    by (rule nth_equalityI) auto
  moreover have "list_all (fits (arr_type a)) (List.map ((!) (arr_cells a)) is)"
    using assms by (auto simp: array_wf_def list_all_iff)
  ultimately have "build_rows (arr_type a) (length is) (\<lambda>k. arrow_value a (is ! k)) = Ok (pick_array is a)"
    using assms(1) by (simp add: build_rows_eq_Ok pick_array_def)
  then show ?thesis by (simp add: take_rows_def)
qed

lemma create_pick:
  assumes "env_ok E" "typed s b" "\<forall>i\<in>set is. i < rb_rows b"
  shows "create E s (List.map (\<lambda>a. Arrow_Field (pick_array is a)) (rb_columns b)) = Ok (pick b s is)"
proof -
  let ?as = "List.map (pick_array is) (rb_columns b)"
  have wf: "list_all cv_wf (List.map Arrow_Field ?as)"
    using assms(2,3) by (auto simp: list_all_iff typed_def batch_wf_def simp del: cv_wf.simps intro!: pick_array_wf)
  have ne: "?as \<noteq> []" using assms(2) by (simp add: typed_def)
  have types: "col_types s = List.map arr_type ?as"
    using assms(2) by (simp add: typed_def pick_array_def comp_def)
  have len: "length (arr_cells a) = length is" if "a \<in> set ?as" for a
    using that by (auto simp: pick_array_def)
  then have hd: "length (arr_cells (hd ?as)) = length is" using ne list.set_sel(1) by blast
  have "create E s (List.map Arrow_Field ?as)
      = Ok \<lparr>rb_schema = to_arrow s, rb_columns = ?as, rb_rows = length (arr_cells (hd ?as))\<rparr>"
    unfolding create_arrays [OF assms(1) wf] hd using ne types len by auto
  then show ?thesis unfolding hd by (simp add: pick_def comp_def)
qed

lemma batch_columns_wf: "batch_wf b \<Longrightarrow> batch_columns b = Ok (List.map Arrow_Field (rb_columns b))"
proof -
  assume "batch_wf b"
  have "batch_columns b = Ok (List.map (\<lambda>i. Arrow_Field (rb_columns b ! i)) [0..<column_count b])"
    unfolding batch_columns_def by (rule traverse_all_Ok) (simp add: batch_field_def column_count_def)
  moreover have "List.map (\<lambda>i. Arrow_Field (rb_columns b ! i)) [0..<column_count b] = List.map Arrow_Field (rb_columns b)"
    by (rule nth_equalityI) (auto simp: column_count_def)
  ultimately show ?thesis by simp
qed

lemma pick_columns:
  assumes "env_ok E" "typed s b" "\<forall>i\<in>set is. i < rb_rows b"
    and "\<And>a. a \<in> set (rb_columns b) \<Longrightarrow> g (Arrow_Field a) = take_rows (Arrow_Field a) is"
  shows "and_then (traverse (\<lambda>i. and_then (batch_field b i) g) [0..<column_count b]) (create E s) = Ok (pick b s is)"
proof -
  have b: "batch_wf b" using assms(2) by (simp add: typed_def)
  have "and_then (batch_field b i) g = Ok (Arrow_Field (pick_array is (rb_columns b ! i)))"
    if "i < column_count b" for i
  proof -
    have "rb_columns b ! i \<in> set (rb_columns b)" using that by (simp add: column_count_def)
    then have "g (Arrow_Field (rb_columns b ! i)) = Ok (Arrow_Field (pick_array is (rb_columns b ! i)))"
      using assms(3,4) batch_field_wf [OF b that] take_rows_Arrow by simp
    then show ?thesis using batch_field_wf [OF b that] by simp
  qed
  then have "traverse (\<lambda>i. and_then (batch_field b i) g) [0..<column_count b]
      = Ok (List.map (\<lambda>i. Arrow_Field (pick_array is (rb_columns b ! i))) [0..<column_count b])"
    by (intro traverse_all_Ok) simp
  moreover have "List.map (\<lambda>i. Arrow_Field (pick_array is (rb_columns b ! i))) [0..<column_count b]
      = List.map (\<lambda>a. Arrow_Field (pick_array is a)) (rb_columns b)"
    by (rule nth_equalityI) (auto simp: column_count_def)
  ultimately show ?thesis using create_pick [OF assms(1-3)] by simp
qed

lemma pick_typed:
  assumes "typed s b" "\<forall>i\<in>set is. i < rb_rows b"
  shows "typed s (pick b s is)"
proof -
  have wf: "batch_wf b" and t: "batch_types b = col_types s" and ne: "rb_columns b \<noteq> []"
    using assms(1) by (auto simp: typed_def)
  have "batch_types (pick b s is) = col_types s"
    using t by (simp add: pick_def pick_array_def comp_def)
  moreover have "length (arr_cells a) = length is \<and> cv_wf (Arrow_Field a)"
    if a: "a \<in> set (rb_columns (pick b s is))" for a
  proof -
    obtain a' where "a' \<in> set (rb_columns b)" "a = pick_array is a'" using a by (auto simp: pick_def)
    then show ?thesis using wf assms(2) pick_array_wf [of a' "is"]
      by (auto simp: batch_wf_def pick_array_def simp del: cv_wf.simps)
  qed
  ultimately show ?thesis using ne
    by (auto simp: typed_def batch_wf_def pick_def simp del: cv_wf.simps)
qed

lemma pick_rows:
  "batch_rows (pick b s is) = List.map (batch_row b) is"
  by (rule nth_equalityI)
    (auto simp: batch_rows_def pick_def batch_row_def pick_array_def)

section \<open>Streams\<close>

lemma collect_Ok [simp]: "collect (List.map Ok bs) = Ok bs"
  unfolding collect_def by (induction bs) auto

lemma stream_rows_simps [simp]:
  "stream_rows [] = []" "stream_rows (b # bs) = batch_rows b @ stream_rows bs"
  "stream_rows (bs @ cs) = stream_rows bs @ stream_rows cs"
  by (simp_all add: stream_rows_def)

abbreviation all_typed :: "Schema \<Rightarrow> RecordBatch list \<Rightarrow> bool" where
  "all_typed s bs \<equiv> list_all (typed s) bs"

section \<open>Limit\<close>

lemma truncate_pick:
  assumes "env_ok E" "typed s b" "n \<le> rb_rows b"
  shows "truncate_batch E b n s = Ok (pick b s [0..<n])"
  unfolding truncate_batch_def by (rule pick_columns [OF assms(1,2)]) (use assms(3) in auto)

lemma batch_rows_take: "n \<le> rb_rows b \<Longrightarrow> List.map (batch_row b) [0..<n] = take n (batch_rows b)"
  by (simp add: batch_rows_def take_map)

lemma limit_stream_rows:
  assumes "env_ok E"
  shows "all_typed s bs \<Longrightarrow> \<exists>cs. limit_stream E s n (List.map Ok bs) = List.map Ok cs \<and> all_typed s cs
     \<and> stream_rows cs = take n (stream_rows bs)"
proof (induction bs arbitrary: n)
  case Nil
  show ?case by (intro exI [of _ "[]"]) simp
next
  case (Cons b bs)
  have b: "typed s b" "all_typed s bs" using Cons.prems by auto
  consider "n = 0" | "0 < n" "rb_rows b \<le> n" | "0 < n" "n < rb_rows b" by linarith
  then show ?case
  proof cases
    case 1
    then show ?thesis by (intro exI [of _ "[]"]) simp
  next
    case 2
    obtain cs where "limit_stream E s (n - rb_rows b) (List.map Ok bs) = List.map Ok cs" "all_typed s cs"
      "stream_rows cs = take (n - rb_rows b) (stream_rows bs)" using Cons.IH [OF b(2)] by blast
    then show ?thesis using 2 b(1) by (intro exI [of _ "b # cs"]) (simp add: row_count_def)
  next
    case 3
    obtain cs where cs: "limit_stream E s 0 (List.map Ok bs) = List.map Ok cs" "all_typed s cs"
      "stream_rows cs = take 0 (stream_rows bs)" using Cons.IH [OF b(2)] by blast
    have "truncate_batch E b n s = Ok (pick b s [0..<n])" using truncate_pick assms b(1) 3 by simp
    moreover have "typed s (pick b s [0..<n])" using pick_typed [OF b(1)] 3 by simp
    moreover have "batch_rows (pick b s [0..<n]) = take n (batch_rows b)"
      using 3 by (simp add: pick_rows batch_rows_take)
    ultimately show ?thesis using 3 cs
      by (intro exI [of _ "pick b s [0..<n] # cs"]) (simp add: row_count_def)
  qed
qed

section \<open>Selection\<close>

lemma selected_cells:
  assumes "good_col T_Boolean n sel"
  shows "\<exists>vs. cv_cells sel = Ok vs \<and> selected sel = Ok (List.filter (\<lambda>i. cv_value sel i = Ok (V_Boolean True)) [0..<n])"
proof -
  obtain vs where vs: "cv_cells sel = Ok vs" "length vs = n"
    using cv_wf_cells assms by (auto simp: good_col_def)
  have "i < n \<Longrightarrow> is_true (vs ! i) = (cv_value sel i = Ok (V_Boolean True))" for i
    using cv_cells_nth [OF vs(1), of i] assms by (simp add: is_true_def good_col_def)
  then have "List.filter (\<lambda>i. is_true (vs ! i)) [0..<n] = List.filter (\<lambda>i. cv_value sel i = Ok (V_Boolean True)) [0..<n]"
    by (intro filter_cong) auto
  then show ?thesis using vs assms by (auto simp: selected_def good_col_def)
qed

lemma select_step_pick:
  assumes "env_ok E" "typed s b" "expr_type (col_types s) e = Some T_Boolean" "evaluate E e b = Ok sel"
  shows "select_step E s e b
     = Ok (pick b s (List.filter (\<lambda>i. row_value E (col_types s) e (batch_row b i) = V_Boolean True) [0..<rb_rows b]))"
proof -
  have wf: "batch_wf b" and t: "batch_types b = col_types s" using assms(2) by (auto simp: typed_def)
  note cells = evaluate_Ok_cells [OF wf assms(3) [folded t] assms(4)]
  let ?is = "List.filter (\<lambda>i. row_value E (col_types s) e (batch_row b i) = V_Boolean True) [0..<rb_rows b]"
  have "selected sel = Ok (List.filter (\<lambda>i. cv_value sel i = Ok (V_Boolean True)) [0..<rb_rows b])"
    using selected_cells [OF cells(1)] by auto
  moreover have "List.filter (\<lambda>i. cv_value sel i = Ok (V_Boolean True)) [0..<rb_rows b] = ?is"
    using cells(3) t by (intro filter_cong) auto
  ultimately have sel: "selected sel = Ok ?is" by simp
  have "and_then (traverse (\<lambda>i. and_then (batch_field b i) (\<lambda>c. filter_column c sel)) [0..<column_count b]) (create E s)
      = Ok (pick b s ?is)"
    by (rule pick_columns [OF assms(1,2)]) (auto simp: filter_column_def sel)
  then show ?thesis using assms(4) by (simp add: select_step_def)
qed

lemma filter_batch_rows:
  "List.map (batch_row b) (List.filter (\<lambda>i. p (batch_row b i)) [0..<rb_rows b]) = List.filter p (batch_rows b)"
  by (simp add: batch_rows_def filter_map comp_def)

definition holds :: "env \<Rightarrow> DataType list \<Rightarrow> phys_expr \<Rightarrow> ScalarValue list \<Rightarrow> bool" where
  "holds E ts e r = (eval_row E ts e r = Ok (V_Boolean True))"

lemma select_step_rows:
  assumes "env_ok E" "typed s b" "expr_type (col_types s) e = Some T_Boolean" "select_step E s e b = Ok b'"
  shows "typed s b' \<and> batch_rows b' = List.filter (holds E (col_types s) e) (batch_rows b)"
proof -
  obtain sel where sel: "evaluate E e b = Ok sel" using assms(4) by (auto simp: select_step_def and_then_eq_Ok)
  have wf: "batch_wf b" and t: "batch_types b = col_types s" using assms(2) by (auto simp: typed_def)
  let ?is = "List.filter (\<lambda>i. row_value E (col_types s) e (batch_row b i) = V_Boolean True) [0..<rb_rows b]"
  have b': "b' = pick b s ?is" using select_step_pick [OF assms(1-3) sel] assms(4) by simp
  have "typed s b'" unfolding b' by (rule pick_typed [OF assms(2)]) simp
  moreover have "batch_rows b' = List.filter (\<lambda>r. row_value E (col_types s) e r = V_Boolean True) (batch_rows b)"
    unfolding b' pick_rows by (rule filter_batch_rows)
  moreover have "List.filter (\<lambda>r. row_value E (col_types s) e r = V_Boolean True) (batch_rows b)
      = List.filter (holds E (col_types s) e) (batch_rows b)"
    using evaluate_Ok_cells(2) [OF wf assms(3) [folded t] sel] t
    by (intro filter_cong) (auto simp: batch_rows_def holds_def)
  ultimately show ?thesis by simp
qed

section \<open>Projection\<close>

definition materializes :: "ColumnVector \<Rightarrow> array \<Rightarrow> bool" where
  "materializes c a = (column_to_array c = Ok a \<and> arr_type a = cv_type c \<and> length (arr_cells a) = cv_len c
     \<and> cv_wf (Arrow_Field a) \<and> (\<forall>i<cv_len c. cv_value c i = Ok (arr_cells a ! i)))"

lemma materializes_ex: "cv_wf c \<Longrightarrow> \<exists>a. materializes c a"
proof -
  assume c: "cv_wf c"
  obtain vs where vs: "cv_cells c = Ok vs" "length vs = cv_len c" "list_all (fits (cv_type c)) vs"
    "column_to_array c = Ok \<lparr>arr_type = cv_type c, arr_cells = vs\<rparr>" using column_to_array_wf [OF c] by blast
  then show ?thesis using cv_cells_nth [OF vs(1)] cv_wf_supported [OF c]
    by (auto simp: materializes_def array_wf_def)
qed

lemma materializes_list: "list_all cv_wf cs \<Longrightarrow> \<exists>as. list_all2 materializes cs as"
proof (induction cs)
  case (Cons c cs)
  obtain as where "list_all2 materializes cs as" using Cons by auto
  moreover obtain a where "materializes c a" using materializes_ex Cons.prems by auto
  ultimately have "list_all2 materializes (c # cs) (a # as)" by simp
  then show ?case by blast
qed (auto intro: exI [of _ "[]"])

lemma create_cells:
  assumes "env_ok E" "list_all2 (\<lambda>c f. good_col (f_type f) n c) cs (s_fields s)" "cs \<noteq> []"
  shows "\<exists>b. create E s cs = Ok b \<and> typed s b \<and> rb_rows b = n
     \<and> (\<forall>i<n. list_all2 (\<lambda>c v. cv_value c i = Ok v) cs (batch_row b i))"
proof -
  have wf: "list_all cv_wf cs" and len: "list_all (\<lambda>c. cv_len c = n) cs" and
    types: "List.map cv_type cs = col_types s"
    using assms(2) by (induction rule: list_all2_induct) (auto simp: good_col_def)
  obtain as where as: "list_all2 materializes cs as" using materializes_list [OF wf] by blast
  have tr: "traverse column_to_array cs = Ok as"
    unfolding traverse_eq_Ok using as by (rule list_all2_mono) (simp add: materializes_def)
  have atypes: "List.map arr_type as = List.map cv_type cs"
    using as by (induction rule: list_all2_induct) (auto simp: materializes_def)
  have "list_all (\<lambda>a. length (arr_cells a) = n \<and> cv_wf (Arrow_Field a)) as"
    using as len by (induction rule: list_all2_induct) (auto simp: materializes_def simp del: cv_wf.simps)
  then have alen: "length (arr_cells a) = n" "cv_wf (Arrow_Field a)" if "a \<in> set as" for a
    using that by (auto simp: list_all_iff simp del: cv_wf.simps)
  have ne: "as \<noteq> []" using as assms(3) by auto
  then have hd: "length (arr_cells (hd as)) = n" using alen list.set_sel(1) by blast
  have spec: "try_new_spec (to_arrow s) as"
    unfolding try_new_spec_def hd using ne alen atypes types by auto
  let ?b = "\<lparr>rb_schema = to_arrow s, rb_columns = as, rb_rows = n\<rparr>"
  have "create E s cs = Ok ?b"
    using tr spec assms(1) hd by (simp add: create_def try_new_def env_ok_batch)
  moreover have "typed s ?b" using ne alen atypes types
    by (auto simp: typed_def batch_wf_def simp del: cv_wf.simps)
  moreover have "list_all2 (\<lambda>c v. cv_value c i = Ok v) cs (batch_row ?b i)" if "i < n" for i
    using as len that unfolding batch_row_def
    by (induction rule: list_all2_induct) (auto simp: materializes_def)
  ultimately show ?thesis by fastforce
qed

lemma evaluate_list_good:
  assumes "batch_wf b" "batch_types b = ts"
  shows "list_all2 (\<lambda>e f. expr_type ts e = Some (f_type f)) es fs \<Longrightarrow>
     traverse (\<lambda>e. evaluate E e b) es = Ok cs \<Longrightarrow>
     list_all2 (\<lambda>c f. good_col (f_type f) (rb_rows b) c) cs fs
     \<and> (\<forall>i<rb_rows b. list_all2 (\<lambda>c e. cv_value c i = Ok (row_value E ts e (batch_row b i))) cs es)"
proof (induction es arbitrary: fs cs)
  case (Cons e es)
  then obtain f gs c ds where f: "fs = f # gs" "expr_type ts e = Some (f_type f)"
    "list_all2 (\<lambda>e f. expr_type ts e = Some (f_type f)) es gs" "evaluate E e b = Ok c"
    "traverse (\<lambda>e. evaluate E e b) es = Ok ds" "cs = c # ds"
    by (auto simp: and_then_eq_Ok list_all2_Cons1)
  have "good_col (f_type f) (rb_rows b) c"
    "\<And>i. i < rb_rows b \<Longrightarrow> cv_value c i = Ok (row_value E ts e (batch_row b i))"
    using evaluate_Ok_cells [OF assms(1), of e "f_type f" E c] f(2,4) assms(2) by auto
  then show ?case using Cons.IH [OF f(3,5)] f by simp
qed simp

definition project_row :: "env \<Rightarrow> DataType list \<Rightarrow> phys_expr list \<Rightarrow> ScalarValue list \<Rightarrow> ScalarValue list" where
  "project_row E ts es r = List.map (\<lambda>e. row_value E ts e r) es"

lemma project_step_rows:
  assumes "env_ok E" "typed s b" "list_all2 (\<lambda>e f. expr_type (col_types s) e = Some (f_type f)) es (s_fields s')"
    "es \<noteq> []" "project_step E s' es b = Ok b'"
  shows "typed s' b' \<and> batch_rows b' = List.map (project_row E (col_types s) es) (batch_rows b)"
proof -
  have wf: "batch_wf b" and t: "batch_types b = col_types s" using assms(2) by (auto simp: typed_def)
  obtain cs where cs: "traverse (\<lambda>e. evaluate E e b) es = Ok cs" "create E s' cs = Ok b'"
    using assms(5) by (auto simp: project_step_def and_then_eq_Ok)
  have g: "list_all2 (\<lambda>c f. good_col (f_type f) (rb_rows b) c) cs (s_fields s')"
    and v: "\<And>i. i < rb_rows b \<Longrightarrow> list_all2 (\<lambda>c e. cv_value c i = Ok (row_value E (col_types s) e (batch_row b i))) cs es"
    using evaluate_list_good [OF wf t assms(3) cs(1)] by auto
  have "cs \<noteq> []" using traverse_length [OF cs(1)] assms(4) by auto
  then have b': "typed s' b'" "rb_rows b' = rb_rows b"
    "\<And>i. i < rb_rows b \<Longrightarrow> list_all2 (\<lambda>c v. cv_value c i = Ok v) cs (batch_row b' i)"
    using create_cells [OF assms(1) g] cs(2) by auto
  have "batch_row b' i = project_row E (col_types s) es (batch_row b i)" if "i < rb_rows b" for i
    using v [OF that] b'(3) [OF that] unfolding project_row_def
    by (auto simp: list_all2_conv_all_nth intro!: nth_equalityI)
  then show ?thesis using b'(1,2) by (simp add: batch_rows_def)
qed

section \<open>Whole streams\<close>

lemma map_steps:
  assumes "\<And>b. b \<in> set bs \<Longrightarrow> \<exists>b'. step b = Ok b' \<and> typed s' b' \<and> batch_rows b' = f (batch_rows b)"
    and "f [] = []" "\<And>xs ys. f (xs @ ys) = f xs @ f ys"
  shows "\<exists>cs. List.map step bs = List.map Ok cs \<and> all_typed s' cs \<and> stream_rows cs = f (stream_rows bs)"
  using assms(1)
proof (induction bs)
  case Nil
  show ?case using assms(2) by (intro exI [of _ "[]"]) simp
next
  case (Cons b bs)
  obtain cs where cs: "List.map step bs = List.map Ok cs" "all_typed s' cs" "stream_rows cs = f (stream_rows bs)"
    using Cons by auto
  obtain b' where "step b = Ok b'" "typed s' b'" "batch_rows b' = f (batch_rows b)" using Cons.prems by auto
  then show ?case using cs assms(3) by (intro exI [of _ "b' # cs"]) simp
qed

lemma batch_rows_stream: "b \<in> set bs \<Longrightarrow> set (batch_rows b) \<subseteq> set (stream_rows bs)"
  by (auto simp: stream_rows_def)

lemma batch_row_in: "i < rb_rows b \<Longrightarrow> batch_row b i \<in> set (batch_rows b)"
  by (simp add: batch_rows_def)

text \<open>An expression that evaluates on every row evaluates on the batch.\<close>

lemma evaluate_rows_ok:
  assumes "typed s b" "expr_type (col_types s) e = Some t" "\<forall>r\<in>set (batch_rows b). is_ok (eval_row E (col_types s) e r)"
  obtains c where "evaluate E e b = Ok c"
proof -
  have wf: "batch_wf b" and t: "batch_types b = col_types s" using assms(1) by (auto simp: typed_def)
  show ?thesis
    by (rule evaluate_succeeds [OF wf assms(2) [folded t], of E])
      (use assms(3) t batch_row_in that in auto)
qed

lemma evaluate_list_ok:
  assumes "typed s b" "list_all2 (\<lambda>e f. expr_type (col_types s) e = Some (f_type f)) es fs"
    "\<forall>r\<in>set (batch_rows b). \<forall>e\<in>set es. is_ok (eval_row E (col_types s) e r)"
  obtains cs where "traverse (\<lambda>e. evaluate E e b) es = Ok cs"
proof -
  have "is_ok (evaluate E e b)" if "e \<in> set es" for e
  proof -
    obtain i where "i < length es" "es ! i = e" using \<open>e \<in> set es\<close> by (auto simp: in_set_conv_nth)
    then obtain t where "expr_type (col_types s) e = Some t"
      using assms(2) by (auto simp: list_all2_conv_all_nth)
    moreover have "\<forall>r\<in>set (batch_rows b). is_ok (eval_row E (col_types s) e r)"
      using assms(3) \<open>e \<in> set es\<close> by blast
    ultimately show ?thesis using evaluate_rows_ok [OF assms(1)] is_ok_simps(1) by metis
  qed
  then have "is_ok (traverse (\<lambda>e. evaluate E e b) es)" by (simp add: traverse_is_ok)
  then show ?thesis using that by (auto simp: is_ok_iff)
qed

section \<open>Properties\<close>

lemma selection_rows:
  assumes "env_ok E" "phys_schema E i = Ok s" "execute E ctx i = Ok (List.map Ok bs)" "list_all (typed s) bs"
    "expr_type (col_types s) e = Some T_Boolean"
    "\<forall>r\<in>set (stream_rows bs). is_ok (eval_row E (col_types s) e r)"
  shows "\<exists>cs. execute E ctx (Selection_Exec i e) = Ok (List.map Ok cs) \<and> list_all (typed s) cs
     \<and> stream_rows cs = List.filter (\<lambda>r. eval_row E (col_types s) e r = Ok (V_Boolean True)) (stream_rows bs)"
proof -
  have "\<exists>b'. select_step E s e b = Ok b' \<and> typed s b'
      \<and> batch_rows b' = List.filter (holds E (col_types s) e) (batch_rows b)" if b: "b \<in> set bs" for b
  proof -
    have ty: "typed s b" using assms(4) b by (simp add: list_all_iff)
    obtain sel where "evaluate E e b = Ok sel"
      using evaluate_rows_ok [OF ty assms(5), of E] assms(6) batch_rows_stream [OF b] by blast
    then have "\<exists>b'. select_step E s e b = Ok b'" using select_step_pick [OF assms(1) ty assms(5)] by simp
    then show ?thesis using select_step_rows [OF assms(1) ty assms(5)] by blast
  qed
  then obtain cs where "List.map (select_step E s e) bs = List.map Ok cs" "all_typed s cs"
    "stream_rows cs = List.filter (holds E (col_types s) e) (stream_rows bs)"
    using map_steps [of bs "select_step E s e" s "List.filter (holds E (col_types s) e)"] by auto
  then show ?thesis using assms(2,3) by (intro exI [of _ cs]) (simp add: comp_def holds_def [abs_def])
qed

text \<open>C33: Selection is filtering: over an input whose batches have the input schema, with a
  boolean predicate that evaluates on every row, @SelectionExec::execute@ returns batches of
  the same schema whose rows are, in order, exactly the rows on which the predicate is TRUE
  (rows where it is FALSE or NULL are dropped).\<close>

theorem selection_filters_rows:
  assumes "env_ok E" "phys_schema E i = Ok s" "execute E ctx i = Ok (List.map Ok bs)" "list_all (typed s) bs"
    "expr_type (col_types s) e = Some T_Boolean"
    "\<forall>r\<in>set (stream_rows bs). is_ok (eval_row E (col_types s) e r)"
  shows "\<exists>cs. execute E ctx (Selection_Exec i e) = Ok (List.map Ok cs) \<and> list_all (typed s) cs
     \<and> stream_rows cs = List.filter (\<lambda>r. eval_row E (col_types s) e r = Ok (V_Boolean True)) (stream_rows bs)"
  by (rule selection_rows [OF assms])

lemma projection_rows:
  assumes "env_ok E" "execute E ctx i = Ok (List.map Ok bs)" "list_all (typed s) bs" "es \<noteq> []"
    "list_all2 (\<lambda>e f. expr_type (col_types s) e = Some (f_type f)) es (s_fields s')"
    "\<forall>r\<in>set (stream_rows bs). \<forall>e\<in>set es. is_ok (eval_row E (col_types s) e r)"
  shows "\<exists>cs. execute E ctx (Projection_Exec i s' es) = Ok (List.map Ok cs) \<and> list_all (typed s') cs
     \<and> stream_rows cs = List.map (\<lambda>r. List.map (\<lambda>e. row_value E (col_types s) e r) es) (stream_rows bs)"
proof -
  have "\<exists>b'. project_step E s' es b = Ok b' \<and> typed s' b'
      \<and> batch_rows b' = List.map (project_row E (col_types s) es) (batch_rows b)" if b: "b \<in> set bs" for b
  proof -
    have ty: "typed s b" using assms(3) b by (simp add: list_all_iff)
    then have wf: "batch_wf b" "batch_types b = col_types s" by (auto simp: typed_def)
    obtain cs where cs: "traverse (\<lambda>e. evaluate E e b) es = Ok cs"
      using evaluate_list_ok [OF ty assms(5), of E] assms(6) batch_rows_stream [OF b] by blast
    have ne: "cs \<noteq> []" using traverse_length [OF cs] assms(4) by auto
    have "\<exists>b'. project_step E s' es b = Ok b'"
      using create_cells [OF assms(1) conjunct1 [OF evaluate_list_good [OF wf assms(5) cs]] ne] cs
      by (auto simp: project_step_def)
    then show ?thesis using project_step_rows [OF assms(1) ty assms(5,4)] by blast
  qed
  then obtain cs where "List.map (project_step E s' es) bs = List.map Ok cs" "all_typed s' cs"
    "stream_rows cs = List.map (project_row E (col_types s) es) (stream_rows bs)"
    using map_steps [of bs "project_step E s' es" s' "List.map (project_row E (col_types s) es)"] by auto
  then show ?thesis using assms(2) by (intro exI [of _ cs]) (simp add: comp_def project_row_def [abs_def])
qed

text \<open>C34: Projection maps every row: when the expressions are well typed for the output schema
  and evaluate on every input row, @ProjectionExec::execute@ returns batches of the output
  schema whose rows are, in order, the values of the expressions on the input rows.\<close>

theorem projection_maps_rows:
  assumes "env_ok E" "execute E ctx i = Ok (List.map Ok bs)" "list_all (typed s) bs" "es \<noteq> []"
    "list_all2 (\<lambda>e f. expr_type (col_types s) e = Some (f_type f)) es (s_fields s')"
    "\<forall>r\<in>set (stream_rows bs). \<forall>e\<in>set es. is_ok (eval_row E (col_types s) e r)"
  shows "\<exists>cs. execute E ctx (Projection_Exec i s' es) = Ok (List.map Ok cs) \<and> list_all (typed s') cs
     \<and> stream_rows cs = List.map (\<lambda>r. List.map (\<lambda>e. row_value E (col_types s) e r) es) (stream_rows bs)"
  by (rule projection_rows [OF assms])

lemma limit_rows:
  assumes "env_ok E" "phys_schema E i = Ok s" "execute E ctx i = Ok (List.map Ok bs)" "list_all (typed s) bs"
  shows "\<exists>cs. execute E ctx (Limit_Exec i n) = Ok (List.map Ok cs) \<and> list_all (typed s) cs
     \<and> stream_rows cs = take n (stream_rows bs)"
  using limit_stream_rows [OF assms(1,4), of n] assms(2,3) by auto

text \<open>C35: Limit takes a prefix: @LimitExec::execute@ never panics on its own, keeps the schema
  and returns exactly the first @n@ rows of its input, truncating the batch that crosses the
  budget.\<close>

theorem limit_takes_prefix:
  assumes "env_ok E" "phys_schema E i = Ok s" "execute E ctx i = Ok (List.map Ok bs)" "list_all (typed s) bs"
  shows "\<exists>cs. execute E ctx (Limit_Exec i n) = Ok (List.map Ok cs) \<and> list_all (typed s) cs
     \<and> stream_rows cs = take n (stream_rows bs)"
  by (rule limit_rows [OF assms])

text \<open>A concrete table for the witnesses.\<close>

abbreviation sample_schema :: Schema where
  "sample_schema \<equiv> new_schema [new_field ''id'' T_Int32, new_field ''name'' T_Utf8]"

definition sample_plan :: phys_plan where
  "sample_plan = Scan_Exec (In_Memory sample_schema [sample_batch, sample_batch]) [''id'', ''name'']"

definition sample_ctx :: ExecutorContext where
  "sample_ctx = executor_context_new ''executor-0'' ''localhost'' 50051 ''shuffle''"

lemma sample_plan_ok:
  "phys_schema ref_env sample_plan = Ok sample_schema"
  "execute ref_env ctx sample_plan = Ok (List.map Ok [sample_batch, sample_batch])"
  "list_all (typed sample_schema) [sample_batch, sample_batch]"
  by (simp_all add: sample_plan_def ds_schema_def select_def select_field_def new_schema_def new_field_def
      ds_scan_def memory_scan_def column_position_def sample_batch_def try_new_def try_new_spec_def
      to_arrow_def field_to_arrow_def typed_def batch_wf_def array_wf_def supported_def)

lemma sample_rows:
  "stream_rows [sample_batch, sample_batch] =
     (let rs = [[V_Int32 7, V_Utf8 ''a''], [V_Null, V_Utf8 ''b''], [V_Int32 9, V_Null]] in rs @ rs)"
  by (simp add: batch_rows_def batch_row_def sample_batch_def upt_rec)

lemma sample_row_cases:
  "r \<in> set (stream_rows [sample_batch, sample_batch]) \<Longrightarrow>
     r = [V_Int32 7, V_Utf8 ''a''] \<or> r = [V_Null, V_Utf8 ''b''] \<or> r = [V_Int32 9, V_Null]"
  unfolding sample_rows by auto

theorem selection_filters_rows_witness:
  "\<exists>cs. execute ref_env sample_ctx (Selection_Exec sample_plan
        (Boolean_Expr Op_Eq (Column_Expr 1) (Literal_String ''a''))) = Ok (List.map Ok cs)
     \<and> list_all (typed sample_schema) cs \<and> length (stream_rows cs) = 2"
proof -
  let ?e = "Boolean_Expr Op_Eq (Column_Expr 1) (Literal_String ''a'')"
  let ?ts = "col_types sample_schema"
  note defs = new_schema_def new_field_def compare_value_def compare_typed_def cmp_arm_def as_opt_str_def
  have vals: "eval_row ref_env ?ts ?e [V_Int32 7, V_Utf8 ''a''] = Ok (V_Boolean True)"
    "eval_row ref_env ?ts ?e [V_Null, V_Utf8 ''b''] = Ok (V_Boolean False)"
    "eval_row ref_env ?ts ?e [V_Int32 9, V_Null] = Ok V_Null"
    by (simp_all add: defs bool_cell_def cmp_opt_def cmp_string_def op_holds_def utf8_encode_def)
  have ok: "\<forall>r\<in>set (stream_rows [sample_batch, sample_batch]). is_ok (eval_row ref_env ?ts ?e r)"
    using sample_row_cases vals is_ok_simps(1) by metis
  have ty: "expr_type ?ts ?e = Some T_Boolean" by (simp add: defs opt2_def bool_type_def compare_types_def)
  obtain cs where "execute ref_env sample_ctx (Selection_Exec sample_plan ?e) = Ok (List.map Ok cs)"
    "list_all (typed sample_schema) cs"
    "stream_rows cs = List.filter (\<lambda>r. eval_row ref_env ?ts ?e r = Ok (V_Boolean True)) (stream_rows [sample_batch, sample_batch])"
    using selection_filters_rows [OF ref_env_ok sample_plan_ok ty ok] by blast
  then show ?thesis unfolding sample_rows Let_def using vals by auto
qed

theorem projection_maps_rows_witness:
  "\<exists>cs. execute ref_env sample_ctx (Projection_Exec sample_plan (new_schema [new_field ''n'' T_Utf8]) [Column_Expr 1])
       = Ok (List.map Ok cs)
     \<and> stream_rows cs = [[V_Utf8 ''a''], [V_Utf8 ''b''], [V_Null], [V_Utf8 ''a''], [V_Utf8 ''b''], [V_Null]]"
proof -
  let ?s' = "new_schema [new_field ''n'' T_Utf8]" and ?es = "[Column_Expr 1]"
  let ?ts = "col_types sample_schema"
  have ty: "list_all2 (\<lambda>e f. expr_type ?ts e = Some (f_type f)) ?es (s_fields ?s')"
    by (simp add: new_schema_def new_field_def)
  have ok: "\<forall>r\<in>set (stream_rows [sample_batch, sample_batch]). \<forall>e\<in>set ?es. is_ok (eval_row ref_env ?ts e r)"
    by (auto dest!: sample_row_cases simp del: stream_rows_simps)
  show ?thesis
    using projection_maps_rows [OF ref_env_ok sample_plan_ok(2,3) _ ty ok, of sample_ctx]
    unfolding sample_rows by (auto simp: row_value_def)
qed

theorem limit_takes_prefix_witness:
  "\<exists>cs. execute ref_env sample_ctx (Limit_Exec sample_plan 4) = Ok (List.map Ok cs)
     \<and> stream_rows cs = [[V_Int32 7, V_Utf8 ''a''], [V_Null, V_Utf8 ''b''], [V_Int32 9, V_Null], [V_Int32 7, V_Utf8 ''a'']]"
  using limit_takes_prefix [OF ref_env_ok sample_plan_ok, of sample_ctx 4]
  unfolding sample_rows by auto

end
