(* ===== verification/Hash_Props.thy ===== *)
theory Hash_Props
  imports Phys_Props
begin

text \<open>
  Correctness of the hash operators: building a batch from rows, the keyed fold of the
  hash tables, the hash aggregate, the hash join and the shuffle writer.
\<close>

lemma fold_res_map: "fold_res f s (List.map g xs) = fold_res (\<lambda>s x. f s (g x)) s xs"
  by (induction xs arbitrary: s) (auto intro!: and_then_cong)

section \<open>Building a batch from rows\<close>

definition row_fits :: "DataType list \<Rightarrow> ScalarValue list \<Rightarrow> bool" where
  "row_fits ts r = list_all2 fits ts r"

definition push_row :: "builder list \<Rightarrow> ScalarValue list \<Rightarrow> builder list" where
  "push_row bs r = List.map (\<lambda>(b, v). b\<lparr>b_cells := b_cells b @ [v]\<rparr>) (zip bs r)"

lemma append_cells_append:
  "append_cells bs k (xs @ ys) = and_then (append_cells bs k xs) (\<lambda>bs'. append_cells bs' (k + length xs) ys)"
proof (induction xs arbitrary: bs k)
  case (Cons x xs)
  show ?case by (cases x) (auto simp: Cons.IH intro!: and_then_cong)
qed simp

lemma append_at_mid:
  "fits (b_type b) v \<Longrightarrow> append_at (pre @ b # post) (length pre) v = Ok (pre @ b\<lparr>b_cells := b_cells b @ [v]\<rparr> # post)"
  using append_value_Ok [of b v "b\<lparr>b_cells := b_cells b @ [v]\<rparr>"] by (simp add: append_at_def)

lemma append_cells_row:
  "row_fits (List.map b_type bs) r \<Longrightarrow>
     append_cells (pre @ bs) (length pre) (List.map Ok r) = Ok (pre @ push_row bs r)"
proof (induction bs arbitrary: r pre)
  case (Cons b bs)
  then obtain v vs where r: "r = v # vs" "fits (b_type b) v" "row_fits (List.map b_type bs) vs"
    by (auto simp: row_fits_def list_all2_Cons1)
  have "append_cells ((pre @ [b\<lparr>b_cells := b_cells b @ [v]\<rparr>]) @ bs)
      (length (pre @ [b\<lparr>b_cells := b_cells b @ [v]\<rparr>])) (List.map Ok vs)
      = Ok ((pre @ [b\<lparr>b_cells := b_cells b @ [v]\<rparr>]) @ push_row bs vs)"
    by (rule Cons.IH [OF r(3)])
  then show ?case using r by (simp add: append_at_mid push_row_def)
qed (simp add: row_fits_def push_row_def)

lemma push_row_types: "length r = length bs \<Longrightarrow> List.map b_type (push_row bs r) = List.map b_type bs"
  by (rule nth_equalityI) (auto simp: push_row_def)

lemma row_fits_length: "row_fits ts r \<Longrightarrow> length r = length ts"
  by (auto simp: row_fits_def dest: list_all2_lengthD)

text \<open>The builders after a list of rows: column @j@ has gained cell @j@ of each row.\<close>

definition push_rows :: "builder list \<Rightarrow> ScalarValue list list \<Rightarrow> builder list" where
  "push_rows bs rows = List.map (\<lambda>j. (bs ! j)\<lparr>b_cells := b_cells (bs ! j) @ List.map (\<lambda>r. r ! j) rows\<rparr>) [0..<length bs]"

lemma push_rows_Nil [simp]: "push_rows bs [] = bs"
  by (simp add: push_rows_def map_nth)

lemma push_rows_Cons:
  "length r = length bs \<Longrightarrow> push_rows (push_row bs r) rows = push_rows bs (r # rows)"
  by (rule nth_equalityI) (auto simp: push_rows_def push_row_def)

lemma fold_rows:
  assumes "\<And>bs x. x \<in> set xs \<Longrightarrow> List.map b_type bs = ts \<Longrightarrow> step bs x = append_cells bs 0 (List.map Ok (g x))"
    and "\<And>x. x \<in> set xs \<Longrightarrow> row_fits ts (g x)" and "List.map b_type bs = ts"
  shows "fold_res step bs xs = Ok (push_rows bs (List.map g xs))"
  using assms
proof (induction xs arbitrary: bs)
  case (Cons x xs)
  have fit: "row_fits (List.map b_type bs) (g x)" using Cons.prems by simp
  then have len: "length (g x) = length bs" by (auto dest: row_fits_length)
  have "step bs x = Ok (push_row bs (g x))"
    using Cons.prems(1) [of x bs] Cons.prems(3) append_cells_row [OF fit, of "[]"] by simp
  moreover have "fold_res step (push_row bs (g x)) xs = Ok (push_rows (push_row bs (g x)) (List.map g xs))"
    by (rule Cons.IH) (use Cons.prems push_row_types [OF len] in auto)
  ultimately show ?case using push_rows_Cons [OF len] by simp
qed simp

definition empty_builders :: "Schema \<Rightarrow> builder list" where
  "empty_builders s = List.map (\<lambda>f. \<lparr>b_type = f_type f, b_cells = []\<rparr>) (s_fields s)"

definition schema_ok :: "Schema \<Rightarrow> bool" where
  "schema_ok s = (s_fields s \<noteq> [] \<and> list_all supported (col_types s))"

lemma new_builders_Ok: "schema_ok s \<Longrightarrow> new_builders s = Ok (empty_builders s)"
  unfolding new_builders_def empty_builders_def
  by (rule traverse_all_Ok) (auto simp: schema_ok_def builder_new_def list_all_iff)

lemma empty_builders_types [simp]: "List.map b_type (empty_builders s) = col_types s"
  by (simp add: empty_builders_def)

definition rows_batch :: "Schema \<Rightarrow> ScalarValue list list \<Rightarrow> RecordBatch" where
  "rows_batch s rows = \<lparr>rb_schema = to_arrow s, rb_columns = List.map build (push_rows (empty_builders s) rows),
     rb_rows = length rows\<rparr>"

lemma finish_rows:
  assumes "env_ok E" "schema_ok s" "\<forall>r\<in>set rows. row_fits (col_types s) r"
  shows "finish_builders E s (push_rows (empty_builders s) rows) = Ok (rows_batch s rows)"
    "typed s (rows_batch s rows)" "batch_rows (rows_batch s rows) = rows"
proof -
  let ?as = "List.map build (push_rows (empty_builders s) rows)"
  have len: "length ?as = width s" by (simp add: push_rows_def empty_builders_def)
  have col: "?as ! j = \<lparr>arr_type = f_type (s_fields s ! j), arr_cells = List.map (\<lambda>r. r ! j) rows\<rparr>"
    if "j < width s" for j
    using that by (simp add: push_rows_def empty_builders_def build_def)
  have cell: "fits (f_type (s_fields s ! j)) (r ! j)" if "r \<in> set rows" "j < width s" for r j
    using assms(3) that by (auto simp: row_fits_def list_all2_conv_all_nth)
  have wf: "cv_wf (Arrow_Field a) \<and> length (arr_cells a) = length rows" if a: "a \<in> set ?as" for a
  proof -
    obtain j where j: "j < width s" "a = ?as ! j" using a len by (metis in_set_conv_nth)
    have "supported (f_type (s_fields s ! j))" using assms(2) j(1) by (auto simp: schema_ok_def list_all_length)
    then show ?thesis unfolding j(2) col [OF j(1)] using cell j(1)
      by (auto simp: array_wf_def list_all_iff)
  qed
  have types: "col_types s = List.map arr_type ?as"
    by (rule nth_equalityI) (use len col in auto)
  have ne: "?as \<noteq> []" using len assms(2) by (auto simp: schema_ok_def)
  have hd: "length (arr_cells (hd ?as)) = length rows" using wf ne list.set_sel(1) by blast
  have l: "list_all cv_wf (List.map Arrow_Field ?as)" using wf by (auto simp: list_all_iff simp del: cv_wf.simps)
  have c: "finish_builders E s (push_rows (empty_builders s) rows) = create E s (List.map Arrow_Field ?as)"
    by (simp add: finish_builders_def comp_def)
  show "finish_builders E s (push_rows (empty_builders s) rows) = Ok (rows_batch s rows)"
    unfolding c create_arrays [OF assms(1) l] hd rows_batch_def using ne types wf by auto
  show "typed s (rows_batch s rows)"
    using wf types ne by (auto simp: typed_def batch_wf_def rows_batch_def simp del: cv_wf.simps)
  have "batch_row (rows_batch s rows) i = rows ! i" if i: "i < length rows" for i
  proof (rule nth_equalityI)
    have "length (rows ! i) = width s" using row_fits_length [of "col_types s" "rows ! i"] assms(3) i by auto
    then show "length (batch_row (rows_batch s rows) i) = length (rows ! i)"
      using len by (simp add: batch_row_def rows_batch_def)
    fix j assume "j < length (batch_row (rows_batch s rows) i)"
    then have j: "j < width s" using len by (simp add: batch_row_def rows_batch_def)
    then have "batch_row (rows_batch s rows) i ! j = arr_cells (?as ! j) ! i"
      using len by (simp add: batch_row_def rows_batch_def)
    also have "\<dots> = rows ! i ! j" using col [OF j] i by simp
    finally show "batch_row (rows_batch s rows) i ! j = rows ! i ! j" .
  qed
  then show "batch_rows (rows_batch s rows) = rows"
    by (intro nth_equalityI) (auto simp: batch_rows_def rows_batch_def)
qed

lemma create_batch_rows:
  assumes "env_ok E" "schema_ok s" "\<forall>r\<in>set rows. row_fits (col_types s) r"
  shows "create_batch E s rows = Ok (rows_batch s rows)"
proof -
  have "fold_res (\<lambda>bs row. append_cells bs 0 (List.map Ok row)) (empty_builders s) rows
      = Ok (push_rows (empty_builders s) (List.map (\<lambda>r. r) rows))"
    by (rule fold_rows [where ts = "col_types s"]) (use assms(3) in auto)
  then show ?thesis using finish_rows(1) [OF assms] by (simp add: create_batch_def new_builders_Ok [OF assms(2)])
qed

section \<open>The keyed fold of the hash tables\<close>

definition group_keys :: "('k \<times> 'v) list \<Rightarrow> 'k list" where
  "group_keys kvs = foldl push_new [] (List.map fst kvs)"

definition group_values :: "'k \<Rightarrow> ('k \<times> 'v) list \<Rightarrow> 'v list" where
  "group_values k kvs = List.map snd (List.filter (\<lambda>p. fst p = k) kvs)"

definition keyed_fold :: "'s \<Rightarrow> ('v \<Rightarrow> 's \<Rightarrow> 's res) \<Rightarrow> (ScalarValue list \<times> 'v) list \<Rightarrow> 's keyed res" where
  "keyed_fold d upd kvs = fold_res (\<lambda>t (k, v). upsert k d (upd v) t) [] kvs"

lemma group_keys_snoc: "group_keys (kvs @ [(k, v)]) = push_new (group_keys kvs) k"
  by (simp add: group_keys_def)

lemma group_keys_set [simp]: "set (group_keys kvs) = fst ` set kvs"
proof (induction kvs rule: rev_induct)
  case (snoc p kvs)
  then show ?case by (cases p) (auto simp: group_keys_snoc)
qed (simp add: group_keys_def)

lemma group_keys_distinct [simp]: "distinct (group_keys kvs)"
proof (induction kvs rule: rev_induct)
  case (snoc p kvs)
  then show ?case by (cases p) (simp add: group_keys_snoc)
qed (simp add: group_keys_def)

lemma group_values_snoc:
  "group_values k (kvs @ [(k', v)]) = group_values k kvs @ (if k' = k then [v] else [])"
  by (simp add: group_values_def)

lemma group_values_absent: "k \<notin> fst ` set kvs \<Longrightarrow> group_values k kvs = []"
  by (auto simp: group_values_def filter_empty_conv)

lemma upsert_ok:
  "f (case map_of t k of None \<Rightarrow> d | Some x \<Rightarrow> x) = Ok y \<Longrightarrow>
     \<exists>t'. upsert k d f t = Ok t' \<and> map_of t' = (map_of t)(k \<mapsto> y) \<and> List.map fst t' = push_new (List.map fst t) k"
proof (induction t)
  case (Cons p t)
  obtain k' v where p: "p = (k', v)" by force
  show ?case
  proof (cases "k = k'")
    case True
    then show ?thesis using Cons.prems p by (auto simp: push_new_def)
  next
    case False
    then have "f (case map_of t k of None \<Rightarrow> d | Some x \<Rightarrow> x) = Ok y" using Cons.prems p by simp
    then obtain t' where "upsert k d f t = Ok t'" "map_of t' = (map_of t)(k \<mapsto> y)"
      "List.map fst t' = push_new (List.map fst t) k" using Cons.IH by blast
    then show ?thesis using False p by (auto simp: push_new_def)
  qed
qed (auto simp: push_new_def)

lemma keyed_fold_ok:
  assumes "\<And>k. k \<in> fst ` set kvs \<Longrightarrow> fold_res (\<lambda>s v. upd v s) d (group_values k kvs) = Ok (F k)"
  shows "\<exists>t. keyed_fold d upd kvs = Ok t \<and> List.map fst t = group_keys kvs
     \<and> (\<forall>k. map_of t k = (if k \<in> fst ` set kvs then Some (F k) else None))"
  using assms
proof (induction kvs arbitrary: F rule: rev_induct)
  case Nil
  show ?case by (simp add: keyed_fold_def group_keys_def)
next
  case (snoc p kvs)
  obtain k v where p: "p = (k, v)" by force
  have full: "and_then (fold_res (\<lambda>s v. upd v s) d (group_values k kvs)) (upd v) = Ok (F k)"
    using snoc.prems [of k] by (simp add: p group_values_snoc fold_res_append)
  then obtain x where x: "fold_res (\<lambda>s v. upd v s) d (group_values k kvs) = Ok x" "upd v x = Ok (F k)"
    by (auto simp: and_then_eq_Ok)
  let ?G = "F(k := x)"
  have "fold_res (\<lambda>s v. upd v s) d (group_values j kvs) = Ok (?G j)" if "j \<in> fst ` set kvs" for j
  proof (cases "j = k")
    case True
    then show ?thesis using x(1) by simp
  next
    case False
    then show ?thesis using snoc.prems [of j] that by (simp add: p group_values_snoc)
  qed
  then obtain t where t: "keyed_fold d upd kvs = Ok t" "List.map fst t = group_keys kvs"
    "\<And>j. map_of t j = (if j \<in> fst ` set kvs then Some (?G j) else None)"
    using snoc.IH [of ?G] by blast
  have "(case map_of t k of None \<Rightarrow> d | Some y \<Rightarrow> y) = x"
    using t(3) [of k] x(1) group_values_absent [of k kvs] by auto
  then obtain t' where t': "upsert k d (upd v) t = Ok t'" "map_of t' = (map_of t)(k \<mapsto> F k)"
    "List.map fst t' = push_new (List.map fst t) k" using upsert_ok [of "upd v" d t k "F k"] x(2) by auto
  have "keyed_fold d upd (kvs @ [p]) = Ok t'"
    using t(1) t'(1) by (simp add: keyed_fold_def fold_res_append p)
  then show ?case using t' t(2,3) by (auto simp: p group_keys_snoc)
qed

lemma map_entries_spec:
  assumes "env_ok E" "List.map fst t = group_keys kvs" "\<And>k. k \<in> fst ` set kvs \<Longrightarrow> map_of t k = Some (F k)"
  shows "\<exists>ks. mset ks = mset (group_keys kvs) \<and> map_entries E t = List.map (\<lambda>k. (k, F k)) ks"
proof -
  let ?ks = "map_order E (group_keys kvs)"
  have "set ?ks = fst ` set kvs" using env_ok_order_set [OF assms(1)] by simp
  then have "map_entries E t = List.map (\<lambda>k. (k, F k)) ?ks"
    unfolding map_entries_def assms(2) using assms(3) by (intro map_cong) (simp_all del: map_of_eq_Some_iff)
  then show ?thesis using env_ok_order [OF assms(1)] by blast
qed

text \<open>Grouping by key splits a list of rows up to order.\<close>

lemma group_partition_mset:
  "distinct ks \<Longrightarrow> mset (concat (List.map (\<lambda>k. if k \<in> M then [] else List.map g (List.filter (\<lambda>r. key r = k) R)) ks))
     = mset (List.map g (List.filter (\<lambda>r. key r \<in> set ks \<and> key r \<notin> M) R))"
proof (induction ks)
  case (Cons k ks)
  have split: "mset (List.filter (\<lambda>r. key r \<in> set (k # ks) \<and> key r \<notin> M) R)
     = mset (if k \<in> M then [] else List.filter (\<lambda>r. key r = k) R)
       + mset (List.filter (\<lambda>r. key r \<in> set ks \<and> key r \<notin> M) R)"
    using Cons.prems by (induction R) auto
  show ?case using Cons unfolding mset_map split by simp
qed simp

section \<open>Hash aggregation\<close>

text \<open>The expressions are well typed and evaluate on every row.\<close>

definition evaluates_on :: "env \<Rightarrow> Schema \<Rightarrow> phys_expr list \<Rightarrow> ScalarValue list list \<Rightarrow> bool" where
  "evaluates_on E s es rows =
     ((\<forall>e\<in>set es. expr_type (col_types s) e \<noteq> None)
      \<and> (\<forall>r\<in>set rows. \<forall>e\<in>set es. is_ok (eval_row E (col_types s) e r)))"

lemma evaluates_on_append [simp]:
  "evaluates_on E s (es @ fs) rows \<longleftrightarrow> evaluates_on E s es rows \<and> evaluates_on E s fs rows"
  by (auto simp: evaluates_on_def)

lemma evaluates_on_rows [simp]:
  "evaluates_on E s es (xs @ ys) \<longleftrightarrow> evaluates_on E s es xs \<and> evaluates_on E s es ys"
  by (auto simp: evaluates_on_def)

definition result_fields :: "DataType list \<Rightarrow> phys_expr list \<Rightarrow> Field list" where
  "result_fields ts es = List.map (\<lambda>e. new_field [] (the (expr_type ts e))) es"

lemma result_fields_typed:
  "evaluates_on E s es rows \<Longrightarrow>
     list_all2 (\<lambda>e f. expr_type (col_types s) e = Some (f_type f)) es (result_fields (col_types s) es)"
  by (auto simp: evaluates_on_def result_fields_def list_all2_conv_all_nth new_field_def all_set_conv_all_nth)

text \<open>Evaluating a list of expressions on a batch whose rows all evaluate: cell @i@ of the
  columns is the projection of row @i@.\<close>

lemma evaluate_list_columns:
  assumes "typed s b" "evaluates_on E s es (batch_rows b)"
  shows "\<exists>cs. traverse (\<lambda>e. evaluate E e b) es = Ok cs \<and> length cs = length es
    \<and> (\<forall>i<rb_rows b. traverse (\<lambda>c. cv_value c i) cs = Ok (project_row E (col_types s) es (batch_row b i)))
    \<and> (\<forall>i<rb_rows b. \<forall>j<length es.
         cv_value (cs ! j) i = Ok (row_value E (col_types s) (es ! j) (batch_row b i)))"
proof -
  have wf: "batch_wf b" "batch_types b = col_types s" using assms(1) by (auto simp: typed_def)
  note ty = result_fields_typed [OF assms(2)]
  obtain cs where cs: "traverse (\<lambda>e. evaluate E e b) es = Ok cs"
    using evaluate_list_ok [OF assms(1) ty] assms(2) by (auto simp: evaluates_on_def)
  have v: "list_all2 (\<lambda>c e. cv_value c i = Ok (row_value E (col_types s) e (batch_row b i))) cs es"
    if "i < rb_rows b" for i
    using evaluate_list_good [OF wf ty cs] that by blast
  have "traverse (\<lambda>c. cv_value c i) cs = Ok (project_row E (col_types s) es (batch_row b i))"
    if "i < rb_rows b" for i
    using v [OF that] unfolding traverse_eq_Ok project_row_def by (auto simp: list_all2_conv_all_nth)
  then show ?thesis using cs traverse_length [OF cs] v
    by (intro exI [of _ cs]) (auto simp: list_all2_conv_all_nth)
qed

definition update_row :: "AggregateMode \<Rightarrow> ScalarValue list \<Rightarrow> accumulator list \<Rightarrow> accumulator list res" where
  "update_row m v accs = traverse (\<lambda>(acc, x). accumulate_mode m acc x) (zip accs v)"

lemma update_accumulators_row:
  assumes "length cs = length v" "\<And>j. j < length v \<Longrightarrow> cv_value (cs ! j) i = Ok (v ! j)"
  shows "update_accumulators m cs i accs = update_row m v accs"
  using assms unfolding update_accumulators_def update_row_def
proof (induction accs arbitrary: cs v)
  case (Cons acc accs)
  show ?case
  proof (cases v)
    case (Cons x xs)
    then obtain c ds where c: "cs = c # ds" using Cons.prems(1) by (cases cs) auto
    have "cv_value c i = Ok x" using Cons.prems(2) [of 0] Cons c by simp
    moreover have "\<And>j. j < length xs \<Longrightarrow> cv_value (ds ! j) i = Ok (xs ! j)"
      using Cons.prems(2) [of "Suc _"] Cons c by auto
    ultimately show ?thesis using Cons.IH [of ds xs] Cons.prems(1) Cons c by simp
  qed (use Cons.prems in simp)
qed simp

definition aggregate_pairs :: "env \<Rightarrow> DataType list \<Rightarrow> phys_expr list \<Rightarrow> phys_aggr list \<Rightarrow> ScalarValue list list
    \<Rightarrow> (ScalarValue list \<times> ScalarValue list) list" where
  "aggregate_pairs E ts gs as rows =
     List.map (\<lambda>r. (project_row E ts gs r, project_row E ts (List.map input_expression as) r)) rows"

lemma aggregate_batch_rows:
  assumes "typed s b" "evaluates_on E s (gs @ List.map input_expression as) (batch_rows b)"
  shows "aggregate_batch E m gs as t b
     = fold_res (\<lambda>t (k, v). upsert k (List.map create_accumulator as) (update_row m v) t) t
         (aggregate_pairs E (col_types s) gs as (batch_rows b))"
proof -
  let ?ts = "col_types s" and ?ins = "List.map input_expression as"
  have es: "evaluates_on E s gs (batch_rows b)" "evaluates_on E s ?ins (batch_rows b)" using assms(2) by auto
  obtain ks where ks: "traverse (\<lambda>e. evaluate E e b) gs = Ok ks"
    "\<And>i. i < rb_rows b \<Longrightarrow> traverse (\<lambda>c. cv_value c i) ks = Ok (project_row E ?ts gs (batch_row b i))"
    using evaluate_list_columns [OF assms(1) es(1)] by auto
  obtain cs where cs: "traverse (\<lambda>e. evaluate E e b) ?ins = Ok cs" "length cs = length ?ins"
    "\<And>i j. i < rb_rows b \<Longrightarrow> j < length ?ins \<Longrightarrow>
       cv_value (cs ! j) i = Ok (row_value E ?ts (?ins ! j) (batch_row b i))"
    using evaluate_list_columns [OF assms(1) es(2)] by auto
  let ?pr = "\<lambda>i. project_row E ?ts ?ins (batch_row b i)"
  have upd: "update_accumulators m cs i = update_row m (?pr i)" if "i < rb_rows b" for i
    by (rule ext, rule update_accumulators_row) (use cs(2,3) that in \<open>auto simp: project_row_def\<close>)
  have "aggregate_batch E m gs as t b = fold_res (aggregate_row m as ks cs) t [0..<rb_rows b]"
    using ks(1) cs(1) by (simp add: aggregate_batch_def row_count_def)
  also have "\<dots> = fold_res (\<lambda>t i. upsert (project_row E ?ts gs (batch_row b i)) (List.map create_accumulator as)
       (update_row m (?pr i)) t) t [0..<rb_rows b]"
    by (rule fold_res_cong) (auto simp: aggregate_row_def ks(2) upd)
  also have "\<dots> = fold_res (\<lambda>t (k, v). upsert k (List.map create_accumulator as) (update_row m v) t) t
       (aggregate_pairs E ?ts gs as (batch_rows b))"
    by (simp add: aggregate_pairs_def batch_rows_def fold_res_map)
  finally show ?thesis .
qed

lemma aggregate_table:
  assumes "list_all (typed s) bs" "evaluates_on E s (gs @ List.map input_expression as) (stream_rows bs)"
  shows "fold_res (\<lambda>t x. and_then x (aggregate_batch E m gs as t)) t (List.map Ok bs)
     = fold_res (\<lambda>t (k, v). upsert k (List.map create_accumulator as) (update_row m v) t) t
         (aggregate_pairs E (col_types s) gs as (stream_rows bs))"
  using assms
proof (induction bs arbitrary: t)
  case (Cons b bs)
  then have "typed s b" "evaluates_on E s (gs @ List.map input_expression as) (batch_rows b)" by auto
  note head = aggregate_batch_rows [OF this, of m]
  have tail: "\<And>t. fold_res (\<lambda>t x. and_then x (aggregate_batch E m gs as t)) t (List.map Ok bs)
     = fold_res (\<lambda>t (k, v). upsert k (List.map create_accumulator as) (update_row m v) t) t
         (aggregate_pairs E (col_types s) gs as (stream_rows bs))"
    using Cons.prems by (intro Cons.IH) auto
  show ?case by (simp add: head tail aggregate_pairs_def fold_res_append)
qed (simp add: aggregate_pairs_def)

text \<open>The accumulators of one group run independently.\<close>

definition group_accumulator :: "env \<Rightarrow> DataType list \<Rightarrow> AggregateMode \<Rightarrow> phys_aggr \<Rightarrow> ScalarValue list list \<Rightarrow> accumulator res" where
  "group_accumulator E ts m a rows =
     fold_res (accumulate_mode m) (create_accumulator a) (List.map (row_value E ts (input_expression a)) rows)"

lemma update_rows_independent:
  assumes "\<And>j. j < length d \<Longrightarrow> fold_res (accumulate_mode m) (d ! j) (List.map (\<lambda>v. v ! j) vs) = Ok (A j)"
    "\<forall>v\<in>set vs. length v = length d"
  shows "fold_res (\<lambda>accs v. update_row m v accs) d vs = Ok (List.map A [0..<length d])"
  using assms
proof (induction vs arbitrary: d)
  case Nil
  then show ?case by (auto intro!: nth_equalityI)
next
  case (Cons v vs)
  have "\<exists>a. accumulate_mode m (d ! j) (v ! j) = Ok a \<and> fold_res (accumulate_mode m) a (List.map (\<lambda>v. v ! j) vs) = Ok (A j)"
    if "j < length d" for j using Cons.prems(1) [OF that] by (auto simp: and_then_eq_Ok)
  then obtain G where G: "\<And>j. j < length d \<Longrightarrow> accumulate_mode m (d ! j) (v ! j) = Ok (G j)
     \<and> fold_res (accumulate_mode m) (G j) (List.map (\<lambda>v. v ! j) vs) = Ok (A j)" by metis
  have lv: "length v = length d" using Cons.prems(2) by simp
  have "update_row m v d = Ok (List.map G [0..<length d])"
    unfolding update_row_def traverse_eq_Ok using G lv by (auto simp: list_all2_conv_all_nth)
  moreover have "fold_res (\<lambda>accs v. update_row m v accs) (List.map G [0..<length d]) vs
      = Ok (List.map A [0..<length (List.map G [0..<length d])])"
    by (rule Cons.IH) (use G Cons.prems(2) in auto)
  ultimately show ?case by simp
qed

text \<open>The output cell of an aggregate for the rows of one group, NULL when it has none.\<close>

definition group_output :: "env \<Rightarrow> DataType list \<Rightarrow> AggregateMode \<Rightarrow> phys_aggr \<Rightarrow> ScalarValue list list \<Rightarrow> ScalarValue res" where
  "group_output E ts m a rows = and_then (group_accumulator E ts m a rows) (output_value m)"

definition group_row :: "env \<Rightarrow> DataType list \<Rightarrow> AggregateMode \<Rightarrow> phys_expr list \<Rightarrow> phys_aggr list
    \<Rightarrow> ScalarValue list list \<Rightarrow> ScalarValue list \<Rightarrow> ScalarValue list res" where
  "group_row E ts m gs as rows k = map_res ((@) k)
     (traverse (\<lambda>a. group_output E ts m a (List.filter (\<lambda>r. project_row E ts gs r = k) rows)) as)"

definition the_ok :: "'a res \<Rightarrow> 'a" where
  "the_ok r = (case r of Ok x \<Rightarrow> x)"

lemma the_ok_simp [simp]: "the_ok (Ok x) = x"
  by (simp add: the_ok_def)

lemma aggregate_group_values:
  "group_values k (aggregate_pairs E ts gs as rows)
     = List.map (project_row E ts (List.map input_expression as)) (List.filter (\<lambda>r. project_row E ts gs r = k) rows)"
  by (simp add: group_values_def aggregate_pairs_def filter_map comp_def)

lemma aggregate_emit:
  assumes "env_ok E" "schema_ok s'" "\<And>k. k \<in> set ks \<Longrightarrow> length k = n"
    "\<And>k. k \<in> set ks \<Longrightarrow> traverse (output_value m) (A k) = Ok (V k) \<and> row_fits (col_types s') (k @ V k)"
    "map_entries E t = List.map (\<lambda>k. (k, A k)) ks"
  shows "aggregate_output E m n s' t = Ok (rows_batch s' (List.map (\<lambda>k. k @ V k) ks))"
proof -
  have "emit_group m n bs (k, A k) = append_cells bs 0 (List.map Ok (k @ V k))" if "k \<in> set ks" for bs k
  proof -
    have "List.map (output_value m) (A k) = List.map Ok (V k)"
      using assms(4) [OF that] by (auto simp: traverse_eq_Ok list_all2_conv_all_nth intro!: nth_equalityI)
    then show ?thesis using assms(3) [OF that]
      by (simp add: emit_group_def append_cells_append)
  qed
  then have "fold_res (emit_group m n) (empty_builders s') (List.map (\<lambda>k. (k, A k)) ks)
      = Ok (push_rows (empty_builders s') (List.map (\<lambda>k. k @ V k) ks))"
    unfolding fold_res_map by (intro fold_rows [where ts = "col_types s'"]) (use assms(4) in auto)
  then show ?thesis
    using finish_rows(1) [OF assms(1,2)] assms(4,5)
    by (simp add: aggregate_output_def new_builders_Ok [OF assms(2)])
qed

lemma aggregate_correct:
  assumes "env_ok E" "schema_ok s'" "list_all (typed s) bs"
    "evaluates_on E s (gs @ List.map input_expression as) (stream_rows bs)"
    "\<And>k. k \<in> project_row E (col_types s) gs ` set (stream_rows bs) \<Longrightarrow>
       \<exists>r. group_row E (col_types s) m gs as (stream_rows bs) k = Ok r \<and> row_fits (col_types s') r"
  shows "\<exists>ks b. distinct ks \<and> set ks = project_row E (col_types s) gs ` set (stream_rows bs)
     \<and> aggregate_stream E gs as s' m (List.map Ok bs) = Ok b \<and> typed s' b
     \<and> batch_rows b = List.map (\<lambda>k. the_ok (group_row E (col_types s) m gs as (stream_rows bs) k)) ks"
proof -
  let ?ts = "col_types s" and ?rows = "stream_rows bs"
  let ?kvs = "aggregate_pairs E ?ts gs as ?rows" and ?d = "List.map create_accumulator as"
  let ?sel = "\<lambda>k. List.filter (\<lambda>r. project_row E ?ts gs r = k) ?rows"
  let ?acc = "\<lambda>k j. the_ok (group_accumulator E ?ts m (as ! j) (?sel k))"
  let ?A = "\<lambda>k. List.map (?acc k) [0..<length as]"
  let ?V = "\<lambda>k. the_ok (traverse (\<lambda>a. group_output E ?ts m a (?sel k)) as)"
  have keys: "fst ` set ?kvs = project_row E ?ts gs ` set ?rows" by (force simp: aggregate_pairs_def)
  have row: "traverse (\<lambda>a. group_output E ?ts m a (?sel k)) as = Ok (?V k)
      \<and> group_row E ?ts m gs as ?rows k = Ok (k @ ?V k) \<and> row_fits (col_types s') (k @ ?V k)"
    if "k \<in> fst ` set ?kvs" for k
    using assms(5) [of k] that by (auto simp: keys group_row_def map_res_eq_Ok)
  have acc: "group_accumulator E ?ts m (as ! j) (?sel k) = Ok (?acc k j) \<and> output_value m (?acc k j) = Ok (?V k ! j)"
    if "k \<in> fst ` set ?kvs" "j < length as" for k j
    using traverse_nth [OF conjunct1 [OF row [OF that(1)]] that(2)]
    by (auto simp: group_output_def and_then_eq_Ok)
  have run: "fold_res (\<lambda>accs v. update_row m v accs) ?d (group_values k ?kvs) = Ok (?A k)"
    if k: "k \<in> fst ` set ?kvs" for k
  proof -
    have "fold_res (\<lambda>accs v. update_row m v accs) ?d (group_values k ?kvs) = Ok (List.map (?acc k) [0..<length ?d])"
    proof (rule update_rows_independent)
      fix j assume "j < length ?d"
      then show "fold_res (accumulate_mode m) (?d ! j) (List.map (\<lambda>v. v ! j) (group_values k ?kvs)) = Ok (?acc k j)"
        using acc [OF k, of j] by (simp add: aggregate_group_values group_accumulator_def project_row_def comp_def)
    qed (auto simp: aggregate_group_values project_row_def)
    then show ?thesis by simp
  qed
  obtain t where t: "keyed_fold ?d (\<lambda>v accs. update_row m v accs) ?kvs = Ok t" "List.map fst t = group_keys ?kvs"
    "\<And>k. map_of t k = (if k \<in> fst ` set ?kvs then Some (?A k) else None)"
    using keyed_fold_ok [of ?kvs "\<lambda>v accs. update_row m v accs" ?d ?A] run by blast
  have "\<exists>ks. mset ks = mset (group_keys ?kvs) \<and> map_entries E t = List.map (\<lambda>k. (k, ?A k)) ks"
    by (rule map_entries_spec [OF assms(1) t(2)]) (use t(3) in auto)
  then obtain ks where ks: "mset ks = mset (group_keys ?kvs)" "map_entries E t = List.map (\<lambda>k. (k, ?A k)) ks"
    by blast
  have set_ks: "set ks = fst ` set ?kvs" using mset_eq_setD [OF ks(1)] by simp
  have dist: "distinct ks" using mset_eq_imp_distinct_iff [OF ks(1)] by simp
  have out: "aggregate_output E m (length gs) s' t = Ok (rows_batch s' (List.map (\<lambda>k. k @ ?V k) ks))"
  proof (rule aggregate_emit [OF assms(1,2) _ _ ks(2)])
    fix k assume k: "k \<in> set ks"
    then show "length k = length gs" using set_ks keys by (auto simp: project_row_def)
    have "length (?V k) = length as" using row k set_ks traverse_length by blast
    then have "traverse (output_value m) (?A k) = Ok (?V k)"
      unfolding traverse_eq_Ok using acc k set_ks by (auto simp: list_all2_conv_all_nth)
    then show "traverse (output_value m) (?A k) = Ok (?V k) \<and> row_fits (col_types s') (k @ ?V k)"
      using row k set_ks by blast
  qed
  have "aggregate_stream E gs as s' m (List.map Ok bs) = Ok (rows_batch s' (List.map (\<lambda>k. k @ ?V k) ks))"
    using t(1) out unfolding aggregate_stream_def aggregate_table [OF assms(3,4)] keyed_fold_def by simp
  moreover have fit: "\<forall>r\<in>set (List.map (\<lambda>k. k @ ?V k) ks). row_fits (col_types s') r" using row set_ks by auto
  moreover have rows: "List.map (\<lambda>k. k @ ?V k) ks = List.map (\<lambda>k. the_ok (group_row E ?ts m gs as ?rows k)) ks"
    using row set_ks by auto
  ultimately show ?thesis
    using finish_rows(2,3) [OF assms(1,2) fit] dist set_ks keys unfolding rows
    by (intro exI [of _ ks] exI [of _ "rows_batch s' (List.map (\<lambda>k. k @ ?V k) ks)"]) (simp add: rows)
qed

section \<open>Properties\<close>

lemma aggregate_rows:
  assumes "env_ok E" "schema_ok s'" "execute E ctx i = Ok (List.map Ok bs)" "list_all (typed s) bs"
    "evaluates_on E s (gs @ List.map input_expression as) (stream_rows bs)"
    "\<forall>k\<in>project_row E (col_types s) gs ` set (stream_rows bs).
       \<exists>r. group_row E (col_types s) m gs as (stream_rows bs) k = Ok r \<and> row_fits (col_types s') r"
  shows "\<exists>ks b. distinct ks \<and> set ks = project_row E (col_types s) gs ` set (stream_rows bs)
     \<and> execute E ctx (Hash_Aggregate_Exec i gs as s' m) = Ok [Ok b] \<and> typed s' b
     \<and> batch_rows b = List.map (\<lambda>k. the_ok (group_row E (col_types s) m gs as (stream_rows bs) k)) ks"
  using aggregate_correct [OF assms(1,2,4,5), of m] assms(3,6) by fastforce

text \<open>C18: The hash aggregate computes one row per distinct group key, in any of its modes:
  when the group and input expressions evaluate on every input row and the accumulators
  succeed on the rows of every group, @HashAggregateExec::execute@ returns exactly one batch
  of the output schema, whose rows are, for each distinct key once and in an order the map
  decides, the key followed by the output of each aggregate run over the rows with that key
  in input order.\<close>

theorem hash_aggregate_groups:
  assumes "env_ok E" "schema_ok s'" "execute E ctx i = Ok (List.map Ok bs)" "list_all (typed s) bs"
    "evaluates_on E s (gs @ List.map input_expression as) (stream_rows bs)"
    "\<forall>k\<in>project_row E (col_types s) gs ` set (stream_rows bs).
       \<exists>r. group_row E (col_types s) m gs as (stream_rows bs) k = Ok r \<and> row_fits (col_types s') r"
  shows "\<exists>ks b. distinct ks \<and> set ks = project_row E (col_types s) gs ` set (stream_rows bs)
     \<and> execute E ctx (Hash_Aggregate_Exec i gs as s' m) = Ok [Ok b] \<and> typed s' b
     \<and> batch_rows b = List.map (\<lambda>k. the_ok (group_row E (col_types s) m gs as (stream_rows bs) k)) ks"
  by (rule aggregate_rows [OF assms])

theorem hash_aggregate_groups_witness:
  "\<exists>b. execute ref_env sample_ctx (Hash_Aggregate_Exec sample_plan [Column_Expr 1]
       [Aggr Agg_Count (Column_Expr 0), Aggr Agg_Max (Column_Expr 0)]
       (new_schema [new_field ''name'' T_Utf8, new_field ''n'' T_Int32, new_field ''m'' T_Int32]) Complete) = Ok [Ok b]
     \<and> set (batch_rows b) = {[V_Utf8 ''a'', V_Int32 2, V_Int32 7], [V_Utf8 ''b'', V_Int32 0, V_Null],
          [V_Null, V_Int32 2, V_Int32 9]}"
proof -
  let ?gs = "[Column_Expr 1]" and ?as = "[Aggr Agg_Count (Column_Expr 0), Aggr Agg_Max (Column_Expr 0)]"
  let ?s' = "new_schema [new_field ''name'' T_Utf8, new_field ''n'' T_Int32, new_field ''m'' T_Int32]"
  let ?rows = "stream_rows [sample_batch, sample_batch]" and ?ts = "col_types sample_schema"
  note sch = new_schema_def new_field_def
  have ev: "evaluates_on ref_env sample_schema (?gs @ List.map input_expression ?as) ?rows"
    unfolding evaluates_on_def by (auto dest!: sample_row_cases simp: sch simp del: stream_rows_simps)
  have keys: "project_row ref_env ?ts ?gs ` set ?rows = {[V_Utf8 ''a''], [V_Utf8 ''b''], [V_Null]}"
    unfolding sample_rows by (auto simp: project_row_def row_value_def)
  note agg = group_row_def group_output_def group_accumulator_def sample_rows project_row_def row_value_def
    create_accumulator_def new_accumulator_def accumulate_mode_def accumulate_def count_accumulate_def
    max_accumulate_def scalar_gt_def cmp_scalar_def cmp_signed_def is_null_def add_i32_def output_value_def
    final_value_def checked_word_def batch_rows_def batch_row_def sample_batch_def upt_rec word_sless_alt
  have g: "group_row ref_env ?ts Complete ?gs ?as ?rows [V_Utf8 ''a''] = Ok [V_Utf8 ''a'', V_Int32 2, V_Int32 7]"
    "group_row ref_env ?ts Complete ?gs ?as ?rows [V_Utf8 ''b''] = Ok [V_Utf8 ''b'', V_Int32 0, V_Null]"
    "group_row ref_env ?ts Complete ?gs ?as ?rows [V_Null] = Ok [V_Null, V_Int32 2, V_Int32 9]"
    by (simp_all add: agg)
  have ok: "\<forall>k\<in>project_row ref_env ?ts ?gs ` set ?rows.
       \<exists>r. group_row ref_env ?ts Complete ?gs ?as ?rows k = Ok r \<and> row_fits (col_types ?s') r"
    unfolding keys using g by (auto simp: row_fits_def sch fits_def)
  have s': "schema_ok ?s'" by (simp add: schema_ok_def sch supported_def)
  obtain ks b where "set ks = {[V_Utf8 ''a''], [V_Utf8 ''b''], [V_Null]}"
    "execute ref_env sample_ctx (Hash_Aggregate_Exec sample_plan ?gs ?as ?s' Complete) = Ok [Ok b]"
    "batch_rows b = List.map (\<lambda>k. the_ok (group_row ref_env ?ts Complete ?gs ?as ?rows k)) ks"
    using hash_aggregate_groups [OF ref_env_ok s' sample_plan_ok(2,3) ev ok, of sample_ctx] unfolding keys by blast
  then show ?thesis using g by auto
qed

end
