(* ===== verification/Join_Props.thy ===== *)
theory Join_Props
  imports Hash_Props
begin

text \<open>
  Correctness of the hash join: its rows are those of the nested-loop join.
\<close>

section \<open>The nested-loop specification\<close>

definition join_key :: "nat list \<Rightarrow> ScalarValue list \<Rightarrow> ScalarValue list" where
  "join_key keys r = List.map ((!) r) keys"

definition matches :: "nat list \<Rightarrow> ScalarValue list \<Rightarrow> ScalarValue list list \<Rightarrow> ScalarValue list list" where
  "matches rk k R = List.filter (\<lambda>r. join_key rk r = k) R"

definition nested_loop :: "JoinType \<Rightarrow> nat list \<Rightarrow> nat list \<Rightarrow> nat list \<Rightarrow> nat \<Rightarrow> ScalarValue list list
    \<Rightarrow> ScalarValue list list \<Rightarrow> ScalarValue list list" where
  "nested_loop jt lk rk ex n L R = concat (List.map (\<lambda>l.
     if matches rk (join_key lk l) R = []
     then if jt = Left then [combine_rows ex l (replicate n V_Null)] else []
     else List.map (combine_rows ex l) (matches rk (join_key lk l) R)) L)"

definition unmatched_right :: "nat list \<Rightarrow> nat list \<Rightarrow> nat list \<Rightarrow> nat \<Rightarrow> ScalarValue list list
    \<Rightarrow> ScalarValue list list \<Rightarrow> ScalarValue list list" where
  "unmatched_right lk rk ex n L R =
     List.map (combine_rows ex (replicate n V_Null)) (List.filter (\<lambda>r. join_key rk r \<notin> join_key lk ` set L) R)"

text \<open>The column types of the output: all left columns, then the right ones not excluded.\<close>

definition join_types :: "nat list \<Rightarrow> DataType list \<Rightarrow> DataType list \<Rightarrow> DataType list" where
  "join_types ex ls rs = ls @ List.map snd (List.filter (\<lambda>(i, t). i \<notin> set ex) (enumerate 0 rs))"

lemma filter_enumerate_rel:
  "list_all2 P xs ys \<Longrightarrow>
     list_all2 P (List.map snd (List.filter (\<lambda>(i, x). Q i) (enumerate n xs))) (List.map snd (List.filter (\<lambda>(i, y). Q i) (enumerate n ys)))"
  by (induction arbitrary: n rule: list_all2_induct) auto

lemma combine_fits:
  "row_fits ls l \<Longrightarrow> row_fits rs r \<Longrightarrow> row_fits (join_types ex ls rs) (combine_rows ex l r)"
  unfolding row_fits_def join_types_def combine_rows_def
  by (intro list_all2_appendI filter_enumerate_rel)

lemma nulls_fit: "row_fits ts (replicate (length ts) V_Null)"
  by (auto simp: row_fits_def list_all2_conv_all_nth fits_def)

lemma typed_row_fits:
  assumes "typed s b" "r \<in> set (batch_rows b)"
  shows "row_fits (col_types s) r"
proof -
  obtain i where i: "i < rb_rows b" "r = batch_row b i" using assms(2) by (auto simp: batch_rows_def)
  have t: "col_types s = batch_types b" using assms(1) by (simp add: typed_def)
  have "fits (arr_type a) (arr_cells a ! i)" if "a \<in> set (rb_columns b)" for a
    using assms(1) that i(1) by (auto simp: typed_def batch_wf_def array_wf_def list_all_length)
  then show ?thesis unfolding row_fits_def t i(2) batch_row_def
    by (simp add: list_all2_map1 list_all2_map2 list_all2_same)
qed

lemma stream_row_fits: "list_all (typed s) bs \<Longrightarrow> r \<in> set (stream_rows bs) \<Longrightarrow> row_fits (col_types s) r"
  by (auto simp: stream_rows_def list_all_iff typed_row_fits)

section \<open>Reading rows of a batch\<close>

lemma batch_reads:
  assumes "typed s b"
  shows "batch_columns b = Ok (List.map Arrow_Field (rb_columns b))"
    "i < rb_rows b \<Longrightarrow> full_row (List.map Arrow_Field (rb_columns b)) i = Ok (batch_row b i)"
    "i < rb_rows b \<Longrightarrow> list_all (\<lambda>k. k < width s) keys \<Longrightarrow>
       key_of (List.map Arrow_Field (rb_columns b)) keys i = Ok (join_key keys (batch_row b i))"
proof -
  have wf: "batch_wf b" and t: "batch_types b = col_types s" using assms by (auto simp: typed_def)
  show "batch_columns b = Ok (List.map Arrow_Field (rb_columns b))" by (rule batch_columns_wf [OF wf])
  have v: "arrow_value a i = Ok (arr_cells a ! i)" if "a \<in> set (rb_columns b)" "i < rb_rows b" for a i
    using wf that arrow_value_ok [of a i] by (auto simp: batch_wf_def simp del: cv_wf.simps)
  show "full_row (List.map Arrow_Field (rb_columns b)) i = Ok (batch_row b i)" if "i < rb_rows b"
    unfolding full_row_def batch_row_def traverse_map by (rule traverse_all_Ok) (simp add: v that)
  have w: "length (rb_columns b) = width s" using t by (metis length_map)
  show "key_of (List.map Arrow_Field (rb_columns b)) keys i = Ok (join_key keys (batch_row b i))"
    if "i < rb_rows b" "list_all (\<lambda>k. k < width s) keys"
    unfolding key_of_def join_key_def by (rule traverse_all_Ok)
      (use that w v in \<open>auto simp: list_all_iff batch_row_def\<close>)
qed

section \<open>Build phase\<close>

lemma build_batch_fold:
  assumes "typed s b" "list_all (\<lambda>k. k < width s) rk"
  shows "build_batch_rows rk t b
     = fold_res (\<lambda>t (k, r). upsert k [] (\<lambda>rs. Ok (rs @ [r])) t) t (List.map (\<lambda>r. (join_key rk r, r)) (batch_rows b))"
proof -
  have "build_batch_rows rk t b = fold_res (\<lambda>t i. upsert (join_key rk (batch_row b i)) [] (\<lambda>rs. Ok (rs @ [batch_row b i])) t)
      t [0..<rb_rows b]"
    using assms by (auto simp: build_batch_rows_def batch_reads row_count_def intro!: fold_res_cong)
  then show ?thesis by (simp add: batch_rows_def fold_res_map)
qed

lemma build_table_fold:
  assumes "list_all (\<lambda>k. k < width s) rk"
  shows "list_all (typed s) bs \<Longrightarrow> fold_res (\<lambda>t x. and_then x (build_batch_rows rk t)) t (List.map Ok bs)
     = fold_res (\<lambda>t (k, r). upsert k [] (\<lambda>rs. Ok (rs @ [r])) t) t (List.map (\<lambda>r. (join_key rk r, r)) (stream_rows bs))"
proof (induction bs arbitrary: t)
  case (Cons b bs)
  then show ?case using build_batch_fold [OF _ assms] by (simp add: fold_res_append)
qed simp

lemma matches_group: "group_values k (List.map (\<lambda>r. (join_key rk r, r)) R) = matches rk k R"
  by (simp add: group_values_def matches_def filter_map comp_def)

lemma append_fold: "fold_res (\<lambda>s v. Ok (s @ [v])) xs ys = Ok (xs @ ys)"
  by (induction ys arbitrary: xs) auto

lemma build_table_correct:
  assumes "list_all (typed s) bs" "list_all (\<lambda>k. k < width s) rk"
  obtains t where "build_table rk (List.map Ok bs) = Ok t"
    "List.map fst t = group_keys (List.map (\<lambda>r. (join_key rk r, r)) (stream_rows bs))"
    "\<forall>k. map_of t k = (if matches rk k (stream_rows bs) = [] then None else Some (matches rk k (stream_rows bs)))"
proof -
  let ?kvs = "List.map (\<lambda>r. (join_key rk r, r)) (stream_rows bs)"
  obtain t where t: "keyed_fold [] (\<lambda>v s. Ok (s @ [v])) ?kvs = Ok t" "List.map fst t = group_keys ?kvs"
    "\<forall>k. map_of t k = (if k \<in> fst ` set ?kvs then Some (matches rk k (stream_rows bs)) else None)"
    using keyed_fold_ok [of ?kvs "\<lambda>v s. Ok (s @ [v])" "[]" "\<lambda>k. matches rk k (stream_rows bs)"]
    unfolding append_fold matches_group by auto
  have "k \<in> fst ` set ?kvs \<longleftrightarrow> matches rk k (stream_rows bs) \<noteq> []" for k
    by (force simp: matches_def filter_empty_conv)
  then have "\<forall>k. map_of t k = (if matches rk k (stream_rows bs) = [] then None else Some (matches rk k (stream_rows bs)))"
    using t(3) by auto
  moreover have "build_table rk (List.map Ok bs) = Ok t"
    using t(1) unfolding build_table_def build_table_fold [OF assms(2,1)] keyed_fold_def by simp
  ultimately show ?thesis using that t(2) by blast
qed

section \<open>Probe phase\<close>

lemma probe_row_matches:
  assumes "\<forall>k. map_of t k = (if matches rk k R = [] then None else Some (matches rk k R))"
  shows "probe_row jt ex n t (join_key lk l) l = nested_loop jt lk rk ex n [l] R"
  using assms by (simp add: probe_row_def nested_loop_def)

lemma nested_loop_append:
  "nested_loop jt lk rk ex n (xs @ ys) R = nested_loop jt lk rk ex n xs R @ nested_loop jt lk rk ex n ys R"
  by (simp add: nested_loop_def)

lemma nested_loop_concat:
  "concat (List.map (\<lambda>l. nested_loop jt lk rk ex n [l] R) L) = nested_loop jt lk rk ex n L R"
  by (simp add: nested_loop_def)

lemma nested_loop_fits:
  assumes "\<forall>l\<in>set L. row_fits ls l" "\<forall>r\<in>set R. row_fits rs r" "n = length rs"
    "x \<in> set (nested_loop jt lk rk ex n L R)"
  shows "row_fits (join_types ex ls rs) x"
  using assms combine_fits nulls_fit [of rs]
  by (auto simp: nested_loop_def matches_def split: if_splits)

lemma probe_batch_correct:
  assumes "env_ok E" "schema_ok s" "typed sl b" "list_all (\<lambda>k. k < width sl) lk"
    "\<forall>k. map_of t k = (if matches rk k R = [] then None else Some (matches rk k R))"
    "\<forall>x\<in>set (nested_loop jt lk rk ex n (batch_rows b) R). row_fits (col_types s) x"
  shows "\<exists>cs. probe_batch E jt lk ex n s t outs b = Ok (outs @ cs) \<and> list_all (typed s) cs
     \<and> stream_rows cs = nested_loop jt lk rk ex n (batch_rows b) R"
proof -
  let ?N = "nested_loop jt lk rk ex n (batch_rows b) R"
  have tr: "traverse (\<lambda>i. and_then (key_of (List.map Arrow_Field (rb_columns b)) lk i)
       (\<lambda>k. map_res (probe_row jt ex n t k) (full_row (List.map Arrow_Field (rb_columns b)) i))) [0..<rb_rows b]
    = Ok (List.map (\<lambda>i. nested_loop jt lk rk ex n [batch_row b i] R) [0..<rb_rows b])"
    by (rule traverse_all_Ok) (simp add: batch_reads [OF assms(3)] assms(4) probe_row_matches [OF assms(5)])
  have cc: "concat (List.map (\<lambda>i. nested_loop jt lk rk ex n [batch_row b i] R) [0..<rb_rows b]) = ?N"
    using nested_loop_concat [of jt lk rk ex n R "batch_rows b"] by (simp add: batch_rows_def comp_def)
  have p: "probe_batch E jt lk ex n s t outs b
      = (if ?N = [] then Ok outs else map_res (\<lambda>o'. outs @ [o']) (create_batch E s ?N))"
    unfolding probe_batch_def batch_reads(1) [OF assms(3)] row_count_def
    by (simp only: and_then_simps tr cc)
  show ?thesis
  proof (cases "?N = []")
    case True
    then show ?thesis using p by (intro exI [of _ "[]"]) simp
  next
    case False
    then show ?thesis
      using p create_batch_rows [OF assms(1,2,6)] finish_rows(2,3) [OF assms(1,2,6)]
      by (intro exI [of _ "[rows_batch s ?N]"]) simp
  qed
qed

lemma probe_stream_correct:
  assumes "env_ok E" "schema_ok s" "list_all (\<lambda>k. k < width sl) lk"
    "\<forall>k. map_of t k = (if matches rk k R = [] then None else Some (matches rk k R))"
  shows "list_all (typed sl) bs \<Longrightarrow> \<forall>x\<in>set (nested_loop jt lk rk ex n (stream_rows bs) R). row_fits (col_types s) x \<Longrightarrow>
    \<exists>cs. fold_res (\<lambda>outs x. and_then x (probe_batch E jt lk ex n s t outs)) outs (List.map Ok bs) = Ok (outs @ cs)
     \<and> list_all (typed s) cs \<and> stream_rows cs = nested_loop jt lk rk ex n (stream_rows bs) R"
proof (induction bs arbitrary: outs)
  case Nil
  then show ?case by (intro exI [of _ "[]"]) (simp add: nested_loop_def)
next
  case (Cons b bs)
  have b: "typed sl b" "list_all (typed sl) bs" using Cons.prems(1) by auto
  have f: "\<forall>x\<in>set (nested_loop jt lk rk ex n (batch_rows b) R). row_fits (col_types s) x"
    "\<forall>x\<in>set (nested_loop jt lk rk ex n (stream_rows bs) R). row_fits (col_types s) x"
    using Cons.prems(2) by (auto simp: nested_loop_append)
  obtain cs where cs: "probe_batch E jt lk ex n s t outs b = Ok (outs @ cs)" "list_all (typed s) cs"
    "stream_rows cs = nested_loop jt lk rk ex n (batch_rows b) R"
    using probe_batch_correct [OF assms(1,2) b(1) assms(3,4) f(1)] by blast
  obtain ds where ds: "fold_res (\<lambda>outs x. and_then x (probe_batch E jt lk ex n s t outs)) (outs @ cs) (List.map Ok bs)
      = Ok ((outs @ cs) @ ds)" "list_all (typed s) ds"
    "stream_rows ds = nested_loop jt lk rk ex n (stream_rows bs) R"
    using Cons.IH [OF b(2) f(2), of "outs @ cs"] by blast
  show ?case using cs ds by (intro exI [of _ "cs @ ds"]) (simp add: nested_loop_append)
qed

section \<open>Unmatched right rows\<close>

lemma matched_keys_set:
  assumes "list_all (\<lambda>k. k < width sl) lk" "list_all (typed sl) bs"
  obtains ks where "matched_keys lk t (List.map Ok bs) = Ok ks"
    "set ks = {k \<in> join_key lk ` set (stream_rows bs). map_of t k \<noteq> None}"
proof -
  let ?step = "\<lambda>ks r. if map_of t (join_key lk r) \<noteq> None then push_new ks (join_key lk r) else ks"
  have "fold_res (\<lambda>ks x. and_then x (\<lambda>b. and_then (batch_columns b) (\<lambda>cols.
     fold_res (\<lambda>ks row. map_res (\<lambda>k. if map_of t k \<noteq> None then push_new ks k else ks) (key_of cols lk row))
       ks [0..<row_count b]))) ks (List.map Ok bs) = Ok (foldl ?step ks (stream_rows bs))" for ks
    using assms(2)
  proof (induction bs arbitrary: ks)
    case (Cons b bs)
    have b: "typed sl b" using Cons.prems by simp
    have "fold_res (\<lambda>ks row. map_res (\<lambda>k. if map_of t k \<noteq> None then push_new ks k else ks)
        (key_of (List.map Arrow_Field (rb_columns b)) lk row)) ks [0..<rb_rows b]
      = Ok (foldl (\<lambda>ks i. ?step ks (batch_row b i)) ks [0..<rb_rows b])"
      by (rule fold_res_Ok) (simp add: batch_reads(3) [OF b] assms(1))
    moreover have "foldl (\<lambda>ks i. ?step ks (batch_row b i)) ks [0..<rb_rows b] = foldl ?step ks (batch_rows b)"
      unfolding batch_rows_def foldl_map by simp
    ultimately show ?case using Cons by (simp add: batch_reads(1) [OF b] row_count_def)
  qed simp
  then have r: "matched_keys lk t (List.map Ok bs) = Ok (foldl ?step [] (stream_rows bs))"
    by (simp add: matched_keys_def)
  have "set (foldl ?step ks rs) = set ks \<union> {k \<in> join_key lk ` set rs. map_of t k \<noteq> None}" for ks rs
    by (induction rs arbitrary: ks) auto
  then show ?thesis using that r by simp
qed

lemma unmatched_rows_mset:
  assumes "env_ok E" "List.map fst t = group_keys (List.map (\<lambda>r. (join_key rk r, r)) R)"
    "\<forall>k. map_of t k = (if matches rk k R = [] then None else Some (matches rk k R))"
    "set ks = {k \<in> join_key lk ` set L. map_of t k \<noteq> None}"
  shows "mset (unmatched_rows E ex n t ks) = mset (unmatched_right lk rk ex n L R)"
proof -
  let ?kvs = "List.map (\<lambda>r. (join_key rk r, r)) R" and ?g = "combine_rows ex (replicate n V_Null)"
  have keys: "fst ` set ?kvs = join_key rk ` set R" by force
  have ne: "matches rk k R = [] \<longleftrightarrow> k \<notin> join_key rk ` set R" for k
    by (auto simp: matches_def filter_empty_conv)
  have "\<exists>es. mset es = mset (group_keys ?kvs) \<and> map_entries E t = List.map (\<lambda>k. (k, matches rk k R)) es"
    by (rule map_entries_spec [OF assms(1,2)]) (use assms(3) ne keys in auto)
  then obtain es where es: "mset es = mset (group_keys ?kvs)" "map_entries E t = List.map (\<lambda>k. (k, matches rk k R)) es"
    by blast
  have d: "distinct es" using mset_eq_imp_distinct_iff [OF es(1)] by simp
  have se: "set es = join_key rk ` set R" using mset_eq_setD [OF es(1)] keys by simp
  have "unmatched_rows E ex n t ks
      = concat (List.map (\<lambda>k. if k \<in> set ks then [] else List.map ?g (List.filter (\<lambda>r. join_key rk r = k) R)) es)"
    unfolding unmatched_rows_def es(2) by (simp add: comp_def matches_def cong: if_cong)
  then have "mset (unmatched_rows E ex n t ks)
      = mset (List.map ?g (List.filter (\<lambda>r. join_key rk r \<in> set es \<and> join_key rk r \<notin> set ks) R))"
    using group_partition_mset [OF d] by simp
  moreover have "List.filter (\<lambda>r. join_key rk r \<in> set es \<and> join_key rk r \<notin> set ks) R
      = List.filter (\<lambda>r. join_key rk r \<notin> join_key lk ` set L) R"
    by (rule filter_cong) (use se assms(3,4) ne in auto)
  ultimately show ?thesis by (simp add: unmatched_right_def)
qed

lemma unmatched_right_fits:
  assumes "\<forall>r\<in>set R. row_fits rs r" "n = length ls" "x \<in> set (unmatched_right lk rk ex n L R)"
  shows "row_fits (join_types ex ls rs) x"
  using assms combine_fits nulls_fit [of ls] by (auto simp: unmatched_right_def)

section \<open>Properties\<close>

lemma join_rows:
  assumes "env_ok E" "schema_ok s"
    "phys_schema E l = Ok sl" "phys_schema E r = Ok sr"
    "execute E ctx l = Ok (List.map Ok lbs)" "execute E ctx r = Ok (List.map Ok rbs)"
    "list_all (typed sl) lbs" "list_all (typed sr) rbs"
    "list_all (\<lambda>k. k < width sl) lk" "list_all (\<lambda>k. k < width sr) rk"
    "col_types s = join_types ex (col_types sl) (col_types sr)"
  shows "\<exists>cs um. execute E ctx (Hash_Join_Exec l r jt lk rk s ex) = Ok (List.map Ok cs) \<and> list_all (typed s) cs
     \<and> stream_rows cs = nested_loop jt lk rk ex (width sr) (stream_rows lbs) (stream_rows rbs) @ um
     \<and> mset um = (if jt = Right then mset (unmatched_right lk rk ex (width sl) (stream_rows lbs) (stream_rows rbs)) else {#})"
proof -
  let ?L = "stream_rows lbs" and ?R = "stream_rows rbs"
  have L: "\<forall>x\<in>set ?L. row_fits (col_types sl) x" and R: "\<forall>x\<in>set ?R. row_fits (col_types sr) x"
    using stream_row_fits assms(7,8) by blast+
  obtain t where t: "build_table rk (List.map Ok rbs) = Ok t"
    "List.map fst t = group_keys (List.map (\<lambda>r. (join_key rk r, r)) ?R)"
    "\<forall>k. map_of t k = (if matches rk k ?R = [] then None else Some (matches rk k ?R))"
    by (rule build_table_correct [OF assms(8,10)])
  have fit: "\<forall>x\<in>set (nested_loop jt lk rk ex (width sr) ?L ?R). row_fits (col_types s) x"
    unfolding assms(11) using nested_loop_fits [OF L R] by simp
  obtain cs where cs: "fold_res (\<lambda>outs x. and_then x (probe_batch E jt lk ex (width sr) s t outs)) [] (List.map Ok lbs)
      = Ok cs" "list_all (typed s) cs" "stream_rows cs = nested_loop jt lk rk ex (width sr) ?L ?R"
    using probe_stream_correct [OF assms(1,2,9) t(3) assms(7) fit, of "[]"] by auto
  obtain ks where ks: "matched_keys lk t (List.map Ok lbs) = Ok ks"
    "set ks = {k \<in> join_key lk ` set ?L. map_of t k \<noteq> None}"
    by (rule matched_keys_set [OF assms(9,7)])
  let ?um = "unmatched_rows E ex (width sl) t ks"
  note um = unmatched_rows_mset [OF assms(1) t(2,3) ks(2), of ex "width sl"]
  have fit2: "\<forall>x\<in>set ?um. row_fits (col_types s) x"
    unfolding assms(11) using unmatched_right_fits [OF R, of "width sl" "col_types sl"] mset_eq_setD [OF um] by auto
  have ex: "execute E ctx (Hash_Join_Exec l r jt lk rk s ex) =
     (if jt = Right then if ?um = [] then Ok (List.map Ok cs)
        else map_res (\<lambda>b. List.map Ok (cs @ [b])) (create_batch E s ?um)
      else Ok (List.map Ok cs))"
    using assms(3-6) t(1) cs(1) ks(1) by (simp add: join_streams_def Let_def)
  show ?thesis
  proof (cases "jt = Right \<and> ?um \<noteq> []")
    case True
    then show ?thesis
      using ex cs um create_batch_rows [OF assms(1,2) fit2] finish_rows(2,3) [OF assms(1,2) fit2]
      by (intro exI [of _ "cs @ [rows_batch s ?um]"] exI [of _ ?um]) simp
  next
    case False
    then show ?thesis using ex cs um by (intro exI [of _ cs] exI [of _ "[]"]) auto
  qed
qed

text \<open>C14: The hash join computes the nested-loop join: for well-typed inputs and an output
  schema whose types are those of the left columns followed by the right columns that are not
  excluded, @HashJoinExec::execute@ never panics; it returns batches of the output schema
  whose rows are, for each left row in order, its combinations with the right rows of equal
  key in order (for a left join padded with NULLs when there is none), followed for a right
  join by the unmatched right rows padded with NULLs on the left, grouped by key.\<close>

theorem hash_join_is_nested_loop:
  assumes "env_ok E" "schema_ok s"
    "phys_schema E l = Ok sl" "phys_schema E r = Ok sr"
    "execute E ctx l = Ok (List.map Ok lbs)" "execute E ctx r = Ok (List.map Ok rbs)"
    "list_all (typed sl) lbs" "list_all (typed sr) rbs"
    "list_all (\<lambda>k. k < width sl) lk" "list_all (\<lambda>k. k < width sr) rk"
    "col_types s = join_types ex (col_types sl) (col_types sr)"
  shows "\<exists>cs um. execute E ctx (Hash_Join_Exec l r jt lk rk s ex) = Ok (List.map Ok cs) \<and> list_all (typed s) cs
     \<and> stream_rows cs = nested_loop jt lk rk ex (width sr) (stream_rows lbs) (stream_rows rbs) @ um
     \<and> mset um = (if jt = Right then mset (unmatched_right lk rk ex (width sl) (stream_rows lbs) (stream_rows rbs)) else {#})"
  by (rule join_rows [OF assms])

theorem hash_join_is_nested_loop_witness:
  "\<exists>cs. execute ref_env sample_ctx (Hash_Join_Exec sample_plan (Limit_Exec sample_plan 1) Left [0] [0]
        (new_schema [new_field ''id'' T_Int32, new_field ''name'' T_Utf8, new_field ''other'' T_Utf8]) [0])
      = Ok (List.map Ok cs)
     \<and> stream_rows cs = (let rs = [[V_Int32 7, V_Utf8 ''a'', V_Utf8 ''a''], [V_Null, V_Utf8 ''b'', V_Null],
         [V_Int32 9, V_Null, V_Null]] in rs @ rs)"
proof -
  let ?s = "new_schema [new_field ''id'' T_Int32, new_field ''name'' T_Utf8, new_field ''other'' T_Utf8]"
  obtain rbs where rbs: "execute ref_env sample_ctx (Limit_Exec sample_plan 1) = Ok (List.map Ok rbs)"
    "list_all (typed sample_schema) rbs" "stream_rows rbs = take 1 (stream_rows [sample_batch, sample_batch])"
    using limit_stream_rows [OF ref_env_ok sample_plan_ok(3), of 1] sample_plan_ok(1,2) by auto
  have sch: "phys_schema ref_env (Limit_Exec sample_plan 1) = Ok sample_schema" using sample_plan_ok(1) by simp
  have t: "schema_ok ?s" "col_types ?s = join_types [0] (col_types sample_schema) (col_types sample_schema)"
    by (simp_all add: schema_ok_def new_schema_def new_field_def supported_def join_types_def)
  have k: "list_all (\<lambda>k. k < width sample_schema) [0]" by (simp add: new_schema_def)
  obtain cs um where "execute ref_env sample_ctx (Hash_Join_Exec sample_plan (Limit_Exec sample_plan 1) Left [0] [0] ?s [0])
      = Ok (List.map Ok cs)" "um = []"
    "stream_rows cs = nested_loop Left [0] [0] [0] (width sample_schema)
       (stream_rows [sample_batch, sample_batch]) (stream_rows rbs) @ um"
    using hash_join_is_nested_loop [OF ref_env_ok t(1) sample_plan_ok(1) sch sample_plan_ok(2) rbs(1)
      sample_plan_ok(3) rbs(2) k k t(2), of Left] by auto
  then show ?thesis unfolding rbs(3) sample_rows
    by (intro exI [of _ cs]) (simp add: nested_loop_def matches_def join_key_def combine_rows_def new_schema_def numeral_2_eq_2)
qed

end
