(* ===== verification/Shuffle_Props.thy ===== *)
theory Shuffle_Props
  imports Hash_Props
begin

text \<open>
  Correctness of the shuffle: the writer splits its input by the hash of the partition key
  into partitions that together hold exactly the input rows, and the reader gets them back.
\<close>

section \<open>Target partitions\<close>

definition row_target :: "env \<Rightarrow> Schema \<Rightarrow> phys_expr list \<Rightarrow> nat \<Rightarrow> ScalarValue list \<Rightarrow> nat" where
  "row_target E s es n r = unat (hash_finish E (hash_row_key (project_row E (col_types s) es r))) mod n"

definition part_rows :: "env \<Rightarrow> Schema \<Rightarrow> phys_expr list \<Rightarrow> nat \<Rightarrow> ScalarValue list list \<Rightarrow> nat \<Rightarrow> ScalarValue list list" where
  "part_rows E s es n rows p = List.filter (\<lambda>r. row_target E s es n r = p) rows"

lemma i32_as_usize_pos: "0 \<le> sint pc \<Longrightarrow> i32_as_usize pc = nat (sint pc)"
proof -
  assume nn: "0 \<le> sint pc"
  have "sint pc < 2 ^ 31" using sint_lt [of pc] by simp
  moreover have "uint (scast pc :: 64 word) = sint pc mod 2 ^ 64"
    by (simp only: scast_eq uint_word_of_int) simp
  ultimately have "uint (scast pc :: 64 word) = sint pc" using nn by (simp add: mod_pos_pos_trivial)
  then show ?thesis by (simp add: i32_as_usize_def unat_eq_nat_uint)
qed

lemma i32_as_usize_bound: "0 \<le> sint pc \<Longrightarrow> i32_as_usize pc < 2 ^ 31"
  using sint_lt [of pc] by (simp add: i32_as_usize_pos nat_less_iff)

lemma compute_targets_rows:
  assumes "typed s b" "evaluates_on E s es (batch_rows b)" "0 < n" "traverse (\<lambda>e. evaluate E e b) es = Ok keys"
  shows "compute_targets E keys (row_count b) n = Ok (List.map (row_target E s es n) (batch_rows b))"
proof -
  have k: "traverse (\<lambda>c. cv_value c i) keys = Ok (project_row E (col_types s) es (batch_row b i))" if "i < rb_rows b" for i
    using evaluate_list_columns [OF assms(1,2)] assms(4) that by auto
  have "compute_targets E keys (row_count b) n = Ok (List.map (\<lambda>i. row_target E s es n (batch_row b i)) [0..<rb_rows b])"
    unfolding compute_targets_def row_count_def
    by (rule traverse_all_Ok) (use assms(3) in \<open>simp add: k compute_target_def row_target_def\<close>)
  then show ?thesis by (simp add: batch_rows_def comp_def)
qed

lemma select_rows_part:
  assumes "env_ok E" "typed s b"
  shows "\<exists>b'. select_rows E b s (List.map (\<lambda>t. t = p) (List.map (row_target E s es n) (batch_rows b))) = Ok b'
     \<and> typed s b' \<and> rb_schema b' = to_arrow s \<and> batch_rows b' = part_rows E s es n (batch_rows b) p"
proof -
  let ?keep = "List.map (\<lambda>t. t = p) (List.map (row_target E s es n) (batch_rows b))"
  let ?is = "List.filter (\<lambda>i. row_target E s es n (batch_row b i) = p) [0..<rb_rows b]"
  have "List.filter (\<lambda>r. ?keep ! r) [0..<length ?keep] = ?is"
    by (intro filter_cong) (auto simp: batch_rows_def)
  then have "select_rows E b s ?keep
      = and_then (traverse (\<lambda>i. and_then (batch_field b i) (\<lambda>c. take_rows c ?is)) [0..<column_count b]) (create E s)"
    by (simp only: select_rows_def)
  also have "\<dots> = Ok (pick b s ?is)" by (rule pick_columns [OF assms]) auto
  finally have "select_rows E b s ?keep = Ok (pick b s ?is)" .
  moreover have "typed s (pick b s ?is)" by (rule pick_typed [OF assms(2)]) simp
  moreover have "rb_schema (pick b s ?is) = to_arrow s" by (simp add: pick_def)
  moreover have "batch_rows (pick b s ?is) = part_rows E s es n (batch_rows b) p"
    unfolding pick_rows part_rows_def by (rule filter_batch_rows)
  ultimately show ?thesis by blast
qed

section \<open>The buffers\<close>

definition buffers_ok :: "env \<Rightarrow> Schema \<Rightarrow> phys_expr list \<Rightarrow> nat \<Rightarrow> ScalarValue list list \<Rightarrow> RecordBatch list list \<Rightarrow> bool" where
  "buffers_ok E s es n rows bufs = (length bufs = n \<and> (\<forall>p<n. list_all (typed s) (bufs ! p) \<and> (\<forall>b\<in>set (bufs ! p). rb_schema b = to_arrow s)
     \<and> stream_rows (bufs ! p) = part_rows E s es n rows p \<and> (bufs ! p = [] \<longleftrightarrow> part_rows E s es n rows p = [])))"

lemma part_rows_append: "part_rows E s es n (xs @ ys) p = part_rows E s es n xs p @ part_rows E s es n ys p"
  by (simp add: part_rows_def)

lemma enumerate_traverse:
  assumes "\<And>p. p < length xs \<Longrightarrow> f (p, xs ! p) = Ok (g p)"
  shows "traverse f (enumerate 0 xs) = Ok (List.map g [0..<length xs])"
  unfolding traverse_eq_Ok using assms by (auto simp: list_all2_conv_all_nth nth_enumerate_eq)

lemma partition_step_ok:
  assumes "env_ok E" "typed s b" "evaluates_on E s es (batch_rows b)" "0 < n" "buffers_ok E s es n rows bufs"
  shows "\<exists>bufs'. partition_step E es n s bufs b = Ok bufs' \<and> buffers_ok E s es n (rows @ batch_rows b) bufs'"
proof -
  obtain keys where keys: "traverse (\<lambda>e. evaluate E e b) es = Ok keys"
    using evaluate_list_columns [OF assms(2,3)] by blast
  note tg = compute_targets_rows [OF assms(2-4) keys]
  let ?tg = "List.map (row_target E s es n) (batch_rows b)" and ?pr = "part_rows E s es n"
  obtain B where B: "\<And>p. select_rows E b s (List.map (\<lambda>t. t = p) ?tg) = Ok (B p) \<and> typed s (B p) \<and> rb_schema (B p) = to_arrow s \<and> batch_rows (B p) = ?pr (batch_rows b) p"
    using select_rows_part [OF assms(1,2), of _ es n] by metis
  have ne: "True \<in> set (List.map (\<lambda>t. t = p) ?tg) \<longleftrightarrow> ?pr (batch_rows b) p \<noteq> []" for p
    by (auto simp: part_rows_def filter_empty_conv)
  let ?new = "\<lambda>p. bufs ! p @ (if ?pr (batch_rows b) p = [] then [] else [B p])"
  have "partition_step E es n s bufs b = Ok (List.map ?new [0..<length bufs])"
    unfolding partition_step_def keys and_then_simps tg
    by (rule enumerate_traverse) (simp only: prod.case Let_def ne, simp add: B del: map_map)
  moreover have "buffers_ok E s es n (rows @ batch_rows b) (List.map ?new [0..<length bufs])"
    using assms(5) B by (auto simp: buffers_ok_def part_rows_append)
  ultimately show ?thesis by blast
qed

lemma partition_stream_ok:
  assumes "env_ok E" "0 < n"
  shows "list_all (typed s) bs \<Longrightarrow> evaluates_on E s es (stream_rows bs) \<Longrightarrow> buffers_ok E s es n rows bufs \<Longrightarrow>
    \<exists>bufs'. fold_res (\<lambda>bufs x. and_then x (partition_step E es n s bufs)) bufs (List.map Ok bs) = Ok bufs'
      \<and> buffers_ok E s es n (rows @ stream_rows bs) bufs'"
proof (induction bs arbitrary: rows bufs)
  case (Cons b bs)
  then have b: "typed s b" "evaluates_on E s es (batch_rows b)" "list_all (typed s) bs" "evaluates_on E s es (stream_rows bs)"
    by auto
  obtain bufs1 where 1: "partition_step E es n s bufs b = Ok bufs1" "buffers_ok E s es n (rows @ batch_rows b) bufs1"
    using partition_step_ok [OF assms(1) b(1,2) assms(2) Cons.prems(3)] by blast
  then show ?case using Cons.IH [OF b(3,4) 1(2)] by simp
qed simp

section \<open>Writing the buffers\<close>

definition filled :: "RecordBatch list list \<Rightarrow> (nat \<times> RecordBatch list) list" where
  "filled bufs = List.filter (\<lambda>(p, bs). bs \<noteq> []) (enumerate 0 bufs)"

definition keyed_buffers :: "32 word \<Rightarrow> RecordBatch list list \<Rightarrow> ((32 word \<times> 32 word) \<times> RecordBatch list) list" where
  "keyed_buffers st bufs = List.map (\<lambda>(p, bs). ((st, word_of_nat p), bs)) (filled bufs)"

lemma filled_set: "(p, bs) \<in> set (filled bufs) \<longleftrightarrow> p < length bufs \<and> bs = bufs ! p \<and> bs \<noteq> []"
  by (auto simp: filled_def in_set_enumerate_eq)

lemma write_buffers_put_all:
  "snd (write_buffers ctx job st bufs) = shuffle_files.put_all job (shuffle_manager ctx) (keyed_buffers st bufs)"
proof -
  have "foldl (\<lambda>m (p, bs). write_partition m job st (word_of_nat p) bs) m xs
      = shuffle_files.put_all job m (List.map (\<lambda>(p, bs). ((st, word_of_nat p), bs)) xs)" for m xs
    by (induction xs arbitrary: m) (auto simp: shuffle_files.put_all_def sm_put_def)
  then show ?thesis by (simp add: write_buffers_def keyed_buffers_def filled_def Let_def)
qed

lemma word_of_nat_inj32: "p < 2 ^ 31 \<Longrightarrow> q < 2 ^ 31 \<Longrightarrow> (word_of_nat p :: 32 word) = word_of_nat q \<longleftrightarrow> p = q"
  by (simp add: word_of_nat_eq_iff take_bit_nat_eq_self)

lemma keyed_buffers_distinct:
  assumes "length bufs \<le> 2 ^ 31"
  shows "distinct (List.map fst (keyed_buffers st bufs))"
proof -
  have "distinct (List.map fst (filled bufs))"
    unfolding filled_def by (rule distinct_map_filter) simp
  then have "distinct (filled bufs)" "inj_on fst (set (filled bufs))" by (auto simp: distinct_map)
  then have "inj_on (\<lambda>(p, bs). (st, word_of_nat p :: 32 word)) (set (filled bufs))"
    using assms by (fastforce simp: inj_on_def filled_set word_of_nat_inj32)
  then show ?thesis using \<open>distinct (filled bufs)\<close>
    by (simp add: keyed_buffers_def distinct_map comp_def case_prod_beta inj_on_def)
qed

definition one_schema_each :: "RecordBatch list list \<Rightarrow> bool" where
  "one_schema_each bufs = list_all one_schema bufs"

lemma buffers_one_schema: "buffers_ok E s es n rows bufs \<Longrightarrow> one_schema_each bufs"
  by (auto simp: one_schema_each_def buffers_ok_def list_all_length intro!: one_schemaI)

lemma read_written:
  assumes "env_ok E" "length bufs \<le> 2 ^ 31" "one_schema_each bufs" "p < length bufs"
  shows "read_partition E (snd (write_buffers ctx job st bufs)) job st (word_of_nat p)
     = (if bufs ! p = [] then read_partition E (shuffle_manager ctx) job st (word_of_nat p) else Ok (List.map Ok (bufs ! p)))"
proof (cases "bufs ! p = []")
  case True
  have "(st, word_of_nat p) \<notin> fst ` set (keyed_buffers st bufs)"
    using assms(2,4) True by (auto simp: keyed_buffers_def filled_set word_of_nat_inj32)
  then show ?thesis using True
    by (simp add: write_buffers_put_all read_partition_get shuffle_files.put_all_other)
next
  case False
  have "((st, word_of_nat p), bufs ! p) \<in> set (keyed_buffers st bufs)"
    using assms(4) False by (force simp: keyed_buffers_def filled_set)
  moreover have "one_schema (bufs ! p)" using assms(3,4) by (simp add: one_schema_each_def list_all_length)
  ultimately show ?thesis
    using False shuffle_files.put_all_get [OF keyed_buffers_distinct [OF assms(2)]] env_ok_ipc [OF assms(1)]
    by (simp add: write_buffers_put_all read_partition_get)
qed

text \<open>The buffers depend on the batches of the input alone, not on the executor that ran it.\<close>

lemma write_shuffle_any:
  assumes "env_ok E" "phys_schema E i = Ok s" "list_all (typed s) bs" "evaluates_on E s es (stream_rows bs)" "0 < sint pc"
  shows "\<exists>bufs. buffers_ok E s es (nat (sint pc)) (stream_rows bs) bufs
     \<and> (\<forall>ctx. execute E ctx i = Ok (List.map Ok bs) \<longrightarrow> write_shuffle E ctx i es job st pc
          = Ok (fst (write_buffers ctx job st bufs), ctx\<lparr>shuffle_manager := snd (write_buffers ctx job st bufs)\<rparr>))"
proof -
  let ?n = "nat (sint pc)"
  have n: "i32_as_usize pc = ?n" "0 < ?n" using assms(5) i32_as_usize_pos [of pc] by auto
  have "buffers_ok E s es ?n [] (replicate ?n [])" by (simp add: buffers_ok_def part_rows_def)
  then obtain bufs where "fold_res (\<lambda>bufs x. and_then x (partition_step E es ?n s bufs)) (replicate ?n []) (List.map Ok bs)
      = Ok bufs" "buffers_ok E s es ?n (stream_rows bs) bufs"
    using partition_stream_ok [OF assms(1) n(2) assms(3,4), of "[]" "replicate ?n []"] by auto
  then show ?thesis using assms(2)
    by (intro exI [of _ bufs]) (simp add: write_shuffle_def Let_def n(1) case_prod_beta)
qed

lemma write_shuffle_buffers:
  assumes "env_ok E" "phys_schema E i = Ok s" "execute E ctx i = Ok (List.map Ok bs)" "list_all (typed s) bs"
    "evaluates_on E s es (stream_rows bs)" "0 < sint pc"
  shows "\<exists>bufs. write_shuffle E ctx i es job st pc = Ok (fst (write_buffers ctx job st bufs),
        ctx\<lparr>shuffle_manager := snd (write_buffers ctx job st bufs)\<rparr>)
     \<and> buffers_ok E s es (nat (sint pc)) (stream_rows bs) bufs"
  using write_shuffle_any [OF assms(1,2,4-6)] assms(3) by blast

definition partition_location :: "ExecutorContext \<Rightarrow> string \<Rightarrow> 32 word \<Rightarrow> nat \<Rightarrow> ShuffleLocation" where
  "partition_location ctx job st p =
     new_location job st (word_of_nat p) (executor_id ctx) (executor_host ctx) (executor_port ctx)"

lemma write_buffers_locations:
  "fst (write_buffers ctx job st bufs) = List.map (\<lambda>(p, bs). partition_location ctx job st p) (filled bufs)"
  by (simp add: write_buffers_def filled_def partition_location_def Let_def)

lemma partition_location_inj:
  "p < 2 ^ 31 \<Longrightarrow> q < 2 ^ 31 \<Longrightarrow> partition_location ctx job st p = partition_location ctx job st q \<longleftrightarrow> p = q"
  by (auto simp: partition_location_def new_location_def word_of_nat_inj32)

lemma buffers_bound:
  "0 < sint (pc :: 32 word) \<Longrightarrow> buffers_ok E s es (nat (sint pc)) rows bufs \<Longrightarrow> length bufs = nat (sint pc) \<and> length bufs < 2 ^ 31"
  using i32_as_usize_bound [of pc] i32_as_usize_pos [of pc] by (simp add: buffers_ok_def)

lemma filled_concat: "concat (List.map snd (filled bufs)) = concat bufs"
proof -
  have "concat (List.map snd (List.filter (\<lambda>(p, bs). bs \<noteq> []) xs)) = concat (List.map snd xs)" for xs :: "(nat \<times> RecordBatch list) list"
    by (induction xs) auto
  then show ?thesis by (simp add: filled_def)
qed

lemma read_locations:
  assumes "\<And>p bs. (p, bs) \<in> set (filled bufs) \<Longrightarrow> read_partition E (shuffle_manager ctx') job st (word_of_nat p) = Ok (List.map Ok bs)"
    "executor_id ctx' = executor_id ctx"
  shows "execute E ctx' (Shuffle_Reader_Exec s (fst (write_buffers ctx job st bufs))) = Ok (List.map Ok (concat bufs))"
proof -
  let ?locs = "fst (write_buffers ctx job st bufs)"
  have "List.map (\<lambda>l. case read_partition E (shuffle_manager ctx') (loc_job_uuid l) (loc_stage_id l) (loc_partition_id l) of
        Ok xs \<Rightarrow> xs | Panic p \<Rightarrow> [Panic p]) ?locs = List.map (\<lambda>(p, bs'). List.map Ok bs') (filled bufs)"
    using assms(1) by (auto simp: write_buffers_locations partition_location_def new_location_def)
  moreover have "concat (List.map (\<lambda>(p, bs'). List.map Ok bs') (filled bufs)) = List.map Ok (concat bufs)"
    unfolding filled_concat [of bufs, symmetric] by (simp add: map_concat comp_def case_prod_unfold)
  moreover have "list_all (\<lambda>l. loc_executor_id l = executor_id ctx') ?locs"
    using assms(2) by (auto simp: list_all_iff write_buffers_locations partition_location_def new_location_def)
  ultimately show ?thesis by (simp add: shuffle_read_def)
qed

text \<open>Locations are read one after the other.\<close>

lemma read_append:
  assumes "execute E ctx (Shuffle_Reader_Exec s ls) = Ok (List.map Ok bs)" "execute E ctx (Shuffle_Reader_Exec s ls') = Ok (List.map Ok bs')"
  shows "execute E ctx (Shuffle_Reader_Exec s (ls @ ls')) = Ok (List.map Ok (bs @ bs'))"
  using assms by (auto simp: shuffle_read_def split: if_splits)

lemma read_written_locations:
  assumes "env_ok E" "length bufs \<le> 2 ^ 31" "one_schema_each bufs"
  shows "execute E (ctx\<lparr>shuffle_manager := snd (write_buffers ctx job st bufs)\<rparr>)
      (Shuffle_Reader_Exec s (fst (write_buffers ctx job st bufs))) = Ok (List.map Ok (concat bufs))"
  using read_written [OF assms, of _ ctx job st]
  by (intro read_locations) (auto simp: filled_set)

lemma stream_rows_concat: "stream_rows (concat bufs) = concat (List.map stream_rows bufs)"
  by (induction bufs) auto

lemma buffers_rows:
  assumes "buffers_ok E s es n rows bufs" "0 < n"
  shows "mset (stream_rows (concat bufs)) = mset rows" "list_all (typed s) (concat bufs)"
proof -
  have "List.map stream_rows bufs = List.map (part_rows E s es n rows) [0..<n]"
    using assms(1) by (auto simp: buffers_ok_def intro!: nth_equalityI)
  then have "mset (stream_rows (concat bufs))
      = mset (concat (List.map (\<lambda>p. if p \<in> {} then [] else List.map (\<lambda>r. r) (List.filter (\<lambda>r. row_target E s es n r = p) rows)) [0..<n]))"
    by (simp add: stream_rows_concat part_rows_def [abs_def])
  also have "\<dots> = mset rows"
    unfolding group_partition_mset [OF distinct_upt] using assms(2) by (simp add: row_target_def)
  finally show "mset (stream_rows (concat bufs)) = mset rows" .
  have typed: "list_all (list_all (typed s)) bufs" using assms(1) by (simp add: buffers_ok_def list_all_length [of "list_all (typed s)"])
  show "list_all (typed s) (concat bufs)"
    using typed by (auto simp: list_all_iff)
qed

section \<open>Properties\<close>

text \<open>C23: The shuffle writer partitions by key hash: for a positive partition count and a
  partition key that evaluates on every input row, @write_shuffle@ succeeds; a location is
  reported for partition @p@ exactly when some row hashes to it, and reading that partition
  back yields batches of the input schema with exactly the rows that hash to @p@, in input
  order; locations are distinct.\<close>

theorem shuffle_write_partitions:
  assumes "env_ok E" "phys_schema E i = Ok s" "execute E ctx i = Ok (List.map Ok bs)" "list_all (typed s) bs"
    "evaluates_on E s es (stream_rows bs)" "0 < sint pc"
  shows "\<exists>locs ctx'. write_shuffle E ctx i es job st pc = Ok (locs, ctx') \<and> distinct locs
     \<and> (\<forall>p<nat (sint pc).
          (partition_location ctx job st p \<in> set locs \<longleftrightarrow> part_rows E s es (nat (sint pc)) (stream_rows bs) p \<noteq> [])
        \<and> (part_rows E s es (nat (sint pc)) (stream_rows bs) p \<noteq> [] \<longrightarrow>
             (\<exists>cs. read_partition E (shuffle_manager ctx') job st (word_of_nat p) = Ok (List.map Ok cs)
                \<and> list_all (typed s) cs \<and> stream_rows cs = part_rows E s es (nat (sint pc)) (stream_rows bs) p)))"
proof -
  obtain bufs where w: "write_shuffle E ctx i es job st pc = Ok (fst (write_buffers ctx job st bufs),
        ctx\<lparr>shuffle_manager := snd (write_buffers ctx job st bufs)\<rparr>)"
    and ok: "buffers_ok E s es (nat (sint pc)) (stream_rows bs) bufs"
    using write_shuffle_buffers [OF assms] by blast
  have n: "length bufs = nat (sint pc)" "length bufs < 2 ^ 31" using buffers_bound [OF assms(6) ok] by auto
  let ?locs = "fst (write_buffers ctx job st bufs)"
  have "distinct (List.map fst (filled bufs))" unfolding filled_def by (rule distinct_map_filter) simp
  moreover have "inj_on (partition_location ctx job st) (fst ` set (filled bufs))"
    using n(2) by (auto simp: inj_on_def filled_set partition_location_inj)
  ultimately have "distinct (List.map (partition_location ctx job st) (List.map fst (filled bufs)))"
    by (simp add: distinct_map comp_inj_on)
  then have d: "distinct ?locs" by (simp add: write_buffers_locations comp_def case_prod_unfold)
  have "partition_location ctx job st p \<in> set ?locs \<longleftrightarrow> bufs ! p \<noteq> []" if "p < length bufs" for p
    using n(2) that by (fastforce simp: write_buffers_locations filled_set partition_location_inj)
  then show ?thesis using w d ok n read_written [OF assms(1) _ buffers_one_schema [OF ok], of _ ctx job st]
    by (auto simp: buffers_ok_def)
qed

theorem shuffle_write_partitions_witness:
  "\<exists>locs ctx'. write_shuffle ref_env sample_ctx sample_plan [Column_Expr 1] ''job'' 0 1 = Ok (locs, ctx')
     \<and> partition_location sample_ctx ''job'' 0 0 \<in> set locs"
proof -
  have ev: "evaluates_on ref_env sample_schema [Column_Expr 1] (stream_rows [sample_batch, sample_batch])"
    by (auto dest!: sample_row_cases simp: evaluates_on_def new_schema_def new_field_def simp del: stream_rows_simps)
  have "part_rows ref_env sample_schema [Column_Expr 1] 1 (stream_rows [sample_batch, sample_batch]) 0 \<noteq> []"
    unfolding sample_rows by (simp add: part_rows_def row_target_def)
  then show ?thesis
    using shuffle_write_partitions [OF ref_env_ok sample_plan_ok ev, of 1 sample_ctx "''job''" 0] by fastforce
qed

text \<open>C22: A shuffle loses and invents nothing: reading, on the executor that wrote them, all
  the locations a shuffle write reported succeeds and yields batches of the input schema
  whose rows are the input rows up to order.\<close>

theorem shuffle_preserves_rows:
  assumes "env_ok E" "phys_schema E i = Ok s" "execute E ctx i = Ok (List.map Ok bs)" "list_all (typed s) bs"
    "evaluates_on E s es (stream_rows bs)" "0 < sint pc"
  shows "\<exists>locs ctx' cs. write_shuffle E ctx i es job st pc = Ok (locs, ctx')
     \<and> execute E ctx' (Shuffle_Reader_Exec s locs) = Ok (List.map Ok cs) \<and> list_all (typed s) cs
     \<and> mset (stream_rows cs) = mset (stream_rows bs)"
proof -
  obtain bufs where w: "write_shuffle E ctx i es job st pc = Ok (fst (write_buffers ctx job st bufs),
        ctx\<lparr>shuffle_manager := snd (write_buffers ctx job st bufs)\<rparr>)"
    and ok: "buffers_ok E s es (nat (sint pc)) (stream_rows bs) bufs"
    using write_shuffle_buffers [OF assms] by blast
  have "length bufs \<le> 2 ^ 31" using buffers_bound [OF assms(6) ok] by auto
  then show ?thesis using w read_written_locations [OF assms(1) _ buffers_one_schema [OF ok]] buffers_rows [OF ok] assms(6) by fastforce
qed

theorem shuffle_preserves_rows_witness:
  "\<exists>locs ctx' cs. write_shuffle ref_env sample_ctx sample_plan [Column_Expr 1] ''job'' 0 2 = Ok (locs, ctx')
     \<and> execute ref_env ctx' (Shuffle_Reader_Exec sample_schema locs) = Ok (List.map Ok cs)
     \<and> size (mset (stream_rows cs)) = 6"
proof -
  have ev: "evaluates_on ref_env sample_schema [Column_Expr 1] (stream_rows [sample_batch, sample_batch])"
    by (auto dest!: sample_row_cases simp: evaluates_on_def new_schema_def new_field_def simp del: stream_rows_simps)
  obtain locs ctx' cs where "write_shuffle ref_env sample_ctx sample_plan [Column_Expr 1] ''job'' 0 2 = Ok (locs, ctx')"
    "execute ref_env ctx' (Shuffle_Reader_Exec sample_schema locs) = Ok (List.map Ok cs)"
    "mset (stream_rows cs) = mset (stream_rows [sample_batch, sample_batch])"
    using shuffle_preserves_rows [OF ref_env_ok sample_plan_ok ev, of 2 sample_ctx "''job''" 0] by auto
  moreover have "size (mset (stream_rows [sample_batch, sample_batch])) = 6" unfolding sample_rows by simp
  ultimately show ?thesis by (intro exI [of _ locs] exI [of _ ctx'] exI [of _ cs]) simp
qed

end
