(* ===== verification/Query_Planner.thy ===== *)
theory Query_Planner
  imports Logical_Plan Phys_Plan
begin

text \<open>
  From a logical to a physical plan (crate @query-planner@).  Columns named in an expression
  become positions in the schema of the input plan; aliases disappear.  @create_physical_expr@
  takes the (fallible) schema of the input where the source takes the plan.
\<close>

definition days_since_unix_epoch :: "int \<Rightarrow> 32 word" where
  "days_since_unix_epoch d = word_of_int d"

definition column_of :: "string \<Rightarrow> Schema \<Rightarrow> string \<Rightarrow> nat res" where
  "column_of msg s n = expect msg (position (\<lambda>f. f_name f = n) (s_fields s))"

definition both :: "('a \<Rightarrow> 'a \<Rightarrow> 'b) \<Rightarrow> 'a res \<Rightarrow> 'a res \<Rightarrow> 'b res" where
  "both f l r = and_then l (\<lambda>l. map_res (f l) r)"

fun create_physical_expr :: "Schema res \<Rightarrow> LogicalExpr \<Rightarrow> phys_expr res" where
  "create_physical_expr s (LiteralLong n) = Ok (Literal_Long n)"
| "create_physical_expr s (LiteralDouble x) = Ok (Literal_Double x)"
| "create_physical_expr s (LiteralString t) = Ok (Literal_String t)"
| "create_physical_expr s (LiteralDate d) = Ok (Literal_Date (days_since_unix_epoch d))"
| "create_physical_expr s (LiteralIntervalDays d) = Ok (Literal_Interval_Days d)"
| "create_physical_expr s (L_DateSubtract d i) =
     both Date_Subtract_Interval (create_physical_expr s d) (create_physical_expr s i)"
| "create_physical_expr s (L_DateAdd d i) =
     both Date_Add_Interval (create_physical_expr s d) (create_physical_expr s i)"
| "create_physical_expr s (ColumnIndex i) = Ok (Column_Expr i)"
| "create_physical_expr s (Column n) =
     and_then s (\<lambda>s. map_res Column_Expr (column_of ''No column named'' s n))"
| "create_physical_expr s (L_Alias e a) = create_physical_expr s e"
| "create_physical_expr s (L_Cast e t) = map_res (\<lambda>e. Cast_Expr e t) (create_physical_expr s e)"
| "create_physical_expr s (L_Eq l r) = both (Boolean_Expr Op_Eq) (create_physical_expr s l) (create_physical_expr s r)"
| "create_physical_expr s (L_Neq l r) = both (Boolean_Expr Op_Neq) (create_physical_expr s l) (create_physical_expr s r)"
| "create_physical_expr s (L_Gt l r) = both (Boolean_Expr Op_Gt) (create_physical_expr s l) (create_physical_expr s r)"
| "create_physical_expr s (L_GtEq l r) = both (Boolean_Expr Op_GtEq) (create_physical_expr s l) (create_physical_expr s r)"
| "create_physical_expr s (L_Lt l r) = both (Boolean_Expr Op_Lt) (create_physical_expr s l) (create_physical_expr s r)"
| "create_physical_expr s (L_LtEq l r) = both (Boolean_Expr Op_LtEq) (create_physical_expr s l) (create_physical_expr s r)"
| "create_physical_expr s (L_And l r) = both (Boolean_Expr Op_And) (create_physical_expr s l) (create_physical_expr s r)"
| "create_physical_expr s (L_Or l r) = both (Boolean_Expr Op_Or) (create_physical_expr s l) (create_physical_expr s r)"
| "create_physical_expr s (L_Add l r) = both (Math_Expr Op_Add) (create_physical_expr s l) (create_physical_expr s r)"
| "create_physical_expr s (L_Subtract l r) =
     both (Math_Expr Op_Subtract) (create_physical_expr s l) (create_physical_expr s r)"
| "create_physical_expr s (L_Multiply l r) =
     both (Math_Expr Op_Multiply) (create_physical_expr s l) (create_physical_expr s r)"
| "create_physical_expr s (L_Divide l r) =
     both (Math_Expr Op_Divide) (create_physical_expr s l) (create_physical_expr s r)"
| "create_physical_expr s (LiteralFloat x) =
     Panic (Panicked ''LiteralFloat has no physical expression; use LiteralDouble'')"
| "create_physical_expr s (L_Not e) = Panic (Panicked ''Unsupported logical expression: NOT'')"
| "create_physical_expr s (L_Modulus l r) = Panic (Panicked ''Unsupported binary expression: modulus'')"
| "create_physical_expr s (ScalarFunction n as t) =
     Panic (Panicked ''Unsupported logical expression: scalar function'')"
| "create_physical_expr s (L_Aggregate a) =
     Panic (Panicked ''an aggregate cannot be planned as a scalar expression; aggregates are lowered by the Aggregate operator'')"

fun create_aggregate_expr :: "Schema res \<Rightarrow> AggregateExpr \<Rightarrow> phys_aggr res" where
  "create_aggregate_expr s (A_Max e) = map_res (Aggr Agg_Max) (create_physical_expr s e)"
| "create_aggregate_expr s (A_Min e) = map_res (Aggr Agg_Min) (create_physical_expr s e)"
| "create_aggregate_expr s (A_Sum e) = map_res (Aggr Agg_Sum) (create_physical_expr s e)"
| "create_aggregate_expr s (A_Avg e) = map_res (Aggr Agg_Avg) (create_physical_expr s e)"
| "create_aggregate_expr s (A_Count e) = map_res (Aggr Agg_Count) (create_physical_expr s e)"
| "create_aggregate_expr s (A_CountDistinct e) =
     Panic (Panicked ''Unsupported aggregate function: COUNT(DISTINCT ...)'')"

definition excluded_columns :: "(string \<times> string) list \<Rightarrow> Schema \<Rightarrow> nat list" where
  "excluded_columns ons r =
     List.filter (\<lambda>i. f_name (s_fields r ! i) \<in> set (duplicate_keys ons)) [0..<length (s_fields r)]"

fun create_physical_plan :: "env \<Rightarrow> LogicalPlan \<Rightarrow> phys_plan res" where
  "create_physical_plan E (Scan path ds ns s) = Ok (Scan_Exec ds ns)"
| "create_physical_plan E (Selection i e) =
     and_then (create_physical_plan E i) (\<lambda>pi.
     map_res (Selection_Exec pi) (create_physical_expr (plan_schema E i) e))"
| "create_physical_plan E (Projection i es) =
     and_then (create_physical_plan E i) (\<lambda>pi.
     and_then (traverse (create_physical_expr (plan_schema E i)) es) (\<lambda>pes.
     map_res (\<lambda>fs. Projection_Exec pi (new_schema fs) pes) (traverse (to_field E (plan_schema E i)) es)))"
| "create_physical_plan E (Aggregate i gs as) =
     and_then (create_physical_plan E i) (\<lambda>pi.
     and_then (traverse (create_physical_expr (plan_schema E i)) gs) (\<lambda>pgs.
     and_then (traverse (create_aggregate_expr (plan_schema E i)) as) (\<lambda>pas.
     map_res (\<lambda>s. Hash_Aggregate_Exec pi pgs pas s Complete) (plan_schema E (Aggregate i gs as)))))"
| "create_physical_plan E (Limit i n) =
     map_res (\<lambda>pi. Limit_Exec pi (i32_as_usize n)) (create_physical_plan E i)"
| "create_physical_plan E (Join l r jt ons) =
     and_then (create_physical_plan E l) (\<lambda>pl.
     and_then (create_physical_plan E r) (\<lambda>pr.
     and_then (plan_schema E l) (\<lambda>ls.
     and_then (plan_schema E r) (\<lambda>rs.
     and_then (traverse (column_of ''in left input'' ls) (List.map fst ons)) (\<lambda>lk.
     and_then (traverse (column_of ''in right input'' rs) (List.map snd ons)) (\<lambda>rk.
     map_res (\<lambda>s. Hash_Join_Exec pl pr jt lk rk s (excluded_columns ons rs))
       (plan_schema E (Join l r jt ons))))))))"

end
