(* ===== verification/Optimizer_Rules.thy ===== *)
theory Optimizer_Rules
  imports Logical_Plan
begin

text \<open>
  The logical optimizer (crate @optimizer@): the columns an expression references and the
  projection push-down rule, which threads the set of column names it has collected through
  the plan (a @HashSet@ is a HOL set) and trims every scan to the names collected so far.
\<close>

fun extract_columns :: "env \<Rightarrow> LogicalPlan \<Rightarrow> LogicalExpr \<Rightarrow> string set \<Rightarrow> string set res" where
  "extract_columns E i (ColumnIndex k) acc =
     and_then (plan_schema E i) (\<lambda>s. map_res (\<lambda>f. insert (f_name f) acc) (idx (s_fields s) k))"
| "extract_columns E i (Column n) acc = Ok (insert n acc)"
| "extract_columns E i (L_Eq l r) acc = and_then (extract_columns E i l acc) (extract_columns E i r)"
| "extract_columns E i (L_Neq l r) acc = and_then (extract_columns E i l acc) (extract_columns E i r)"
| "extract_columns E i (L_Gt l r) acc = and_then (extract_columns E i l acc) (extract_columns E i r)"
| "extract_columns E i (L_GtEq l r) acc = and_then (extract_columns E i l acc) (extract_columns E i r)"
| "extract_columns E i (L_Lt l r) acc = and_then (extract_columns E i l acc) (extract_columns E i r)"
| "extract_columns E i (L_LtEq l r) acc = and_then (extract_columns E i l acc) (extract_columns E i r)"
| "extract_columns E i (L_And l r) acc = and_then (extract_columns E i l acc) (extract_columns E i r)"
| "extract_columns E i (L_Or l r) acc = and_then (extract_columns E i l acc) (extract_columns E i r)"
| "extract_columns E i (L_Add l r) acc = and_then (extract_columns E i l acc) (extract_columns E i r)"
| "extract_columns E i (L_Subtract l r) acc = and_then (extract_columns E i l acc) (extract_columns E i r)"
| "extract_columns E i (L_Multiply l r) acc = and_then (extract_columns E i l acc) (extract_columns E i r)"
| "extract_columns E i (L_Divide l r) acc = and_then (extract_columns E i l acc) (extract_columns E i r)"
| "extract_columns E i (L_Modulus l r) acc = and_then (extract_columns E i l acc) (extract_columns E i r)"
| "extract_columns E i (L_Alias e a) acc = extract_columns E i e acc"
| "extract_columns E i (L_Cast e t) acc = extract_columns E i e acc"
| "extract_columns E i (LiteralString t) acc = Ok acc"
| "extract_columns E i (LiteralLong n) acc = Ok acc"
| "extract_columns E i (LiteralDouble x) acc = Ok acc"
| "extract_columns E i (LiteralDate d) acc = Ok acc"
| "extract_columns E i (LiteralIntervalDays d) acc = Ok acc"
| "extract_columns E i (L_DateSubtract d v) acc = and_then (extract_columns E i d acc) (extract_columns E i v)"
| "extract_columns E i (L_DateAdd d v) acc = and_then (extract_columns E i d acc) (extract_columns E i v)"
| "extract_columns E i (LiteralFloat x) acc = Panic (Panicked ''extractColumns does not support expression'')"
| "extract_columns E i (L_Not e) acc = Panic (Panicked ''extractColumns does not support expression'')"
| "extract_columns E i (ScalarFunction n as t) acc = Panic (Panicked ''extractColumns does not support expression'')"
| "extract_columns E i (L_Aggregate a) acc = Panic (Panicked ''extractColumns does not support expression'')"

definition extract_columns_list :: "env \<Rightarrow> LogicalPlan \<Rightarrow> LogicalExpr list \<Rightarrow> string set \<Rightarrow> string set res" where
  "extract_columns_list E i es acc = fold_res (\<lambda>acc e. extract_columns E i e acc) acc es"

definition aggregate_inner :: "AggregateExpr \<Rightarrow> LogicalExpr" where
  "aggregate_inner a = (case a of A_Sum e \<Rightarrow> e | A_Min e \<Rightarrow> e | A_Max e \<Rightarrow> e | A_Avg e \<Rightarrow> e
     | A_Count e \<Rightarrow> e | A_CountDistinct e \<Rightarrow> e)"

definition pushed_columns :: "Schema \<Rightarrow> string set \<Rightarrow> string list" where
  "pushed_columns s cols = sort (List.filter (\<lambda>n. n \<in> cols) (col_names s))"

text \<open>What a join asks of its sides: every column when nothing was asked of it, and its keys.\<close>

definition join_columns :: "env \<Rightarrow> LogicalPlan \<Rightarrow> LogicalPlan \<Rightarrow> (string \<times> string) list \<Rightarrow> string set \<Rightarrow> string set res" where
  "join_columns E l r ons cols =
     and_then (if cols = {} then and_then (plan_schema E l) (\<lambda>ls.
                 map_res (\<lambda>rs. set (col_names ls) \<union> set (col_names rs)) (plan_schema E r))
               else Ok cols)
       (\<lambda>cols. Ok (cols \<union> fst ` set ons \<union> snd ` set ons))"

fun push_down :: "env \<Rightarrow> LogicalPlan \<Rightarrow> string set \<Rightarrow> (LogicalPlan \<times> string set) res" where
  "push_down E (Projection i es) cols =
     and_then (extract_columns_list E i es cols) (\<lambda>cols.
       map_res (\<lambda>(i', cols). (Projection i' es, cols)) (push_down E i cols))"
| "push_down E (Selection i e) cols =
     and_then (extract_columns E i e cols) (\<lambda>cols.
       map_res (\<lambda>(i', cols). (Selection i' e, cols)) (push_down E i cols))"
| "push_down E (Aggregate i gs as) cols =
     and_then (extract_columns_list E i gs cols) (\<lambda>cols.
     and_then (extract_columns_list E i (List.map aggregate_inner as) cols) (\<lambda>cols.
       map_res (\<lambda>(i', cols). (Aggregate i' gs as, cols)) (push_down E i cols)))"
| "push_down E (Limit i n) cols = map_res (\<lambda>(i', cols). (Limit i' n, cols)) (push_down E i cols)"
| "push_down E (Join l r jt ons) cols =
     and_then (join_columns E l r ons cols) (\<lambda>cols.
     and_then (push_down E l cols) (\<lambda>(l', cols).
       map_res (\<lambda>(r', cols). (Join l' r' jt ons, cols)) (push_down E r cols)))"
| "push_down E (Scan path ds ns s) cols =
     and_then (ds_schema E ds) (\<lambda>ss.
       map_res (\<lambda>p. (p, cols)) (scan_new E path ds (pushed_columns ss cols)))"

definition optimize :: "env \<Rightarrow> LogicalPlan \<Rightarrow> LogicalPlan res" where
  "optimize E p = map_res fst (push_down E p {})"

end
