(* ===== verification/Logical_Semantics.thy ===== *)
theory Logical_Semantics
  imports Query_Planner Optimizer_Rules Hash_Props
begin

text \<open>
  The types and values of logical expressions, read off the expression itself, by column name,
  without going through the physical expression the query planner makes of it; and that the
  physical expression has this type and this value on every row.
\<close>

section \<open>Types\<close>

fun logical_type :: "Schema \<Rightarrow> LogicalExpr \<Rightarrow> DataType option" where
  "logical_type s (Column n) = map_of (List.map (\<lambda>f. (f_name f, f_type f)) (s_fields s)) n"
| "logical_type s (ColumnIndex i) = (if i < length (s_fields s) then Some (f_type (s_fields s ! i)) else None)"
| "logical_type s (LiteralString t) = Some T_Utf8"
| "logical_type s (LiteralLong n) = Some T_Int64"
| "logical_type s (LiteralDouble x) = Some T_Float64"
| "logical_type s (LiteralDate d) = Some T_Date32"
| "logical_type s (LiteralIntervalDays d) = Some T_Int64"
| "logical_type s (L_DateSubtract d i) = opt2 date_type (logical_type s d) (logical_type s i)"
| "logical_type s (L_DateAdd d i) = opt2 date_type (logical_type s d) (logical_type s i)"
| "logical_type s (L_Alias e a) = logical_type s e"
| "logical_type s (L_Cast e t) =
     (case logical_type s e of Some u \<Rightarrow> if castable u t then Some t else None | None \<Rightarrow> None)"
| "logical_type s (L_Eq l r) = opt2 (bool_type Op_Eq) (logical_type s l) (logical_type s r)"
| "logical_type s (L_Neq l r) = opt2 (bool_type Op_Neq) (logical_type s l) (logical_type s r)"
| "logical_type s (L_Gt l r) = opt2 (bool_type Op_Gt) (logical_type s l) (logical_type s r)"
| "logical_type s (L_GtEq l r) = opt2 (bool_type Op_GtEq) (logical_type s l) (logical_type s r)"
| "logical_type s (L_Lt l r) = opt2 (bool_type Op_Lt) (logical_type s l) (logical_type s r)"
| "logical_type s (L_LtEq l r) = opt2 (bool_type Op_LtEq) (logical_type s l) (logical_type s r)"
| "logical_type s (L_And l r) = opt2 (bool_type Op_And) (logical_type s l) (logical_type s r)"
| "logical_type s (L_Or l r) = opt2 (bool_type Op_Or) (logical_type s l) (logical_type s r)"
| "logical_type s (L_Add l r) = opt2 math_type (logical_type s l) (logical_type s r)"
| "logical_type s (L_Subtract l r) = opt2 math_type (logical_type s l) (logical_type s r)"
| "logical_type s (L_Multiply l r) = opt2 math_type (logical_type s l) (logical_type s r)"
| "logical_type s (L_Divide l r) = opt2 math_type (logical_type s l) (logical_type s r)"
| "logical_type s _ = None"

section \<open>Values\<close>

definition lift2 :: "(ScalarValue \<Rightarrow> ScalarValue \<Rightarrow> ScalarValue res) \<Rightarrow> ScalarValue res \<Rightarrow> ScalarValue res \<Rightarrow> ScalarValue res" where
  "lift2 f a b = and_then a (\<lambda>a. and_then b (f a))"

text \<open>Comparisons and connectives are those of SQL's three-valued logic, at the type of the left
  operand; arithmetic on operands of different types is done on doubles.\<close>

definition compared :: "bool_op \<Rightarrow> DataType option \<Rightarrow> ScalarValue \<Rightarrow> ScalarValue \<Rightarrow> ScalarValue res" where
  "compared op t a b = map_res bool_cell (compare_value op a b (the t))"

fun logical_value :: "Schema \<Rightarrow> LogicalExpr \<Rightarrow> ScalarValue list \<Rightarrow> ScalarValue res" where
  "logical_value s (Column n) r = (case position (\<lambda>f. f_name f = n) (s_fields s) of
     Some k \<Rightarrow> idx r k | None \<Rightarrow> Panic (Panicked ''No column named''))"
| "logical_value s (ColumnIndex i) r = idx r i"
| "logical_value s (LiteralString t) r = Ok (V_Utf8 t)"
| "logical_value s (LiteralLong n) r = Ok (V_Int64 n)"
| "logical_value s (LiteralDouble x) r = Ok (V_Float64 x)"
| "logical_value s (LiteralDate d) r = Ok (V_Date32 (word_of_int d))"
| "logical_value s (LiteralIntervalDays d) r = Ok (V_Int64 d)"
| "logical_value s (L_DateSubtract d i) r = lift2 (date_cell sub_i32) (logical_value s d r) (logical_value s i r)"
| "logical_value s (L_DateAdd d i) r = lift2 (date_cell add_i32) (logical_value s d r) (logical_value s i r)"
| "logical_value s (L_Alias e a) r = logical_value s e r"
| "logical_value s (L_Cast e t) r = and_then (logical_value s e r) (cast_cell t)"
| "logical_value s (L_Eq x y) r = lift2 (compared Op_Eq (logical_type s x)) (logical_value s x r) (logical_value s y r)"
| "logical_value s (L_Neq x y) r = lift2 (compared Op_Neq (logical_type s x)) (logical_value s x r) (logical_value s y r)"
| "logical_value s (L_Gt x y) r = lift2 (compared Op_Gt (logical_type s x)) (logical_value s x r) (logical_value s y r)"
| "logical_value s (L_GtEq x y) r = lift2 (compared Op_GtEq (logical_type s x)) (logical_value s x r) (logical_value s y r)"
| "logical_value s (L_Lt x y) r = lift2 (compared Op_Lt (logical_type s x)) (logical_value s x r) (logical_value s y r)"
| "logical_value s (L_LtEq x y) r = lift2 (compared Op_LtEq (logical_type s x)) (logical_value s x r) (logical_value s y r)"
| "logical_value s (L_And x y) r = lift2 (compared Op_And (logical_type s x)) (logical_value s x r) (logical_value s y r)"
| "logical_value s (L_Or x y) r = lift2 (compared Op_Or (logical_type s x)) (logical_value s x r) (logical_value s y r)"
| "logical_value s (L_Add x y) r =
     lift2 (math_row Op_Add (logical_type s x) (logical_type s y)) (logical_value s x r) (logical_value s y r)"
| "logical_value s (L_Subtract x y) r =
     lift2 (math_row Op_Subtract (logical_type s x) (logical_type s y)) (logical_value s x r) (logical_value s y r)"
| "logical_value s (L_Multiply x y) r =
     lift2 (math_row Op_Multiply (logical_type s x) (logical_type s y)) (logical_value s x r) (logical_value s y r)"
| "logical_value s (L_Divide x y) r =
     lift2 (math_row Op_Divide (logical_type s x) (logical_type s y)) (logical_value s x r) (logical_value s y r)"
| "logical_value s _ r = Panic (Panicked ''no value'')"

section \<open>Aggregates\<close>

text \<open>The function an aggregate computes; distinct values are not counted.\<close>

definition function_of :: "AggregateExpr \<Rightarrow> aggr_kind option" where
  "function_of a = (case a of A_Min e \<Rightarrow> Some Agg_Min | A_Max e \<Rightarrow> Some Agg_Max | A_Sum e \<Rightarrow> Some Agg_Sum
     | A_Avg e \<Rightarrow> Some Agg_Avg | A_Count e \<Rightarrow> Some Agg_Count | A_CountDistinct e \<Rightarrow> None)"

section \<open>Lowering keeps types and values\<close>

lemma map_of_fields:
  "map_of (List.map (\<lambda>f. (f_name f, f_type f)) fs) n = map_option (\<lambda>k. f_type (fs ! k)) (position (\<lambda>f. f_name f = n) fs)"
  by (induction fs) (auto simp: option.map_comp comp_def)

lemma lower_type: "create_physical_expr (Ok s) e = Ok pe \<Longrightarrow> expr_type (col_types s) pe = logical_type s e"
proof (induction e arbitrary: pe)
  case (Column n)
  then obtain k where "position (\<lambda>f. f_name f = n) (s_fields s) = Some k" "pe = Column_Expr k"
    by (auto simp: column_of_def map_res_eq_Ok expect_eq_Ok)
  then show ?case using position_Some [of "\<lambda>f. f_name f = n" "s_fields s" k] by (simp add: map_of_fields)
qed (auto simp: both_def and_then_eq_Ok map_res_eq_Ok)

lemma lower_value:
  "create_physical_expr (Ok s) e = Ok pe \<Longrightarrow> eval_row E (col_types s) pe r = logical_value s e r"
proof (induction e arbitrary: pe)
  case (Column n)
  then show ?case by (auto simp: column_of_def map_res_eq_Ok expect_eq_Ok)
qed (auto simp: both_def and_then_eq_Ok map_res_eq_Ok lift2_def compared_def [abs_def] days_since_unix_epoch_def lower_type)

text \<open>An expression that has a type is lowered.\<close>

lemma lower_typed: "logical_type s e = Some t \<Longrightarrow> \<exists>pe. create_physical_expr (Ok s) e = Ok pe"
proof (induction e arbitrary: t)
  case (Column n)
  then show ?case by (auto simp: map_of_fields column_of_def)
qed (auto simp: both_def opt2_Some split: option.splits if_splits)

lemma lower_aggregate:
  assumes "create_aggregate_expr (Ok s) a = Ok x"
  shows "function_of a = Some (aggr_fun x)" "create_physical_expr (Ok s) (aggregate_inner a) = Ok (input_expression x)"
  using assms by (cases a; auto simp: function_of_def aggregate_inner_def map_res_eq_Ok)+

lemma lower_aggregate_typed:
  assumes "function_of a \<noteq> None" "logical_type s (aggregate_inner a) = Some t"
  shows "\<exists>x. create_aggregate_expr (Ok s) a = Ok x"
  using assms lower_typed [of s "aggregate_inner a" t]
  by (cases a) (auto simp: function_of_def aggregate_inner_def)

end
