(* ===== verification/Plan_Semantics.thy ===== *)
theory Plan_Semantics
  imports Logical_Semantics Join_Props
begin

text \<open>
  What a logical plan means, row by row, and that the physical plan the query planner makes
  of it computes one of the results it allows.  The meaning is a set of row lists: the order
  of the groups of an aggregate and of the unmatched rows of a right join is not determined.  It
  takes the value of an expression from the logical expression and never looks at the lowered one.
\<close>

section \<open>Meaning of a logical plan\<close>

definition schema_of :: "env \<Rightarrow> LogicalPlan \<Rightarrow> Schema" where
  "schema_of E p = the_ok (plan_schema E p)"

definition lowered :: "env \<Rightarrow> LogicalPlan \<Rightarrow> LogicalExpr \<Rightarrow> phys_expr" where
  "lowered E p e = the_ok (create_physical_expr (plan_schema E p) e)"

definition lowered_aggr :: "env \<Rightarrow> LogicalPlan \<Rightarrow> AggregateExpr \<Rightarrow> phys_aggr" where
  "lowered_aggr E p a = the_ok (create_aggregate_expr (plan_schema E p) a)"

text \<open>The value of an expression on a row of @p@.\<close>

definition value_on :: "env \<Rightarrow> LogicalPlan \<Rightarrow> LogicalExpr \<Rightarrow> ScalarValue list \<Rightarrow> ScalarValue res" where
  "value_on E p e r = logical_value (schema_of E p) e r"

definition names_positions :: "Schema \<Rightarrow> string list \<Rightarrow> nat list" where
  "names_positions s ns = the_ok (traverse (column_of '''' s) ns)"

text \<open>The rows of a group, and what the aggregates make of them, in the order the rows come in.\<close>

definition group_key :: "env \<Rightarrow> LogicalPlan \<Rightarrow> LogicalExpr list \<Rightarrow> ScalarValue list \<Rightarrow> ScalarValue list" where
  "group_key E p gs r = List.map (\<lambda>e. the_ok (value_on E p e r)) gs"

definition keys_on :: "env \<Rightarrow> LogicalPlan \<Rightarrow> LogicalExpr list \<Rightarrow> ScalarValue list list \<Rightarrow> ScalarValue list set" where
  "keys_on E p gs R = group_key E p gs ` set R"

definition group_of :: "env \<Rightarrow> LogicalPlan \<Rightarrow> LogicalExpr list \<Rightarrow> ScalarValue list list \<Rightarrow> ScalarValue list \<Rightarrow> ScalarValue list list" where
  "group_of E p gs R \<kappa> = List.filter (\<lambda>r. group_key E p gs r = \<kappa>) R"

definition aggregate_result :: "env \<Rightarrow> LogicalPlan \<Rightarrow> LogicalExpr list \<Rightarrow> ScalarValue list list \<Rightarrow> ScalarValue list
    \<Rightarrow> AggregateExpr \<Rightarrow> ScalarValue res" where
  "aggregate_result E p gs R \<kappa> a = (case function_of a of
     Some f \<Rightarrow> map_res final_value (fold_res accumulate (new_accumulator f)
       (List.map (\<lambda>r. the_ok (value_on E p (aggregate_inner a) r)) (group_of E p gs R \<kappa>)))
   | None \<Rightarrow> Panic (Panicked ''no aggregate''))"

definition group_results :: "env \<Rightarrow> LogicalPlan \<Rightarrow> LogicalExpr list \<Rightarrow> AggregateExpr list \<Rightarrow> ScalarValue list list
    \<Rightarrow> ScalarValue list \<Rightarrow> ScalarValue list res" where
  "group_results E p gs as R \<kappa> = map_res ((@) \<kappa>) (traverse (aggregate_result E p gs R \<kappa>) as)"

text \<open>The columns of the right input that a join does not show again: those joined to a column of
  the same name.\<close>

definition hidden_columns :: "(string \<times> string) list \<Rightarrow> Schema \<Rightarrow> nat list" where
  "hidden_columns ons s = List.filter (\<lambda>i. (col_names s ! i, col_names s ! i) \<in> set ons) [0..<width s]"

fun results :: "env \<Rightarrow> LogicalPlan \<Rightarrow> ScalarValue list list set" where
  "results E (Scan path ds ns s) = {stream_rows (List.map the_ok (the_ok (ds_scan E ds ns)))}"
| "results E (Selection i e) = List.filter (\<lambda>r. value_on E i e r = Ok (V_Boolean True)) ` results E i"
| "results E (Projection i es) = List.map (\<lambda>r. List.map (\<lambda>e. the_ok (value_on E i e r)) es) ` results E i"
| "results E (Limit i n) = take (i32_as_usize n) ` results E i"
| "results E (Aggregate i gs as) =
     {List.map (\<lambda>k. the_ok (group_results E i gs as R k)) ks | R ks.
        R \<in> results E i \<and> distinct ks \<and> set ks = keys_on E i gs R}"
| "results E (Join l r jt ons) =
     (let sl = schema_of E l; sr = schema_of E r; lk = names_positions sl (List.map fst ons);
          rk = names_positions sr (List.map snd ons); ex = hidden_columns ons sr
      in {nested_loop jt lk rk ex (width sr) L R @ um | L R um. L \<in> results E l \<and> R \<in> results E r
          \<and> mset um = (if jt = Right then mset (unmatched_right lk rk ex (width sl) L R) else {#})})"

section \<open>Well-formed plans\<close>

text \<open>A scan that names no column reports an empty schema (@ScanExec::schema@), so no operator
  that asks its input for the schema may sit on it.\<close>

definition reports_schema :: "LogicalPlan \<Rightarrow> bool" where
  "reports_schema p = (case p of Scan path ds ns s \<Rightarrow> ns \<noteq> [] | _ \<Rightarrow> True)"

fun reporting :: "LogicalPlan \<Rightarrow> bool" where
  "reporting (Scan path ds ns s) = True"
| "reporting (Selection i e) = (reports_schema i \<and> reporting i)"
| "reporting (Projection i es) = reporting i"
| "reporting (Limit i n) = (reports_schema i \<and> reporting i)"
| "reporting (Aggregate i gs as) = reporting i"
| "reporting (Join l r jt ons) = (reports_schema l \<and> reports_schema r \<and> reporting l \<and> reporting r)"

definition evaluates :: "env \<Rightarrow> LogicalPlan \<Rightarrow> LogicalExpr list \<Rightarrow> bool" where
  "evaluates E p es = (\<forall>R\<in>results E p. \<forall>r\<in>set R. \<forall>e\<in>set es. is_ok (value_on E p e r))"

definition well_typed :: "env \<Rightarrow> LogicalPlan \<Rightarrow> LogicalExpr \<Rightarrow> DataType \<Rightarrow> bool" where
  "well_typed E p e t = (case plan_schema E p of Ok s \<Rightarrow> logical_type s e = Some t | Panic x \<Rightarrow> False)"

inductive plan_ok :: "env \<Rightarrow> LogicalPlan \<Rightarrow> bool" for E where
  scan: "ds_scan E ds ns = Ok (List.map Ok bs) \<Longrightarrow> list_all (typed s) bs \<Longrightarrow> derive_schema E ds ns = Ok s \<Longrightarrow>
     plan_ok E (Scan path ds ns s)"
| selection: "plan_ok E i \<Longrightarrow> well_typed E i e T_Boolean \<Longrightarrow> evaluates E i [e] \<Longrightarrow>
     plan_ok E (Selection i e)"
| projection: "plan_ok E i \<Longrightarrow> es \<noteq> [] \<Longrightarrow> traverse (to_field E (plan_schema E i)) es = Ok fs \<Longrightarrow>
     list_all2 (\<lambda>e f. well_typed E i e (f_type f)) es fs \<Longrightarrow> evaluates E i es \<Longrightarrow>
     plan_ok E (Projection i es)"
| limit: "plan_ok E i \<Longrightarrow> plan_ok E (Limit i n)"
| aggregate: "plan_ok E i \<Longrightarrow> plan_schema E (Aggregate i gs as) = Ok s \<Longrightarrow> schema_ok s \<Longrightarrow>
     list_all (\<lambda>e. \<exists>t. well_typed E i e t) (gs @ List.map aggregate_inner as) \<Longrightarrow>
     list_all (\<lambda>a. function_of a \<noteq> None) as \<Longrightarrow>
     evaluates E i (gs @ List.map aggregate_inner as) \<Longrightarrow>
     \<forall>R\<in>results E i. \<forall>k\<in>keys_on E i gs R. \<exists>r. group_results E i gs as R k = Ok r \<and> row_fits (col_types s) r \<Longrightarrow>
     plan_ok E (Aggregate i gs as)"
| join: "plan_ok E l \<Longrightarrow> plan_ok E r \<Longrightarrow>
     set (List.map fst ons) \<subseteq> set (col_names (schema_of E l)) \<Longrightarrow>
     set (List.map snd ons) \<subseteq> set (col_names (schema_of E r)) \<Longrightarrow>
     schema_ok (schema_of E (Join l r jt ons)) \<Longrightarrow> jt = Right \<longrightarrow> duplicate_keys ons = [] \<Longrightarrow>
     plan_ok E (Join l r jt ons)"

inductive_cases plan_ok_scanE: "plan_ok E (Scan path ds ns s)"
inductive_cases plan_ok_selectionE: "plan_ok E (Selection i e)"
inductive_cases plan_ok_projectionE: "plan_ok E (Projection i es)"
inductive_cases plan_ok_limitE: "plan_ok E (Limit i n)"
inductive_cases plan_ok_aggregateE: "plan_ok E (Aggregate i gs as)"
inductive_cases plan_ok_joinE: "plan_ok E (Join l r jt ons)"

section \<open>Schemas and lowered expressions\<close>

lemma plan_ok_schema: "plan_ok E p \<Longrightarrow> plan_schema E p = Ok (schema_of E p)"
proof (induction rule: plan_ok.induct)
  case (aggregate i gs as s)
  show ?case unfolding schema_of_def aggregate.hyps(2) by simp
next
  case (join l r ons jt)
  then show ?case unfolding schema_of_def plan_schema.simps by (metis and_then_simps(1) map_res_simps(1) the_ok_simp)
qed (simp_all add: schema_of_def)

lemma well_typed_iff: "plan_ok E p \<Longrightarrow> well_typed E p e t \<longleftrightarrow> logical_type (schema_of E p) e = Some t"
  using plan_ok_schema by (fastforce simp: well_typed_def)

lemma well_typedD:
  assumes "plan_ok E p" "well_typed E p e t"
  shows "create_physical_expr (Ok (schema_of E p)) e = Ok (lowered E p e)"
    "expr_type (col_types (schema_of E p)) (lowered E p e) = Some t"
proof -
  have t: "logical_type (schema_of E p) e = Some t" using assms by (simp add: well_typed_iff)
  then show c: "create_physical_expr (Ok (schema_of E p)) e = Ok (lowered E p e)"
    using lower_typed plan_ok_schema [OF assms(1)] by (fastforce simp: lowered_def)
  show "expr_type (col_types (schema_of E p)) (lowered E p e) = Some t" using lower_type [OF c] t by simp
qed

lemma value_on_eval:
  assumes "plan_ok E p" "well_typed E p e t"
  shows "eval_row E (col_types (schema_of E p)) (lowered E p e) r = value_on E p e r"
  using lower_value [OF well_typedD(1) [OF assms]] by (simp add: value_on_def)

lemma row_value_the_ok:
  assumes "plan_ok E p" "well_typed E p e t" "is_ok (value_on E p e r)"
  shows "row_value E (col_types (schema_of E p)) (lowered E p e) r = the_ok (value_on E p e r)"
  using assms(3) by (auto simp: is_ok_iff row_value_def value_on_eval [OF assms(1,2)])

lemma lower_list:
  assumes "plan_ok E p" "\<And>e. e \<in> set es \<Longrightarrow> \<exists>t. well_typed E p e t"
  shows "traverse (create_physical_expr (plan_schema E p)) es = Ok (List.map (lowered E p) es)"
  unfolding plan_ok_schema [OF assms(1)] by (intro traverse_all_Ok) (use well_typedD(1) [OF assms(1)] assms(2) in blast)

lemma lower_aggr:
  assumes "plan_ok E p" "function_of a \<noteq> None" "well_typed E p (aggregate_inner a) t"
  shows "create_aggregate_expr (plan_schema E p) a = Ok (lowered_aggr E p a)"
    "function_of a = Some (aggr_fun (lowered_aggr E p a))"
    "input_expression (lowered_aggr E p a) = lowered E p (aggregate_inner a)"
proof -
  note s = plan_ok_schema [OF assms(1)]
  obtain x where x: "create_aggregate_expr (Ok (schema_of E p)) a = Ok x"
    using lower_aggregate_typed [OF assms(2)] assms(3) well_typed_iff [OF assms(1)] by blast
  then show c: "create_aggregate_expr (plan_schema E p) a = Ok (lowered_aggr E p a)" by (simp add: lowered_aggr_def s)
  show "function_of a = Some (aggr_fun (lowered_aggr E p a))" using lower_aggregate(1) c s by simp
  show "input_expression (lowered_aggr E p a) = lowered E p (aggregate_inner a)"
    using lower_aggregate(2) [of "schema_of E p" a] c s by (simp add: lowered_def)
qed

text \<open>What the groups are to the physical operator.\<close>

lemma lowered_key:
  assumes "plan_ok E p" "\<And>e. e \<in> set gs \<Longrightarrow> \<exists>t. well_typed E p e t" "\<And>e. e \<in> set gs \<Longrightarrow> is_ok (value_on E p e r)"
  shows "project_row E (col_types (schema_of E p)) (List.map (lowered E p) gs) r = group_key E p gs r"
  using assms row_value_the_ok [OF assms(1)] unfolding project_row_def group_key_def by fastforce

lemma group_results_lowered:
  assumes "plan_ok E p" "\<And>e. e \<in> set (gs @ List.map aggregate_inner as) \<Longrightarrow> \<exists>t. well_typed E p e t"
    "\<And>a. a \<in> set as \<Longrightarrow> function_of a \<noteq> None"
    "\<And>r e. r \<in> set R \<Longrightarrow> e \<in> set (gs @ List.map aggregate_inner as) \<Longrightarrow> is_ok (value_on E p e r)"
  shows "group_row E (col_types (schema_of E p)) Complete (List.map (lowered E p) gs) (List.map (lowered_aggr E p) as) R \<kappa>
    = group_results E p gs as R \<kappa>"
proof -
  let ?ts = "col_types (schema_of E p)"
  have "project_row E ?ts (List.map (lowered E p) gs) r = group_key E p gs r" if "r \<in> set R" for r
    by (rule lowered_key [OF assms(1)]) (use assms(2,4) that in auto)
  then have rows: "List.filter (\<lambda>r. project_row E ?ts (List.map (lowered E p) gs) r = \<kappa>) R = group_of E p gs R \<kappa>"
    unfolding group_of_def by (intro filter_cong) auto
  have "group_output E ?ts Complete (lowered_aggr E p a) (group_of E p gs R \<kappa>) = aggregate_result E p gs R \<kappa> a"
    if a: "a \<in> set as" for a
  proof -
    obtain t where t: "well_typed E p (aggregate_inner a) t" using assms(2) a by fastforce
    note low = lower_aggr [OF assms(1) assms(3) [OF a] t]
    have cells: "List.map (row_value E ?ts (input_expression (lowered_aggr E p a))) (group_of E p gs R \<kappa>)
        = List.map (\<lambda>r. the_ok (value_on E p (aggregate_inner a) r)) (group_of E p gs R \<kappa>)"
      using assms(4) a by (auto simp: low(3) group_of_def intro!: row_value_the_ok [OF assms(1) t])
    show ?thesis unfolding group_output_def group_accumulator_def cells aggregate_result_def low(2)
      by (simp add: accumulate_mode_def [abs_def] create_accumulator_def output_value_def [abs_def] map_res_and_then)
  qed
  then show ?thesis unfolding group_row_def rows group_results_def traverse_map
    by (simp cong: traverse_cong)
qed

lemma column_of_Ok:
  assumes "n \<in> set (col_names s)"
  shows "\<exists>k. column_of m s n = Ok k \<and> k < width s \<and> f_name (s_fields s ! k) = n"
proof -
  have "position (\<lambda>f. f_name f = n) (s_fields s) \<noteq> None" using assms by (auto simp: position_None)
  then show ?thesis using position_Some [of "\<lambda>f. f_name f = n" "s_fields s"] by (auto simp: column_of_def)
qed

lemma columns_of_Ok:
  assumes "set ns \<subseteq> set (col_names s)"
  shows "traverse (column_of m s) ns = Ok (names_positions s ns)" "list_all (\<lambda>k. k < width s) (names_positions s ns)"
proof -
  have each: "\<exists>k. (\<forall>m. column_of m s n = Ok k) \<and> k < width s" if "n \<in> set ns" for n
    using column_of_Ok [of n s] that assms by (fastforce simp: column_of_def expect_eq_Ok)
  then obtain f where f: "\<And>n m. n \<in> set ns \<Longrightarrow> column_of m s n = Ok (f n) \<and> f n < width s" by metis
  then have t: "traverse (column_of m s) ns = Ok (List.map f ns)" for m by (intro traverse_all_Ok) auto
  then show "traverse (column_of m s) ns = Ok (names_positions s ns)" by (simp add: names_positions_def)
  show "list_all (\<lambda>k. k < width s) (names_positions s ns)" using f by (auto simp: names_positions_def t list_all_iff)
qed

lemma filter_map_index: "List.map f (List.filter (\<lambda>x. P x) xs) = List.map (\<lambda>i. f (xs ! i)) (List.filter (\<lambda>i. P (xs ! i)) [0..<length xs])"
proof -
  have "xs = List.map ((!) xs) [0..<length xs]" by (simp add: map_nth)
  then have "List.filter P xs = List.map ((!) xs) (List.filter (\<lambda>i. P (xs ! i)) [0..<length xs])"
    by (metis (no_types, lifting) comp_apply filter_cong filter_map)
  then show ?thesis by simp
qed

lemma join_schema_types:
  assumes "jt = Right \<longrightarrow> duplicate_keys ons = []"
  shows "col_types (join_schema jt ons l r) = join_types (excluded_columns ons r) (col_types l) (col_types r)"
proof -
  have en: "enumerate 0 (col_types r) = List.map (\<lambda>i. (i, f_type (s_fields r ! i))) [0..<length (s_fields r)]"
    by (intro nth_equalityI) (auto simp: nth_enumerate_eq)
  have kept: "List.filter (\<lambda>i. i \<notin> set (excluded_columns ons r)) [0..<length (s_fields r)]
      = List.filter (\<lambda>i. f_name (s_fields r ! i) \<notin> set (duplicate_keys ons)) [0..<length (s_fields r)]"
    by (rule filter_cong) (auto simp: excluded_columns_def)
  have "List.map snd (List.filter (\<lambda>(i, t). i \<notin> set (excluded_columns ons r)) (enumerate 0 (col_types r)))
      = List.map (\<lambda>i. f_type (s_fields r ! i))
          (List.filter (\<lambda>i. f_name (s_fields r ! i) \<notin> set (duplicate_keys ons)) [0..<length (s_fields r)])"
    unfolding en filter_map using kept by (simp add: comp_def)
  also have "\<dots> = List.map f_type (drop_fields (duplicate_keys ons) (s_fields r))"
    unfolding drop_fields_def by (rule filter_map_index [symmetric])
  finally show ?thesis using assms by (cases jt) (auto simp: join_schema_def join_types_def drop_fields_def)
qed

section \<open>Refinement\<close>

definition runs :: "env \<Rightarrow> ExecutorContext \<Rightarrow> LogicalPlan \<Rightarrow> bool" where
  "runs E ctx p = (\<exists>pp bs. create_physical_plan E p = Ok pp
     \<and> (reports_schema p \<longrightarrow> phys_schema E pp = Ok (schema_of E p))
     \<and> execute E ctx pp = Ok (List.map Ok bs) \<and> list_all (typed (schema_of E p)) bs
     \<and> stream_rows bs \<in> results E p)"

lemma hidden_excluded [simp]: "hidden_columns ons s = excluded_columns ons s"
  unfolding hidden_columns_def excluded_columns_def by (rule filter_cong) (auto simp: duplicate_keys_def image_iff)

lemma runs_scan:
  assumes "ds_scan E ds ns = Ok (List.map Ok bs)" "list_all (typed s) bs" "derive_schema E ds ns = Ok s"
  shows "runs E ctx (Scan path ds ns s)"
proof -
  have "phys_schema E (Scan_Exec ds ns) = Ok s" if "ns \<noteq> []" using assms(3) that by (simp add: derive_schema_def)
  then show ?thesis using assms
    by (auto simp: runs_def reports_schema_def schema_of_def comp_def)
qed

lemma runs_selection:
  assumes "env_ok E" "plan_ok E i" "runs E ctx i" "reports_schema i" "well_typed E i e T_Boolean" "evaluates E i [e]"
  shows "runs E ctx (Selection i e)"
proof -
  obtain pi bs where i: "create_physical_plan E i = Ok pi" "phys_schema E pi = Ok (schema_of E i)"
    "execute E ctx pi = Ok (List.map Ok bs)" "list_all (typed (schema_of E i)) bs" "stream_rows bs \<in> results E i"
    using assms(3,4) by (auto simp: runs_def)
  note w = well_typedD [OF assms(2,5)]
  have "\<forall>r\<in>set (stream_rows bs). is_ok (eval_row E (col_types (schema_of E i)) (lowered E i e) r)"
    using assms(6) i(5) by (simp add: evaluates_def value_on_eval [OF assms(2,5)])
  from selection_rows [OF assms(1) i(2-4) w(2) this] show ?thesis
    using i w(1) plan_ok_schema [OF assms(2)]
    by (auto simp: runs_def reports_schema_def schema_of_def [of E "Selection i e"] value_on_eval [OF assms(2,5)])
qed

lemma runs_projection:
  assumes "env_ok E" "plan_ok E i" "runs E ctx i" "es \<noteq> []" "traverse (to_field E (plan_schema E i)) es = Ok fs"
    "list_all2 (\<lambda>e f. well_typed E i e (f_type f)) es fs" "evaluates E i es"
  shows "runs E ctx (Projection i es)"
proof -
  obtain pi bs where i: "create_physical_plan E i = Ok pi" 
    "execute E ctx pi = Ok (List.map Ok bs)" "list_all (typed (schema_of E i)) bs" "stream_rows bs \<in> results E i"
    using assms(3) by (auto simp: runs_def)
  let ?ts = "col_types (schema_of E i)"
  have s: "schema_of E (Projection i es) = new_schema fs" using assms(5) by (simp add: schema_of_def)
  have typed: "\<exists>t. well_typed E i e t" if "e \<in> set es" for e
    using assms(6) that by (auto simp: list_all2_conv_all_nth in_set_conv_nth)
  then have low: "traverse (create_physical_expr (plan_schema E i)) es = Ok (List.map (lowered E i) es)"
    by (rule lower_list [OF assms(2)])
  have ty: "list_all2 (\<lambda>e f. expr_type ?ts e = Some (f_type f)) (List.map (lowered E i) es) (s_fields (new_schema fs))"
    using assms(6) well_typedD(2) [OF assms(2)] by (auto simp: list_all2_conv_all_nth)
  have ev: "\<forall>r\<in>set (stream_rows bs). \<forall>e\<in>set es. is_ok (value_on E i e r)"
    using assms(7) i(4) by (simp add: evaluates_def)
  then have ev': "\<forall>r\<in>set (stream_rows bs). \<forall>e\<in>set (List.map (lowered E i) es). is_ok (eval_row E ?ts e r)"
    using typed value_on_eval [OF assms(2)] by fastforce
  have ne: "List.map (lowered E i) es \<noteq> []" using assms(4) by simp
  obtain cs where cs: "execute E ctx (Projection_Exec pi (new_schema fs) (List.map (lowered E i) es)) = Ok (List.map Ok cs)"
    "list_all (typed (new_schema fs)) cs"
    "stream_rows cs = List.map (\<lambda>r. List.map (\<lambda>e. row_value E ?ts e r) (List.map (lowered E i) es)) (stream_rows bs)"
    using projection_rows [OF assms(1) i(2,3) ne ty ev'] by blast
  have "stream_rows cs = List.map (\<lambda>r. List.map (\<lambda>e. the_ok (value_on E i e r)) es) (stream_rows bs)"
    unfolding cs(3) using ev typed row_value_the_ok [OF assms(2)] by fastforce
  then have "stream_rows cs \<in> results E (Projection i es)" using i(4) by simp
  then show ?thesis using i(1) low assms(5) cs(1,2) unfolding runs_def s
    by (auto simp: map_res_and_then)
qed

lemma runs_limit:
  assumes "env_ok E" "runs E ctx i" "reports_schema i"
  shows "runs E ctx (Limit i n)"
proof -
  obtain pi bs where i: "create_physical_plan E i = Ok pi" "phys_schema E pi = Ok (schema_of E i)"
    "execute E ctx pi = Ok (List.map Ok bs)" "list_all (typed (schema_of E i)) bs" "stream_rows bs \<in> results E i"
    using assms(2,3) by (auto simp: runs_def)
  from limit_rows [OF assms(1) i(2-4), of "i32_as_usize n"] show ?thesis
    using i by (auto simp: runs_def reports_schema_def schema_of_def [of E "Limit i n"] schema_of_def [of E i, symmetric])
qed

lemma runs_aggregate:
  assumes "env_ok E" "plan_ok E i" "runs E ctx i" "plan_schema E (Aggregate i gs as) = Ok s" "schema_ok s"
    "list_all (\<lambda>e. \<exists>t. well_typed E i e t) (gs @ List.map aggregate_inner as)"
    "list_all (\<lambda>a. function_of a \<noteq> None) as"
    "evaluates E i (gs @ List.map aggregate_inner as)"
    "\<forall>R\<in>results E i. \<forall>k\<in>keys_on E i gs R. \<exists>r. group_results E i gs as R k = Ok r \<and> row_fits (col_types s) r"
  shows "runs E ctx (Aggregate i gs as)"
proof -
  obtain pi bs where i: "create_physical_plan E i = Ok pi" 
    "execute E ctx pi = Ok (List.map Ok bs)" "list_all (typed (schema_of E i)) bs" "stream_rows bs \<in> results E i"
    using assms(3) by (auto simp: runs_def)
  let ?ts = "col_types (schema_of E i)" and ?R = "stream_rows bs"
  let ?gs = "List.map (lowered E i) gs" and ?as = "List.map (lowered_aggr E i) as"
  have gs: "traverse (create_physical_expr (plan_schema E i)) gs = Ok ?gs"
    by (rule lower_list [OF assms(2)]) (use assms(6) in \<open>auto simp: list_all_iff\<close>)
  have fn: "function_of a \<noteq> None" if "a \<in> set as" for a using assms(7) that by (simp add: list_all_iff)
  have ty: "\<exists>t. well_typed E i e t" if "e \<in> set (gs @ List.map aggregate_inner as)" for e
    using assms(6) that unfolding list_all_iff by blast
  have vl: "is_ok (value_on E i e r)" if "r \<in> set ?R" "e \<in> set (gs @ List.map aggregate_inner as)" for r e
    using assms(8) i(4) that unfolding evaluates_def by blast
  have low: "create_aggregate_expr (plan_schema E i) a = Ok (lowered_aggr E i a)
      \<and> input_expression (lowered_aggr E i a) = lowered E i (aggregate_inner a)" if "a \<in> set as" for a
    using ty [of "aggregate_inner a"] lower_aggr [OF assms(2) fn [OF that]] that by fastforce
  then have as: "traverse (create_aggregate_expr (plan_schema E i)) as = Ok ?as" by (intro traverse_all_Ok) blast
  have ins: "List.map input_expression ?as = List.map (lowered E i) (List.map aggregate_inner as)" using low by simp
  have "evaluates_on E (schema_of E i) (List.map (lowered E i) (gs @ List.map aggregate_inner as)) ?R"
    using ty vl well_typedD(2) [OF assms(2)] value_on_eval [OF assms(2)]
    unfolding evaluates_on_def set_map ball_simps by (metis option.distinct(1))
  then have ev: "evaluates_on E (schema_of E i) (?gs @ List.map input_expression ?as) ?R" unfolding ins by simp
  have keys: "project_row E ?ts ?gs ` set ?R = keys_on E i gs ?R"
    unfolding keys_on_def by (intro image_cong lowered_key [OF assms(2)]) (use ty vl in auto)
  have rows: "group_row E ?ts Complete ?gs ?as ?R k = group_results E i gs as ?R k" for k
    by (rule group_results_lowered [OF assms(2) ty fn vl])
  have grp: "\<forall>k\<in>project_row E ?ts ?gs ` set ?R. \<exists>r. group_row E ?ts Complete ?gs ?as ?R k = Ok r \<and> row_fits (col_types s) r"
    using assms(9) i(4) unfolding keys rows by blast
  have s: "schema_of E (Aggregate i gs as) = s" using assms(4) unfolding schema_of_def by simp
  obtain ks b where b: "distinct ks" "set ks = project_row E ?ts ?gs ` set ?R"
    "execute E ctx (Hash_Aggregate_Exec pi ?gs ?as s Complete) = Ok [Ok b]" "typed s b"
    "batch_rows b = List.map (\<lambda>k. the_ok (group_row E ?ts Complete ?gs ?as ?R k)) ks"
    using aggregate_rows [OF assms(1,5) i(2,3) ev grp] by blast
  note b = b(1-4) b(5) [unfolded rows]
  have "batch_rows b \<in> results E (Aggregate i gs as)"
    unfolding results.simps b(5) using i(4) b(1,2) keys by blast
  then have "stream_rows [b] \<in> results E (Aggregate i gs as)" by (simp only: stream_rows_simps append_Nil2)
  moreover have "create_physical_plan E (Aggregate i gs as) = Ok (Hash_Aggregate_Exec pi ?gs ?as s Complete)"
    using i(1) gs as assms(4) by (simp del: plan_schema.simps)
  ultimately show ?thesis using b(3,4) unfolding runs_def s
    by (intro exI [of _ "Hash_Aggregate_Exec pi ?gs ?as s Complete"] exI [of _ "[b]"]) simp
qed

lemma runs_join:
  assumes "env_ok E" "plan_ok E l" "plan_ok E r" "runs E ctx l" "runs E ctx r" "reports_schema l" "reports_schema r"
    "set (List.map fst ons) \<subseteq> set (col_names (schema_of E l))" "set (List.map snd ons) \<subseteq> set (col_names (schema_of E r))"
    "schema_ok (schema_of E (Join l r jt ons))" "jt = Right \<longrightarrow> duplicate_keys ons = []"
  shows "runs E ctx (Join l r jt ons)"
proof -
  obtain pl lbs where l: "create_physical_plan E l = Ok pl" "phys_schema E pl = Ok (schema_of E l)"
    "execute E ctx pl = Ok (List.map Ok lbs)" "list_all (typed (schema_of E l)) lbs" "stream_rows lbs \<in> results E l"
    using assms(4,6) by (auto simp: runs_def)
  obtain pr rbs where r: "create_physical_plan E r = Ok pr" "phys_schema E pr = Ok (schema_of E r)"
    "execute E ctx pr = Ok (List.map Ok rbs)" "list_all (typed (schema_of E r)) rbs" "stream_rows rbs \<in> results E r"
    using assms(5,7) by (auto simp: runs_def)
  let ?sl = "schema_of E l" and ?sr = "schema_of E r"
  let ?lk = "names_positions ?sl (List.map fst ons)" and ?rk = "names_positions ?sr (List.map snd ons)"
  let ?ex = "excluded_columns ons ?sr" and ?s = "join_schema jt ons ?sl ?sr"
  note sl = plan_ok_schema [OF assms(2)] and sr = plan_ok_schema [OF assms(3)]
  note lk = columns_of_Ok [OF assms(8)] and rk = columns_of_Ok [OF assms(9)]
  have ps: "plan_schema E (Join l r jt ons) = Ok ?s" using sl sr by simp
  then have s: "schema_of E (Join l r jt ons) = ?s" by (simp only: schema_of_def the_ok_simp)
  have pp: "create_physical_plan E (Join l r jt ons) = Ok (Hash_Join_Exec pl pr jt ?lk ?rk ?s ?ex)"
    using l(1) r(1) sl sr lk(1) rk(1) by (simp del: traverse_map)
  obtain cs um where c: "execute E ctx (Hash_Join_Exec pl pr jt ?lk ?rk ?s ?ex) = Ok (List.map Ok cs)" "list_all (typed ?s) cs"
    "stream_rows cs = nested_loop jt ?lk ?rk ?ex (width ?sr) (stream_rows lbs) (stream_rows rbs) @ um"
    "mset um = (if jt = Right then mset (unmatched_right ?lk ?rk ?ex (width ?sl) (stream_rows lbs) (stream_rows rbs)) else {#})"
    using join_rows [OF assms(1) assms(10) [unfolded s] l(2) r(2) l(3) r(3) l(4) r(4) lk(2) rk(2)
        join_schema_types [OF assms(11)]] by blast
  have "stream_rows cs \<in> results E (Join l r jt ons)"
    unfolding results.simps Let_def c(3) hidden_excluded using l(5) r(5) c(4) by blast
  then show ?thesis using pp c(1,2) unfolding runs_def s
    by (intro exI [of _ "Hash_Join_Exec pl pr jt ?lk ?rk ?s ?ex"] exI [of _ cs]) simp
qed

lemma planned_runs:
  assumes "env_ok E" "plan_ok E p" "reporting p"
  shows "runs E ctx p"
  using assms(2,3)
proof (induction rule: plan_ok.induct)
  case scan
  then show ?case by (intro runs_scan)
next
  case selection
  then show ?case by (intro runs_selection [OF assms(1)]) auto
next
  case projection
  then show ?case by (intro runs_projection [OF assms(1)]) auto
next
  case limit
  then show ?case by (intro runs_limit [OF assms(1)]) auto
next
  case aggregate
  then show ?case by (intro runs_aggregate [OF assms(1)]) (auto simp del: plan_schema.simps)
next
  case join
  then show ?case by (intro runs_join [OF assms(1)]) auto
qed

section \<open>Scans of tables in memory\<close>

text \<open>What a source promises: its batches have its schema, and scanning named columns returns
  those columns of every row.\<close>

definition source_ok :: "env \<Rightarrow> data_source \<Rightarrow> Schema \<Rightarrow> RecordBatch list \<Rightarrow> bool" where
  "source_ok E ds s bs = (ds_schema E ds = Ok s \<and> ds_scan E ds [] = Ok (List.map Ok bs) \<and> list_all (typed s) bs
     \<and> (\<forall>ns s'. ns \<noteq> [] \<longrightarrow> select s ns = Ok s' \<longrightarrow> (\<exists>bs'. ds_scan E ds ns = Ok (List.map Ok bs')
        \<and> list_all (typed s') bs'
        \<and> stream_rows bs' = List.map (\<lambda>r. List.map ((!) r) (names_positions s ns)) (stream_rows bs))))"

lemma names_positions_select:
  assumes "select s ns = Ok s'"
  shows "traverse (column_position m s) ns = Ok (names_positions s ns)"
    "traverse (idx (s_fields s)) (names_positions s ns) = Ok (s_fields s')"
    "list_all (\<lambda>i. i < width s) (names_positions s ns)"
proof -
  obtain js where js: "traverse (column_position [] s) ns = Ok js" "traverse (idx (s_fields s)) js = Ok (s_fields s')"
    "list_all (\<lambda>i. i < width s) js" using select_positions [OF assms, of "[]"] by blast
  have "column_of [] s = column_position [] s" by (simp add: column_of_def column_position_def fun_eq_iff)
  then have n: "names_positions s ns = js" using js(1) by (simp add: names_positions_def)
  show "traverse (idx (s_fields s)) (names_positions s ns) = Ok (s_fields s')" "list_all (\<lambda>i. i < width s) (names_positions s ns)"
    using js n by simp_all
  obtain js' where js': "traverse (column_position m s) ns = Ok js'" using select_positions [OF assms, of m] by blast
  have "list_all2 (\<lambda>n j. column_position m s n = Ok j) ns js'" "list_all2 (\<lambda>n j. column_position [] s n = Ok j) ns js"
    using js' js(1) by (auto simp: traverse_eq_Ok)
  then have "js' = js"
    by (auto simp: list_all2_conv_all_nth column_position_def expect_eq_Ok intro!: nth_equalityI)
  then show "traverse (column_position m s) ns = Ok (names_positions s ns)" using js' n by simp
qed

lemma memory_source_ok:
  assumes "env_ok E" "table_wf s bs" "s_fields s \<noteq> []"
  shows "source_ok E (In_Memory s bs) s bs"
proof -
  have ty: "typed s b" if "b \<in> set bs" for b using assms(2,3) that by (fastforce simp: table_wf_def typed_def)
  have "\<exists>bs'. memory_scan E s bs ns = Ok (List.map Ok bs') \<and> list_all (typed s') bs'
      \<and> stream_rows bs' = List.map (\<lambda>r. List.map ((!) r) (names_positions s ns)) (stream_rows bs)"
    if ns: "ns \<noteq> []" "select s ns = Ok s'" for ns s'
  proof -
    let ?is = "names_positions s ns"
    let ?step = "\<lambda>b. and_then (traverse (idx (rb_columns b)) ?is)
        (try_new E ''InMemoryDataSource::scan: failed to build projected RecordBatch'' (to_arrow s'))"
    note p = names_positions_select [OF ns(2)]
    have "\<exists>b'. ?step b = Ok b' \<and> typed s' b' \<and> batch_rows b' = List.map (\<lambda>r. List.map ((!) r) ?is) (batch_rows b)"
      if b: "b \<in> set bs" for b
    proof -
      have wf: "batch_wf b" "List.map arr_type (rb_columns b) = col_types s" using assms(2) b by (auto simp: table_wf_def)
      obtain b' where b': "?step b = Ok b'" "batch_wf b'" "rb_schema b' = to_arrow s'" "rb_rows b' = rb_rows b"
        "rb_columns b' = List.map ((!) (rb_columns b)) ?is"
        by (rule project_batch [OF assms(1) wf ns(2,1) p(3,2)])
      have w: "length (rb_columns b) = width s" using wf(2) by (metis length_map)
      have "batch_row b' k = List.map ((!) (batch_row b k)) ?is" for k
        using p(3) w by (auto simp: batch_row_def b'(5) list_all_iff)
      moreover have "typed s' b'"
      proof -
        have "?is \<noteq> []" using traverse_length [OF p(1) [of "[]"]] ns(1) by auto
        moreover have "batch_types b' = col_types s'" using b'(2,3) to_arrow_types [of s'] by (auto simp: batch_wf_def)
        ultimately show ?thesis using b'(2,5) by (simp add: typed_def)
      qed
      ultimately show ?thesis using b' by (auto simp: batch_rows_def)
    qed
    then obtain cs where "List.map ?step bs = List.map Ok cs" "all_typed s' cs"
      "stream_rows cs = List.map (\<lambda>r. List.map ((!) r) ?is) (stream_rows bs)"
      using map_steps [of bs ?step s' "List.map (\<lambda>r. List.map ((!) r) ?is)"] by auto
    moreover from this(1) have "traverse ?step bs = Ok cs" by (auto simp: traverse_eq_Ok list_all2_conv_all_nth list_eq_iff_nth_eq)
    ultimately show ?thesis using ns p(1) by (auto simp: memory_scan_def)
  qed
  then show ?thesis using ty by (auto simp: source_ok_def ds_schema_def ds_scan_def memory_scan_def list_all_iff)
qed

section \<open>Properties\<close>


definition sample_scan :: LogicalPlan where
  "sample_scan = Scan ''t'' (In_Memory sample_schema [sample_batch, sample_batch]) [''id'', ''name''] sample_schema"

definition sample_query :: LogicalPlan where
  "sample_query = Projection (Selection sample_scan (L_Eq (Column ''name'') (LiteralString ''a''))) [Column ''id'']"

lemma sample_scan_ok:
  "plan_ok ref_env sample_scan" "schema_of ref_env sample_scan = sample_schema" "plan_schema ref_env sample_scan = Ok sample_schema"
  "results ref_env sample_scan = {let rs = [[V_Int32 7, V_Utf8 ''a''], [V_Null, V_Utf8 ''b''], [V_Int32 9, V_Null]] in rs @ rs}"
proof -
  have x: "ds_scan ref_env (In_Memory sample_schema [sample_batch, sample_batch]) [''id'', ''name'']
      = Ok (List.map Ok [sample_batch, sample_batch])"
    using sample_plan_ok(2) [of undefined] by (simp add: sample_plan_def)
  have d: "derive_schema ref_env (In_Memory sample_schema [sample_batch, sample_batch]) [''id'', ''name''] = Ok sample_schema"
    using sample_plan_ok(1) by (simp add: sample_plan_def derive_schema_def)
  show "plan_ok ref_env sample_scan" unfolding sample_scan_def by (rule plan_ok.scan [OF x sample_plan_ok(3) d])
  show "schema_of ref_env sample_scan = sample_schema" "plan_schema ref_env sample_scan = Ok sample_schema"
    by (simp_all add: schema_of_def sample_scan_def)
  show "results ref_env sample_scan = {let rs = [[V_Int32 7, V_Utf8 ''a''], [V_Null, V_Utf8 ''b''], [V_Int32 9, V_Null]] in rs @ rs}"
    using x sample_rows by (simp add: comp_def sample_scan_def)
qed

lemma sample_query_ok:
  "plan_ok ref_env sample_query" "results ref_env sample_query = {[[V_Int32 7], [V_Int32 7]]}"
proof -
  note sch = new_schema_def new_field_def value_on_def lift2_def compared_def sample_scan_ok(2,3)
  let ?w = "L_Eq (Column ''name'') (LiteralString ''a'')" and ?c = "Column ''id''"
  have w: "well_typed ref_env sample_scan ?w T_Boolean"
    by (simp add: well_typed_def sch bool_type_def opt2_def compare_types_def)
  have ev: "value_on ref_env sample_scan ?w [V_Int32 7, V_Utf8 ''a''] = Ok (V_Boolean True)"
    "value_on ref_env sample_scan ?w [V_Null, V_Utf8 ''b''] = Ok (V_Boolean False)"
    "value_on ref_env sample_scan ?w [V_Int32 9, V_Null] = Ok V_Null"
    by (simp_all add: sch compare_value_def compare_typed_def cmp_arm_def as_opt_str_def bool_cell_def cmp_opt_def
        cmp_string_def op_holds_def utf8_encode_def)
  have sel: "plan_ok ref_env (Selection sample_scan ?w)"
    by (rule plan_ok.selection [OF sample_scan_ok(1) w]) (auto simp: evaluates_def sample_scan_ok(4) ev)
  have rows: "results ref_env (Selection sample_scan ?w) = {[[V_Int32 7, V_Utf8 ''a''], [V_Int32 7, V_Utf8 ''a'']]}"
    by (simp add: sample_scan_ok(4) ev)
  have sc: "plan_schema ref_env (Selection sample_scan ?w) = Ok sample_schema"
    "schema_of ref_env (Selection sample_scan ?w) = sample_schema"
    using sample_scan_ok(3) by (simp_all add: schema_of_def)
  note sch = new_schema_def new_field_def value_on_def sc find_field_def
  have c: "well_typed ref_env (Selection sample_scan ?w) ?c T_Int32"
    "value_on ref_env (Selection sample_scan ?w) ?c [V_Int32 7, V_Utf8 ''a''] = Ok (V_Int32 7)"
    "traverse (to_field ref_env (plan_schema ref_env (Selection sample_scan ?w))) [?c] = Ok [new_field ''id'' T_Int32]"
    by (simp_all add: well_typed_def sch del: plan_schema.simps)
  show "plan_ok ref_env sample_query" unfolding sample_query_def
    by (rule plan_ok.projection [OF sel _ c(3)]) (auto simp: evaluates_def rows c new_field_def simp del: results.simps)
  show "results ref_env sample_query = {[[V_Int32 7], [V_Int32 7]]}" unfolding sample_query_def
    by (subst results.simps) (simp add: rows c del: results.simps)
qed


end
