(* ===== verification/Optimizer_Props.thy ===== *)
theory Optimizer_Props
  imports Plan_Semantics
begin

text \<open>
  Projection push-down does not change what a plan means, operator by operator: what pruning
  the input of a selection, projection, limit or aggregate does to its results, and pruning a
  scan.  Joins and the theorem are in @Optimizer_Join@.
\<close>

section \<open>Expressions over fewer columns\<close>

definition field_named :: "Schema \<Rightarrow> string \<Rightarrow> Field option" where
  "field_named s n = find (\<lambda>f. f_name f = n) (s_fields s)"

definition column_value :: "Schema \<Rightarrow> string \<Rightarrow> ScalarValue list \<Rightarrow> ScalarValue res" where
  "column_value s n r = and_then (column_of '''' s n) (idx r)"

text \<open>Two schemas agree on the columns @N@; a row @r@ of the one and a row @r'@ of the other hold
  the same values there.\<close>

definition agree_on :: "string set \<Rightarrow> Schema \<Rightarrow> Schema \<Rightarrow> bool" where
  "agree_on N s s' = (\<forall>n\<in>N. n \<in> set (col_names s') \<and> field_named s' n = field_named s n)"

definition same_on :: "string set \<Rightarrow> Schema \<Rightarrow> Schema \<Rightarrow> ScalarValue list \<Rightarrow> ScalarValue list \<Rightarrow> bool" where
  "same_on N s s' r r' = (\<forall>n\<in>N. column_value s' n r' = column_value s n r)"

abbreviation agree :: "Schema \<Rightarrow> Schema \<Rightarrow> bool" where
  "agree s s' \<equiv> agree_on (set (col_names s')) s s'"

abbreviation same_columns :: "Schema \<Rightarrow> Schema \<Rightarrow> ScalarValue list \<Rightarrow> ScalarValue list \<Rightarrow> bool" where
  "same_columns s s' \<equiv> same_on (set (col_names s')) s s'"

fun by_name :: "LogicalExpr \<Rightarrow> bool" where
  "by_name (ColumnIndex i) = False"
| "by_name (L_DateSubtract l r) = (by_name l \<and> by_name r)"
| "by_name (L_DateAdd l r) = (by_name l \<and> by_name r)"
| "by_name (L_Cast e t) = by_name e"
| "by_name (L_Eq l r) = (by_name l \<and> by_name r)"
| "by_name (L_Neq l r) = (by_name l \<and> by_name r)"
| "by_name (L_Gt l r) = (by_name l \<and> by_name r)"
| "by_name (L_GtEq l r) = (by_name l \<and> by_name r)"
| "by_name (L_Lt l r) = (by_name l \<and> by_name r)"
| "by_name (L_LtEq l r) = (by_name l \<and> by_name r)"
| "by_name (L_And l r) = (by_name l \<and> by_name r)"
| "by_name (L_Or l r) = (by_name l \<and> by_name r)"
| "by_name (L_Add l r) = (by_name l \<and> by_name r)"
| "by_name (L_Subtract l r) = (by_name l \<and> by_name r)"
| "by_name (L_Multiply l r) = (by_name l \<and> by_name r)"
| "by_name (L_Divide l r) = (by_name l \<and> by_name r)"
| "by_name (L_Alias e a) = by_name e"
| "by_name e = True"

fun expr_columns :: "LogicalExpr \<Rightarrow> string set" where
  "expr_columns (Column n) = {n}"
| "expr_columns (L_DateSubtract l r) = expr_columns l \<union> expr_columns r"
| "expr_columns (L_DateAdd l r) = expr_columns l \<union> expr_columns r"
| "expr_columns (L_Cast e t) = expr_columns e"
| "expr_columns (L_Eq l r) = expr_columns l \<union> expr_columns r"
| "expr_columns (L_Neq l r) = expr_columns l \<union> expr_columns r"
| "expr_columns (L_Gt l r) = expr_columns l \<union> expr_columns r"
| "expr_columns (L_GtEq l r) = expr_columns l \<union> expr_columns r"
| "expr_columns (L_Lt l r) = expr_columns l \<union> expr_columns r"
| "expr_columns (L_LtEq l r) = expr_columns l \<union> expr_columns r"
| "expr_columns (L_And l r) = expr_columns l \<union> expr_columns r"
| "expr_columns (L_Or l r) = expr_columns l \<union> expr_columns r"
| "expr_columns (L_Add l r) = expr_columns l \<union> expr_columns r"
| "expr_columns (L_Subtract l r) = expr_columns l \<union> expr_columns r"
| "expr_columns (L_Multiply l r) = expr_columns l \<union> expr_columns r"
| "expr_columns (L_Divide l r) = expr_columns l \<union> expr_columns r"
| "expr_columns (L_Alias e a) = expr_columns e"
| "expr_columns e = {}"

lemma position_find: "position p xs = Some k \<Longrightarrow> find p xs = Some (xs ! k)"
  by (induction xs arbitrary: k) (auto split: if_splits)

lemma column_of_field: "column_of m s n = Ok k \<Longrightarrow> field_named s n = Some (s_fields s ! k) \<and> k < width s"
  by (auto simp: column_of_def expect_eq_Ok field_named_def dest: position_find position_Some)

lemma column_of_msg: "column_of m s n = Ok k \<longleftrightarrow> column_of m' s n = Ok k"
  by (simp add: column_of_def expect_eq_Ok)

lemma both_eq_Ok: "both f l r = Ok x \<longleftrightarrow> (\<exists>a b. l = Ok a \<and> r = Ok b \<and> x = f a b)"
  by (cases l; cases r) (auto simp: both_def)

text \<open>@pe'@ is @pe@ over @s'@.\<close>

definition same_expr :: "string set \<Rightarrow> env \<Rightarrow> Schema \<Rightarrow> Schema \<Rightarrow> phys_expr \<Rightarrow> phys_expr \<Rightarrow> bool" where
  "same_expr N E s s' pe pe' = (expr_type (col_types s') pe' = expr_type (col_types s) pe
     \<and> (\<forall>r r'. same_on N s s' r r' \<longrightarrow> eval_row E (col_types s') pe' r' = eval_row E (col_types s) pe r))"

lemma same_expr_const [intro]:
  "same_expr N E s s' (Literal_Long n) (Literal_Long n)"
  "same_expr N E s s' (Literal_Double x) (Literal_Double x)"
  "same_expr N E s s' (Literal_String t) (Literal_String t)"
  "same_expr N E s s' (Literal_Date d) (Literal_Date d)"
  "same_expr N E s s' (Literal_Interval_Days v) (Literal_Interval_Days v)"
  by (simp_all add: same_expr_def)

lemma same_expr_node [intro]:
  "same_expr N E s s' l l' \<Longrightarrow> same_expr N E s s' r r' \<Longrightarrow> same_expr N E s s' (Boolean_Expr op l r) (Boolean_Expr op l' r')"
  "same_expr N E s s' l l' \<Longrightarrow> same_expr N E s s' r r' \<Longrightarrow> same_expr N E s s' (Math_Expr mop l r) (Math_Expr mop l' r')"
  "same_expr N E s s' l l' \<Longrightarrow> same_expr N E s s' r r' \<Longrightarrow>
     same_expr N E s s' (Date_Subtract_Interval l r) (Date_Subtract_Interval l' r')"
  "same_expr N E s s' l l' \<Longrightarrow> same_expr N E s s' r r' \<Longrightarrow>
     same_expr N E s s' (Date_Add_Interval l r) (Date_Add_Interval l' r')"
  "same_expr N E s s' l l' \<Longrightarrow> same_expr N E s s' (Cast_Expr l t) (Cast_Expr l' t)"
  by (simp_all add: same_expr_def)

lemma same_expr_column:
  assumes "agree_on N s s'" "n \<in> N" "column_of m s n = Ok k"
  shows "\<exists>k'. column_of m s' n = Ok k' \<and> same_expr N E s s' (Column_Expr k) (Column_Expr k')"
proof -
  obtain k' where k': "column_of m s' n = Ok k'" using column_of_Ok [of n s'] assms(1,2) unfolding agree_on_def by blast
  have "f_type (s_fields s' ! k') = f_type (s_fields s ! k)" "k < width s" "k' < width s'"
    using column_of_field [OF assms(3)] column_of_field [OF k'] assms(1,2) by (auto simp: agree_on_def)
  moreover have "idx r' k' = idx r k" if "same_on N s s' r r'" for r r'
    using that assms(2,3) k' column_of_msg [of m _ n _ "[]"] by (auto simp: same_on_def column_value_def)
  ultimately show ?thesis using k' by (simp add: same_expr_def)
qed

text \<open>The shapes of expressions, as the lowering, the typing and the column extraction see them.\<close>

definition binary_node :: "(phys_expr \<Rightarrow> phys_expr \<Rightarrow> phys_expr) \<Rightarrow> LogicalExpr \<Rightarrow> LogicalExpr \<Rightarrow> LogicalExpr \<Rightarrow> bool" where
  "binary_node f e l r =
     ((\<forall>s. create_physical_expr s e = both f (create_physical_expr s l) (create_physical_expr s r))
      \<and> (\<forall>E i acc. extract_columns E i e acc = and_then (extract_columns E i l acc) (extract_columns E i r))
      \<and> expr_columns e = expr_columns l \<union> expr_columns r \<and> by_name e = (by_name l \<and> by_name r)
      \<and> (\<forall>E s s'. to_field E s l = to_field E s' l \<longrightarrow> to_field E s e = to_field E s' e)
      \<and> f \<in> {Date_Subtract_Interval, Date_Add_Interval} \<union> range Math_Expr \<union> range Boolean_Expr)"

definition literal_node :: "LogicalExpr \<Rightarrow> phys_expr \<Rightarrow> bool" where
  "literal_node e c = ((\<forall>s. create_physical_expr s e = Ok c) \<and> (\<forall>N E s s'. same_expr N E s s' c c)
      \<and> (\<forall>E i acc. extract_columns E i e acc = Ok acc) \<and> expr_columns e = {} \<and> by_name e
      \<and> (\<forall>E s s'. to_field E s e = to_field E s' e))"

lemma expr_shapes [case_names binary literal cast aliased column index unsupported]:
  assumes binary: "\<And>f e l r. binary_node f e l r \<Longrightarrow> P l \<Longrightarrow> P r \<Longrightarrow> P e"
    and literal: "\<And>e c. literal_node e c \<Longrightarrow> P e"
    and cast: "\<And>e t. P e \<Longrightarrow> P (L_Cast e t)" and aliased: "\<And>e a. P e \<Longrightarrow> P (L_Alias e a)"
    and column: "\<And>n. P (Column n)" and index: "\<And>i. P (ColumnIndex i)"
    and unsupported: "\<And>e. (\<And>s. \<not> is_ok (create_physical_expr s e)) \<Longrightarrow> P e"
  shows "P e"
proof -
  note bin = binary [OF binary_node_def [THEN iffD2]] and lit = literal [OF literal_node_def [THEN iffD2]]
  show ?thesis
  proof (induction e rule: LogicalExpr.induct [of P "\<lambda>_. True"])
    case (LiteralString t)
    show ?case by (rule lit [of _ "Literal_String t"]) auto
  next
    case (LiteralLong t)
    show ?case by (rule lit [of _ "Literal_Long t"]) auto
  next
    case (LiteralDouble t)
    show ?case by (rule lit [of _ "Literal_Double t"]) auto
  next
    case (LiteralDate t)
    show ?case by (rule lit [of _ "Literal_Date (days_since_unix_epoch t)"]) auto
  next
    case (LiteralIntervalDays t)
    show ?case by (rule lit [of _ "Literal_Interval_Days t"]) auto
  next
    case (L_DateSubtract l r)
    show ?case by (rule bin [OF _ L_DateSubtract]) auto
  next
    case (L_DateAdd l r)
    show ?case by (rule bin [OF _ L_DateAdd]) auto
  next
    case (L_Eq l r)
    show ?case by (rule bin [OF _ L_Eq]) auto
  next
    case (L_Neq l r)
    show ?case by (rule bin [OF _ L_Neq]) auto
  next
    case (L_Gt l r)
    show ?case by (rule bin [OF _ L_Gt]) auto
  next
    case (L_GtEq l r)
    show ?case by (rule bin [OF _ L_GtEq]) auto
  next
    case (L_Lt l r)
    show ?case by (rule bin [OF _ L_Lt]) auto
  next
    case (L_LtEq l r)
    show ?case by (rule bin [OF _ L_LtEq]) auto
  next
    case (L_And l r)
    show ?case by (rule bin [OF _ L_And]) auto
  next
    case (L_Or l r)
    show ?case by (rule bin [OF _ L_Or]) auto
  next
    case (L_Add l r)
    show ?case by (rule bin [OF _ L_Add]) auto
  next
    case (L_Subtract l r)
    show ?case by (rule bin [OF _ L_Subtract]) auto
  next
    case (L_Multiply l r)
    show ?case by (rule bin [OF _ L_Multiply]) auto
  next
    case (L_Divide l r)
    show ?case by (rule bin [OF _ L_Divide]) auto
  qed (auto intro: cast aliased column index unsupported)
qed

lemma binary_nodeD:
  assumes "binary_node f e l r"
  shows "create_physical_expr s e = Ok pe \<longleftrightarrow> (\<exists>a b. create_physical_expr s l = Ok a \<and> create_physical_expr s r = Ok b \<and> pe = f a b)"
    "extract_columns E i e acc = and_then (extract_columns E i l acc) (extract_columns E i r)"
    "expr_columns e = expr_columns l \<union> expr_columns r" "by_name e \<longleftrightarrow> by_name l \<and> by_name r"
    "to_field E q l = to_field E q' l \<Longrightarrow> to_field E q e = to_field E q' e"
proof -
  have "create_physical_expr s e = both f (create_physical_expr s l) (create_physical_expr s r)"
    using assms unfolding binary_node_def by blast
  then show "create_physical_expr s e = Ok pe \<longleftrightarrow> (\<exists>a b. create_physical_expr s l = Ok a \<and> create_physical_expr s r = Ok b \<and> pe = f a b)"
    by (simp only: both_eq_Ok)
qed (use assms in \<open>unfold binary_node_def, blast+\<close>)

lemma binary_same_expr:
  "binary_node f e l r \<Longrightarrow> same_expr N E s s' a a' \<Longrightarrow> same_expr N E s s' b b' \<Longrightarrow> same_expr N E s s' (f a b) (f a' b')"
  unfolding binary_node_def by auto

lemma binary_type:
  "binary_node f e l r \<Longrightarrow> expr_type ts (f a b) = Some t \<Longrightarrow> expr_type ts a \<noteq> None \<and> expr_type ts b \<noteq> None"
  unfolding binary_node_def by (auto simp: opt2_Some)

section \<open>Lowering, typing and extraction under pruning\<close>

lemma lower_transfer:
  assumes "agree_on N s s'"
  shows "create_physical_expr (Ok s) e = Ok pe \<Longrightarrow> by_name e \<Longrightarrow> expr_columns e \<subseteq> N \<Longrightarrow>
     (\<exists>pe'. create_physical_expr (Ok s') e = Ok pe' \<and> same_expr N E s s' pe pe') \<and> to_field E (Ok s') e = to_field E (Ok s) e"
proof (induction e arbitrary: pe rule: expr_shapes)
  case (binary f e l r)
  note d = binary_nodeD [OF binary.hyps]
  obtain a b where ab: "create_physical_expr (Ok s) l = Ok a" "create_physical_expr (Ok s) r = Ok b" "pe = f a b"
    using binary.prems(1) d(1) by blast
  have l: "by_name l" "expr_columns l \<subseteq> N" and r: "by_name r" "expr_columns r \<subseteq> N"
    using binary.prems(2,3) d(3,4) by auto
  obtain a' b' where "create_physical_expr (Ok s') l = Ok a'" "create_physical_expr (Ok s') r = Ok b'"
    "same_expr N E s s' a a'" "same_expr N E s s' b b'"
    using binary.IH(1) [OF ab(1) l] binary.IH(2) [OF ab(2) r] by blast
  then have "\<exists>pe'. create_physical_expr (Ok s') e = Ok pe' \<and> same_expr N E s s' pe pe'"
    unfolding d(1) ab(3) using binary_same_expr [OF binary.hyps] by blast
  then show ?case using d(5) binary.IH(1) [OF ab(1) l] by blast
next
  case (literal e c)
  then show ?case by (auto simp: literal_node_def)
next
  case (cast e t)
  then obtain x where x: "create_physical_expr (Ok s) e = Ok x" "pe = Cast_Expr x t" by (auto simp: map_res_eq_Ok)
  moreover obtain x' where "create_physical_expr (Ok s') e = Ok x'" "same_expr N E s s' x x'"
    using cast.IH [OF x(1)] cast.prems by auto
  ultimately show ?case using cast.IH [OF x(1)] cast.prems same_expr_node(5) by simp
next
  case (aliased e a)
  then show ?case by simp
next
  case (column n)
  have n: "n \<in> N" using column(3) by simp
  obtain k where k: "column_of ''No column named'' s n = Ok k" "pe = Column_Expr k" using column(1) by (auto simp: map_res_eq_Ok)
  obtain k' where k': "column_of ''No column named'' s' n = Ok k'" "same_expr N E s s' pe (Column_Expr k')"
    unfolding k(2) using same_expr_column [OF assms n k(1), of E] by blast
  have "find (\<lambda>f. f_name f = n) (s_fields s') = find (\<lambda>f. f_name f = n) (s_fields s)"
    using assms n unfolding agree_on_def field_named_def by blast
  then show ?case using k' by (simp add: find_field_def)
next
  case (unsupported e)
  then show ?case using is_ok_simps(1) by metis
qed simp

lemma extract_columns_collects:
  "create_physical_expr (Ok s) e = Ok pe \<Longrightarrow> extract_columns E i e acc = Ok acc' \<Longrightarrow> acc \<union> expr_columns e \<subseteq> acc'"
proof (induction e arbitrary: pe acc acc' rule: expr_shapes)
  case (binary f e l r)
  note d = binary_nodeD [OF binary.hyps]
  obtain a b where ab: "create_physical_expr (Ok s) l = Ok a" "create_physical_expr (Ok s) r = Ok b"
    using binary.prems(1) d(1) by blast
  obtain x where "extract_columns E i l acc = Ok x" "extract_columns E i r x = Ok acc'"
    using binary.prems(2) unfolding d(2) by (auto simp: and_then_eq_Ok)
  then show ?case unfolding d(3) using binary.IH(1) [OF ab(1)] binary.IH(2) [OF ab(2)] by blast
next
  case (literal e c)
  then show ?case by (auto simp: literal_node_def)
next
  case (cast e t)
  then obtain x where x: "create_physical_expr (Ok s) e = Ok x" by (auto simp: map_res_eq_Ok)
  show ?case using cast.IH [OF x] cast.prems(2) by simp
next
  case (index k)
  then show ?case by (auto simp: and_then_eq_Ok map_res_eq_Ok)
next
  case (unsupported e)
  then show ?case using is_ok_simps(1) by metis
qed auto

lemma extract_columns_ok:
  assumes "plan_schema E i = Ok s"
  shows "create_physical_expr (Ok s) e = Ok pe \<Longrightarrow> expr_type (col_types s) pe \<noteq> None \<Longrightarrow>
     \<exists>acc'. extract_columns E i e acc = Ok acc'"
proof (induction e arbitrary: pe acc rule: expr_shapes)
  case (binary f e l r)
  note d = binary_nodeD [OF binary.hyps]
  obtain a b where ab: "create_physical_expr (Ok s) l = Ok a" "create_physical_expr (Ok s) r = Ok b" "pe = f a b"
    using binary.prems(1) d(1) by blast
  have "expr_type (col_types s) a \<noteq> None" "expr_type (col_types s) b \<noteq> None"
    using binary.prems(2) binary_type [OF binary.hyps] unfolding ab(3) by blast+
  then have r: "\<exists>acc'. extract_columns E i r acc = Ok acc'" for acc using binary.IH(2) [OF ab(2)] by blast
  obtain x where "extract_columns E i l acc = Ok x" using binary.IH(1) [OF ab(1)] \<open>expr_type (col_types s) a \<noteq> None\<close> by blast
  then show ?case unfolding d(2) using r by simp
next
  case (literal e c)
  then show ?case by (auto simp: literal_node_def)
next
  case (cast e t)
  then obtain x where x: "create_physical_expr (Ok s) e = Ok x" "pe = Cast_Expr x t" by (auto simp: map_res_eq_Ok)
  have "expr_type (col_types s) x \<noteq> None" using cast.prems(2) unfolding x(2) by (auto split: option.splits)
  then show ?case using cast.IH [OF x(1)] by simp
next
  case (index k)
  then show ?case using assms by (auto simp: idx_def split: if_splits)
next
  case (unsupported e)
  then show ?case using is_ok_simps(1) by metis
qed auto

lemma lowered_columns: "create_physical_expr (Ok s) e = Ok pe \<Longrightarrow> expr_columns e \<subseteq> set (col_names s)"
proof (induction e arbitrary: pe rule: expr_shapes)
  case (binary f e l r)
  note d = binary_nodeD [OF binary.hyps]
  obtain a b where ab: "create_physical_expr (Ok s) l = Ok a" "create_physical_expr (Ok s) r = Ok b"
    using binary.prems(1) d(1) by blast
  then show ?case unfolding d(3) using binary.IH by blast
next
  case (literal e c)
  then show ?case by (auto simp: literal_node_def)
next
  case (column n)
  then obtain k where "column_of ''No column named'' s n = Ok k" by (auto simp: map_res_eq_Ok)
  then have "k < width s" "f_name (s_fields s ! k) = n" by (auto simp: column_of_def expect_eq_Ok dest: position_Some)
  then show ?case by auto
next
  case (unsupported e)
  then show ?case using is_ok_simps(1) by metis
qed (auto simp: map_res_eq_Ok)

lemma lower_exists:
  "create_physical_expr (Ok s) e = Ok pe \<Longrightarrow> by_name e \<Longrightarrow> expr_columns e \<subseteq> set (col_names s') \<Longrightarrow>
     \<exists>pe'. create_physical_expr (Ok s') e = Ok pe'"
proof (induction e arbitrary: pe rule: expr_shapes)
  case (binary f e l r)
  note d = binary_nodeD [OF binary.hyps]
  then show ?case using binary unfolding d(1,3,4) by blast
next
  case (literal e c)
  then show ?case by (auto simp: literal_node_def)
next
  case (cast e t)
  then obtain x where "create_physical_expr (Ok s) e = Ok x" by (auto simp: map_res_eq_Ok)
  then show ?case using cast by (fastforce simp: map_res_eq_Ok)
next
  case (column n)
  then show ?case using column_of_Ok [of n s'] by (fastforce simp: map_res_eq_Ok)
next
  case (unsupported e)
  then show ?case using is_ok_simps(1) by metis
qed simp_all

section \<open>Pruned plans\<close>

text \<open>A plan is stable when its schema does not depend on what its scans read: on the way down
  to the scan there is a projection or an aggregate.\<close>

fun stable :: "LogicalPlan \<Rightarrow> bool" where
  "stable (Projection i es) = True"
| "stable (Aggregate i gs as) = True"
| "stable (Selection i e) = stable i"
| "stable (Limit i n) = stable i"
| "stable p = False"

definition admissible :: "LogicalPlan \<Rightarrow> LogicalExpr \<Rightarrow> bool" where
  "admissible i e = (stable i \<or> by_name e)"

text \<open>The plans the rule is right for: scans of whole tables with distinct column names, joins on
  at least one key whose sides and output have distinct column names, and columns by position
  only above a projection or an aggregate.\<close>

fun optimizable :: "env \<Rightarrow> LogicalPlan \<Rightarrow> bool" where
  "optimizable E (Scan path ds ns s) = (ns = [] \<and> distinct (col_names s) \<and> (\<exists>bs. source_ok E ds s bs))"
| "optimizable E (Selection i e) = (admissible i e \<and> optimizable E i)"
| "optimizable E (Projection i es) = (list_all (admissible i) es \<and> optimizable E i)"
| "optimizable E (Limit i n) = optimizable E i"
| "optimizable E (Aggregate i gs as) = (list_all (admissible i) (gs @ List.map aggregate_inner as) \<and> optimizable E i)"
| "optimizable E (Join l r jt ons) = (ons \<noteq> [] \<and> distinct (col_names (schema_of E (Join l r jt ons)))
     \<and> distinct (col_names (schema_of E l)) \<and> distinct (col_names (schema_of E r)) \<and> optimizable E l \<and> optimizable E r)"

definition pruned :: "env \<Rightarrow> string set \<Rightarrow> LogicalPlan \<Rightarrow> LogicalPlan \<Rightarrow> (ScalarValue list \<Rightarrow> ScalarValue list) \<Rightarrow> bool" where
  "pruned E C p p' f = (agree (schema_of E p) (schema_of E p')
     \<and> C \<inter> set (col_names (schema_of E p)) \<subseteq> set (col_names (schema_of E p'))
     \<and> results E p' = List.map f ` results E p
     \<and> (\<forall>R\<in>results E p. \<forall>r\<in>set R. same_columns (schema_of E p) (schema_of E p') r (f r))
     \<and> (distinct (col_names (schema_of E p)) \<longrightarrow> distinct (col_names (schema_of E p')))
     \<and> (stable p \<longrightarrow> schema_of E p' = schema_of E p \<and> f = id))"

lemma prunedD:
  assumes "pruned E C p p' f"
  shows "agree (schema_of E p) (schema_of E p')"
    "C \<inter> set (col_names (schema_of E p)) \<subseteq> set (col_names (schema_of E p'))"
    "results E p' = List.map f ` results E p"
    "\<And>R r. R \<in> results E p \<Longrightarrow> r \<in> set R \<Longrightarrow> same_columns (schema_of E p) (schema_of E p') r (f r)"
    "stable p \<Longrightarrow> schema_of E p' = schema_of E p \<and> f = id"
    "distinct (col_names (schema_of E p)) \<Longrightarrow> distinct (col_names (schema_of E p'))"
  using assms unfolding pruned_def by blast+

lemma pruned_value:
  assumes "plan_ok E i" "plan_ok E i'" "pruned E C i i' f" "well_typed E i e t" "admissible i e" "expr_columns e \<subseteq> C"
  shows "well_typed E i' e t" "to_field E (plan_schema E i') e = to_field E (plan_schema E i) e"
    "\<And>R r. R \<in> results E i \<Longrightarrow> r \<in> set R \<Longrightarrow> value_on E i' e (f r) = value_on E i e r"
proof -
  note s = plan_ok_schema [OF assms(1)] and s' = plan_ok_schema [OF assms(2)]
  have "well_typed E i' e t \<and> to_field E (plan_schema E i') e = to_field E (plan_schema E i) e
     \<and> (\<forall>R\<in>results E i. \<forall>r\<in>set R. value_on E i' e (f r) = value_on E i e r)"
  proof (cases "stable i")
    case True
    then have eq: "plan_schema E i' = plan_schema E i" "f = id" using prunedD(5) [OF assms(3)] s s' by auto
    then show ?thesis using assms(4) by (simp add: well_typed_def value_on_def schema_of_def)
  next
    case False
    then have bn: "by_name e" using assms(5) by (simp add: admissible_def)
    note w = well_typedD [OF assms(1,4)]
    have cols: "expr_columns e \<subseteq> set (col_names (schema_of E i'))"
      using lowered_columns [OF w(1)] assms(6) prunedD(2) [OF assms(3)] by blast
    obtain pe' where pe': "create_physical_expr (Ok (schema_of E i')) e = Ok pe'"
      "same_expr (set (col_names (schema_of E i'))) E (schema_of E i) (schema_of E i') (lowered E i e) pe'"
      and fld: "to_field E (Ok (schema_of E i')) e = to_field E (Ok (schema_of E i)) e"
      using lower_transfer [OF prunedD(1) [OF assms(3)] w(1) bn cols, of E] by blast
    have low: "lowered E i' e = pe'" using pe'(1) s' by (simp add: lowered_def)
    have wt: "well_typed E i' e t"
      using pe'(2) w(2) lower_type [OF pe'(1)] by (simp add: well_typed_iff [OF assms(2)] same_expr_def)
    have "value_on E i' e (f r) = value_on E i e r" if "R \<in> results E i" "r \<in> set R" for R r
      using pe'(2) prunedD(4) [OF assms(3) that]
      unfolding value_on_eval [OF assms(2) wt, symmetric] value_on_eval [OF assms(1,4), symmetric] low same_expr_def by blast
    with wt show ?thesis using fld s s' by simp
  qed
  then show "well_typed E i' e t" "to_field E (plan_schema E i') e = to_field E (plan_schema E i) e"
    "\<And>R r. R \<in> results E i \<Longrightarrow> r \<in> set R \<Longrightarrow> value_on E i' e (f r) = value_on E i e r" by blast+
qed

lemma pruned_evaluates:
  assumes "plan_ok E i" "plan_ok E i'" "pruned E C i i' f" "\<forall>e\<in>set es. (\<exists>t. well_typed E i e t) \<and> admissible i e \<and> expr_columns e \<subseteq> C"
    "evaluates E i es"
  shows "evaluates E i' es"
  unfolding evaluates_def prunedD(3) [OF assms(3)]
proof (intro ballI)
  fix R' r' e assume "R' \<in> List.map f ` results E i" "r' \<in> set R'" "e \<in> set es"
  then obtain R r where r: "R \<in> results E i" "r \<in> set R" "r' = f r" by auto
  obtain t where t: "well_typed E i e t" "admissible i e" "expr_columns e \<subseteq> C" using assms(4) \<open>e \<in> set es\<close> by blast
  have "value_on E i' e r' = value_on E i e r"
    unfolding r(3) using pruned_value(3) [OF assms(1-3) t r(1,2)] .
  then show "is_ok (value_on E i' e r')" using assms(5) r \<open>e \<in> set es\<close> by (simp add: evaluates_def)
qed

lemma extract_list_ok:
  assumes "plan_ok E i" "\<forall>e\<in>set es. \<exists>t. well_typed E i e t"
  shows "\<exists>acc'. extract_columns_list E i es acc = Ok acc' \<and> acc \<subseteq> acc' \<and> (\<forall>e\<in>set es. expr_columns e \<subseteq> acc')"
  using assms(2)
proof (induction es arbitrary: acc)
  case Nil
  show ?case by (simp add: extract_columns_list_def)
next
  case (Cons e es)
  obtain t where t: "well_typed E i e t" using Cons.prems by auto
  note w = well_typedD [OF assms(1) t]
  have "expr_type (col_types (schema_of E i)) (lowered E i e) \<noteq> None" using w(2) by simp
  then obtain a where a: "extract_columns E i e acc = Ok a"
    using extract_columns_ok [OF plan_ok_schema [OF assms(1)] w(1)] by blast
  have "\<forall>e\<in>set es. \<exists>t. well_typed E i e t" using Cons.prems by simp
  from Cons.IH [OF this, of a] obtain acc' where "extract_columns_list E i es a = Ok acc'" "a \<subseteq> acc'"
    "\<forall>e\<in>set es. expr_columns e \<subseteq> acc'" by blast
  then show ?case using a extract_columns_collects [OF w(1) a] by (auto simp: extract_columns_list_def)
qed

definition pushes :: "env \<Rightarrow> string set \<Rightarrow> LogicalPlan \<Rightarrow> bool" where
  "pushes E C p = (\<exists>p' C' f. push_down E p C = Ok (p', C') \<and> plan_ok E p' \<and> pruned E C p p' f)"

lemma selection_eq: "(\<And>r. r \<in> set R \<Longrightarrow> P' (f r) = P r) \<Longrightarrow> List.filter P' (List.map f R) = List.map f (List.filter P R)"
  by (induction R) auto

lemma pushes_selection:
  assumes "plan_ok E i" "well_typed E i e T_Boolean" "evaluates E i [e]" "admissible i e" "\<And>C. pushes E C i"
  shows "pushes E C (Selection i e)"
proof -
  obtain C1 where c: "extract_columns_list E i [e] C = Ok C1" "C \<subseteq> C1" "expr_columns e \<subseteq> C1"
    using extract_list_ok [OF assms(1), of "[e]" C] assms(2) by auto
  obtain i' C2 f where i': "push_down E i C1 = Ok (i', C2)" "plan_ok E i'" "pruned E C1 i i' f"
    using assms(5) unfolding pushes_def by blast
  note v = pruned_value [OF assms(1) i'(2,3) assms(2,4) c(3)]
  have "plan_ok E (Selection i' e)"
    by (rule plan_ok.selection [OF i'(2) v(1)])
      (rule pruned_evaluates [OF assms(1) i'(2,3) _ assms(3)], use assms(2,4) c(3) in auto)
  moreover have "pruned E C (Selection i e) (Selection i' e) f"
  proof -
    have s: "schema_of E (Selection i e) = schema_of E i" for i by (simp add: schema_of_def)
    let ?P = "\<lambda>i r. value_on E i e r = Ok (V_Boolean True)"
    have "List.filter (?P i') (List.map f R) = List.map f (List.filter (?P i) R)" if "R \<in> results E i" for R
      by (rule selection_eq) (use v(3) [OF that] in simp)
    then have "results E (Selection i' e) = List.map f ` results E (Selection i e)"
      unfolding results.simps prunedD(3) [OF i'(3)] image_image by (rule image_cong [OF refl])
    then show ?thesis using prunedD [OF i'(3)] c(2) unfolding pruned_def s by fastforce
  qed
  moreover have "push_down E (Selection i e) C = Ok (Selection i' e, C2)" using c(1) i'(1) by (simp add: extract_columns_list_def)
  ultimately show ?thesis unfolding pushes_def by blast
qed

lemma pushes_limit:
  assumes "\<And>C. pushes E C i"
  shows "pushes E C (Limit i n)"
proof -
  obtain i' C2 f where i': "push_down E i C = Ok (i', C2)" "plan_ok E i'" "pruned E C i i' f"
    using assms unfolding pushes_def by blast
  have s: "schema_of E (Limit i n) = schema_of E i" for i by (simp add: schema_of_def)
  have "results E (Limit i' n) = List.map f ` results E (Limit i n)"
    unfolding results.simps prunedD(3) [OF i'(3)] image_image by (rule image_cong) (simp_all add: take_map)
  moreover have "R \<in> results E (Limit i n) \<Longrightarrow> r \<in> set R \<Longrightarrow> same_columns (schema_of E i) (schema_of E i') r (f r)" for R r
    using prunedD(4) [OF i'(3)] by (auto dest: in_set_takeD)
  ultimately have "pruned E C (Limit i n) (Limit i' n) f"
    using prunedD(1,2,5,6) [OF i'(3)] unfolding pruned_def s by simp
  moreover have "push_down E (Limit i n) C = Ok (Limit i' n, C2)" using i'(1) by simp
  ultimately show ?thesis using plan_ok.limit [OF i'(2)] unfolding pushes_def by blast
qed

lemma pruned_same:
  "schema_of E p' = schema_of E p \<Longrightarrow> results E p' = results E p \<Longrightarrow> pruned E C p p' id"
  by (auto simp: pruned_def agree_on_def same_on_def)

lemma pushes_projection:
  assumes "plan_ok E i" "es \<noteq> []" "traverse (to_field E (plan_schema E i)) es = Ok fs"
    "list_all2 (\<lambda>e f. well_typed E i e (f_type f)) es fs" "evaluates E i es" "list_all (admissible i) es" "\<And>C. pushes E C i"
  shows "pushes E C (Projection i es)"
proof -
  have ty: "\<forall>e\<in>set es. \<exists>t. well_typed E i e t" using assms(4) by (fastforce simp: list_all2_conv_all_nth in_set_conv_nth)
  obtain C1 where c: "extract_columns_list E i es C = Ok C1" "C \<subseteq> C1" "\<forall>e\<in>set es. expr_columns e \<subseteq> C1"
    using extract_list_ok [OF assms(1) ty, of C] by blast
  obtain i' C2 f where i': "push_down E i C1 = Ok (i', C2)" "plan_ok E i'" "pruned E C1 i i' f"
    using assms(7) unfolding pushes_def by blast
  have each: "\<forall>e\<in>set es. (\<exists>t. well_typed E i e t) \<and> admissible i e \<and> expr_columns e \<subseteq> C1"
    using ty assms(6) c(3) by (auto simp: list_all_iff)
  note v = pruned_value [OF assms(1) i'(2,3)]
  have fs: "traverse (to_field E (plan_schema E i')) es = Ok fs"
    using assms(3) each v(2) by (metis (no_types, lifting) traverse_cong)
  have "list_all2 (\<lambda>e f. well_typed E i' e (f_type f)) es fs"
    using assms(4) each v(1) by (simp add: list_all2_conv_all_nth)
  then have ok: "plan_ok E (Projection i' es)"
    by (rule plan_ok.projection [OF i'(2) assms(2) fs]) (rule pruned_evaluates [OF assms(1) i'(2,3) each assms(5)])
  have "List.map (\<lambda>e. the_ok (value_on E i' e (f r))) es = List.map (\<lambda>e. the_ok (value_on E i e r)) es"
    if "R \<in> results E i" "r \<in> set R" for R r
    using each v(3) that by (auto intro!: arg_cong [where f = the_ok])
  then have "results E (Projection i' es) = results E (Projection i es)"
    unfolding results.simps prunedD(3) [OF i'(3)] image_image by (intro image_cong) auto
  then have "pruned E C (Projection i es) (Projection i' es) id"
    by (intro pruned_same) (simp_all add: schema_of_def fs assms(3))
  moreover have "push_down E (Projection i es) C = Ok (Projection i' es, C2)" using c(1) i'(1) by simp
  ultimately show ?thesis using ok unfolding pushes_def by blast
qed

lemma extract_list_append:
  "extract_columns_list E i (xs @ ys) acc = and_then (extract_columns_list E i xs acc) (extract_columns_list E i ys)"
proof -
  have "extract_columns_list E i ys = (\<lambda>acc. fold_res (\<lambda>acc e. extract_columns E i e acc) acc ys)"
    by (simp add: extract_columns_list_def fun_eq_iff)
  then show ?thesis by (simp add: extract_columns_list_def fold_res_append)
qed

lemma aggr_transfer:
  assumes "plan_ok E i" "plan_ok E i'" "pruned E C i i' f"
    "well_typed E i (aggregate_inner a) t" "admissible i (aggregate_inner a)" "expr_columns (aggregate_inner a) \<subseteq> C"
  shows "aggr_to_field E (plan_schema E i') a = aggr_to_field E (plan_schema E i) a"
  using pruned_value(2) [OF assms] by (cases a) (auto simp: aggregate_inner_def)

lemma traverse_eq: "(\<And>x. x \<in> set xs \<Longrightarrow> f x = g x) \<Longrightarrow> traverse f xs = traverse g xs"
  by (rule traverse_cong) auto

lemma group_results_pruned:
  assumes "plan_ok E i" "plan_ok E i'" "pruned E C i i' f" "R \<in> results E i"
    "\<forall>e\<in>set (gs @ List.map aggregate_inner as). (\<exists>t. well_typed E i e t) \<and> admissible i e \<and> expr_columns e \<subseteq> C"
  shows "group_results E i' gs as (List.map f R) k = group_results E i gs as R k"
    "keys_on E i' gs (List.map f R) = keys_on E i gs R"
proof -
  have val: "value_on E i' e (f r) = value_on E i e r" if "r \<in> set R" "e \<in> set (gs @ List.map aggregate_inner as)" for r e
    using pruned_value(3) [OF assms(1-3) _ _ _ assms(4) that(1)] assms(5) that(2) by blast
  then have key: "group_key E i' gs (f r) = group_key E i gs r" if "r \<in> set R" for r
    using that by (simp add: group_key_def)
  then have group: "group_of E i' gs (List.map f R) k = List.map f (group_of E i gs R k)"
    unfolding group_of_def by (intro selection_eq) simp
  have "List.map (\<lambda>r. the_ok (value_on E i' (aggregate_inner a) r)) (group_of E i' gs (List.map f R) k)
      = List.map (\<lambda>r. the_ok (value_on E i (aggregate_inner a) r)) (group_of E i gs R k)" if "a \<in> set as" for a
    using val that unfolding group by (simp add: group_of_def)
  then have "aggregate_result E i' gs (List.map f R) k a = aggregate_result E i gs R k a" if "a \<in> set as" for a
    using that unfolding aggregate_result_def by presburger
  then show "group_results E i' gs as (List.map f R) k = group_results E i gs as R k"
    unfolding group_results_def by (intro arg_cong [where f = "map_res ((@) k)"] traverse_eq)
  show "keys_on E i' gs (List.map f R) = keys_on E i gs R"
    unfolding keys_on_def set_map image_image by (intro image_cong refl key)
qed

lemma pushes_aggregate:
  assumes "plan_ok E i" "plan_schema E (Aggregate i gs as) = Ok s" "schema_ok s"
    "list_all (\<lambda>e. \<exists>t. well_typed E i e t) (gs @ List.map aggregate_inner as)"
    "list_all (\<lambda>a. function_of a \<noteq> None) as"
    "evaluates E i (gs @ List.map aggregate_inner as)"
    "\<forall>R\<in>results E i. \<forall>k\<in>keys_on E i gs R. \<exists>r. group_results E i gs as R k = Ok r \<and> row_fits (col_types s) r"
    "list_all (admissible i) (gs @ List.map aggregate_inner as)" "\<And>C. pushes E C i"
  shows "pushes E C (Aggregate i gs as)"
proof -
  let ?es = "gs @ List.map aggregate_inner as"
  have ty: "\<forall>e\<in>set ?es. \<exists>t. well_typed E i e t" using assms(4) by (simp add: list_all_iff)
  obtain C1 where c: "extract_columns_list E i ?es C = Ok C1" "C \<subseteq> C1" "\<forall>e\<in>set ?es. expr_columns e \<subseteq> C1"
    using extract_list_ok [OF assms(1) ty, of C] by blast
  obtain i' C2 f where i': "push_down E i C1 = Ok (i', C2)" "plan_ok E i'" "pruned E C1 i i' f"
    using assms(9) unfolding pushes_def by blast
  have each: "\<forall>e\<in>set ?es. (\<exists>t. well_typed E i e t) \<and> admissible i e \<and> expr_columns e \<subseteq> C1"
    using ty assms(8) c(3) by (simp add: list_all_iff)
  note v = pruned_value [OF assms(1) i'(2,3)]
  have tr: "aggr_to_field E (plan_schema E i') a = aggr_to_field E (plan_schema E i) a" if "a \<in> set as" for a
    using bspec [OF each, of "aggregate_inner a"] that aggr_transfer [OF assms(1) i'(2,3)] by auto
  have "traverse (to_field E (plan_schema E i')) gs = traverse (to_field E (plan_schema E i)) gs"
    by (rule traverse_eq) (use each v(2) in \<open>simp, blast\<close>)
  moreover have "traverse (aggr_to_field E (plan_schema E i')) as = traverse (aggr_to_field E (plan_schema E i)) as"
    by (rule traverse_eq) (rule tr)
  ultimately have s': "plan_schema E (Aggregate i' gs as) = Ok s" using assms(2) by simp
  note grp = group_results_pruned [OF assms(1) i'(2,3) _ each]
  have "list_all (\<lambda>e. \<exists>t. well_typed E i' e t) ?es" unfolding list_all_iff using each v(1) by blast
  moreover have "evaluates E i' ?es" by (rule pruned_evaluates [OF assms(1) i'(2,3) each assms(6)])
  moreover have "\<forall>R\<in>results E i'. \<forall>k\<in>keys_on E i' gs R. \<exists>r. group_results E i' gs as R k = Ok r \<and> row_fits (col_types s) r"
    unfolding prunedD(3) [OF i'(3)] using grp assms(7) by auto
  ultimately have ok: "plan_ok E (Aggregate i' gs as)" by (intro plan_ok.aggregate [OF i'(2) s' assms(3) _ assms(5)])
  have "results E (Aggregate i' gs as) = results E (Aggregate i gs as)"
  proof -
    have un: "results E (Aggregate i gs as) = (\<Union>R\<in>results E i. {List.map (\<lambda>k. the_ok (group_results E i gs as R k)) ks | ks.
        distinct ks \<and> set ks = keys_on E i gs R})" for i by auto
    show ?thesis unfolding un prunedD(3) [OF i'(3)] image_image UN_simps using grp by (intro SUP_cong) simp_all
  qed
  then have "pruned E C (Aggregate i gs as) (Aggregate i' gs as) id"
    by (intro pruned_same) (simp_all only: schema_of_def s' assms(2))
  moreover have "push_down E (Aggregate i gs as) C = Ok (Aggregate i' gs as, C2)"
    using c(1) i'(1) by (auto simp: extract_list_append and_then_eq_Ok)
  ultimately show ?thesis using ok unfolding pushes_def by blast
qed

text \<open>Scans.\<close>

lemma filter_name_single:
  "distinct (List.map f_name fs) \<Longrightarrow> f \<in> set fs \<Longrightarrow> List.filter (\<lambda>g. f_name g = f_name f) fs = [f]"
proof (induction fs)
  case (Cons g fs)
  show ?case
  proof (cases "f = g")
    case True
    have "f_name g \<notin> f_name ` set fs" using Cons.prems by simp
    then have "List.filter (\<lambda>h. f_name h = f_name g) fs = []" unfolding filter_empty_conv by (metis imageI)
    then show ?thesis using True by simp
  next
    case False
    then have "f \<in> set fs" "f_name g \<noteq> f_name f" using Cons.prems by auto
    then show ?thesis using Cons by simp
  qed
qed simp

lemma select_ok:
  assumes "distinct (col_names s)" "set ns \<subseteq> set (col_names s)"
  shows "\<exists>s'. select s ns = Ok s' \<and> set (s_fields s') \<subseteq> set (s_fields s)"
proof -
  have each: "\<exists>f. select_field s n = Ok f \<and> f \<in> set (s_fields s)" if n: "n \<in> set ns" for n
  proof -
    obtain f where f: "f \<in> set (s_fields s)" "f_name f = n" using assms(2) n by auto
    then have "select_field s n = Ok f"
      using filter_name_single [OF assms(1) f(1)] by (simp add: select_field_def)
    then show ?thesis using f(1) by blast
  qed
  then obtain g where g: "\<And>n. n \<in> set ns \<Longrightarrow> select_field s n = Ok (g n) \<and> g n \<in> set (s_fields s)" by metis
  then have "traverse (select_field s) ns = Ok (List.map g ns)" by (intro traverse_all_Ok) blast
  then show ?thesis using g by (auto simp: select_def new_schema_def)
qed

lemma field_named_unique:
  assumes "distinct (col_names s)" "f \<in> set (s_fields s)"
  shows "field_named s (f_name f) = Some f"
proof -
  obtain k where k: "position (\<lambda>g. f_name g = f_name f) (s_fields s) = Some k"
    using assms(2) position_None [of "\<lambda>g. f_name g = f_name f" "s_fields s"] by blast
  then have "s_fields s ! k \<in> set (s_fields s)" "f_name (s_fields s ! k) = f_name f" using position_Some by fastforce+
  then have "s_fields s ! k = f" using assms by (metis distinct_map inj_on_def)
  then show ?thesis using position_find [OF k] by (simp add: field_named_def)
qed

lemma select_agree:
  assumes "distinct (col_names s)" "select s ns = Ok s'" "set (s_fields s') \<subseteq> set (s_fields s)" "distinct ns"
  shows "agree s s'"
  unfolding agree_on_def
proof
  fix n assume n: "n \<in> set (col_names s')"
  then obtain f where f: "f \<in> set (s_fields s')" "f_name f = n" by auto
  have "distinct (col_names s')" using select_names [OF assms(2)] assms(4) by simp
  then have "field_named s' n = Some f" using field_named_unique [of s' f] f by simp
  moreover have "field_named s n = Some f" using field_named_unique [OF assms(1), of f] f assms(3) by auto
  ultimately show "n \<in> set (col_names s') \<and> field_named s' n = field_named s n" using n by simp
qed

lemma select_same_columns:
  assumes "select s ns = Ok s'" "length r = width s"
  shows "same_columns s s' r (List.map ((!) r) (names_positions s ns))"
  unfolding same_on_def
proof
  let ?ps = "names_positions s ns"
  fix n assume n: "n \<in> set (col_names s')"
  note cn = select_names [OF assms(1)]
  note p = names_positions_select [OF assms(1)]
  obtain k' where k': "column_of [] s' n = Ok k'" "k' < width s'" "f_name (s_fields s' ! k') = n"
    using column_of_Ok [OF n] by blast
  have nk: "ns ! k' = n" "k' < length ns" using k'(2,3) cn by (metis length_map nth_map)+
  have "column_position [] s (ns ! k') = Ok (?ps ! k')" by (rule traverse_nth [OF p(1) nk(2)])
  then have k: "column_of [] s n = Ok (?ps ! k')" using nk(1) by (simp add: column_of_def column_position_def)
  have "length ?ps = length ns" by (rule traverse_length [OF p(1)])
  moreover have "?ps ! k' < width s" using column_of_field [OF k] by blast
  ultimately show "column_value s' n (List.map ((!) r) ?ps) = column_value s n r"
    using k k'(1) nk(2) assms(2) by (simp add: column_value_def)
qed

lemma pushes_scan:
  assumes "ds_scan E ds [] = Ok (List.map Ok bs)" "list_all (typed s) bs" "derive_schema E ds [] = Ok s"
    "distinct (col_names s)" "source_ok E ds s' bs'"
  shows "pushes E C (Scan path ds [] s)"
proof -
  have so: "ds_schema E ds = Ok s'" "ds_scan E ds [] = Ok (List.map Ok bs')" using assms(5) unfolding source_ok_def by blast+
  have "List.map Ok bs' = List.map Ok bs" using so(2) assms(1) by simp
  then have bs': "bs' = bs" by (rule list.inj_map_strong [rotated]) simp
  have s': "s' = s" and sch: "ds_schema E ds = Ok s" using so(1) assms(3) by (simp_all add: derive_schema_def)
  let ?ns = "pushed_columns s C"
  have ns: "distinct ?ns" "set ?ns = C \<inter> set (col_names s)" using assms(4) by (auto simp: pushed_columns_def)
  have res: "results E (Scan path ds [] s) = {stream_rows bs}" using assms(1) by (simp add: comp_def)
  show ?thesis
  proof (cases "?ns = []")
    case True
    then have "push_down E (Scan path ds [] s) C = Ok (Scan path ds [] s, C)"
      using sch assms(3) by (simp add: scan_new_def)
    moreover have "pruned E C (Scan path ds [] s) (Scan path ds [] s) id" by (rule pruned_same) simp_all
    ultimately show ?thesis using plan_ok.scan [OF assms(1-3)] unfolding pushes_def by blast
  next
    case False
    obtain s1 where s1: "select s ?ns = Ok s1" "set (s_fields s1) \<subseteq> set (s_fields s)"
      using select_ok [OF assms(4)] ns(2) by blast
    have der: "derive_schema E ds ?ns = Ok s1" using False sch s1(1) by (simp add: derive_schema_def)
    let ?f = "\<lambda>r. List.map ((!) r) (names_positions s ?ns)"
    obtain cs where cs: "ds_scan E ds ?ns = Ok (List.map Ok cs)" "list_all (typed s1) cs"
      "stream_rows cs = List.map ?f (stream_rows bs)"
      using assms(5) False s1(1) unfolding source_ok_def s' bs' by blast
    have res1: "results E (Scan path ds ?ns s1) = {stream_rows cs}" using cs(1) by (simp add: comp_def)
    have len: "length r = width s" if "r \<in> set (stream_rows bs)" for r
      using row_fits_length [OF stream_row_fits [OF assms(2) that]] by simp
    have "pruned E C (Scan path ds [] s) (Scan path ds ?ns s1) ?f"
      unfolding pruned_def res res1 cs(3)
      using select_agree [OF assms(4) s1 ns(1)] select_names [OF s1(1)] ns select_same_columns [OF s1(1) len]
      by (simp add: schema_of_def)
    moreover have "push_down E (Scan path ds [] s) C = Ok (Scan path ds ?ns s1, C)"
      using sch der by (simp add: scan_new_def)
    ultimately show ?thesis using plan_ok.scan [OF cs(1,2) der] unfolding pushes_def by blast
  qed
qed

end
