(* ===== verification/Optimizer_Join.thy ===== *)
theory Optimizer_Join
  imports Optimizer_Props
begin

text \<open>
  Projection push-down below joins, and the correctness of the rule.  The pruned sides of a join
  hold fewer columns in another order; the join of the pruned rows is the joined row with the
  columns looked up by name.
\<close>

section \<open>Rows as association lists\<close>

definition named_cells :: "Schema \<Rightarrow> ScalarValue list \<Rightarrow> (string \<times> ScalarValue) list" where
  "named_cells s r = zip (col_names s) r"

definition pick_columns :: "Schema \<Rightarrow> Schema \<Rightarrow> ScalarValue list \<Rightarrow> ScalarValue list" where
  "pick_columns s s' r = List.map (\<lambda>n. the (map_of (named_cells s r) n)) (col_names s')"

lemma position_map_of:
  "length xs = length ys \<Longrightarrow>
     map_of (zip (List.map f xs) ys) n = map_option ((!) ys) (position (\<lambda>x. f x = n) xs)"
proof (induction xs ys rule: list_induct2)
  case (Cons x xs y ys)
  then show ?case by (cases "position (\<lambda>x. f x = n) xs") auto
qed simp

lemma column_value_map_of:
  assumes "length r = width s" "n \<in> set (col_names s)"
  shows "column_value s n r = Ok (the (map_of (named_cells s r) n))"
proof -
  obtain k where k: "position (\<lambda>f. f_name f = n) (s_fields s) = Some k"
    using assms(2) position_None [of "\<lambda>f. f_name f = n" "s_fields s"] by fastforce
  have "k < length r" using position_Some [OF k] assms(1) by simp
  then show ?thesis
    using k position_map_of [of "s_fields s" r f_name n] assms(1)
    by (simp add: column_value_def column_of_def named_cells_def idx_def)
qed

lemma pick_columns_length [simp]: "length (pick_columns s s' r) = width s'"
  by (simp add: pick_columns_def)

lemma map_of_zip_map: "n \<in> set ns \<Longrightarrow> map_of (zip ns (List.map g ns)) n = Some (g n)"
  by (induction ns) auto

lemma pick_columns_same:
  assumes "length r = width s" "set (col_names s') \<subseteq> set (col_names s)"
  shows "same_columns s s' r (pick_columns s s' r)"
  unfolding same_on_def
proof
  fix n assume n: "n \<in> set (col_names s')"
  then have "n \<in> set (col_names s)" using assms(2) by blast
  then show "column_value s' n (pick_columns s s' r) = column_value s n r"
    using n column_value_map_of [of "pick_columns s s' r" s' n] column_value_map_of [OF assms(1)]
      map_of_zip_map [OF n, of "\<lambda>n. the (map_of (named_cells s r) n)"]
    by (simp add: pick_columns_def named_cells_def)
qed

text \<open>When the names are distinct, this is the only row with the same values.\<close>

lemma pick_columns_unique:
  assumes "length r = width s" "set (col_names s') \<subseteq> set (col_names s)" "distinct (col_names s')"
    "length r' = width s'" "same_columns s s' r r'"
  shows "r' = pick_columns s s' r"
proof (rule nth_equalityI)
  show "length r' = length (pick_columns s s' r)" using assms(4) by simp
  fix i assume "i < length r'"
  then have i: "i < length (col_names s')" "i < length r'" using assms(4) by simp_all
  let ?n = "col_names s' ! i"
  have n: "?n \<in> set (col_names s')" "?n \<in> set (col_names s)" using i(1) assms(2) nth_mem by blast+
  have "map_of (named_cells s' r') ?n = Some (r' ! i)"
    unfolding named_cells_def using assms(3,4) i by (intro map_of_zip_nth) simp_all
  moreover have "the (map_of (named_cells s' r') ?n) = the (map_of (named_cells s r) ?n)"
  proof -
    have "column_value s' ?n r' = column_value s ?n r" using assms(5) n(1) unfolding same_on_def by blast
    then show ?thesis using column_value_map_of [OF assms(4) n(1)] column_value_map_of [OF assms(1) n(2)] by simp
  qed
  ultimately show "r' ! i = pick_columns s s' r ! i" using i(1) by (simp add: pick_columns_def)
qed

lemma pick_columns_null:
  assumes "set (col_names s') \<subseteq> set (col_names s)"
  shows "pick_columns s s' (replicate (width s) V_Null) = replicate (width s') V_Null"
proof (rule nth_equalityI)
  fix i assume "i < length (pick_columns s s' (replicate (width s) V_Null))"
  then have i: "i < length (col_names s')" by simp
  then have "col_names s' ! i \<in> set (col_names s)" using assms nth_mem by blast
  then obtain v where v: "map_of (named_cells s (replicate (width s) V_Null)) (col_names s' ! i) = Some v"
    using map_of_zip_is_Some [of "col_names s" "replicate (width s) V_Null"] by (auto simp: named_cells_def)
  moreover have "v = V_Null" using map_of_SomeD [OF v] by (auto simp: named_cells_def dest: set_zip_rightD)
  ultimately show "pick_columns s s' (replicate (width s) V_Null) ! i = replicate (width s') V_Null ! i"
    using i by (simp add: pick_columns_def)
qed simp

section \<open>Joined rows\<close>

abbreviation kept_names :: "(string \<times> string) list \<Rightarrow> string list \<Rightarrow> string list" where
  "kept_names ons \<equiv> List.filter (\<lambda>n. n \<notin> set (duplicate_keys ons))"

lemma zip_filter_fst:
  "length xs = length ys \<Longrightarrow> zip (List.filter P xs) (List.map snd (List.filter (\<lambda>(x, y). P x) (zip xs ys))) = List.filter (\<lambda>(x, y). P x) (zip xs ys)"
  by (induction xs ys rule: list_induct2) auto

lemma zip_filter_length: "length xs = length ys \<Longrightarrow> length (List.filter (\<lambda>(x, y). P x) (zip xs ys)) = length (List.filter P xs)"
  by (induction xs ys rule: list_induct2) auto

lemma join_names:
  assumes "jt = Right \<longrightarrow> duplicate_keys ons = []"
  shows "s_fields (join_schema jt ons sl sr) = s_fields sl @ drop_fields (duplicate_keys ons) (s_fields sr)"
    "col_names (join_schema jt ons sl sr) = col_names sl @ kept_names ons (col_names sr)"
  using assms by (cases jt; simp add: join_schema_def new_schema_def drop_fields_def filter_map comp_def)+

lemma combine_rows_named:
  assumes "length r = width sr"
  shows "combine_rows (excluded_columns ons sr) l r
    = l @ List.map snd (List.filter (\<lambda>(n, v). n \<notin> set (duplicate_keys ons)) (named_cells sr r))"
proof -
  have "enumerate 0 r = List.map (\<lambda>i. (i, r ! i)) [0..<width sr]"
    using assms by (intro nth_equalityI) (auto simp: nth_enumerate_eq)
  moreover have "named_cells sr r = List.map (\<lambda>i. (f_name (s_fields sr ! i), r ! i)) [0..<width sr]"
    unfolding named_cells_def using assms by (intro nth_equalityI) auto
  moreover have "List.filter (\<lambda>i. i \<notin> set (excluded_columns ons sr)) [0..<width sr]
      = List.filter (\<lambda>i. f_name (s_fields sr ! i) \<notin> set (duplicate_keys ons)) [0..<width sr]"
    by (rule filter_cong) (auto simp: excluded_columns_def)
  ultimately show ?thesis by (simp add: combine_rows_def filter_map comp_def)
qed

lemma combine_rows_length:
  assumes "jt = Right \<longrightarrow> duplicate_keys ons = []" "length l = width sl" "length r = width sr"
  shows "length (combine_rows (excluded_columns ons sr) l r) = width (join_schema jt ons sl sr)"
proof -
  have "length (List.filter (\<lambda>(n, v). n \<notin> set (duplicate_keys ons)) (named_cells sr r)) = length (kept_names ons (col_names sr))"
    unfolding named_cells_def by (rule zip_filter_length) (simp add: assms(3))
  moreover have "width (join_schema jt ons sl sr) = width sl + length (kept_names ons (col_names sr))"
    using arg_cong [OF join_names(2) [OF assms(1), of sl sr], of length] by simp
  ultimately show ?thesis using assms(2) unfolding combine_rows_named [OF assms(3)] by simp
qed

lemma named_cells_combine:
  assumes "jt = Right \<longrightarrow> duplicate_keys ons = []" "length l = width sl" "length r = width sr"
  shows "named_cells (join_schema jt ons sl sr) (combine_rows (excluded_columns ons sr) l r)
    = named_cells sl l @ List.filter (\<lambda>(n, v). n \<notin> set (duplicate_keys ons)) (named_cells sr r)"
proof -
  have "zip (kept_names ons (col_names sr)) (List.map snd (List.filter (\<lambda>(n, v). n \<notin> set (duplicate_keys ons)) (named_cells sr r)))
      = List.filter (\<lambda>(n, v). n \<notin> set (duplicate_keys ons)) (named_cells sr r)"
    unfolding named_cells_def by (rule zip_filter_fst) (simp add: assms(3))
  then show ?thesis
    unfolding combine_rows_named [OF assms(3)] named_cells_def [of "join_schema jt ons sl sr"] join_names(2) [OF assms(1)]
    using assms(2) by (simp add: named_cells_def)
qed

lemma map_of_filter_keys: "P n \<Longrightarrow> map_of (List.filter (\<lambda>(k, v). P k) kvs) n = map_of kvs n"
  by (induction kvs) auto

lemma pick_columns_combine:
  assumes "jt = Right \<longrightarrow> duplicate_keys ons = []" "length l = width sl" "length r = width sr"
    "set (col_names sl') \<subseteq> set (col_names sl)" "set (col_names sr') \<subseteq> set (col_names sr)"
    "distinct (col_names (join_schema jt ons sl sr))"
  shows "combine_rows (excluded_columns ons sr') (pick_columns sl sl' l) (pick_columns sr sr' r)
    = pick_columns (join_schema jt ons sl sr) (join_schema jt ons sl' sr') (combine_rows (excluded_columns ons sr) l r)"
proof -
  let ?A = "map_of (named_cells sl l)" and ?B = "map_of (named_cells sr r)"
    and ?J = "map_of (named_cells (join_schema jt ons sl sr) (combine_rows (excluded_columns ons sr) l r))"
  have dom: "dom ?A = set (col_names sl)" unfolding named_cells_def by (rule dom_map_of_zip) (simp add: assms(2))
  have left: "?J n = ?A n" if "n \<in> set (col_names sl')" for n
  proof -
    have "n \<in> dom ?A" using that assms(4) dom by blast
    then show ?thesis unfolding named_cells_combine [OF assms(1-3)] map_of_append
      by (auto simp: map_add_def split: option.split)
  qed
  have right: "?J n = ?B n" if "n \<in> set (col_names sr')" "n \<notin> set (duplicate_keys ons)" for n
  proof -
    have "n \<in> set (kept_names ons (col_names sr))" using that assms(5) by auto
    then have "n \<notin> dom ?A" using assms(6) dom unfolding join_names(2) [OF assms(1)] distinct_append by blast
    then show ?thesis using map_of_filter_keys [of "\<lambda>n. n \<notin> set (duplicate_keys ons)", OF that(2), of "named_cells sr r"]
      unfolding named_cells_combine [OF assms(1-3)] map_of_append
      by (simp add: map_add_def domIff split: option.split)
  qed
  have "named_cells sr' (pick_columns sr sr' r) = List.map (\<lambda>n. (n, the (?B n))) (col_names sr')"
    unfolding named_cells_def pick_columns_def by (intro nth_equalityI) auto
  then have "List.map snd (List.filter (\<lambda>(n, v). n \<notin> set (duplicate_keys ons)) (named_cells sr' (pick_columns sr sr' r)))
      = List.map (\<lambda>n. the (?B n)) (kept_names ons (col_names sr'))"
    by (simp add: filter_map comp_def)
  then show ?thesis
    unfolding combine_rows_named [OF pick_columns_length] pick_columns_def [of "join_schema jt ons sl sr"] join_names(2) [OF assms(1)]
    using left right by (simp add: pick_columns_def)
qed

section \<open>Joins of pruned rows\<close>

lemma join_key_named:
  assumes "length r = width s" "set ns \<subseteq> set (col_names s)"
  shows "join_key (names_positions s ns) r = List.map (\<lambda>n. the (map_of (named_cells s r) n)) ns"
proof -
  have each: "\<exists>k. column_of [] s n = Ok k \<and> r ! k = the (map_of (named_cells s r) n)" if "n \<in> set ns" for n
  proof -
    have n: "n \<in> set (col_names s)" using that assms(2) by blast
    then obtain k where k: "column_of [] s n = Ok k" "k < width s" using column_of_Ok by blast
    then show ?thesis using column_value_map_of [OF assms(1) n] assms(1) by (simp add: column_value_def idx_def)
  qed
  then obtain g where g: "\<And>n. n \<in> set ns \<Longrightarrow> column_of [] s n = Ok (g n) \<and> r ! g n = the (map_of (named_cells s r) n)" by metis
  then have "traverse (column_of [] s) ns = Ok (List.map g ns)" by (intro traverse_all_Ok) blast
  then show ?thesis using g by (simp add: names_positions_def join_key_def)
qed

lemma join_key_picked:
  assumes "length r = width s" "set (col_names s') \<subseteq> set (col_names s)" "set ns \<subseteq> set (col_names s')"
  shows "join_key (names_positions s' ns) (pick_columns s s' r) = join_key (names_positions s ns) r"
proof -
  have "the (map_of (named_cells s' (pick_columns s s' r)) n) = the (map_of (named_cells s r) n)" if "n \<in> set ns" for n
    using map_of_zip_map [of n "col_names s'" "\<lambda>n. the (map_of (named_cells s r) n)"] that assms(3)
    by (auto simp: named_cells_def pick_columns_def)
  then show ?thesis
    using assms(2,3) by (simp add: join_key_named [OF pick_columns_length assms(3)] join_key_named [OF assms(1)])
qed

lemma matches_map:
  "(\<And>r. r \<in> set R \<Longrightarrow> join_key rk' (f r) = join_key rk r) \<Longrightarrow> matches rk' k (List.map f R) = List.map f (matches rk k R)"
  unfolding matches_def by (rule selection_eq) simp

lemma nested_loop_map:
  assumes "\<And>l. l \<in> set L \<Longrightarrow> join_key lk' (f l) = join_key lk l" "\<And>r. r \<in> set R \<Longrightarrow> join_key rk' (g r) = join_key rk r"
    "\<And>l r. l \<in> set L \<Longrightarrow> r \<in> insert (replicate n V_Null) (set R) \<Longrightarrow> combine_rows ex' (f l) (g r) = h (combine_rows ex l r)"
    "g (replicate n V_Null) = replicate n' V_Null"
  shows "nested_loop jt lk' rk' ex' n' (List.map f L) (List.map g R) = List.map h (nested_loop jt lk rk ex n L R)"
proof -
  have sub: "set (matches rk k R) \<subseteq> set R" for k by (auto simp: matches_def)
  have m: "matches rk' k (List.map g R) = List.map g (matches rk k R)" for k by (rule matches_map) (rule assms(2))
  have "combine_rows ex' (f l) (replicate n' V_Null) = h (combine_rows ex l (replicate n V_Null))" if "l \<in> set L" for l
    using assms(3) [OF that, of "replicate n V_Null"] assms(4) by simp
  moreover have "List.map (combine_rows ex' (f l)) (matches rk' k (List.map g R)) = List.map h (List.map (combine_rows ex l) (matches rk k R))"
    if "l \<in> set L" for l k unfolding m using assms(3) [OF that] sub by auto
  ultimately show ?thesis
    unfolding nested_loop_def map_concat map_map comp_def
    by (intro arg_cong [where f = concat] map_cong [OF refl]) (simp add: assms(1) m)
qed

lemma unmatched_right_map:
  assumes "\<And>l. l \<in> set L \<Longrightarrow> join_key lk' (f l) = join_key lk l" "\<And>r. r \<in> set R \<Longrightarrow> join_key rk' (g r) = join_key rk r"
    "\<And>r. r \<in> set R \<Longrightarrow> combine_rows ex' (replicate n' V_Null) (g r) = h (combine_rows ex (replicate n V_Null) r)"
  shows "unmatched_right lk' rk' ex' n' (List.map f L) (List.map g R) = List.map h (unmatched_right lk rk ex n L R)"
proof -
  have "join_key lk' ` set (List.map f L) = join_key lk ` set L" using assms(1) by force
  then have "List.filter (\<lambda>r. join_key rk' r \<notin> join_key lk' ` set (List.map f L)) (List.map g R)
      = List.map g (List.filter (\<lambda>r. join_key rk r \<notin> join_key lk ` set L) R)"
    using assms(2) by (intro selection_eq) simp
  then show ?thesis unfolding unmatched_right_def using assms(3) by simp
qed

lemma nested_loop_rows:
  assumes "row \<in> set (nested_loop jt lk rk ex n L R)"
  shows "\<exists>l\<in>set L. \<exists>r\<in>insert (replicate n V_Null) (set R). row = combine_rows ex l r"
  using assms by (auto simp: nested_loop_def matches_def split: if_splits)

section \<open>The rows of a plan have the width of its schema\<close>

lemma join_schema_of:
  assumes "plan_ok E l" "plan_ok E r"
  shows "schema_of E (Join l r jt ons) = join_schema jt ons (schema_of E l) (schema_of E r)"
  unfolding schema_of_def [of E "Join l r jt ons"] using plan_ok_schema [OF assms(1)] plan_ok_schema [OF assms(2)] by simp

lemma results_width:
  assumes "plan_ok E p" "R \<in> results E p" "r \<in> set R"
  shows "length r = width (schema_of E p)"
  using assms
proof (induction arbitrary: R r rule: plan_ok.induct)
  case (scan ds ns bs s path)
  then have "r \<in> set (stream_rows bs)" by (simp add: comp_def)
  then show ?case using row_fits_length [OF stream_row_fits [OF scan.hyps(2)]] by (simp add: schema_of_def)
next
  case (selection i e)
  then show ?case by (auto simp: schema_of_def)
next
  case (projection i es fs)
  then show ?case using traverse_length [OF projection.hyps(3)] by (auto simp: schema_of_def new_schema_def)
next
  case (limit i n)
  then show ?case by (auto simp: schema_of_def dest: in_set_takeD)
next
  case (aggregate i gs as s)
  then obtain R' k where "R' \<in> results E i" "k \<in> keys_on E i gs R'" "r = the_ok (group_results E i gs as R' k)" by auto
  then have "row_fits (col_types s) r" using aggregate.hyps(7) by fastforce
  then show ?case using row_fits_length aggregate.hyps(2) by (fastforce simp: schema_of_def)
next
  case (join l r' ons jt)
  let ?sl = "schema_of E l" and ?sr = "schema_of E r'"
  let ?lk = "names_positions ?sl (List.map fst ons)" and ?rk = "names_positions ?sr (List.map snd ons)" and ?ex = "excluded_columns ons ?sr"
  obtain L Q um where q: "R = nested_loop jt ?lk ?rk ?ex (width ?sr) L Q @ um" "L \<in> results E l" "Q \<in> results E r'"
    "mset um = (if jt = Right then mset (unmatched_right ?lk ?rk ?ex (width ?sl) L Q) else {#})"
    using join.prems(1) by (auto simp: Let_def)
  have um: "set um \<subseteq> set (unmatched_right ?lk ?rk ?ex (width ?sl) L Q)"
    using arg_cong [OF q(4), of set_mset] by (simp split: if_splits)
  have "\<exists>x y. r = combine_rows ?ex x y \<and> length x = width ?sl \<and> length y = width ?sr"
  proof (cases "r \<in> set um")
    case True
    then obtain y where "y \<in> set Q" "r = combine_rows ?ex (replicate (width ?sl) V_Null) y"
      using um by (auto simp: unmatched_right_def)
    moreover have "length (replicate (width ?sl) V_Null) = width ?sl" by simp
    ultimately show ?thesis using join.IH(2) [OF q(3)] by blast
  next
    case False
    then have "r \<in> set (nested_loop jt ?lk ?rk ?ex (width ?sr) L Q)" using join.prems(2) q(1) by simp
    then obtain x y where "x \<in> set L" "y \<in> insert (replicate (width ?sr) V_Null) (set Q)" "r = combine_rows ?ex x y"
      using nested_loop_rows by blast
    moreover have "length y = width ?sr" using calculation(2) join.IH(2) [OF q(3)] by auto
    ultimately show ?thesis using join.IH(1) [OF q(2)] by blast
  qed
  then show ?case using combine_rows_length [OF join.hyps(6)] unfolding join_schema_of [OF join.hyps(1,2)] by blast
qed

section \<open>Pushing columns through a join\<close>

lemma extract_columns_mono: "extract_columns E i e acc = Ok acc' \<Longrightarrow> acc \<subseteq> acc'"
  by (induction E i e acc arbitrary: acc' rule: extract_columns.induct)
    (auto simp: and_then_eq_Ok map_res_eq_Ok subset_iff)

lemma extract_list_mono: "extract_columns_list E i es acc = Ok acc' \<Longrightarrow> acc \<subseteq> acc'"
  unfolding extract_columns_list_def
proof (induction es arbitrary: acc)
  case (Cons e es)
  then obtain a where "extract_columns E i e acc = Ok a" "fold_res (\<lambda>acc e. extract_columns E i e acc) a es = Ok acc'"
    by (auto simp: and_then_eq_Ok)
  then show ?case using extract_columns_mono Cons.IH by blast
qed simp

lemma join_columns_grow:
  assumes "join_columns E l r ons C = Ok C1"
  shows "C \<union> fst ` set ons \<union> snd ` set ons \<subseteq> C1"
  using assms by (auto simp: join_columns_def and_then_eq_Ok map_res_eq_Ok split: if_splits)

lemma push_down_mono: "push_down E p C = Ok (p', C') \<Longrightarrow> C \<subseteq> C'"
proof (induction p arbitrary: C p' C')
  case (Scan path ds ns s)
  then show ?case by (auto simp: and_then_eq_Ok map_res_eq_Ok)
next
  case (Projection i es)
  then obtain C1 i' where "extract_columns_list E i es C = Ok C1" "push_down E i C1 = Ok (i', C')"
    by (auto simp: and_then_eq_Ok map_res_eq_Ok)
  then show ?case using extract_list_mono Projection.IH by blast
next
  case (Selection i e)
  then obtain C1 i' where "extract_columns E i e C = Ok C1" "push_down E i C1 = Ok (i', C')"
    by (auto simp: and_then_eq_Ok map_res_eq_Ok)
  then show ?case using extract_columns_mono Selection.IH by blast
next
  case (Aggregate i gs as)
  then obtain C1 C2 i' where "extract_columns_list E i gs C = Ok C1"
    "extract_columns_list E i (List.map aggregate_inner as) C1 = Ok C2" "push_down E i C2 = Ok (i', C')"
    by (auto simp: and_then_eq_Ok map_res_eq_Ok)
  then show ?case using extract_list_mono Aggregate.IH by blast
next
  case (Join l r jt ons)
  obtain C1 C2 l' r' where j: "join_columns E l r ons C = Ok C1" "push_down E l C1 = Ok (l', C2)" "push_down E r C2 = Ok (r', C')"
    using Join.prems by (auto simp: and_then_eq_Ok map_res_eq_Ok)
  show ?case using join_columns_grow [OF j(1)] Join.IH(1) [OF j(2)] Join.IH(2) [OF j(3)] by blast
next
  case (Limit i n)
  then show ?case by (auto simp: map_res_eq_Ok)
qed

lemma mset_map_obtain: "mset ys = mset (List.map h xs) \<Longrightarrow> \<exists>zs. ys = List.map h zs \<and> mset zs = mset xs"
proof (induction ys arbitrary: xs)
  case (Cons y ys)
  have "y \<in> set (List.map h xs)" using arg_cong [OF Cons.prems, of set_mset] by auto
  then obtain x where x: "x \<in> set xs" "y = h x" by auto
  have "mset ys = mset (List.map h (remove1 x xs))"
    using arg_cong [OF Cons.prems, of "\<lambda>M. M - {#y#}"] x by (simp add: image_mset_Diff)
  then obtain zs where "ys = List.map h zs" "mset zs = mset (remove1 x xs)" using Cons.IH by blast
  then have "y # ys = List.map h (x # zs) \<and> mset (x # zs) = mset xs" using x by simp
  then show ?case by (intro exI [of _ "x # zs"])
qed simp

lemma mset_map_image: "{ys. mset ys = mset (List.map h xs)} = List.map h ` {zs. mset zs = mset xs}"
proof
  show "{ys. mset ys = mset (List.map h xs)} \<subseteq> List.map h ` {zs. mset zs = mset xs}" using mset_map_obtain by blast
  show "List.map h ` {zs. mset zs = mset xs} \<subseteq> {ys. mset ys = mset (List.map h xs)}" by auto
qed

lemma agree_names: "agree s s' \<Longrightarrow> set (col_names s') \<subseteq> set (col_names s)"
  unfolding agree_on_def
proof
  fix n assume "\<forall>n\<in>set (col_names s'). n \<in> set (col_names s') \<and> field_named s' n = field_named s n" and n: "n \<in> set (col_names s')"
  then have eq: "field_named s n = field_named s' n" by auto
  have "field_named s' n \<noteq> None" using n by (auto simp: field_named_def find_None_iff)
  then have "find (\<lambda>f. f_name f = n) (s_fields s) \<noteq> None" using eq by (simp add: field_named_def)
  then show "n \<in> set (col_names s)" by (auto simp: find_None_iff)
qed

text \<open>What pruning does to the rows is to pick the columns by name.\<close>

lemma pruned_picks:
  assumes "plan_ok E p" "plan_ok E p'" "pruned E C p p' f" "distinct (col_names (schema_of E p))" "R \<in> results E p"
  shows "List.map f R = List.map (pick_columns (schema_of E p) (schema_of E p')) R"
proof (rule map_cong [OF refl])
  fix r assume r: "r \<in> set R"
  have "List.map f R \<in> results E p'" using prunedD(3) [OF assms(3)] assms(5) by blast
  then have w: "length (f r) = width (schema_of E p')" using results_width [OF assms(2)] r by auto
  show "f r = pick_columns (schema_of E p) (schema_of E p') r"
    by (rule pick_columns_unique [OF results_width [OF assms(1,5) r] agree_names [OF prunedD(1) [OF assms(3)]]
        prunedD(6) [OF assms(3,4)] w prunedD(4) [OF assms(3,5) r]])
qed

lemma join_results_image:
  fixes ons :: "(string \<times> string) list"
  assumes "plan_ok E l" "plan_ok E r" "plan_ok E l'" "plan_ok E r'" "pruned E C1 l l' f" "pruned E C2 r r' g"
    "fst ` set ons \<subseteq> set (col_names (schema_of E l'))" "snd ` set ons \<subseteq> set (col_names (schema_of E r'))"
    "jt = Right \<longrightarrow> duplicate_keys ons = []" "distinct (col_names (schema_of E (Join l r jt ons)))"
    "distinct (col_names (schema_of E l))" "distinct (col_names (schema_of E r))"
  shows "results E (Join l' r' jt ons) = List.map (pick_columns (schema_of E (Join l r jt ons)) (schema_of E (Join l' r' jt ons)))
     ` results E (Join l r jt ons)"
proof -
  let ?sl = "schema_of E l" and ?sr = "schema_of E r" and ?sl' = "schema_of E l'" and ?sr' = "schema_of E r'"
  let ?pl = "pick_columns ?sl ?sl'" and ?pr = "pick_columns ?sr ?sr'"
  let ?lk = "\<lambda>s. names_positions s (List.map fst ons)" and ?rk = "\<lambda>s. names_positions s (List.map snd ons)"
  let ?ex = "excluded_columns ons"
  let ?h = "pick_columns (join_schema jt ons ?sl ?sr) (join_schema jt ons ?sl' ?sr')"
  note sub = agree_names [OF prunedD(1) [OF assms(5)]] agree_names [OF prunedD(1) [OF assms(6)]]
  have dj: "distinct (col_names (join_schema jt ons ?sl ?sr))" using assms(10) join_schema_of [OF assms(1,2)] by simp
  have kl: "join_key (?lk ?sl') (?pl x) = join_key (?lk ?sl) x" if "length x = width ?sl" for x
    by (rule join_key_picked [OF that sub(1)]) (use assms(7) in auto)
  have kr: "join_key (?rk ?sr') (?pr x) = join_key (?rk ?sr) x" if "length x = width ?sr" for x
    by (rule join_key_picked [OF that sub(2)]) (use assms(8) in auto)
  have comb: "combine_rows (?ex ?sr') (?pl x) (?pr y) = ?h (combine_rows (?ex ?sr) x y)" if "length x = width ?sl" "length y = width ?sr" for x y
    by (rule pick_columns_combine [OF assms(9) that sub dj])
  have nl: "nested_loop jt (?lk ?sl') (?rk ?sr') (?ex ?sr') (width ?sr') (List.map ?pl L) (List.map ?pr R)
      = List.map ?h (nested_loop jt (?lk ?sl) (?rk ?sr) (?ex ?sr) (width ?sr) L R)"
    and un: "unmatched_right (?lk ?sl') (?rk ?sr') (?ex ?sr') (width ?sl') (List.map ?pl L) (List.map ?pr R)
      = List.map ?h (unmatched_right (?lk ?sl) (?rk ?sr) (?ex ?sr) (width ?sl) L R)"
    if "L \<in> results E l" "R \<in> results E r" for L R
  proof -
    note w = results_width [OF assms(1) that(1)] results_width [OF assms(2) that(2)]
    show "nested_loop jt (?lk ?sl') (?rk ?sr') (?ex ?sr') (width ?sr') (List.map ?pl L) (List.map ?pr R)
      = List.map ?h (nested_loop jt (?lk ?sl) (?rk ?sr) (?ex ?sr) (width ?sr) L R)"
    proof (rule nested_loop_map)
      fix x y assume "x \<in> set L" "y \<in> insert (replicate (width ?sr) V_Null) (set R)"
      then have "length x = width ?sl" "length y = width ?sr" using w by auto
      then show "combine_rows (?ex ?sr') (?pl x) (?pr y) = ?h (combine_rows (?ex ?sr) x y)" by (rule comb)
    qed (use w kl kr pick_columns_null [OF sub(2)] in auto)
    show "unmatched_right (?lk ?sl') (?rk ?sr') (?ex ?sr') (width ?sl') (List.map ?pl L) (List.map ?pr R)
      = List.map ?h (unmatched_right (?lk ?sl) (?rk ?sr) (?ex ?sr) (width ?sl) L R)"
    proof (rule unmatched_right_map)
      fix y assume "y \<in> set R"
      then have "length y = width ?sr" using w by auto
      then show "combine_rows (?ex ?sr') (replicate (width ?sl') V_Null) (?pr y) = ?h (combine_rows (?ex ?sr) (replicate (width ?sl) V_Null) y)"
        using comb [of "replicate (width ?sl) V_Null" y] pick_columns_null [OF sub(1)] by simp
    qed (use w kl kr in auto)
  qed
  have res: "results E l' = List.map ?pl ` results E l" "results E r' = List.map ?pr ` results E r"
    unfolding prunedD(3) [OF assms(5)] prunedD(3) [OF assms(6)]
    using pruned_picks [OF assms(1,3,5,11)] pruned_picks [OF assms(2,4,6,12)] by (auto intro!: image_cong)
  let ?um = "\<lambda>L R. if jt = Right then mset (unmatched_right (?lk ?sl) (?rk ?sr) (?ex ?sr) (width ?sl) L R) else {#}"
  have ums: "{um. mset um = (if jt = Right then mset (unmatched_right (?lk ?sl') (?rk ?sr') (?ex ?sr') (width ?sl') (List.map ?pl L) (List.map ?pr R)) else {#})}
      = List.map ?h ` {um. mset um = ?um L R}" if "L \<in> results E l" "R \<in> results E r" for L R
  proof (cases "jt = Right")
    case True
    then show ?thesis unfolding un [OF that] if_P [OF True] by (intro mset_map_image)
  next
    case False
    then show ?thesis by simp
  qed
  have join: "results E (Join l r jt ons) = (\<Union>L\<in>results E l. \<Union>R\<in>results E r. (@) (nested_loop jt (?lk (schema_of E l)) (?rk (schema_of E r))
      (?ex (schema_of E r)) (width (schema_of E r)) L R) ` {um. mset um = (if jt = Right then mset (unmatched_right (?lk (schema_of E l))
      (?rk (schema_of E r)) (?ex (schema_of E r)) (width (schema_of E l)) L R) else {#})})" for l r
    unfolding results.simps(6) Let_def hidden_excluded by (rule set_eqI) blast
  show ?thesis
    unfolding join [of l' r'] join [of l r] res image_UN UN_simps join_schema_of [OF assms(1,2)] join_schema_of [OF assms(3,4)]
    using nl ums by (intro SUP_cong refl) (simp add: image_image)
qed

lemma find_append: "find P (xs @ ys) = (case find P xs of Some x \<Rightarrow> Some x | None \<Rightarrow> find P ys)"
  by (induction xs) auto

lemma find_kept:
  "n \<notin> set (duplicate_keys ons) \<Longrightarrow>
     find (\<lambda>f. f_name f = n) (drop_fields (duplicate_keys ons) fs) = find (\<lambda>f. f_name f = n) fs"
  by (induction fs) (auto simp: drop_fields_def)

lemma agree_join:
  assumes "jt = Right \<longrightarrow> duplicate_keys ons = []" "agree sl sl'" "agree sr sr'"
    "set (col_names sl) \<inter> set (kept_names ons (col_names sr)) = {}"
  shows "agree (join_schema jt ons sl sr) (join_schema jt ons sl' sr')"
  unfolding agree_on_def
proof (intro ballI conjI)
  let ?s = "join_schema jt ons sl sr" and ?s' = "join_schema jt ons sl' sr'"
  note fields = join_names(1) [OF assms(1)]
  fix n assume n: "n \<in> set (col_names ?s')"
  then show "n \<in> set (col_names ?s')" .
  show "field_named ?s' n = field_named ?s n"
  proof (cases "n \<in> set (col_names sl')")
    case True
    then have eq: "field_named sl' n = field_named sl n" using assms(2) unfolding agree_on_def by blast
    have "field_named sl' n \<noteq> None" using True by (auto simp: field_named_def find_None_iff)
    then show ?thesis using eq unfolding field_named_def fields find_append by (auto split: option.split)
  next
    case False
    then have r: "n \<in> set (col_names sr')" "n \<notin> set (duplicate_keys ons)" using n unfolding join_names(2) [OF assms(1)] by auto
    then have eq: "field_named sr' n = field_named sr n" using assms(3) unfolding agree_on_def by blast
    have "n \<in> set (col_names sr)" using r(1) agree_names [OF assms(3)] by blast
    then have "n \<notin> set (col_names sl)" using r(2) assms(4) by auto
    then have "find (\<lambda>f. f_name f = n) (s_fields sl) = None" "find (\<lambda>f. f_name f = n) (s_fields sl') = None"
      using False by (auto simp: find_None_iff)
    then show ?thesis using eq find_kept [OF r(2)] unfolding field_named_def fields find_append by simp
  qed
qed

lemma pushes_join:
  assumes "plan_ok E l" "plan_ok E r" "set (List.map fst ons) \<subseteq> set (col_names (schema_of E l))"
    "set (List.map snd ons) \<subseteq> set (col_names (schema_of E r))" "schema_ok (schema_of E (Join l r jt ons))"
    "jt = Right \<longrightarrow> duplicate_keys ons = []" "ons \<noteq> []" "distinct (col_names (schema_of E (Join l r jt ons)))"
    "distinct (col_names (schema_of E l))" "distinct (col_names (schema_of E r))" "\<And>C. pushes E C l" "\<And>C. pushes E C r"
  shows "pushes E C (Join l r jt ons)"
proof -
  let ?sl = "schema_of E l" and ?sr = "schema_of E r"
  have "\<exists>C1. join_columns E l r ons C = Ok C1"
    using plan_ok_schema [OF assms(1)] plan_ok_schema [OF assms(2)] by (cases "C = {}") (simp_all add: join_columns_def)
  then obtain C1 where c: "join_columns E l r ons C = Ok C1" ..
  obtain l' C2 f where l': "push_down E l C1 = Ok (l', C2)" "plan_ok E l'" "pruned E C1 l l' f"
    using assms(11) unfolding pushes_def by blast
  obtain r' C3 g where r': "push_down E r C2 = Ok (r', C3)" "plan_ok E r'" "pruned E C2 r r' g"
    using assms(12) unfolding pushes_def by blast
  let ?sl' = "schema_of E l'" and ?sr' = "schema_of E r'" and ?s = "schema_of E (Join l r jt ons)" and ?s' = "schema_of E (Join l' r' jt ons)"
  have C: "C \<subseteq> C1" "C1 \<subseteq> C2" "fst ` set ons \<subseteq> C1" "snd ` set ons \<subseteq> C2"
    using join_columns_grow [OF c] push_down_mono [OF l'(1)] by blast+
  note subl = prunedD(2) [OF l'(3)] and subr = prunedD(2) [OF r'(3)]
  have "fst ` set ons \<subseteq> C1 \<inter> set (col_names ?sl)" "snd ` set ons \<subseteq> C2 \<inter> set (col_names ?sr)"
    using C(3,4) assms(3,4) by simp_all
  then have keys: "fst ` set ons \<subseteq> set (col_names ?sl')" "snd ` set ons \<subseteq> set (col_names ?sr')"
    using subset_trans [OF _ subl] subset_trans [OF _ subr] by simp_all
  note js = join_schema_of [OF assms(1,2), of jt ons] and js' = join_schema_of [OF l'(2) r'(2), of jt ons]
  note names = join_names(2) [OF assms(6)]
  note agl = prunedD(1) [OF l'(3)] and agr = prunedD(1) [OF r'(3)]
  have dl': "distinct (col_names ?sl')" and dr': "distinct (col_names ?sr')"
    using prunedD(6) [OF l'(3) assms(9)] prunedD(6) [OF r'(3) assms(10)] .
  have dis: "set (col_names ?sl) \<inter> set (kept_names ons (col_names ?sr)) = {}"
    using assms(8) unfolding js names distinct_append by blast
  have ag: "agree ?s ?s'" using agree_join [OF assms(6) agl agr dis] unfolding js js' .
  have "C \<inter> set (col_names ?sl) \<subseteq> set (col_names ?sl')" "C \<inter> set (col_names ?sr) \<subseteq> set (col_names ?sr')"
    using subset_trans [OF Int_mono [OF _ subset_refl] subl] subset_trans [OF Int_mono [OF _ subset_refl] subr] C(1,2) by blast+
  then have req: "C \<inter> set (col_names ?s) \<subseteq> set (col_names ?s')"
    unfolding js js' names set_append set_filter by blast
  have "set (col_names ?sl') \<inter> set (kept_names ons (col_names ?sr')) = {}"
    using dis agree_names [OF agl] agree_names [OF agr] unfolding set_filter by blast
  then have dist: "distinct (col_names ?s')"
    using dl' distinct_filter [OF dr'] unfolding js' names distinct_append by blast
  have ok: "schema_ok ?s'"
  proof -
    have "col_names ?s' \<noteq> []" using keys(1) assms(7) unfolding js' names by (cases ons) auto
    moreover have "supported (f_type f)" if "f \<in> set (s_fields ?s')" for f
    proof -
      have "field_named ?s' (f_name f) = Some f" by (rule field_named_unique [OF dist that])
      then have "field_named ?s (f_name f) = Some f" using ag that unfolding agree_on_def by auto
      then have "f \<in> set (s_fields ?s)" by (auto simp: field_named_def find_Some_iff)
      then show ?thesis using assms(5) by (auto simp: schema_ok_def list_all_iff)
    qed
    ultimately show ?thesis by (auto simp: schema_ok_def list_all_iff)
  qed
  have plan: "plan_ok E (Join l' r' jt ons)" by (rule plan_ok.join [OF l'(2) r'(2) _ _ ok assms(6)]) (use keys in auto)
  have "pruned E C (Join l r jt ons) (Join l' r' jt ons) (pick_columns ?s ?s')"
    unfolding pruned_def
  proof (intro conjI ballI impI)
    show "results E (Join l' r' jt ons) = List.map (pick_columns ?s ?s') ` results E (Join l r jt ons)"
      by (rule join_results_image [OF assms(1,2) l'(2) r'(2) l'(3) r'(3) keys assms(6,8-10)])
    have "plan_ok E (Join l r jt ons)" by (rule plan_ok.join [OF assms(1-6)])
    then show "same_columns ?s ?s' x (pick_columns ?s ?s' x)" if "R \<in> results E (Join l r jt ons)" "x \<in> set R" for R x
      using pick_columns_same [OF results_width agree_names [OF ag]] that by blast
  qed (use ag req dist in simp_all)
  moreover have "push_down E (Join l r jt ons) C = Ok (Join l' r' jt ons, C3)" using c l'(1) r'(1) by simp
  ultimately show ?thesis using plan unfolding pushes_def by blast
qed

lemma push_down_pushes:
  assumes "plan_ok E p" "optimizable E p"
  shows "pushes E C p"
  using assms
proof (induction arbitrary: C rule: plan_ok.induct)
  case (scan ds ns bs s path)
  then show ?case using pushes_scan by auto
next
  case (selection i e)
  then show ?case by (intro pushes_selection) auto
next
  case (projection i es fs)
  then show ?case by (intro pushes_projection) auto
next
  case (limit i n)
  then show ?case by (intro pushes_limit) auto
next
  case (aggregate i gs as s)
  show ?case by (rule pushes_aggregate [OF aggregate.hyps]) (use aggregate.prems aggregate.IH in auto)
next
  case (join l r ons jt)
  show ?case by (rule pushes_join [OF join.hyps]) (use join.prems join.IH in auto)
qed

section \<open>Properties\<close>


end
