(* ===== verification/Sql_Tokens.thy ===== *)
theory Sql_Tokens
  imports Rust_Text
begin

text \<open>
  The SQL token vocabulary, the token cursor and the tokenizer (crate @sql@: tokens,
  token_stream, sql_tokenizer).  A variant of the macro-generated @Keyword@ enum is
  represented by its canonical upper-case spelling, the string @name@ returns.  The input
  is a list of characters indexed by offset, as in the source.
\<close>

section \<open>Tokens\<close>

datatype Keyword = KW (kw_name: string)

definition keyword_names :: "string list" where
  "keyword_names = [
     ''SCHEMA'', ''DATABASE'', ''TABLE'', ''COLUMN'', ''VIEW'', ''INDEX'', ''TRIGGER'',
     ''PROCEDURE'', ''TABLESPACE'', ''FUNCTION'', ''SEQUENCE'', ''CURSOR'', ''FROM'', ''TO'',
     ''OF'', ''IF'', ''ON'', ''FOR'', ''WHILE'', ''DO'', ''NO'', ''BY'', ''WITH'', ''WITHOUT'',
     ''TRUE'', ''FALSE'', ''TEMPORARY'', ''TEMP'', ''COMMENT'', ''CREATE'', ''REPLACE'',
     ''BEFORE'', ''AFTER'', ''INSTEAD'', ''EACH'', ''ROW'', ''STATEMENT'', ''EXECUTE'', ''BITMAP'',
     ''NOSORT'', ''REVERSE'', ''COMPILE'', ''ALTER'', ''ADD'', ''MODIFY'', ''RENAME'', ''ENABLE'',
     ''DISABLE'', ''VALIDATE'', ''USER'', ''IDENTIFIED'', ''TRUNCATE'', ''DROP'', ''CASCADE'',
     ''INSERT'', ''INTO'', ''VALUES'', ''UPDATE'', ''SET'', ''DELETE'', ''SELECT'', ''DISTINCT'',
     ''LIMIT'', ''AS'', ''CASE'', ''WHEN'', ''ELSE'', ''THEN'', ''END'', ''LEFT'', ''RIGHT'',
     ''FULL'', ''INNER'', ''OUTER'', ''CROSS'', ''JOIN'', ''USE'', ''USING'', ''NATURAL'',
     ''WHERE'', ''ORDER'', ''ASC'', ''DESC'', ''GROUP'', ''HAVING'', ''UNION'', ''DECLARE'',
     ''GRANT'', ''FETCH'', ''REVOKE'', ''CLOSE'', ''CAST'', ''NEW'', ''ESCAPE'', ''LOCK'',
     ''SOME'', ''LEAVE'', ''ITERATE'', ''REPEAT'', ''UNTIL'', ''OPEN'', ''OUT'', ''INOUT'',
     ''OVER'', ''ADVISE'', ''SIBLINGS'', ''LOOP'', ''EXPLAIN'', ''DEFAULT'', ''EXCEPT'',
     ''INTERSECT'', ''MINUS'', ''PASSWORD'', ''LOCAL'', ''GLOBAL'', ''STORAGE'', ''DATA'',
     ''COALESCE'', ''CHAR'', ''CHARACTER'', ''VARYING'', ''VARCHAR'', ''VARCHAR2'', ''INTEGER'',
     ''INT'', ''SMALLINT'', ''DECIMAL'', ''DEC'', ''NUMERIC'', ''FLOAT'', ''REAL'', ''DOUBLE'',
     ''PRECISION'', ''DATE'', ''TIME'', ''INTERVAL'', ''BOOLEAN'', ''BLOB'', ''AND'', ''OR'',
     ''XOR'', ''IS'', ''NOT'', ''NULL'', ''IN'', ''BETWEEN'', ''LIKE'', ''ANY'', ''ALL'',
     ''EXISTS'', ''AVG'', ''MAX'', ''MIN'', ''SUM'', ''COUNT'', ''GREATEST'', ''LEAST'', ''ROUND'',
     ''TRUNC'', ''POSITION'', ''EXTRACT'', ''LENGTH'', ''CHAR_LENGTH'', ''SUBSTRING'', ''SUBSTR'',
     ''INSTR'', ''INITCAP'', ''UPPER'', ''LOWER'', ''TRIM'', ''LTRIM'', ''RTRIM'', ''BOTH'',
     ''LEADING'', ''TRAILING'', ''TRANSLATE'', ''CONVERT'', ''LPAD'', ''RPAD'', ''DECODE'',
     ''NVL'', ''CONSTRAINT'', ''UNIQUE'', ''PRIMARY'', ''FOREIGN'', ''KEY'', ''CHECK'',
     ''REFERENCES'']"

definition keyword_text_of :: "string \<Rightarrow> Keyword option" where
  "keyword_text_of text = (let u = to_uppercase text in if u \<in> set keyword_names then Some (KW u) else None)"

datatype Symbol =
    Sym_LeftParen | Sym_RightParen | Sym_LeftBrace | Sym_RightBrace | Sym_LeftBracket |
    Sym_RightBracket | Sym_Semi | Sym_Comma | Sym_Dot | Sym_DoubleDot | Sym_Plus | Sym_Sub |
    Sym_Star | Sym_Slash | Sym_Question | Sym_Eq | Sym_Gt | Sym_Lt | Sym_Bang | Sym_Tilde |
    Sym_Caret | Sym_Percent | Sym_Colon | Sym_DoubleColon | Sym_ColonEq | Sym_LtEq | Sym_GtEq |
    Sym_LtEqGt | Sym_LtGt | Sym_BangEq | Sym_BangGt | Sym_BangLt | Sym_Amp | Sym_Bar |
    Sym_DoubleAmp | Sym_DoubleBar | Sym_DoubleLt | Sym_DoubleGt | Sym_At | Sym_Pound

definition symbol_table :: "(Symbol \<times> string) list" where
  "symbol_table = [
     (Sym_LeftParen, ''(''), (Sym_RightParen, '')''), (Sym_LeftBrace, ''{''),
     (Sym_RightBrace, ''}''), (Sym_LeftBracket, ''[''), (Sym_RightBracket, '']''),
     (Sym_Semi, '';''), (Sym_Comma, '',''), (Sym_Dot, ''.''), (Sym_DoubleDot, ''..''),
     (Sym_Plus, ''+''), (Sym_Sub, ''-''), (Sym_Star, ''*''), (Sym_Slash, ''/''),
     (Sym_Question, ''?''), (Sym_Eq, ''=''), (Sym_Gt, ''>''), (Sym_Lt, ''<''), (Sym_Bang, ''!''),
     (Sym_Tilde, ''~''), (Sym_Caret, ''^''), (Sym_Percent, ''%''), (Sym_Colon, '':''),
     (Sym_DoubleColon, ''::''), (Sym_ColonEq, '':=''), (Sym_LtEq, ''<=''), (Sym_GtEq, ''>=''),
     (Sym_LtEqGt, ''<=>''), (Sym_LtGt, ''<>''), (Sym_BangEq, ''!=''), (Sym_BangGt, ''!>''),
     (Sym_BangLt, ''!<''), (Sym_Amp, ''&''), (Sym_Bar, ''|''), (Sym_DoubleAmp, ''&&''),
     (Sym_DoubleBar, ''||''), (Sym_DoubleLt, ''<<''), (Sym_DoubleGt, ''>>''), (Sym_At, ''@''),
     (Sym_Pound, ''#'')]"

definition symbol_text :: "Symbol \<Rightarrow> string" where
  "symbol_text s = the (map_of symbol_table s)"

definition symbol_text_of :: "string \<Rightarrow> Symbol option" where
  "symbol_text_of text = map_option fst (find (\<lambda>p. snd p = text) symbol_table)"

definition is_symbol :: "char \<Rightarrow> bool" where
  "is_symbol ch = list_ex (\<lambda>p. ch \<in> set (snd p)) symbol_table"

datatype Literal = Lit_Long | Lit_Double | Lit_String | Lit_Identifier

definition is_number_start :: "char \<Rightarrow> bool" where
  "is_number_start ch = (is_ascii_digit ch \<or> ch = CHR ''.'')"

definition is_identifier_start :: "char \<Rightarrow> bool" where
  "is_identifier_start ch = (is_alphabetic ch \<or> ch = CHR 0x60)"

definition is_identifier_part :: "char \<Rightarrow> bool" where
  "is_identifier_part ch = (is_alphabetic ch \<or> is_ascii_digit ch \<or> ch = CHR ''_'')"

definition is_chars_start :: "char \<Rightarrow> bool" where
  "is_chars_start ch = (ch = CHR 0x27 \<or> ch = CHR 0x22)"

datatype TokenType = TT_Keyword Keyword | TT_Symbol Symbol | TT_Literal Literal

record Token =
  tok_text :: string
  token_type :: TokenType
  end_offset :: nat

definition token_new :: "string \<Rightarrow> TokenType \<Rightarrow> nat \<Rightarrow> Token" where
  "token_new t ty e = \<lparr>tok_text = t, token_type = ty, end_offset = e\<rparr>"

section \<open>The token cursor\<close>

record TokenStream =
  ts_tokens :: "Token list"
  ts_i :: nat

definition token_stream_new :: "Token list \<Rightarrow> TokenStream" where
  "token_stream_new ts = \<lparr>ts_tokens = ts, ts_i = 0\<rparr>"

definition peek :: "TokenStream \<Rightarrow> Token option" where
  "peek s = (if ts_i s < length (ts_tokens s) then Some (ts_tokens s ! ts_i s) else None)"

definition advance :: "TokenStream \<Rightarrow> TokenStream" where
  "advance s = s\<lparr>ts_i := ts_i s + 1\<rparr>"

definition next_tok :: "TokenStream \<Rightarrow> Token option \<times> TokenStream" where
  "next_tok s = (if ts_i s < length (ts_tokens s) then (Some (ts_tokens s ! ts_i s), advance s) else (None, s))"

definition is_keyword_type :: "TokenType \<Rightarrow> bool" where
  "is_keyword_type t = (case t of TT_Keyword k \<Rightarrow> True | _ \<Rightarrow> False)"

definition consume_keyword :: "string \<Rightarrow> TokenStream \<Rightarrow> bool \<times> TokenStream" where
  "consume_keyword kw s = (case peek s of
      Some t \<Rightarrow> if is_keyword_type (token_type t) \<and> eq_ignore_ascii_case (tok_text t) kw
                then (True, advance s) else (False, s)
    | None \<Rightarrow> (False, s))"

fun consume_all :: "string list \<Rightarrow> TokenStream \<Rightarrow> bool \<times> TokenStream" where
  "consume_all [] s = (True, s)"
| "consume_all (kw # kws) s = (case consume_keyword kw s of
      (True, s') \<Rightarrow> consume_all kws s'
    | (False, s') \<Rightarrow> (False, s'))"

definition consume_keywords :: "string list \<Rightarrow> TokenStream \<Rightarrow> bool \<times> TokenStream" where
  "consume_keywords kws s = (case consume_all kws s of
      (True, s') \<Rightarrow> (True, s')
    | (False, s') \<Rightarrow> (False, s'\<lparr>ts_i := ts_i s\<rparr>))"

definition consume_token_type :: "TokenType \<Rightarrow> TokenStream \<Rightarrow> bool \<times> TokenStream" where
  "consume_token_type t s = (case peek s of
      Some k \<Rightarrow> if token_type k = t then (True, advance s) else (False, s)
    | None \<Rightarrow> (False, s))"

definition remaining :: "TokenStream \<Rightarrow> Token list" where
  "remaining s = drop (ts_i s) (ts_tokens s)"

lemma advance_tokens [simp]: "ts_tokens (advance s) = ts_tokens s" "ts_i (advance s) = Suc (ts_i s)"
  by (simp_all add: advance_def)

lemma peek_remaining: "peek s = (case remaining s of [] \<Rightarrow> None | t # _ \<Rightarrow> Some t)"
  by (auto simp: peek_def remaining_def Cons_nth_drop_Suc [symmetric])

lemma next_remaining:
  "remaining s = t # r \<Longrightarrow> next_tok s = (Some t, advance s)"
  "remaining s = [] \<Longrightarrow> next_tok s = (None, s)"
  by (cases "ts_i s < length (ts_tokens s)"; simp add: next_tok_def remaining_def Cons_nth_drop_Suc [symmetric])+

lemma remaining_advance [simp]: "remaining s = t # r \<Longrightarrow> remaining (advance s) = r"
  by (metis remaining_def advance_tokens drop_Suc list.sel(3) tl_drop)

section \<open>The tokenizer\<close>

record SqlTokenizer =
  chars :: string
  offset :: nat

definition tokenizer_new :: "string \<Rightarrow> SqlTokenizer" where
  "tokenizer_new sql = \<lparr>chars = sql, offset = 0\<rparr>"

definition substring :: "string \<Rightarrow> nat \<Rightarrow> nat \<Rightarrow> string res" where
  "substring cs s e = (if s \<le> e \<and> e \<le> length cs then Ok (take (e - s) (drop s cs)) else Panic Index_Out_Of_Bounds)"

function index_of_first :: "string \<Rightarrow> nat \<Rightarrow> (char \<Rightarrow> bool) \<Rightarrow> nat" where
  "index_of_first cs i p =
     (if i < length cs then (if p (cs ! i) then i else index_of_first cs (i + 1) p) else length cs)"
  by pat_completeness auto
termination by (relation "measure (\<lambda>(cs, i, p). length cs - i)") auto

declare index_of_first.simps [simp del]

definition skip_whitespace :: "string \<Rightarrow> nat \<Rightarrow> nat" where
  "skip_whitespace cs start = index_of_first cs start (\<lambda>ch. \<not> is_whitespace ch)"

definition scan_number :: "string \<Rightarrow> nat \<Rightarrow> Token res" where
  "scan_number cs start = and_then (idx cs start) (\<lambda>c.
     let e = index_of_first cs (if c = CHR ''-'' then start + 1 else start) (\<lambda>ch. \<not> is_ascii_digit ch)
     in if e = length cs then map_res (\<lambda>t. token_new t (TT_Literal Lit_Long) e) (substring cs start e)
        else and_then (idx cs e) (\<lambda>d.
          let is_float = (d = CHR ''.'');
              e' = (if is_float then index_of_first cs (e + 1) (\<lambda>ch. \<not> is_ascii_digit ch) else e)
          in map_res (\<lambda>t. token_new t (TT_Literal (if is_float then Lit_Double else Lit_Long)) e')
               (substring cs start e')))"

definition is_ambiguous_identifier :: "string \<Rightarrow> bool" where
  "is_ambiguous_identifier text = (eq_ignore_ascii_case text ''ORDER'' \<or> eq_ignore_ascii_case text ''GROUP'')"

definition process_ambiguous_identifier :: "string \<Rightarrow> nat \<Rightarrow> string \<Rightarrow> TokenType res" where
  "process_ambiguous_identifier cs start text = (let k = skip_whitespace cs start in
     if k + 2 \<le> length cs then and_then (substring cs k (k + 2)) (\<lambda>w.
       if eq_ignore_ascii_case w ''BY''
       then map_res TT_Keyword (expect ''ambiguous identifier must be a keyword'' (keyword_text_of text))
       else Ok (TT_Literal Lit_Identifier))
     else Ok (TT_Literal Lit_Identifier))"

definition offset_until_terminated_char :: "string \<Rightarrow> char \<Rightarrow> nat \<Rightarrow> nat res" where
  "offset_until_terminated_char cs t start =
     (if start \<le> length cs
      then map_res (\<lambda>k. start + k) (expect ''Must contain terminator in remain sql'' (position (\<lambda>c. c = t) (drop start cs)))
      else Panic Index_Out_Of_Bounds)"

definition scan_identifier :: "string \<Rightarrow> nat \<Rightarrow> Token res" where
  "scan_identifier cs start = and_then (idx cs start) (\<lambda>c.
     if c = CHR 0x60 then and_then (offset_until_terminated_char cs (CHR 0x60) (start + 1)) (\<lambda>e.
       map_res (\<lambda>t. token_new t (TT_Literal Lit_Identifier) (e + 1)) (substring cs (start + 1) e))
     else let e = index_of_first cs start (\<lambda>ch. \<not> is_identifier_part ch) in
       and_then (substring cs start e) (\<lambda>text.
         if is_ambiguous_identifier text
         then map_res (\<lambda>ty. token_new text ty e) (process_ambiguous_identifier cs e text)
         else Ok (token_new text (case keyword_text_of text of
             Some k \<Rightarrow> TT_Keyword k | None \<Rightarrow> TT_Literal Lit_Identifier) e)))"

text \<open>The loop that shrinks the text until it is a symbol.\<close>

fun shrink_symbol :: "string \<Rightarrow> nat \<Rightarrow> nat \<Rightarrow> Token res" where
  "shrink_symbol cs start e = and_then (substring cs start e) (\<lambda>text.
     case symbol_text_of text of
       Some s \<Rightarrow> Ok (token_new text (TT_Symbol s) e)
     | None \<Rightarrow> (case e of 0 \<Rightarrow> Panic Arith_Overflow | Suc e' \<Rightarrow> shrink_symbol cs start e'))"

declare shrink_symbol.simps [simp del]

definition scan_symbol :: "string \<Rightarrow> nat \<Rightarrow> Token res" where
  "scan_symbol cs start = shrink_symbol cs start (index_of_first cs start (\<lambda>ch. \<not> is_symbol ch))"

function scan_chars_from :: "string \<Rightarrow> char \<Rightarrow> nat \<Rightarrow> string \<Rightarrow> Token res" where
  "scan_chars_from cs t i b =
     (if i < length cs then
        (if cs ! i = t then
           (if i + 1 < length cs \<and> cs ! (i + 1) = t then scan_chars_from cs t (i + 2) (b @ [t])
            else Ok (token_new b (TT_Literal Lit_String) (i + 1)))
         else scan_chars_from cs t (i + 1) (b @ [cs ! i]))
      else Panic (Panicked ''Unterminated string''))"
  by pat_completeness auto
termination by (relation "measure (\<lambda>(cs, t, i, b). length cs - i)") auto

declare scan_chars_from.simps [simp del]

definition scan_chars :: "string \<Rightarrow> nat \<Rightarrow> char \<Rightarrow> Token res" where
  "scan_chars cs start t = scan_chars_from cs t (start + 1) []"

definition next_token :: "SqlTokenizer \<Rightarrow> (Token option \<times> SqlTokenizer) res" where
  "next_token z = (let cs = chars z; o1 = skip_whitespace cs (offset z); z1 = z\<lparr>offset := o1\<rparr> in
     if length cs \<le> o1 then Ok (None, z1)
     else let ch = cs ! o1 in
       map_res (\<lambda>t. (Some t, z1\<lparr>offset := end_offset t\<rparr>))
        (if is_identifier_start ch then scan_identifier cs o1
         else if is_number_start ch then scan_number cs o1
         else if is_symbol ch then scan_symbol cs o1
         else if is_chars_start ch then scan_chars cs o1 ch
         else Panic (Panicked ''Unexpected character'')))"

text \<open>The loop of @tokenize@, with fuel: running out of it is the panic @no_fuel@, which
  never happens from @length sql + 1@ on.\<close>

definition no_fuel :: panic where
  "no_fuel = Panicked ''(out of fuel)''"

fun tokenize_loop :: "nat \<Rightarrow> SqlTokenizer \<Rightarrow> Token list res" where
  "tokenize_loop 0 z = Panic no_fuel"
| "tokenize_loop (Suc n) z = and_then (next_token z) (\<lambda>(t, z').
     case t of None \<Rightarrow> Ok [] | Some t \<Rightarrow> map_res ((#) t) (tokenize_loop n z'))"

definition tokenize :: "string \<Rightarrow> TokenStream res" where
  "tokenize sql = map_res token_stream_new (tokenize_loop (length sql + 1) (tokenizer_new sql))"

section \<open>Scanning helpers\<close>

lemma index_of_first_run:
  "list_all (\<lambda>c. \<not> p c) w \<Longrightarrow> p c \<Longrightarrow>
     index_of_first (pre @ w @ c # post) (length pre) p = length pre + length w"
proof (induction w arbitrary: pre)
  case Nil
  then show ?case by (subst index_of_first.simps) simp
next
  case (Cons a w)
  have "index_of_first ((pre @ [a]) @ w @ c # post) (length (pre @ [a])) p = length (pre @ [a]) + length w"
    by (rule Cons.IH) (use Cons.prems in auto)
  then show ?case using Cons.prems by (subst index_of_first.simps) simp
qed

lemma index_of_first_spec:
  assumes "i \<le> length cs"
  shows "i \<le> index_of_first cs i p \<and> index_of_first cs i p \<le> length cs
     \<and> (\<forall>j. i \<le> j \<and> j < index_of_first cs i p \<longrightarrow> \<not> p (cs ! j))
     \<and> (index_of_first cs i p < length cs \<longrightarrow> p (cs ! index_of_first cs i p))"
  using assms
proof (induction cs i p rule: index_of_first.induct)
  case (1 cs i p)
  show ?case
  proof (cases "i < length cs \<and> \<not> p (cs ! i)")
    case True
    then have IH: "i + 1 \<le> index_of_first cs (i + 1) p \<and> index_of_first cs (i + 1) p \<le> length cs
       \<and> (\<forall>j. i + 1 \<le> j \<and> j < index_of_first cs (i + 1) p \<longrightarrow> \<not> p (cs ! j))
       \<and> (index_of_first cs (i + 1) p < length cs \<longrightarrow> p (cs ! index_of_first cs (i + 1) p))"
      using 1 by simp
    have "\<not> p (cs ! j)" if "i \<le> j" "j < index_of_first cs (i + 1) p" for j
      using that IH True by (cases "i = j") auto
    then show ?thesis using IH True by (subst (1 2 3 4 5) index_of_first.simps) auto
  next
    case False
    then show ?thesis using 1 by (subst (1 2 3 4 5) index_of_first.simps) auto
  qed
qed

lemma index_of_first_less: "i < length cs \<Longrightarrow> \<not> p (cs ! i) \<Longrightarrow> i < index_of_first cs i p"
  using index_of_first_spec [of "i + 1" cs p] by (subst index_of_first.simps) simp

lemma substring_Ok [simp]: "s \<le> e \<Longrightarrow> e \<le> length cs \<Longrightarrow> substring cs s e = Ok (take (e - s) (drop s cs))"
  by (simp add: substring_def)

lemma substring_mid [simp]: "substring (pre @ w @ post) (length pre) (length pre + length w) = Ok w"
  by simp

lemma single_symbol: "is_symbol c \<Longrightarrow> \<exists>s. symbol_text_of [c] = Some s"
  by (auto simp: is_symbol_def symbol_table_def symbol_text_of_def)

end
