(* ===== verification/Sql_Parser.thy ===== *)
theory Sql_Parser
  imports Sql_Tokens Floats
begin

text \<open>
  The SQL syntax tree and the Pratt parser (crate @sql@: expressions, pratt_parser,
  sql_parser).  The parser methods call each other, so each takes fuel that goes down by one
  with every call; running out of it is the panic @no_fuel@, which a bound linear in the
  number of unread tokens rules out.
\<close>

section \<open>Syntax tree\<close>

datatype SqlExpr =
    S_Identifier string
  | S_BinaryExpr SqlExpr string SqlExpr
  | S_String string
  | S_Long "64 word"
  | S_Double f64
  | S_Date string
  | S_Interval string
  | S_Function string "SqlExpr list"
  | S_Alias SqlExpr string
  | S_Cast SqlExpr string
  | S_Sort SqlExpr bool
  | S_Select SqlSelect
and SqlSelect = SqlSelect
    (sel_projection: "SqlExpr list")
    (sel_selection: "SqlExpr option")
    (sel_group_by: "SqlExpr list")
    (sel_order_by: "SqlExpr list")
    (sel_having: "SqlExpr option")
    (sel_limit: "32 word option")
    (sel_table_name: string)

section \<open>Precedence and leaf parsers\<close>

abbreviation keyword :: "string \<Rightarrow> TokenType" where
  "keyword k \<equiv> TT_Keyword (KW k)"

definition token_precedence :: "TokenType \<Rightarrow> nat" where
  "token_precedence t =
     (if t \<in> {keyword ''AS'', keyword ''ASC'', keyword ''DESC''} then 10
      else if t = keyword ''OR'' then 20
      else if t = keyword ''AND'' then 30
      else if t \<in> TT_Symbol ` {Sym_Lt, Sym_LtEq, Sym_Eq, Sym_BangEq, Sym_GtEq, Sym_Gt} then 40
      else if t \<in> {TT_Symbol Sym_Plus, TT_Symbol Sym_Sub} then 50
      else if t \<in> {TT_Symbol Sym_Star, TT_Symbol Sym_Slash} then 60
      else if t = TT_Symbol Sym_LeftParen then 70
      else 0)"

definition next_precedence :: "TokenStream \<Rightarrow> nat" where
  "next_precedence s = (case peek s of None \<Rightarrow> 0 | Some t \<Rightarrow> token_precedence (token_type t))"

definition infix_symbols :: "Symbol list" where
  "infix_symbols = [Sym_Plus, Sym_Sub, Sym_Star, Sym_Slash, Sym_Eq, Sym_Gt, Sym_Lt, Sym_GtEq, Sym_LtEq,
     Sym_BangEq, Sym_LtGt]"

definition is_infix_operator :: "TokenType \<Rightarrow> bool" where
  "is_infix_operator t = (t \<in> TT_Symbol ` set infix_symbols \<or> t = keyword ''AND'' \<or> t = keyword ''OR'')"

definition name_keywords :: "string list" where
  "name_keywords = [''MIN'', ''MAX'', ''SUM'', ''AVG'', ''COUNT'', ''INT'', ''DOUBLE'']"

definition at_symbol :: "Symbol \<Rightarrow> TokenStream \<Rightarrow> bool" where
  "at_symbol y s = (map_option token_type (peek s) = Some (TT_Symbol y))"

text \<open>@parse_date@ and @parse_interval@.\<close>

definition parse_string_after :: "string \<Rightarrow> TokenStream \<Rightarrow> (string \<times> TokenStream) res" where
  "parse_string_after msg s = (case next_tok s of
      (None, s') \<Rightarrow> Panic (Panicked msg)
    | (Some t, s') \<Rightarrow> if token_type t = TT_Literal Lit_String then Ok (tok_text t, s') else Panic (Panicked msg))"

definition expect_token :: "TokenType \<Rightarrow> string \<Rightarrow> TokenStream \<Rightarrow> TokenStream res" where
  "expect_token t msg s = (case consume_token_type t s of (True, s') \<Rightarrow> Ok s' | (False, s') \<Rightarrow> Panic (Panicked msg))"

definition sort_key :: "SqlExpr \<Rightarrow> SqlExpr res" where
  "sort_key e = (case e of
      S_Identifier n \<Rightarrow> Ok (S_Sort (S_Identifier n) True)
    | S_Sort x asc \<Rightarrow> Ok (S_Sort x asc)
    | _ \<Rightarrow> Panic (Panicked ''Unexpected expression after order by.''))"

definition identifier_of :: "string \<Rightarrow> SqlExpr option \<Rightarrow> string res" where
  "identifier_of msg e = (case e of Some (S_Identifier n) \<Rightarrow> Ok n | _ \<Rightarrow> Panic (Panicked msg))"

definition limit_of :: "SqlExpr option \<Rightarrow> 32 word res" where
  "limit_of e = (case e of
      None \<Rightarrow> Panic (Panicked ''Expected limit value after LIMIT'')
    | Some (S_Long v) \<Rightarrow> Ok (ucast v)
    | Some _ \<Rightarrow> Panic (Panicked ''LIMIT must be a numeric value''))"

text \<open>An optional clause: its keywords, then its body.\<close>

definition clause :: "bool \<times> TokenStream \<Rightarrow> 'a \<Rightarrow> (TokenStream \<Rightarrow> ('a \<times> TokenStream) res) \<Rightarrow> ('a \<times> TokenStream) res" where
  "clause c d body = (case c of (True, s) \<Rightarrow> body s | (False, s) \<Rightarrow> Ok (d, s))"

section \<open>The parser\<close>

text \<open>The methods other than @parse@ take the expression parser @pr@ they call back
  (with a minimal precedence); the loops take fuel.\<close>

type_synonym expr_parser = "nat \<Rightarrow> TokenStream \<Rightarrow> (SqlExpr option \<times> TokenStream) res"

fun parse_expr_list :: "expr_parser \<Rightarrow> nat \<Rightarrow> TokenStream \<Rightarrow> (SqlExpr list \<times> TokenStream) res" where
  "parse_expr_list pr 0 s = Panic no_fuel"
| "parse_expr_list pr (Suc n) s = and_then (pr 0 s) (\<lambda>(e, s). case e of
      None \<Rightarrow> Ok ([], s)
    | Some e \<Rightarrow> if at_symbol Sym_Comma s then map_res (\<lambda>(es, s). (e # es, s)) (parse_expr_list pr n (advance s))
                else Ok ([e], s))"

fun parse_order :: "expr_parser \<Rightarrow> nat \<Rightarrow> TokenStream \<Rightarrow> (SqlExpr list \<times> TokenStream) res" where
  "parse_order pr 0 s = Panic no_fuel"
| "parse_order pr (Suc n) s = and_then (pr 0 s) (\<lambda>(e, s). case e of
      None \<Rightarrow> Ok ([], s)
    | Some e \<Rightarrow> and_then (sort_key e) (\<lambda>k.
        if at_symbol Sym_Comma s then map_res (\<lambda>(es, s). (k # es, s)) (parse_order pr n (advance s))
        else Ok ([k], s)))"

definition parse_cast :: "expr_parser \<Rightarrow> TokenStream \<Rightarrow> (SqlExpr \<times> TokenStream) res" where
  "parse_cast pr s =
     and_then (expect_token (TT_Symbol Sym_LeftParen) ''Expected ( after CAST'' s) (\<lambda>s.
     and_then (pr 0 s) (\<lambda>(e, s). and_then (expect ''Expected expression in CAST'' e) (\<lambda>e. case e of
        S_Alias x a \<Rightarrow> map_res (\<lambda>s. (S_Cast x a, s))
          (expect_token (TT_Symbol Sym_RightParen) ''Expected ) after CAST expression'' s)
      | _ \<Rightarrow> Panic (Panicked ''Expected AS type in CAST expression''))))"

definition parse_paren :: "expr_parser \<Rightarrow> TokenStream \<Rightarrow> (SqlExpr \<times> TokenStream) res" where
  "parse_paren pr s = and_then (pr 0 s) (\<lambda>(e, s).
     and_then (expect ''Expected expression after ('' e) (\<lambda>e.
       map_res (\<lambda>s. (e, s)) (expect_token (TT_Symbol Sym_RightParen) ''Expected ) after expression'' s)))"

definition parse_limit :: "expr_parser \<Rightarrow> TokenStream \<Rightarrow> (32 word option \<times> TokenStream) res" where
  "parse_limit pr s = and_then (pr 0 s) (\<lambda>(e, s). map_res (\<lambda>v. (Some v, s)) (limit_of e))"

definition parse_select :: "expr_parser \<Rightarrow> nat \<Rightarrow> TokenStream \<Rightarrow> (SqlSelect \<times> TokenStream) res" where
  "parse_select pr n s =
     and_then (parse_expr_list pr n s) (\<lambda>(projection, s). case consume_keyword ''FROM'' s of
        (False, s) \<Rightarrow> Panic (Panicked ''Expected FROM keyword'')
      | (True, s) \<Rightarrow> and_then (pr 0 s) (\<lambda>(te, s).
          and_then (identifier_of ''Expected table name after FROM'' te) (\<lambda>table_name.
          and_then (clause (consume_keyword ''WHERE'' s) None (pr 0)) (\<lambda>(selection, s).
          and_then (clause (consume_keywords [''GROUP'', ''BY''] s) [] (parse_expr_list pr n)) (\<lambda>(group_by, s).
          and_then (clause (consume_keyword ''HAVING'' s) None (pr 0)) (\<lambda>(having, s).
          and_then (clause (consume_keywords [''ORDER'', ''BY''] s) [] (parse_order pr n)) (\<lambda>(order_by, s).
          and_then (clause (consume_keyword ''LIMIT'' s) None (parse_limit pr)) (\<lambda>(limit, s).
            Ok (SqlSelect projection selection group_by order_by having limit table_name, s)))))))))"

definition prefix_keyword :: "expr_parser \<Rightarrow> nat \<Rightarrow> Keyword \<Rightarrow> Token \<Rightarrow> TokenStream \<Rightarrow> (SqlExpr \<times> TokenStream) res" where
  "prefix_keyword pr n k t s =
     (if k = KW ''SELECT'' then map_res (\<lambda>(q, s). (S_Select q, s)) (parse_select pr n s)
      else if k = KW ''CAST'' then parse_cast pr s
      else if k = KW ''DATE'' then map_res (\<lambda>(d, s). (S_Date d, s))
        (parse_string_after ''Expected date string after DATE keyword'' s)
      else if k = KW ''INTERVAL'' then map_res (\<lambda>(d, s). (S_Interval d, s))
        (parse_string_after ''Expected interval string after INTERVAL keyword'' s)
      else if kw_name k \<in> set name_keywords then Ok (S_Identifier (tok_text t), s)
      else Panic (Panicked ''Unexpected token''))"

definition prefix_literal :: "Literal \<Rightarrow> Token \<Rightarrow> SqlExpr res" where
  "prefix_literal l t = (case l of
      Lit_Identifier \<Rightarrow> Ok (S_Identifier (tok_text t))
    | Lit_String \<Rightarrow> Ok (S_String (tok_text t))
    | Lit_Long \<Rightarrow> map_res S_Long (expect ''valid long literal'' (parse_i64 (tok_text t)))
    | Lit_Double \<Rightarrow> map_res S_Double (expect ''valid double literal'' (parse_f64 (tok_text t))))"

definition parse_prefix :: "expr_parser \<Rightarrow> nat \<Rightarrow> TokenStream \<Rightarrow> (SqlExpr option \<times> TokenStream) res" where
  "parse_prefix pr n s = (case next_tok s of
      (None, s) \<Rightarrow> Ok (None, s)
    | (Some t, s) \<Rightarrow> map_res (\<lambda>(e, s). (Some e, s)) (case token_type t of
        TT_Keyword k \<Rightarrow> prefix_keyword pr n k t s
      | TT_Literal l \<Rightarrow> map_res (\<lambda>e. (e, s)) (prefix_literal l t)
      | TT_Symbol y \<Rightarrow>
          if y = Sym_LeftParen then parse_paren pr s
          else if y = Sym_Star then Ok (S_Identifier ''*'', s)
          else Panic (Panicked ''Unexpected token'')))"

definition parse_call :: "expr_parser \<Rightarrow> nat \<Rightarrow> string \<Rightarrow> TokenStream \<Rightarrow> (SqlExpr \<times> TokenStream) res" where
  "parse_call pr n f s =
     and_then (if at_symbol Sym_RightParen s then Ok ([], s) else parse_expr_list pr n s)
       (\<lambda>(args, s). map_res (\<lambda>s. (S_Function f args, s))
          (expect_token (TT_Symbol Sym_RightParen) ''Expected ) after function arguments'' s))"

definition parse_infix :: "expr_parser \<Rightarrow> nat \<Rightarrow> SqlExpr \<Rightarrow> nat \<Rightarrow> TokenStream \<Rightarrow> (SqlExpr \<times> TokenStream) res" where
  "parse_infix pr n left p s = (case peek s of
      None \<Rightarrow> Panic (Panicked ''infix token'')
    | Some t \<Rightarrow>
        if is_infix_operator (token_type t) then
          and_then (pr p (advance s)) (\<lambda>(r, s).
            map_res (\<lambda>r. (S_BinaryExpr left (tok_text t) r, s)) (expect ''Error parsing infix'' r))
        else if token_type t = keyword ''AS'' then
          and_then (pr 0 (advance s)) (\<lambda>(e, s).
            map_res (\<lambda>a. (S_Alias left a, s)) (identifier_of ''Expected identifier'' e))
        else if token_type t \<in> {keyword ''ASC'', keyword ''DESC''} then
          Ok (S_Sort left (token_type t = keyword ''ASC''), advance s)
        else if token_type t = TT_Symbol Sym_LeftParen then (case left of
            S_Identifier f \<Rightarrow> parse_call pr n f (advance s)
          | _ \<Rightarrow> Panic (Panicked ''Unexpected LPAREN''))
        else Panic (Panicked ''Unexpected infix token''))"

fun infix_loop :: "expr_parser \<Rightarrow> nat \<Rightarrow> nat \<Rightarrow> SqlExpr \<Rightarrow> TokenStream \<Rightarrow> (SqlExpr \<times> TokenStream) res" where
  "infix_loop pr 0 p e s = Panic no_fuel"
| "infix_loop pr (Suc n) p e s =
     (if p < next_precedence s
      then and_then (parse_infix pr n e (next_precedence s) s) (\<lambda>(e, s). infix_loop pr n p e s)
      else Ok (e, s))"

primrec parse :: "nat \<Rightarrow> expr_parser" where
  "parse 0 = (\<lambda>p s. Panic no_fuel)"
| "parse (Suc n) = (\<lambda>p s. and_then (parse_prefix (parse n) n s) (\<lambda>(e, s). case e of
      None \<Rightarrow> Ok (None, s)
    | Some e \<Rightarrow> map_res (\<lambda>(e, s). (Some e, s)) (infix_loop (parse n) (Suc n) p e s)))"

text \<open>@parser.parse(0)@ on a fresh token stream, with one unit of fuel per token.\<close>

definition parse_sql :: "TokenStream \<Rightarrow> (SqlExpr option \<times> TokenStream) res" where
  "parse_sql s = parse (length (remaining s) + 1) 0 s"

text \<open>A statement from its text: tokenize, then @parse(0)@; what is left over is ignored.\<close>

definition read_sql :: "string \<Rightarrow> SqlExpr option res" where
  "read_sql sql = and_then (tokenize sql) (\<lambda>s. map_res fst (parse_sql s))"

end
