(* ===== verification/Sql_Planner.thy ===== *)
theory Sql_Planner
  imports Logical_Plan Sql_Parser
begin

text \<open>
  From the syntax tree to a logical plan (@sql/src/sql_planner.rs@): expressions, the columns
  they reference, the plan of a query without aggregates and of one with aggregates.
  Parsing a calendar date is a parameter of the environment.
\<close>

section \<open>Ordered sets of column names\<close>

definition ordered_extend :: "string list \<Rightarrow> string list \<Rightarrow> string list" where
  "ordered_extend target extra = foldl push_new target extra"

definition ordered_difference :: "string list \<Rightarrow> string list \<Rightarrow> string list" where
  "ordered_difference xs remove = List.filter (\<lambda>c. c \<notin> set remove) xs"

definition aggregate_arg :: "AggregateExpr \<Rightarrow> LogicalExpr" where
  "aggregate_arg a = (case a of A_Sum e \<Rightarrow> e | A_Min e \<Rightarrow> e | A_Max e \<Rightarrow> e | A_Avg e \<Rightarrow> e
     | A_Count e \<Rightarrow> e | A_CountDistinct e \<Rightarrow> e)"

lemma aggregate_arg_size [termination_simp]: "size (aggregate_arg a) < size a"
  by (cases a) (auto simp: aggregate_arg_def)

fun visit :: "LogicalExpr \<Rightarrow> string list \<Rightarrow> string list" where
  "visit (Column n) acc = push_new acc n"
| "visit (L_Alias e a) acc = visit e acc"
| "visit (L_Eq l r) acc = visit r (visit l acc)"
| "visit (L_Neq l r) acc = visit r (visit l acc)"
| "visit (L_Gt l r) acc = visit r (visit l acc)"
| "visit (L_GtEq l r) acc = visit r (visit l acc)"
| "visit (L_Lt l r) acc = visit r (visit l acc)"
| "visit (L_LtEq l r) acc = visit r (visit l acc)"
| "visit (L_And l r) acc = visit r (visit l acc)"
| "visit (L_Or l r) acc = visit r (visit l acc)"
| "visit (L_Add l r) acc = visit r (visit l acc)"
| "visit (L_Subtract l r) acc = visit r (visit l acc)"
| "visit (L_Multiply l r) acc = visit r (visit l acc)"
| "visit (L_Divide l r) acc = visit r (visit l acc)"
| "visit (L_Modulus l r) acc = visit r (visit l acc)"
| "visit (L_Aggregate a) acc = visit (aggregate_arg a) acc"
| "visit e acc = acc"

definition visit_aggregate :: "AggregateExpr \<Rightarrow> string list \<Rightarrow> string list" where
  "visit_aggregate a acc = visit (aggregate_arg a) acc"

definition referenced_columns :: "LogicalExpr list \<Rightarrow> string list" where
  "referenced_columns es = fold visit es []"

definition is_aggregate_expr :: "LogicalExpr \<Rightarrow> bool" where
  "is_aggregate_expr e = (case e of
      L_Aggregate a \<Rightarrow> True
    | L_Alias x n \<Rightarrow> (case x of L_Aggregate a \<Rightarrow> True | _ \<Rightarrow> False)
    | _ \<Rightarrow> False)"

section \<open>Expressions\<close>

definition strip_suffix :: "string \<Rightarrow> string \<Rightarrow> string option" where
  "strip_suffix suf s =
     (let k = length s - length suf
      in if length suf \<le> length s \<and> drop k s = suf then Some (take k s) else None)"

definition trim_end :: "string \<Rightarrow> string" where
  "trim_end s = rev (dropWhile is_whitespace (rev s))"

definition parse_interval_days :: "string \<Rightarrow> 64 word option" where
  "parse_interval_days s =
     (let lower = to_lowercase s in
      case (case strip_suffix ''days'' lower of Some h \<Rightarrow> Some h | None \<Rightarrow> strip_suffix ''day'' lower) of
        None \<Rightarrow> None
      | Some head \<Rightarrow>
          let digits = trim_end head in
          if length digits = length head then None
          else if digits = [] \<or> \<not> list_all is_ascii_digit digits then None
          else parse_i64 digits)"

definition parse_interval :: "string \<Rightarrow> LogicalExpr res" where
  "parse_interval v = map_res LiteralIntervalDays
     (expect ''Invalid interval format'' (parse_interval_days (trim v)))"

definition parse_data_type :: "string \<Rightarrow> DataType res" where
  "parse_data_type n = (if n = ''double'' then Ok T_Float64 else Panic (Panicked ''Invalid data type''))"

definition date_and_interval :: "LogicalExpr \<Rightarrow> LogicalExpr \<Rightarrow> bool" where
  "date_and_interval l r = ((case l of LiteralDate d \<Rightarrow> True | _ \<Rightarrow> False)
     \<and> (case r of LiteralIntervalDays d \<Rightarrow> True | _ \<Rightarrow> False))"

definition binary_expr :: "string \<Rightarrow> LogicalExpr \<Rightarrow> LogicalExpr \<Rightarrow> LogicalExpr res" where
  "binary_expr w l r =
     (if w = ''='' then Ok (L_Eq l r)
      else if w = ''!='' \<or> w = ''<>'' then Ok (L_Neq l r)
      else if w = ''>'' then Ok (L_Gt l r)
      else if w = ''>='' then Ok (L_GtEq l r)
      else if w = ''<'' then Ok (L_Lt l r)
      else if w = ''<='' then Ok (L_LtEq l r)
      else if w = ''AND'' then Ok (L_And l r)
      else if w = ''OR'' then Ok (L_Or l r)
      else if w = ''+'' then Ok (if date_and_interval l r then L_DateAdd l r else L_Add l r)
      else if w = ''-'' then Ok (if date_and_interval l r then L_DateSubtract l r else L_Subtract l r)
      else if w = ''*'' then Ok (L_Multiply l r)
      else if w = ''/'' then Ok (L_Divide l r)
      else if w = ''%'' then Ok (L_Modulus l r)
      else Panic (Panicked ''Invalid operator''))"

definition aggregate_call :: "string \<Rightarrow> LogicalExpr \<Rightarrow> LogicalExpr res" where
  "aggregate_call upper arg =
     (if upper = ''MIN'' then Ok (L_Aggregate (A_Min arg))
      else if upper = ''MAX'' then Ok (L_Aggregate (A_Max arg))
      else if upper = ''SUM'' then Ok (L_Aggregate (A_Sum arg))
      else if upper = ''AVG'' then Ok (L_Aggregate (A_Avg arg))
      else Panic (Panicked ''Unexpected aggregate function''))"

fun create_logical_expr :: "env \<Rightarrow> SqlExpr \<Rightarrow> LogicalExpr res" where
  "create_logical_expr E (S_Identifier n) = Ok (Column n)"
| "create_logical_expr E (S_String t) = Ok (LiteralString t)"
| "create_logical_expr E (S_Long v) = Ok (LiteralLong v)"
| "create_logical_expr E (S_Double v) = Ok (LiteralDouble v)"
| "create_logical_expr E (S_Date v) = map_res LiteralDate (expect ''invalid date literal'' (date_parse E v))"
| "create_logical_expr E (S_Interval v) = parse_interval v"
| "create_logical_expr E (S_BinaryExpr l w r) =
     and_then (create_logical_expr E l) (\<lambda>l. and_then (create_logical_expr E r) (\<lambda>r. binary_expr w l r))"
| "create_logical_expr E (S_Alias e a) = map_res (\<lambda>e. L_Alias e a) (create_logical_expr E e)"
| "create_logical_expr E (S_Cast e t) =
     and_then (create_logical_expr E e) (\<lambda>e. map_res (L_Cast e) (parse_data_type t))"
| "create_logical_expr E (S_Function f []) =
     (let upper = to_uppercase f in
      if upper \<in> {''MIN'', ''MAX'', ''SUM'', ''AVG''} then Panic (Panicked ''() requires an argument'')
      else if upper = ''COUNT'' then
        Panic (Panicked ''COUNT() requires an argument, use COUNT(*) to count all rows'')
      else Panic (Panicked ''Invalid aggregate function''))"
| "create_logical_expr E (S_Function f (a # as)) =
     (let upper = to_uppercase f in
      if upper \<in> {''MIN'', ''MAX'', ''SUM'', ''AVG''} then
        and_then (create_logical_expr E a) (aggregate_call upper)
      else if upper = ''COUNT'' then
        if a = S_Identifier ''*'' then Ok (L_Aggregate (A_Count (LiteralLong 1)))
        else map_res (\<lambda>e. L_Aggregate (A_Count e)) (create_logical_expr E a)
      else Panic (Panicked ''Invalid aggregate function''))"
| "create_logical_expr E (S_Sort e asc) = Panic (Panicked ''Cannot create logical expression from sql expression'')"
| "create_logical_expr E (S_Select q) = Panic (Panicked ''Cannot create logical expression from sql expression'')"

section \<open>Queries\<close>

definition columns_referenced_by_selection :: "env \<Rightarrow> SqlSelect \<Rightarrow> DataFrame \<Rightarrow> string list res" where
  "columns_referenced_by_selection E q table = (case sel_selection q of
      None \<Rightarrow> Ok []
    | Some w \<Rightarrow> and_then (create_logical_expr E w) (\<lambda>f.
        map_res (\<lambda>s. List.filter (\<lambda>n. n \<in> set (col_names s)) (visit f [])) (df_schema E table)))"

definition with_limit :: "SqlSelect \<Rightarrow> DataFrame \<Rightarrow> DataFrame" where
  "with_limit q plan = (case sel_limit q of None \<Rightarrow> plan | Some n \<Rightarrow> df_limit plan n)"

text \<open>Projecting the columns the filter needs beside the wanted ones, and filtering.\<close>

definition project_and_filter :: "env \<Rightarrow> DataFrame \<Rightarrow> LogicalExpr list \<Rightarrow> string list \<Rightarrow> SqlExpr \<Rightarrow> DataFrame res" where
  "project_and_filter E df es missing w =
     map_res (df_filter (df_project df (es @ List.map Column missing))) (create_logical_expr E w)"

definition plan_non_aggregate_query ::
  "env \<Rightarrow> SqlSelect \<Rightarrow> DataFrame \<Rightarrow> LogicalExpr list \<Rightarrow> string list \<Rightarrow> string list \<Rightarrow> DataFrame res" where
  "plan_non_aggregate_query E q df es sel_columns proj_columns = (case sel_selection q of
      None \<Rightarrow> Ok (with_limit q (df_project df es))
    | Some w \<Rightarrow>
        let missing = ordered_difference sel_columns proj_columns in
        map_res (with_limit q)
          (if missing = [] then project_and_filter E df es [] w
           else and_then (project_and_filter E df es missing w) (\<lambda>plan.
             and_then (df_schema E plan) (\<lambda>s.
             map_res (\<lambda>fs. df_project plan (List.map (\<lambda>f. Column (f_name f)) fs))
               (traverse (idx (s_fields s)) [0..<length es])))))"

definition aggregate_input ::
  "env \<Rightarrow> LogicalExpr list \<Rightarrow> SqlSelect \<Rightarrow> string list \<Rightarrow> DataFrame \<Rightarrow> AggregateExpr list \<Rightarrow> DataFrame res" where
  "aggregate_input E es q sel_columns df as = (case sel_selection q of
      None \<Rightarrow> Ok df
    | Some w \<Rightarrow>
        let plain = List.filter (\<lambda>e. \<not> is_aggregate_expr e) es;
            plain_columns = referenced_columns plain;
            required = ordered_extend (ordered_extend plain_columns sel_columns) (fold visit_aggregate as []);
            missing = ordered_difference required plain_columns
        in project_and_filter E df plain missing w)"

definition plan_aggregate_query ::
  "env \<Rightarrow> LogicalExpr list \<Rightarrow> SqlSelect \<Rightarrow> string list \<Rightarrow> DataFrame \<Rightarrow> AggregateExpr list \<Rightarrow> DataFrame res" where
  "plan_aggregate_query E es q sel_columns df as =
     and_then (aggregate_input E es q sel_columns df as) (\<lambda>plan.
     map_res (\<lambda>gs. df_aggregate plan gs as) (traverse (create_logical_expr E) (sel_group_by q)))"

text \<open>The loop that splits the projection of an aggregate query: @gc@ group columns and the
  aggregates @as@ seen so far, @k@ GROUP BY keys.\<close>

fun split_projection :: "nat \<Rightarrow> nat \<Rightarrow> AggregateExpr list \<Rightarrow> LogicalExpr list \<Rightarrow>
    (LogicalExpr list \<times> AggregateExpr list) res" where
  "split_projection k gc as [] = Ok ([], as)"
| "split_projection k gc as (e # es) = (case e of
      L_Aggregate a \<Rightarrow> map_res (\<lambda>(ps, as'). (ColumnIndex (k + length as) # ps, as'))
        (split_projection k gc (as @ [a]) es)
    | L_Alias x n \<Rightarrow> (case x of
        L_Aggregate a \<Rightarrow> map_res (\<lambda>(ps, as'). (L_Alias (ColumnIndex (k + length as)) n # ps, as'))
          (split_projection k gc (as @ [a]) es)
      | _ \<Rightarrow> Panic (Panicked ''Alias in aggregate query must wrap an aggregate expression, found''))
    | _ \<Rightarrow> map_res (\<lambda>(ps, as'). (ColumnIndex gc # ps, as')) (split_projection k (gc + 1) as es))"

definition with_having :: "env \<Rightarrow> SqlSelect \<Rightarrow> DataFrame \<Rightarrow> DataFrame res" where
  "with_having E q plan = (case sel_having q of
      None \<Rightarrow> Ok plan
    | Some h \<Rightarrow> map_res (df_filter plan) (create_logical_expr E h))"

definition create_data_frame :: "env \<Rightarrow> SqlSelect \<Rightarrow> (string \<rightharpoonup> DataFrame) \<Rightarrow> DataFrame res" where
  "create_data_frame E q tables =
     and_then (expect ''No table named'' (tables (sel_table_name q))) (\<lambda>table.
     and_then (traverse (create_logical_expr E) (sel_projection q)) (\<lambda>es.
       let proj_columns = referenced_columns es;
           n = length (List.filter is_aggregate_expr es)
       in if n = 0 \<and> sel_group_by q \<noteq> []
          then Panic (Panicked ''GROUP BY without aggregate expressions is not supported'')
          else and_then (columns_referenced_by_selection E q table) (\<lambda>sel_columns.
            if n = 0 then plan_non_aggregate_query E q table es sel_columns proj_columns
            else and_then (split_projection (length (sel_group_by q)) 0 [] es) (\<lambda>(projection, as).
              and_then (plan_aggregate_query E es q sel_columns table as) (\<lambda>plan.
              map_res (with_limit q) (with_having E q (df_project plan projection)))))))"

end
