(* ===== verification/Sql_Plan_Props.thy ===== *)
theory Sql_Plan_Props
  imports Optimizer_Join Sql_Planner
begin

text \<open>
  What the plans of the SQL planner mean: a query without aggregates is a filter of the table,
  a projection and a limit, although the plan projects first and filters afterwards.
\<close>

section \<open>Expressions the planner builds\<close>

lemma binary_expr_by_name: "binary_expr w l r = Ok e \<Longrightarrow> by_name l \<Longrightarrow> by_name r \<Longrightarrow> by_name e"
  by (auto simp: binary_expr_def split: if_splits)

lemma planned_by_name: "create_logical_expr E x = Ok e \<Longrightarrow> by_name e"
proof (induction E x arbitrary: e rule: create_logical_expr.induct)
  case (7 E l w r)
  then show ?case using binary_expr_by_name by (fastforce simp: and_then_eq_Ok)
next
  case (11 E f a as)
  then show ?case
    by (auto simp: and_then_eq_Ok map_res_eq_Ok aggregate_call_def Let_def split: if_splits)
qed (auto simp: map_res_eq_Ok and_then_eq_Ok parse_interval_def Let_def split: if_splits)

section \<open>Filtering above the projection\<close>

definition output_name :: "env \<Rightarrow> LogicalPlan \<Rightarrow> LogicalExpr \<Rightarrow> string" where
  "output_name E p e = f_name (the_ok (to_field E (plan_schema E p) e))"

definition row_of :: "env \<Rightarrow> LogicalPlan \<Rightarrow> LogicalExpr list \<Rightarrow> ScalarValue list \<Rightarrow> ScalarValue list" where
  "row_of E p es r = List.map (\<lambda>e. the_ok (value_on E p e r)) es"

lemma projection_schema:
  assumes "plan_ok E (Projection p es)"
  shows "plan_ok E p" "evaluates E p es"
    "\<And>i. i < length es \<Longrightarrow> to_field E (plan_schema E p) (es ! i) = Ok (s_fields (schema_of E (Projection p es)) ! i)"
    "width (schema_of E (Projection p es)) = length es" "es \<noteq> []"
    "\<And>i. i < length es \<Longrightarrow> well_typed E p (es ! i) (f_type (s_fields (schema_of E (Projection p es)) ! i))"
proof -
  obtain fs where fs: "traverse (to_field E (plan_schema E p)) es = Ok fs"
    "list_all2 (\<lambda>e f. well_typed E p e (f_type f)) es fs" "plan_ok E p" "evaluates E p es" "es \<noteq> []"
    using assms by (elim plan_ok_projectionE) auto
  then have s: "schema_of E (Projection p es) = new_schema fs" by (simp add: schema_of_def)
  show "plan_ok E p" "evaluates E p es" "es \<noteq> []" using fs by blast+
  show "to_field E (plan_schema E p) (es ! i) = Ok (s_fields (schema_of E (Projection p es)) ! i)" if "i < length es" for i
    using traverse_nth [OF fs(1) that] s by (simp add: new_schema_def)
  show "width (schema_of E (Projection p es)) = length es" using traverse_length [OF fs(1)] s by (simp add: new_schema_def)
  show "well_typed E p (es ! i) (f_type (s_fields (schema_of E (Projection p es)) ! i))" if "i < length es" for i
    using fs(2) that s by (simp add: new_schema_def list_all2_conv_all_nth)
qed

text \<open>A column is visible through a projection when what the projection calls by that name is
  the column itself.\<close>

definition visible :: "env \<Rightarrow> LogicalPlan \<Rightarrow> LogicalExpr list \<Rightarrow> string \<Rightarrow> bool" where
  "visible E p es n = (\<forall>e\<in>set es. output_name E p e = n \<longrightarrow> e = Column n)"

lemma column_visible:
  assumes "plan_ok E (Projection p es)" "visible E p es n" "n \<in> set (col_names (schema_of E (Projection p es)))"
    "R \<in> results E p" "r \<in> set R"
  shows "n \<in> set (col_names (schema_of E p))"
    "field_named (schema_of E p) n = field_named (schema_of E (Projection p es)) n"
    "column_value (schema_of E p) n r = column_value (schema_of E (Projection p es)) n (row_of E p es r)"
proof -
  let ?S = "schema_of E (Projection p es)"
  note ps = projection_schema [OF assms(1)]
  obtain j where j: "column_of [] ?S n = Ok j" "j < length es" "f_name (s_fields ?S ! j) = n"
    using column_of_Ok [OF assms(3)] ps(4) by fastforce
  have "output_name E p (es ! j) = n" using ps(3) [OF j(2)] j(3) by (simp add: output_name_def)
  then have col: "es ! j = Column n" using assms(2) j(2) nth_mem unfolding visible_def by blast
  have "to_field E (Ok (schema_of E p)) (Column n) = Ok (s_fields ?S ! j)"
    using ps(3) [OF j(2)] plan_ok_schema [OF ps(1)] unfolding col by simp
  then have fld: "field_named (schema_of E p) n = Some (s_fields ?S ! j)"
    by (simp add: find_field_def expect_eq_Ok field_named_def)
  then show "field_named (schema_of E p) n = field_named ?S n" using column_of_field [OF j(1)] by simp
  have "well_typed E p (Column n) (f_type (s_fields ?S ! j))" using ps(6) [OF j(2)] unfolding col .
  note low = well_typedD(1) [OF ps(1) this]
  show mem: "n \<in> set (col_names (schema_of E p))" using lowered_columns [OF low] by simp
  obtain k where k: "column_of [] (schema_of E p) n = Ok k" using column_of_Ok [OF mem] by blast
  then have val: "value_on E p (Column n) r = idx r k" by (simp add: value_on_def column_of_def expect_eq_Ok)
  moreover have "is_ok (value_on E p (Column n) r)"
    using ps(2) assms(4,5) j(2) nth_mem [OF j(2)] unfolding evaluates_def col by blast
  ultimately have "idx (row_of E p es r) j = idx r k"
    using j(2) col by (auto simp: row_of_def is_ok_iff)
  then show "column_value (schema_of E p) n r = column_value ?S n (row_of E p es r)"
    using j(1) k by (simp add: column_value_def)
qed

lemma filter_visible:
  assumes "plan_ok E (Projection p es)" "well_typed E (Projection p es) w t" "by_name w"
    "\<forall>n\<in>expr_columns w. visible E p es n" "R \<in> results E p" "r \<in> set R"
  shows "value_on E (Projection p es) w (row_of E p es r) = value_on E p w r"
proof -
  let ?P = "Projection p es"
  note low = well_typedD [OF assms(1,2)]
  have names: "n \<in> set (col_names (schema_of E ?P))" if "n \<in> expr_columns w" for n
    using lowered_columns [OF low(1)] that by blast
  have vis: "visible E p es n" if "n \<in> expr_columns w" for n using assms(4) that by blast
  note v = column_visible [OF assms(1) vis names assms(5,6)]
  have "agree_on (expr_columns w) (schema_of E ?P) (schema_of E p)"
    "same_on (expr_columns w) (schema_of E ?P) (schema_of E p) (row_of E p es r) r"
    using v unfolding agree_on_def same_on_def by blast+
  from lower_transfer [OF this(1) low(1) assms(3), of E] this(2)
  obtain pe where "create_physical_expr (Ok (schema_of E p)) w = Ok pe"
    "eval_row E (col_types (schema_of E p)) pe r = eval_row E (col_types (schema_of E ?P)) (lowered E ?P w) (row_of E p es r)"
    unfolding same_expr_def by blast
  then show ?thesis using lower_value [of "schema_of E p" w pe E r] value_on_eval [OF assms(1,2)] by (simp add: value_on_def)
qed

lemma results_projection: "results E (Projection p es) = List.map (row_of E p es) ` results E p"
  by (simp add: row_of_def [abs_def])

lemma filter_then_project:
  assumes "plan_ok E (Selection (Projection p es) w)" "by_name w" "\<forall>n\<in>expr_columns w. visible E p es n"
  shows "results E (Selection (Projection p es) w)
     = (\<lambda>R. List.map (row_of E p es) (List.filter (\<lambda>r. value_on E p w r = Ok (V_Boolean True)) R)) ` results E p"
proof -
  have ok: "plan_ok E (Projection p es)" "well_typed E (Projection p es) w T_Boolean"
    using assms(1) by (auto elim: plan_ok_selectionE)
  have "List.filter (\<lambda>r. value_on E (Projection p es) w r = Ok (V_Boolean True)) (List.map (row_of E p es) R)
      = List.map (row_of E p es) (List.filter (\<lambda>r. value_on E p w r = Ok (V_Boolean True)) R)" if "R \<in> results E p" for R
    by (rule selection_eq) (simp add: filter_visible [OF ok assms(2,3) that])
  then show ?thesis unfolding results.simps(2) results_projection image_image by (intro image_cong) auto
qed

text \<open>Dropping the columns the filter needed: the first columns of the projection, by name.\<close>

lemma drop_extra_columns:
  assumes "plan_ok E (Projection p es)" "n \<le> length es" "distinct (List.map (output_name E p) (take n es))"
    "s = schema_of E (Projection p es)" "plan_schema E i = Ok s" "R \<in> results E p" "r \<in> set R"
  shows "row_of E i (List.map (\<lambda>f. Column (f_name f)) (take n (s_fields s))) (row_of E p es r) = row_of E p (take n es) r"
proof (rule nth_equalityI)
  note ps = projection_schema [OF assms(1), folded assms(4)]
  have w: "width s = length es" by (rule ps(4))
  then show "length (row_of E i (List.map (\<lambda>f. Column (f_name f)) (take n (s_fields s))) (row_of E p es r)) = length (row_of E p (take n es) r)"
    using assms(2) by (simp add: row_of_def)
  fix k assume "k < length (row_of E i (List.map (\<lambda>f. Column (f_name f)) (take n (s_fields s))) (row_of E p es r))"
  then have k: "k < n" "k < length es" using w assms(2) by (auto simp: row_of_def)
  have name: "output_name E p (es ! j) = f_name (s_fields s ! j)" if "j < length es" for j
    using ps(3) [OF that] by (simp add: output_name_def)
  have "f_name (s_fields s ! j) \<noteq> f_name (s_fields s ! k)" if "j < k" for j
  proof -
    have "List.map (output_name E p) (take n es) ! j \<noteq> List.map (output_name E p) (take n es) ! k"
      using assms(2,3) that k(1) by (subst nth_eq_iff_index_eq) auto
    then show ?thesis using that k assms(2) name [of j] name [of k] by simp
  qed
  then have "position (\<lambda>f. f_name f = f_name (s_fields s ! k)) (s_fields s) = Some k"
    using k(2) w position_Some [of "\<lambda>f. f_name f = f_name (s_fields s ! k)" "s_fields s"]
      position_None [of "\<lambda>f. f_name f = f_name (s_fields s ! k)" "s_fields s"]
    by (metis linorder_neqE_nat nth_mem option.exhaust)
  then have "value_on E i (Column (f_name (s_fields s ! k))) (row_of E p es r) = Ok (row_of E p es r ! k)"
    using assms(5) k(2) by (simp add: value_on_def schema_of_def [of E i] row_of_def)
  then show "row_of E i (List.map (\<lambda>f. Column (f_name f)) (take n (s_fields s))) (row_of E p es r) ! k = row_of E p (take n es) r ! k"
    using k w by (simp add: row_of_def)
qed

definition where_holds :: "env \<Rightarrow> LogicalPlan \<Rightarrow> SqlSelect \<Rightarrow> ScalarValue list \<Rightarrow> bool" where
  "where_holds E p q r = (case sel_selection q of
      None \<Rightarrow> True
    | Some w \<Rightarrow> value_on E p (the_ok (create_logical_expr E w)) r = Ok (V_Boolean True))"

definition limited :: "SqlSelect \<Rightarrow> 'a list \<Rightarrow> 'a list" where
  "limited q R = (case sel_limit q of None \<Rightarrow> R | Some n \<Rightarrow> take (i32_as_usize n) R)"

definition where_columns :: "env \<Rightarrow> SqlSelect \<Rightarrow> string set" where
  "where_columns E q = (case sel_selection q of
      None \<Rightarrow> {} | Some w \<Rightarrow> expr_columns (the_ok (create_logical_expr E w)))"

lemma with_limit_results: "results E (df_plan (with_limit q d)) = limited q ` results E (df_plan d)"
  by (simp add: with_limit_def limited_def df_limit_def split: option.split)

lemma with_limit_ok: "plan_ok E (df_plan (with_limit q d)) \<Longrightarrow> plan_ok E (df_plan d)"
  by (auto simp: with_limit_def df_limit_def elim: plan_ok_limitE split: option.splits)

lemma plain_query_plan:
  assumes "create_data_frame E q tables = Ok df" "tables (sel_table_name q) = Some T"
    "traverse (create_logical_expr E) (sel_projection q) = Ok es" "list_all (\<lambda>e. \<not> is_aggregate_expr e) es"
  shows "\<exists>sc pc. plan_non_aggregate_query E q T es sc pc = Ok df"
proof -
  have "List.filter is_aggregate_expr es = []" using assms(4) by (simp add: filter_empty_conv list_all_iff)
  then show ?thesis using assms(1-3) by (auto simp: create_data_frame_def Let_def and_then_eq_Ok split: if_splits)
qed

lemma named_take: "traverse (idx xs) [0..<n] = Ok ys \<Longrightarrow> n \<le> length xs \<and> ys = take n xs"
proof -
  assume t: "traverse (idx xs) [0..<n] = Ok ys"
  have "k < length xs \<and> ys ! k = xs ! k" if "k < n" for k using traverse_nth [OF t, of k] that by (simp add: idx_eq_Ok)
  then have "n \<le> length xs" "\<And>k. k < n \<Longrightarrow> ys ! k = xs ! k" by (metis le_less_linear less_irrefl, blast)
  then show ?thesis using traverse_length [OF t] by (auto intro: nth_equalityI)
qed

lemma visible_missing:
  "visible E p (es @ List.map Column ms) n \<longleftrightarrow> visible E p es n \<and> (\<forall>m\<in>set ms. output_name E p (Column m) = n \<longrightarrow> m = n)"
  by (auto simp: visible_def)

lemma column_output_name:
  assumes "plan_ok E p" "to_field E (plan_schema E p) (Column m) = Ok f"
  shows "output_name E p (Column m) = m"
proof -
  have "find (\<lambda>f. f_name f = m) (s_fields (schema_of E p)) = Some f"
    using assms(2) plan_ok_schema [OF assms(1)] by (simp add: find_field_def expect_eq_Ok)
  then have "f_name f = m" unfolding find_Some_iff by blast
  then show ?thesis unfolding output_name_def assms(2) by simp
qed

text \<open>The branch that projects extra columns for the filter and drops them again.\<close>

lemma extra_columns_branch:
  assumes "plan_ok E (Projection (Selection (Projection p (es @ List.map Column ms)) e) (List.map (\<lambda>f. Column (f_name f)) fs))"
    "plan_schema E (Selection (Projection p (es @ List.map Column ms)) e) = Ok s"
    "traverse (idx (s_fields s)) [0..<length es] = Ok fs" "by_name e" "\<forall>n\<in>expr_columns e. visible E p es n"
    "distinct (List.map (output_name E p) es)"
  shows "results E (Projection (Selection (Projection p (es @ List.map Column ms)) e) (List.map (\<lambda>f. Column (f_name f)) fs))
     = (\<lambda>R. List.map (row_of E p es) (List.filter (\<lambda>r. value_on E p e r = Ok (V_Boolean True)) R)) ` results E p"
proof -
  let ?es' = "es @ List.map Column ms"
  let ?S = "Selection (Projection p ?es') e"
  note fs = named_take [OF assms(3)]
  note okS = projection_schema(1) [OF assms(1)]
  have ok: "plan_ok E (Projection p ?es')" using okS by (auto elim: plan_ok_selectionE)
  note ps = projection_schema [OF ok]
  have "output_name E p (Column m) = m" if m: "m \<in> set ms" for m
  proof -
    have "Column m \<in> set ?es'" using m by simp
    then obtain k where k: "k < length ?es'" "?es' ! k = Column m" unfolding in_set_conv_nth by blast
    show ?thesis by (rule column_output_name [OF ps(1)]) (rule ps(3) [OF k(1), unfolded k(2)])
  qed
  then have vis: "\<forall>n\<in>expr_columns e. visible E p ?es' n" using assms(5) by (simp add: visible_missing)
  have sS: "s = schema_of E (Projection p ?es')" using assms(2) by (simp add: schema_of_def)
  have drop: "row_of E ?S (List.map (\<lambda>f. Column (f_name f)) fs) (row_of E p ?es' r) = row_of E p es r"
    if "R \<in> results E p" "r \<in> set R" for R r
    using drop_extra_columns [OF ok _ _ sS assms(2) that, of "length es"] assms(6) fs by simp
  show ?thesis unfolding results_projection filter_then_project [OF okS assms(4) vis] image_image
    by (intro image_cong) (auto simp: drop)
qed

lemma plain_query_meaning:
  assumes "create_data_frame E q tables = Ok df" "tables (sel_table_name q) = Some T"
    "traverse (create_logical_expr E) (sel_projection q) = Ok es" "list_all (\<lambda>e. \<not> is_aggregate_expr e) es"
    "plan_ok E (df_plan df)" "distinct (List.map (output_name E (df_plan T)) es)"
    "\<forall>n\<in>where_columns E q. visible E (df_plan T) es n"
  shows "results E (df_plan df) = (\<lambda>R. limited q (List.map (row_of E (df_plan T) es)
     (List.filter (where_holds E (df_plan T) q) R))) ` results E (df_plan T)"
proof -
  let ?p = "df_plan T"
  obtain sc pc where plan: "plan_non_aggregate_query E q T es sc pc = Ok df"
    using plain_query_plan [OF assms(1-4)] by blast
  show ?thesis
  proof (cases "sel_selection q")
    case None
    then have df: "df = with_limit q (df_project T es)" using plan by (simp add: plan_non_aggregate_query_def)
    show ?thesis unfolding df with_limit_results
      by (simp add: df_project_def results_projection image_image where_holds_def None del: results.simps)
  next
    case (Some w)
    let ?ms = "ordered_difference sc pc"
    have wl: "\<exists>e. create_logical_expr E w = Ok e" using plan Some
      by (auto simp: plan_non_aggregate_query_def project_and_filter_def Let_def map_res_eq_Ok and_then_eq_Ok split: if_splits)
    then obtain e where e: "create_logical_expr E w = Ok e" by blast
    have he: "where_holds E ?p q r = (value_on E ?p e r = Ok (V_Boolean True))" for r by (simp add: where_holds_def Some e)
    have bn: "by_name e" by (rule planned_by_name [OF e])
    have vis: "\<forall>n\<in>expr_columns e. visible E ?p es n" using assms(7) by (simp add: where_columns_def Some e)
    show ?thesis
    proof (cases "?ms = []")
      case True
      then have df: "df = with_limit q (df_filter (df_project T es) e)"
        using plan Some e by (simp add: plan_non_aggregate_query_def project_and_filter_def)
      have "plan_ok E (Selection (Projection ?p es) e)"
        using with_limit_ok assms(5) unfolding df by (fastforce simp: df_filter_def df_project_def)
      note r = filter_then_project [OF this bn vis]
      show ?thesis unfolding df with_limit_results he
        by (simp add: r image_image df_filter_def df_project_def del: results.simps)
    next
      case False
      let ?S = "Selection (Projection ?p (es @ List.map Column ?ms)) e"
      obtain s fs where s: "plan_schema E ?S = Ok s" "traverse (idx (s_fields s)) [0..<length es] = Ok fs"
        and df: "df = with_limit q \<lparr>df_plan = Projection ?S (List.map (\<lambda>f. Column (f_name f)) fs)\<rparr>"
        using plan Some e False
        by (auto simp: plan_non_aggregate_query_def project_and_filter_def and_then_eq_Ok map_res_eq_Ok df_project_def
            df_filter_def df_schema_def Let_def simp del: plan_schema.simps)
      have okP: "plan_ok E (Projection ?S (List.map (\<lambda>f. Column (f_name f)) fs))"
        using with_limit_ok assms(5) unfolding df by fastforce
      note r = extra_columns_branch [OF okP s bn vis assms(6)]
      show ?thesis unfolding df with_limit_results he by (simp add: r image_image del: results.simps)
    qed
  qed
qed

text \<open>C6: What a query without aggregates means: the plan of @SELECT es FROM t WHERE w LIMIT n@
  returns the values of the select list on the rows of the table on which the condition is
  TRUE, at most @n@ of them, although the planner projects first (with the columns the
  condition needs beside the select list) and filters and drops the extra columns afterwards.
  The conditions are that the output names are distinct and that nothing else in the select
  list is called like a column of the WHERE clause.\<close>

theorem select_where_meaning:
  assumes "create_data_frame E q tables = Ok df" "tables (sel_table_name q) = Some T"
    "traverse (create_logical_expr E) (sel_projection q) = Ok es" "list_all (\<lambda>e. \<not> is_aggregate_expr e) es"
    "plan_ok E (df_plan df)" "distinct (List.map (output_name E (df_plan T)) es)"
    "\<forall>n\<in>where_columns E q. visible E (df_plan T) es n"
  shows "results E (df_plan df) = (\<lambda>R. limited q (List.map (row_of E (df_plan T) es)
     (List.filter (where_holds E (df_plan T) q) R))) ` results E (df_plan T)"
  by (rule plain_query_meaning [OF assms])

section \<open>A concrete query\<close>

definition sample_table :: LogicalPlan where
  "sample_table = Scan ''t'' (In_Memory sample_schema [sample_batch, sample_batch]) [] sample_schema"

definition sample_select :: SqlSelect where
  "sample_select = SqlSelect [S_Identifier ''id''] (Some (S_BinaryExpr (S_Identifier ''name'') ''='' (S_String ''a'')))
     [] [] None (Some 1) ''t''"

abbreviation sample_where :: LogicalExpr where
  "sample_where \<equiv> L_Eq (Column ''name'') (LiteralString ''a'')"

definition sample_sql_plan :: LogicalPlan where
  "sample_sql_plan = Limit (Projection (Selection (Projection sample_table [Column ''id'', Column ''name'']) sample_where)
     [Column ''id'']) 1"

abbreviation sample_tables :: "string \<rightharpoonup> DataFrame" where
  "sample_tables \<equiv> [''t'' \<mapsto> \<lparr>df_plan = sample_table\<rparr>]"

lemma sample_table_ok:
  "plan_ok ref_env sample_table" "plan_schema ref_env sample_table = Ok sample_schema"
  "results ref_env sample_table = {let rs = [[V_Int32 7, V_Utf8 ''a''], [V_Null, V_Utf8 ''b''], [V_Int32 9, V_Null]] in rs @ rs}"
  "source_ok ref_env (In_Memory sample_schema [sample_batch, sample_batch]) sample_schema [sample_batch, sample_batch]"
proof -
  have tw: "table_wf sample_schema [sample_batch, sample_batch]"
    using sample_plan_ok(3) by (auto simp: table_wf_def typed_def)
  show so: "source_ok ref_env (In_Memory sample_schema [sample_batch, sample_batch]) sample_schema [sample_batch, sample_batch]"
    by (rule memory_source_ok [OF ref_env_ok tw]) (simp add: new_schema_def)
  then have x: "ds_scan ref_env (In_Memory sample_schema [sample_batch, sample_batch]) [] = Ok (List.map Ok [sample_batch, sample_batch])"
    unfolding source_ok_def by blast
  show "plan_ok ref_env sample_table" unfolding sample_table_def
    by (rule plan_ok.scan [OF x sample_plan_ok(3)]) (simp add: derive_schema_def ds_schema_def)
  show "plan_schema ref_env sample_table = Ok sample_schema" by (simp add: sample_table_def)
  show "results ref_env sample_table = {let rs = [[V_Int32 7, V_Utf8 ''a''], [V_Null, V_Utf8 ''b''], [V_Int32 9, V_Null]] in rs @ rs}"
    using x sample_rows by (simp add: comp_def sample_table_def)
qed

lemma sample_planned: "create_data_frame ref_env sample_select sample_tables = Ok \<lparr>df_plan = sample_sql_plan\<rparr>"
proof -
  note d = create_data_frame_def sample_select_def binary_expr_def is_aggregate_expr_def columns_referenced_by_selection_def
    df_schema_def sample_table_ok(2) new_schema_def new_field_def referenced_columns_def push_new_def
    plan_non_aggregate_query_def ordered_difference_def project_and_filter_def df_project_def df_filter_def
    with_limit_def df_limit_def sample_sql_plan_def find_field_def
  show ?thesis by (simp add: d)
qed

lemma name_is_a:
  "plan_schema ref_env p = Ok sample_schema \<Longrightarrow> well_typed ref_env p sample_where T_Boolean"
  "plan_schema ref_env p = Ok sample_schema \<Longrightarrow>
     value_on ref_env p sample_where [V_Int32 7, V_Utf8 ''a''] = Ok (V_Boolean True)
     \<and> value_on ref_env p sample_where [V_Null, V_Utf8 ''b''] = Ok (V_Boolean False)
     \<and> value_on ref_env p sample_where [V_Int32 9, V_Null] = Ok V_Null"
  by (simp_all add: well_typed_def schema_of_def value_on_def lift2_def compared_def bool_type_def opt2_def compare_types_def
      new_schema_def new_field_def compare_value_def compare_typed_def cmp_arm_def as_opt_str_def
      bool_cell_def cmp_opt_def cmp_string_def op_holds_def utf8_encode_def)

lemma sample_columns:
  assumes "plan_schema E p = Ok sample_schema"
  shows "well_typed E p (Column ''id'') T_Int32" "well_typed E p (Column ''name'') T_Utf8"
    "value_on E p (Column ''id'') [v, w] = Ok v" "value_on E p (Column ''name'') [v, w] = Ok w"
    "to_field E (plan_schema E p) (Column ''id'') = Ok (new_field ''id'' T_Int32)"
    "to_field E (plan_schema E p) (Column ''name'') = Ok (new_field ''name'' T_Utf8)"
  using assms by (simp_all add: well_typed_def schema_of_def value_on_def new_schema_def new_field_def find_field_def)

lemma sample_sql_plan_ok: "plan_ok ref_env sample_sql_plan"
proof -
  let ?cs = "[Column ''id'', Column ''name'']" and ?rows = "[[V_Int32 7, V_Utf8 ''a''], [V_Null, V_Utf8 ''b''], [V_Int32 9, V_Null]]"
  let ?p = "Projection sample_table ?cs"
  note c = sample_columns [OF sample_table_ok(2)]
  have p: "plan_ok ref_env ?p"
    by (rule plan_ok.projection [OF sample_table_ok(1), where fs = "[new_field ''id'' T_Int32, new_field ''name'' T_Utf8]"])
      (simp_all add: c sample_table_ok(2,3) find_field_def new_schema_def evaluates_def new_field_def)
  have sp: "plan_schema ref_env ?p = Ok sample_schema" by (simp add: sample_table_ok(2) find_field_def new_field_def new_schema_def)
  have rp: "results ref_env ?p = {?rows @ ?rows}" by (simp add: sample_table_ok(3) c)
  let ?s = "Selection ?p sample_where"
  have s: "plan_ok ref_env ?s"
    by (rule plan_ok.selection [OF p name_is_a(1) [OF sp]]) (use name_is_a(2) [OF sp] in \<open>auto simp: evaluates_def rp simp del: results.simps\<close>)
  have ss: "plan_schema ref_env ?s = Ok sample_schema" using sp by simp
  have rs: "results ref_env ?s = {[[V_Int32 7, V_Utf8 ''a''], [V_Int32 7, V_Utf8 ''a'']]}"
    by (subst results.simps) (simp add: rp name_is_a(2) [OF sp] del: results.simps)
  note c' = sample_columns [OF ss]
  have "plan_ok ref_env (Projection ?s [Column ''id''])"
    by (rule plan_ok.projection [OF s, where fs = "[new_field ''id'' T_Int32]"])
      (simp_all add: c'(1,3) ss rs find_field_def new_schema_def evaluates_def new_field_def del: results.simps plan_schema.simps)
  then show ?thesis unfolding sample_sql_plan_def by (rule plan_ok.limit)
qed

lemma sample_sql_plan_shape:
  "optimizable ref_env sample_sql_plan" "stable sample_sql_plan" "reporting sample_sql_plan"
  using sample_table_ok(4)
  by (auto simp: sample_sql_plan_def sample_table_def admissible_def reports_schema_def new_schema_def new_field_def)

theorem select_where_meaning_witness:
  "results ref_env sample_sql_plan = {[[V_Int32 7]]}"
proof -
  have es: "traverse (create_logical_expr ref_env) (sel_projection sample_select) = Ok [Column ''id'']"
    by (simp add: sample_select_def)
  have n: "output_name ref_env sample_table (Column ''id'') = ''id''"
    by (simp only: output_name_def sample_columns(5) [OF sample_table_ok(2)]) (simp add: new_field_def)
  have w: "where_columns ref_env sample_select = {''name''}"
    by (simp add: where_columns_def sample_select_def binary_expr_def)
  have "results ref_env sample_sql_plan = (\<lambda>R. limited sample_select (List.map (row_of ref_env sample_table [Column ''id''])
     (List.filter (where_holds ref_env sample_table sample_select) R))) ` results ref_env sample_table"
    using select_where_meaning [OF sample_planned _ es] sample_sql_plan_ok n w
    by (simp add: sample_select_def is_aggregate_expr_def visible_def)
  also have "\<dots> = {[[V_Int32 7]]}"
    using name_is_a(2) [OF sample_table_ok(2)]
    by (simp add: sample_table_ok(3) limited_def sample_select_def where_holds_def binary_expr_def row_of_def
        sample_columns [OF sample_table_ok(2)] i32_as_usize_def)
  finally show ?thesis .
qed


end
