(* ===== verification/Sql_Group_Props.thy ===== *)
theory Sql_Group_Props
  imports Sql_Plan_Props
begin

text \<open>
  What the plan of a query with aggregates means.  The planner refers to the select items by
  their position in the output of the aggregate: the group columns first, in the order of GROUP
  BY, then the aggregates in the order of the select list.
\<close>

section \<open>The select list\<close>

definition aggregate_of :: "LogicalExpr \<Rightarrow> AggregateExpr option" where
  "aggregate_of e = (case e of L_Aggregate a \<Rightarrow> Some a
     | L_Alias x n \<Rightarrow> (case x of L_Aggregate a \<Rightarrow> Some a | _ \<Rightarrow> None) | _ \<Rightarrow> None)"

lemma is_aggregate_iff: "is_aggregate_expr e \<longleftrightarrow> aggregate_of e \<noteq> None"
  by (auto simp: is_aggregate_expr_def aggregate_of_def split: LogicalExpr.splits)

definition picks :: "LogicalExpr \<Rightarrow> nat \<Rightarrow> bool" where
  "picks p n = (p = ColumnIndex n \<or> (\<exists>a. p = L_Alias (ColumnIndex n) a))"

text \<open>The positions the planner gives the select items, after @gc@ plain items and @j@ aggregates.\<close>

fun item_positions :: "nat \<Rightarrow> nat \<Rightarrow> nat \<Rightarrow> LogicalExpr list \<Rightarrow> nat list" where
  "item_positions k gc j [] = []"
| "item_positions k gc j (e # es) = (if aggregate_of e = None then gc # item_positions k (Suc gc) j es
     else (k + j) # item_positions k gc (Suc j) es)"

lemma split_step:
  assumes "split_projection k gc as (e # es) = Ok (ps, as')"
  shows "(\<exists>a p ps'. aggregate_of e = Some a \<and> picks p (k + length as) \<and> ps = p # ps' \<and> split_projection k gc (as @ [a]) es = Ok (ps', as'))
    \<or> (\<exists>ps'. aggregate_of e = None \<and> ps = ColumnIndex gc # ps' \<and> split_projection k (Suc gc) as es = Ok (ps', as'))"
  using assms by (cases e) (auto simp: aggregate_of_def picks_def map_res_eq_Ok split: LogicalExpr.splits)

lemma split_positions:
  "split_projection k gc as es = Ok (ps, as') \<Longrightarrow>
     as' = as @ List.map_filter aggregate_of es \<and> list_all2 picks ps (item_positions k gc (length as) es)"
proof (induction es arbitrary: gc as ps)
  case (Cons e es)
  consider a p ps' where "aggregate_of e = Some a" "picks p (k + length as)" "ps = p # ps'" "split_projection k gc (as @ [a]) es = Ok (ps', as')"
    | ps' where "aggregate_of e = None" "ps = ColumnIndex gc # ps'" "split_projection k (Suc gc) as es = Ok (ps', as')"
    using split_step [OF Cons.prems] by blast
  then show ?case
  proof cases
    case 1
    then show ?thesis using Cons.IH [OF 1(4)] by simp
  next
    case 2
    then show ?thesis using Cons.IH [OF 2(3)] by (simp add: picks_def)
  qed
qed simp

section \<open>The value of a select item on a group\<close>

definition aggregate_value :: "env \<Rightarrow> LogicalPlan \<Rightarrow> LogicalExpr list \<Rightarrow> ScalarValue list list \<Rightarrow> ScalarValue list \<Rightarrow> AggregateExpr \<Rightarrow> ScalarValue" where
  "aggregate_value E p gs R \<kappa> a = the_ok (aggregate_result E p gs R \<kappa> a)"

text \<open>An aggregate runs over the rows of the group; a plain item, a group key, has the value it has
  on any of them.\<close>

definition item_value :: "env \<Rightarrow> LogicalPlan \<Rightarrow> LogicalExpr list \<Rightarrow> ScalarValue list list \<Rightarrow> ScalarValue list \<Rightarrow> LogicalExpr \<Rightarrow> ScalarValue" where
  "item_value E p gs R \<kappa> e = (case aggregate_of e of Some a \<Rightarrow> aggregate_value E p gs R \<kappa> a
     | None \<Rightarrow> the_ok (value_on E p e (hd (group_of E p gs R \<kappa>))))"

lemma group_results_values:
  assumes "plan_ok E (Aggregate p gs as)" "R \<in> results E p" "\<kappa> \<in> keys_on E p gs R"
  shows "group_results E p gs as R \<kappa> = Ok (\<kappa> @ List.map (aggregate_value E p gs R \<kappa>) as)"
proof -
  obtain vs where vs: "traverse (aggregate_result E p gs R \<kappa>) as = Ok vs" "group_results E p gs as R \<kappa> = Ok (\<kappa> @ vs)"
    using assms by (force elim!: plan_ok_aggregateE simp: group_results_def map_res_eq_Ok)
  have "vs = List.map (aggregate_value E p gs R \<kappa>) as"
    using vs(1) by (auto simp: aggregate_value_def traverse_eq_Ok list_all2_conv_all_nth intro!: nth_equalityI)
  then show ?thesis using vs(2) by simp
qed

lemma key_of_group:
  assumes "\<kappa> \<in> keys_on E p gs R" "i < length gs"
  shows "\<kappa> ! i = the_ok (value_on E p (gs ! i) (hd (group_of E p gs R \<kappa>)))"
proof -
  obtain r where "r \<in> set R" "\<kappa> = group_key E p gs r" using assms(1) by (auto simp: keys_on_def group_key_def)
  then have "group_of E p gs R \<kappa> \<noteq> []" by (auto simp: group_of_def filter_empty_conv)
  then have "hd (group_of E p gs R \<kappa>) \<in> set (group_of E p gs R \<kappa>)" by simp
  then have "group_key E p gs (hd (group_of E p gs R \<kappa>)) = \<kappa>" by (simp add: group_of_def)
  then have "\<kappa> ! i = group_key E p gs (hd (group_of E p gs R \<kappa>)) ! i" by simp
  then show ?thesis using assms(2) by (simp add: group_key_def)
qed

text \<open>The cell at the position of an item is the value of the item.\<close>

lemma positions_values:
  assumes "\<kappa> \<in> keys_on E p gs R" "length \<kappa> = length gs"
    "drop gc gs = List.filter (\<lambda>e. aggregate_of e = None) es @ rest" "drop j as = List.map_filter aggregate_of es"
  shows "list_all2 (\<lambda>n e. n < length gs + length as \<and> (\<kappa> @ List.map (aggregate_value E p gs R \<kappa>) as) ! n = item_value E p gs R \<kappa> e)
     (item_positions (length gs) gc j es) es"
  using assms(3,4)
proof (induction es arbitrary: gc j)
  case (Cons e es)
  show ?case
  proof (cases "aggregate_of e")
    case None
    then have gs: "drop gc gs = e # List.filter (\<lambda>e. aggregate_of e = None) es @ rest" using Cons.prems(1) by simp
    then have gc: "gc < length gs" by (metis drop_eq_Nil2 leI list.distinct(1))
    then have "gs ! gc = e" "drop (Suc gc) gs = List.filter (\<lambda>e. aggregate_of e = None) es @ rest"
      using gs by (simp_all add: Cons_nth_drop_Suc [symmetric])
    then show ?thesis using Cons.IH [of "Suc gc" j] Cons.prems(2) None gc key_of_group [OF assms(1) gc] assms(2)
      by (simp add: nth_append item_value_def)
  next
    case (Some a)
    then have as: "drop j as = a # List.map_filter aggregate_of es" using Cons.prems(2) by simp
    then have j: "j < length as" by (metis drop_eq_Nil2 leI list.distinct(1))
    then have "as ! j = a" "drop (Suc j) as = List.map_filter aggregate_of es"
      using as by (simp_all add: Cons_nth_drop_Suc [symmetric])
    then show ?thesis using Cons.IH [of gc "Suc j"] Cons.prems(1) Some j assms(2)
      by (simp add: nth_append item_value_def)
  qed
qed simp

lemma picks_value:
  assumes "picks e n" "n < length r"
  shows "the_ok (value_on E p e r) = r ! n"
  using assms by (auto simp: picks_def value_on_def idx_def)

lemma projected_group:
  assumes "plan_ok E (Aggregate p gs as)" "R \<in> results E p" "\<kappa> \<in> keys_on E p gs R"
    "gs = List.filter (\<lambda>e. aggregate_of e = None) es @ rest" "as = List.map_filter aggregate_of es"
    "list_all2 picks ps (item_positions (length gs) 0 0 es)"
  shows "row_of E (Aggregate p gs as) ps (the_ok (group_results E p gs as R \<kappa>)) = List.map (item_value E p gs R \<kappa>) es"
proof -
  let ?r = "\<kappa> @ List.map (aggregate_value E p gs R \<kappa>) as"
  have k: "length \<kappa> = length gs" using assms(3) by (auto simp: keys_on_def group_key_def)
  have v: "list_all2 (\<lambda>n e. n < length gs + length as \<and> ?r ! n = item_value E p gs R \<kappa> e) (item_positions (length gs) 0 0 es) es"
    by (rule positions_values [OF assms(3) k, where rest = rest]) (use assms(4,5) in simp_all)
  have "list_all2 (\<lambda>q e. the_ok (value_on E (Aggregate p gs as) q ?r) = item_value E p gs R \<kappa> e) ps es"
    by (rule list_all2_trans [OF _ assms(6) v]) (use k picks_value in auto)
  then show ?thesis unfolding group_results_values [OF assms(1-3)]
    by (auto simp: row_of_def list_all2_conv_all_nth intro!: nth_equalityI)
qed

section \<open>Grouping above the filter\<close>

text \<open>With a WHERE clause the aggregate reads a projection of the table, filtered: the plain
  select items and the other columns the query mentions.  An expression over columns the
  projection shows has the same value there as on the table.\<close>

lemma planned_inner_by_name:
  "create_logical_expr E x = Ok e \<Longrightarrow> aggregate_of e = Some a \<Longrightarrow> by_name (aggregate_inner a)"
proof (induction E x arbitrary: e rule: create_logical_expr.induct)
  case (7 E l w r)
  then show ?case by (auto simp: and_then_eq_Ok binary_expr_def aggregate_of_def split: if_splits)
next
  case (8 E x n)
  then obtain x' where x': "create_logical_expr E x = Ok x'" "e = L_Alias x' n" by (auto simp: map_res_eq_Ok)
  then have "aggregate_of x' = Some a" using "8.prems"(2) by (auto simp: aggregate_of_def split: LogicalExpr.splits)
  then show ?case using "8.IH" x'(1) by blast
next
  case (11 E f x xs)
  then show ?case using planned_by_name [of E x]
    by (auto simp: and_then_eq_Ok map_res_eq_Ok aggregate_call_def aggregate_of_def aggregate_inner_def Let_def split: if_splits)
qed (auto simp: map_res_eq_Ok and_then_eq_Ok parse_interval_def aggregate_of_def Let_def split: if_splits)

lemma value_on_schema:
  "plan_schema E p' = plan_schema E p \<Longrightarrow> value_on E p' e r = value_on E p e r"
  "plan_schema E p' = plan_schema E p \<Longrightarrow> well_typed E p' e t \<longleftrightarrow> well_typed E p e t"
  by (simp_all add: value_on_def schema_of_def well_typed_def)

definition same_values :: "env \<Rightarrow> LogicalPlan \<Rightarrow> LogicalPlan \<Rightarrow> (ScalarValue list \<Rightarrow> ScalarValue list) \<Rightarrow> LogicalExpr list
    \<Rightarrow> ScalarValue list list \<Rightarrow> bool" where
  "same_values E i p f es R = (\<forall>r\<in>set R. \<forall>e\<in>set es. value_on E i e (f r) = value_on E p e r)"

lemma grouped_same:
  assumes "same_values E i p f (gs @ List.map aggregate_inner as) R" 
  shows "keys_on E i gs (List.map f R) = keys_on E p gs R"
    "group_of E i gs (List.map f R) \<kappa> = List.map f (group_of E p gs R \<kappa>)"
    "a \<in> set as \<Longrightarrow> aggregate_value E i gs (List.map f R) \<kappa> a = aggregate_value E p gs R \<kappa> a"
proof -
  have key: "group_key E i gs (f r) = group_key E p gs r" if "r \<in> set R" for r
    using assms that by (auto simp: same_values_def group_key_def)
  show "keys_on E i gs (List.map f R) = keys_on E p gs R"
    using key unfolding keys_on_def set_map image_image by (intro image_cong) auto
  show grp: "group_of E i gs (List.map f R) \<kappa> = List.map f (group_of E p gs R \<kappa>)"
    unfolding group_of_def by (rule selection_eq) (simp add: key)
  assume a: "a \<in> set as"
  have "List.map (\<lambda>r. the_ok (value_on E i (aggregate_inner a) r)) (group_of E i gs (List.map f R) \<kappa>)
      = List.map (\<lambda>r. the_ok (value_on E p (aggregate_inner a) r)) (group_of E p gs R \<kappa>)"
    using assms a unfolding grp by (auto simp: same_values_def group_of_def)
  then show "aggregate_value E i gs (List.map f R) \<kappa> a = aggregate_value E p gs R \<kappa> a"
    unfolding aggregate_value_def aggregate_result_def by (simp only:)
qed

lemma item_same:
  assumes "same_values E i p f (gs @ List.map aggregate_inner as) R" "\<kappa> \<in> keys_on E p gs R"
    "(case aggregate_of e of Some a \<Rightarrow> a \<in> set as | None \<Rightarrow> e \<in> set gs)"
  shows "item_value E i gs (List.map f R) \<kappa> e = item_value E p gs R \<kappa> e"
proof (cases "aggregate_of e")
  case None
  obtain r where "r \<in> set R" "\<kappa> = group_key E p gs r" using assms(2) by (auto simp: keys_on_def group_key_def)
  then have "group_of E p gs R \<kappa> \<noteq> []" by (auto simp: group_of_def filter_empty_conv)
  then have "hd (group_of E p gs R \<kappa>) \<in> set R" "hd (List.map f (group_of E p gs R \<kappa>)) = f (hd (group_of E p gs R \<kappa>))"
    using hd_in_set [of "group_of E p gs R \<kappa>"] by (auto simp: group_of_def hd_map)
  then show ?thesis using assms(1,3) None by (simp add: item_value_def grouped_same(2) [OF assms(1)] same_values_def)
next
  case (Some a)
  then show ?thesis using grouped_same(3) [OF assms(1)] assms(3) by (simp add: item_value_def)
qed

section \<open>Queries\<close>

abbreviation plain_items :: "LogicalExpr list \<Rightarrow> LogicalExpr list" where
  "plain_items \<equiv> List.filter (\<lambda>e. \<not> is_aggregate_expr e)"

abbreviation item_aggregates :: "LogicalExpr list \<Rightarrow> AggregateExpr list" where
  "item_aggregates \<equiv> List.map_filter aggregate_of"

lemma in_item_aggregates: "a \<in> set (item_aggregates es) \<longleftrightarrow> (\<exists>e\<in>set es. aggregate_of e = Some a)"
  by (force simp: List.map_filter_def)

text \<open>What the aggregate reads: the table, or the rows of the table the WHERE clause keeps.\<close>

lemma group_query_plan:
  assumes "create_data_frame E q tables = Ok df" "tables (sel_table_name q) = Some T"
    "traverse (create_logical_expr E) (sel_projection q) = Ok es" "\<exists>e\<in>set es. is_aggregate_expr e"
    "traverse (create_logical_expr E) (sel_group_by q) = Ok gs"
  shows "\<exists>i ps d. split_projection (length gs) 0 [] es = Ok (ps, item_aggregates es)
     \<and> (case sel_selection q of None \<Rightarrow> i = df_plan T
        | Some w \<Rightarrow> \<exists>ms c. create_logical_expr E w = Ok c \<and> i = Selection (Projection (df_plan T) (plain_items es @ List.map Column ms)) c)
     \<and> (case sel_having q of None \<Rightarrow> d = Projection (Aggregate i gs (item_aggregates es)) ps
        | Some h \<Rightarrow> \<exists>c. create_logical_expr E h = Ok c \<and> d = Selection (Projection (Aggregate i gs (item_aggregates es)) ps) c)
     \<and> df = with_limit q \<lparr>df_plan = d\<rparr>"
proof -
  have "List.filter is_aggregate_expr es \<noteq> []" using assms(4) by (simp add: filter_empty_conv)
  moreover have "length gs = length (sel_group_by q)" using traverse_length [OF assms(5)] .
  ultimately obtain ps as sc i d where p: "split_projection (length gs) 0 [] es = Ok (ps, as)"
    "aggregate_input E es q sc T as = Ok i" "with_having E q (df_project (df_aggregate i gs as) ps) = Ok d" "df = with_limit q d"
    using assms by (auto simp: create_data_frame_def Let_def and_then_eq_Ok map_res_eq_Ok plan_aggregate_query_def)
  have as: "as = item_aggregates es" using split_positions [OF p(1)] by simp
  have "case sel_selection q of None \<Rightarrow> df_plan i = df_plan T
      | Some w \<Rightarrow> \<exists>ms c. create_logical_expr E w = Ok c \<and> df_plan i = Selection (Projection (df_plan T) (plain_items es @ List.map Column ms)) c"
    using p(2) by (auto simp: aggregate_input_def project_and_filter_def df_filter_def df_project_def map_res_eq_Ok Let_def split: option.splits)
  moreover have "case sel_having q of None \<Rightarrow> df_plan d = Projection (Aggregate (df_plan i) gs as) ps
      | Some h \<Rightarrow> \<exists>c. create_logical_expr E h = Ok c \<and> df_plan d = Selection (Projection (Aggregate (df_plan i) gs as) ps) c"
    using p(3) by (auto simp: with_having_def df_filter_def df_project_def df_aggregate_def map_res_eq_Ok split: option.splits)
  moreover have "d = \<lparr>df_plan = df_plan d\<rparr>" by (cases d) simp
  ultimately show ?thesis using p(1,4) unfolding as
    by - (rule exI [of _ "df_plan i"], rule exI [of _ ps], rule exI [of _ "df_plan d"], metis)
qed

lemma grouped_projection:
  assumes "plan_ok E (Projection (Aggregate i gs (item_aggregates es)) ps)" "split_projection (length gs) 0 [] es = Ok (ps, item_aggregates es)"
    "gs = plain_items es @ rest"
  shows "results E (Projection (Aggregate i gs (item_aggregates es)) ps)
     = {List.map (\<lambda>\<kappa>. List.map (item_value E i gs R \<kappa>) es) \<kappa>s | R \<kappa>s. R \<in> results E i \<and> distinct \<kappa>s \<and> set \<kappa>s = keys_on E i gs R}"
proof -
  let ?as = "item_aggregates es"
  have pos: "list_all2 picks ps (item_positions (length gs) 0 0 es)" using split_positions [OF assms(2)] by simp
  have gs: "gs = List.filter (\<lambda>e. aggregate_of e = None) es @ rest" using assms(3) by (simp add: is_aggregate_iff)
  have ok: "plan_ok E (Aggregate i gs ?as)" using assms(1) by (auto elim: plan_ok_projectionE)
  have row: "List.map (row_of E (Aggregate i gs ?as) ps) (List.map (\<lambda>\<kappa>. the_ok (group_results E i gs ?as R \<kappa>)) \<kappa>s)
      = List.map (\<lambda>\<kappa>. List.map (item_value E i gs R \<kappa>) es) \<kappa>s"
    if "R \<in> results E i" "set \<kappa>s = keys_on E i gs R" for R \<kappa>s
    using projected_group [OF ok that(1) _ gs refl pos] that(2) by simp
  show ?thesis
    unfolding results_projection results.simps(5) using row by (auto simp: image_iff simp del: map_map) (metis row)+
qed

text \<open>The columns the query mentions are visible through the plain select items.\<close>

definition query_columns :: "env \<Rightarrow> SqlSelect \<Rightarrow> LogicalExpr list \<Rightarrow> LogicalExpr list \<Rightarrow> string set" where
  "query_columns E q gs es = where_columns E q
     \<union> (\<Union>e\<in>set (gs @ List.map aggregate_inner (item_aggregates es)). expr_columns e)"

definition group_visible :: "env \<Rightarrow> SqlSelect \<Rightarrow> LogicalPlan \<Rightarrow> LogicalExpr list \<Rightarrow> LogicalExpr list \<Rightarrow> bool" where
  "group_visible E q p gs es = (sel_selection q \<noteq> None \<longrightarrow> (\<forall>n\<in>query_columns E q gs es. visible E p (plain_items es) n))"

lemma visible_projected:
  assumes "plan_ok E (Projection p (es @ List.map Column ms))" "visible E p es n"
  shows "visible E p (es @ List.map Column ms) n"
proof -
  let ?es' = "es @ List.map Column ms"
  note ps = projection_schema [OF assms(1)]
  have "output_name E p (Column m) = m" if m: "m \<in> set ms" for m
  proof -
    have "Column m \<in> set ?es'" using m by simp
    then obtain k where k: "k < length ?es'" "?es' ! k = Column m" unfolding in_set_conv_nth by blast
    show ?thesis by (rule column_output_name [OF ps(1)]) (rule ps(3) [OF k(1), unfolded k(2)])
  qed
  then show ?thesis using assms(2) by (simp add: visible_missing)
qed

lemma filtered_input_same:
  assumes "plan_ok E (Aggregate (Selection (Projection p es') c) gs as)" "R \<in> results E p"
    "\<forall>e\<in>set (gs @ List.map aggregate_inner as). by_name e \<and> (\<forall>n\<in>expr_columns e. visible E p es' n)"
  shows "same_values E (Selection (Projection p es') c) p (row_of E p es') (gs @ List.map aggregate_inner as) (List.filter P R)"
proof -
  let ?i = "Selection (Projection p es') c" and ?es = "gs @ List.map aggregate_inner as"
  have sel: "plan_ok E ?i" and ty: "\<forall>e\<in>set ?es. \<exists>t. well_typed E ?i e t"
    using assms(1) by (auto elim!: plan_ok_aggregateE simp: list_all_iff)
  have pr: "plan_ok E (Projection p es')" using sel by (auto elim: plan_ok_selectionE)
  have sch: "plan_schema E ?i = plan_schema E (Projection p es')" by simp
  note p = projection_schema(1) [OF pr]
  show "same_values E ?i p (row_of E p es') ?es (List.filter P R)" unfolding same_values_def
  proof (intro ballI)
    fix r e assume r: "r \<in> set (List.filter P R)" and e: "e \<in> set ?es"
    obtain t where t: "well_typed E (Projection p es') e t" using ty e value_on_schema(2) [OF sch] by blast
    show "value_on E ?i e (row_of E p es' r) = value_on E p e r"
      unfolding value_on_schema(1) [OF sch] by (rule filter_visible [OF pr t _ _ assms(2)]) (use assms(3) e r in auto)
  qed
qed

definition having_holds :: "env \<Rightarrow> LogicalPlan \<Rightarrow> SqlSelect \<Rightarrow> ScalarValue list \<Rightarrow> bool" where
  "having_holds E d q r = (case sel_having q of
      None \<Rightarrow> True
    | Some h \<Rightarrow> value_on E d (the_ok (create_logical_expr E h)) r = Ok (V_Boolean True))"

text \<open>The rows of the grouped query: one for each distinct key of the rows the WHERE clause keeps.\<close>

definition grouped_rows :: "env \<Rightarrow> LogicalPlan \<Rightarrow> SqlSelect \<Rightarrow> LogicalExpr list \<Rightarrow> LogicalExpr list \<Rightarrow> ScalarValue list list set" where
  "grouped_rows E p q gs es = {List.map (\<lambda>\<kappa>. List.map (item_value E p gs (List.filter (where_holds E p q) R) \<kappa>) es) \<kappa>s | R \<kappa>s.
     R \<in> results E p \<and> distinct \<kappa>s \<and> set \<kappa>s = keys_on E p gs (List.filter (where_holds E p q) R)}"

lemma grouped_input:
  assumes "plan_ok E (Projection (Aggregate i gs (item_aggregates es)) ps)" "split_projection (length gs) 0 [] es = Ok (ps, item_aggregates es)"
    "gs = plain_items es @ rest" "\<forall>e\<in>set (gs @ List.map aggregate_inner (item_aggregates es)). by_name e" "group_visible E q p gs es"
    "case sel_selection q of None \<Rightarrow> i = p
       | Some w \<Rightarrow> \<exists>ms c. create_logical_expr E w = Ok c \<and> i = Selection (Projection p (plain_items es @ List.map Column ms)) c"
  shows "results E (Projection (Aggregate i gs (item_aggregates es)) ps) = grouped_rows E p q gs es"
proof (cases "sel_selection q")
  case None
  then have "i = p" "where_holds E p q = (\<lambda>r. True)" using assms(6) by (auto simp: where_holds_def)
  then show ?thesis using grouped_projection [OF assms(1-3)] by (simp add: grouped_rows_def)
next
  case (Some w)
  then obtain ms c where c: "create_logical_expr E w = Ok c" and i: "i = Selection (Projection p (plain_items es @ List.map Column ms)) c"
    using assms(6) by auto
  let ?as = "item_aggregates es" and ?es' = "plain_items es @ List.map Column ms"
  have agg: "plan_ok E (Aggregate i gs ?as)" using assms(1) by (auto elim: plan_ok_projectionE)
  have sel: "plan_ok E (Selection (Projection p ?es') c)" using agg unfolding i by (auto elim: plan_ok_aggregateE)
  have pr: "plan_ok E (Projection p ?es')" using sel by (auto elim: plan_ok_selectionE)
  have vis: "visible E p ?es' n" if "n \<in> query_columns E q gs es" for n
    by (rule visible_projected [OF pr]) (use assms(5) Some that in \<open>simp add: group_visible_def\<close>)
  have "\<forall>n\<in>expr_columns c. visible E p ?es' n" using vis by (simp add: query_columns_def where_columns_def Some c)
  note res = filter_then_project [OF sel planned_by_name [OF c] this]
  have wh: "where_holds E p q = (\<lambda>r. value_on E p c r = Ok (V_Boolean True))" by (simp add: where_holds_def Some c fun_eq_iff)
  have ev: "\<forall>e\<in>set (gs @ List.map aggregate_inner ?as). by_name e \<and> (\<forall>n\<in>expr_columns e. visible E p ?es' n)"
    using assms(4) vis unfolding query_columns_def by blast
  have same: "keys_on E i gs (List.map (row_of E p ?es') F) = keys_on E p gs F"
    "set \<kappa>s = keys_on E p gs F \<Longrightarrow> List.map (\<lambda>\<kappa>. List.map (item_value E i gs (List.map (row_of E p ?es') F) \<kappa>) es) \<kappa>s
       = List.map (\<lambda>\<kappa>. List.map (item_value E p gs F \<kappa>) es) \<kappa>s"
    if "R \<in> results E p" "F = List.filter (where_holds E p q) R" for R F \<kappa>s
  proof -
    have sv: "same_values E i p (row_of E p ?es') (gs @ List.map aggregate_inner ?as) F"
      unfolding i that(2) by (rule filtered_input_same [OF agg [unfolded i] that(1) ev])
    show "keys_on E i gs (List.map (row_of E p ?es') F) = keys_on E p gs F" by (rule grouped_same(1) [OF sv])
    have "case aggregate_of e of Some a \<Rightarrow> a \<in> set ?as | None \<Rightarrow> e \<in> set gs" if "e \<in> set es" for e
      using that assms(3) by (auto simp: is_aggregate_iff in_item_aggregates split: option.splits)
    then show "set \<kappa>s = keys_on E p gs F \<Longrightarrow> List.map (\<lambda>\<kappa>. List.map (item_value E i gs (List.map (row_of E p ?es') F) \<kappa>) es) \<kappa>s
       = List.map (\<lambda>\<kappa>. List.map (item_value E p gs F \<kappa>) es) \<kappa>s"
      using item_same [OF sv] by (auto intro!: map_cong)
  qed
  have ri: "results E i = (\<lambda>R. List.map (row_of E p ?es') (List.filter (where_holds E p q) R)) ` results E p"
    unfolding i wh by (rule res)
  have un: "{G R \<kappa>s | R \<kappa>s. R \<in> A \<and> distinct \<kappa>s \<and> set \<kappa>s = K R} = (\<Union>R\<in>A. G R ` {\<kappa>s. distinct \<kappa>s \<and> set \<kappa>s = K R})"
    for G :: "ScalarValue list list \<Rightarrow> ScalarValue list list \<Rightarrow> ScalarValue list list" and A K by blast
  show ?thesis
    unfolding grouped_projection [OF assms(1-3)] grouped_rows_def un ri UN_simps
    by (rule SUP_cong [OF refl], rule image_cong) (simp_all add: same)
qed

lemma group_query_meaning:
  assumes "create_data_frame E q tables = Ok df" "tables (sel_table_name q) = Some T"
    "traverse (create_logical_expr E) (sel_projection q) = Ok es" "\<exists>e\<in>set es. is_aggregate_expr e"
    "traverse (create_logical_expr E) (sel_group_by q) = Ok gs" "gs = plain_items es @ rest"
    "group_visible E q (df_plan T) gs es" "plan_ok E (df_plan df)"
  shows "results E (df_plan df) = (\<lambda>rows. limited q (List.filter (having_holds E (df_plan df) q) rows)) ` grouped_rows E (df_plan T) q gs es"
proof -
  let ?p = "df_plan T" and ?as = "item_aggregates es"
  obtain i ps d where split: "split_projection (length gs) 0 [] es = Ok (ps, ?as)"
    and i: "case sel_selection q of None \<Rightarrow> i = ?p
       | Some w \<Rightarrow> \<exists>ms c. create_logical_expr E w = Ok c \<and> i = Selection (Projection ?p (plain_items es @ List.map Column ms)) c"
    and d: "case sel_having q of None \<Rightarrow> d = Projection (Aggregate i gs ?as) ps
       | Some h \<Rightarrow> \<exists>c. create_logical_expr E h = Ok c \<and> d = Selection (Projection (Aggregate i gs ?as) ps) c"
    and df: "df = with_limit q \<lparr>df_plan = d\<rparr>"
    using group_query_plan [OF assms(1-5)] by blast
  let ?P = "Projection (Aggregate i gs ?as) ps"
  have okd: "plan_ok E d" using with_limit_ok assms(8) unfolding df by fastforce
  have okP: "plan_ok E ?P" using okd d by (auto elim: plan_ok_selectionE split: option.splits)
  have bn: "\<forall>e\<in>set (gs @ List.map aggregate_inner ?as). by_name e"
    using traverse_set [OF assms(5)] traverse_set [OF assms(3)] planned_by_name planned_inner_by_name
    by (fastforce simp: in_item_aggregates)
  note rows = grouped_input [OF okP split assms(6) bn assms(7) i]
  have sch: "plan_schema E (df_plan df) = plan_schema E ?P"
    using d unfolding df by (auto simp: with_limit_def df_limit_def split: option.splits)
  have "results E d = List.filter (having_holds E (df_plan df) q) ` results E ?P"
  proof (cases "sel_having q")
    case None
    then have "having_holds E (df_plan df) q = (\<lambda>r. True)" "d = ?P" using d by (auto simp: having_holds_def)
    then show ?thesis by (simp del: results.simps)
  next
    case (Some h)
    then obtain c where "create_logical_expr E h = Ok c" "d = Selection ?P c" using d by auto
    moreover from this have "having_holds E (df_plan df) q = (\<lambda>r. value_on E ?P c r = Ok (V_Boolean True))"
      using value_on_schema(1) [OF sch] by (simp add: having_holds_def Some fun_eq_iff del: plan_schema.simps)
    ultimately show ?thesis by (simp only: results.simps(2))
  qed
  then show ?thesis unfolding df with_limit_results by (simp add: rows image_image del: results.simps)
qed

text \<open>C7: What a query with aggregates means: the plan of @SELECT items FROM t WHERE w GROUP BY
  keys HAVING h LIMIT n@ returns one row for each
  distinct key of the rows of the table on which @w@ is TRUE, whose cells are, item by item, the
  aggregate run over the rows with that key or the plain item on them; of these rows those on
  which @h@, read over the output columns, is TRUE, at most @n@ of them.  The planner projects the
  columns it thinks the query needs before it filters and groups, and addresses keys and
  aggregates by position.  The plain items are the first of the GROUP BY keys, in that order, and,
  with a WHERE clause, no plain item gives the name of a column the query reads to another value
  (@group_visible@).  The order of the groups is left open, as the hash map leaves it.\<close>

theorem select_group_meaning:
  assumes "create_data_frame E q tables = Ok df" "tables (sel_table_name q) = Some T"
    "traverse (create_logical_expr E) (sel_projection q) = Ok es" "\<exists>e\<in>set es. is_aggregate_expr e"
    "traverse (create_logical_expr E) (sel_group_by q) = Ok gs" "gs = plain_items es @ rest"
    "group_visible E q (df_plan T) gs es" "plan_ok E (df_plan df)"
  shows "results E (df_plan df) = (\<lambda>rows. limited q (List.filter (having_holds E (df_plan df) q) rows)) ` grouped_rows E (df_plan T) q gs es"
  by (rule group_query_meaning [OF assms])

section \<open>A concrete query\<close>

definition sample_group_query :: SqlSelect where
  "sample_group_query = SqlSelect [S_Function ''MAX'' [S_Identifier ''id''], S_Identifier ''name'']
     (Some (S_BinaryExpr (S_Identifier ''name'') ''='' (S_String ''a''))) [S_Identifier ''name''] []
     (Some (S_BinaryExpr (S_Identifier ''name'') ''='' (S_String ''a''))) None ''t''"

abbreviation sample_group_input :: LogicalPlan where
  "sample_group_input \<equiv> Selection (Projection sample_table [Column ''name'', Column ''id'']) sample_where"

abbreviation sample_group_plan :: LogicalPlan where
  "sample_group_plan \<equiv> Projection (Aggregate sample_group_input [Column ''name''] [A_Max (Column ''id'')]) [ColumnIndex 1, ColumnIndex 0]"

abbreviation sample_items :: "LogicalExpr list" where
  "sample_items \<equiv> [L_Aggregate (A_Max (Column ''id'')), Column ''name'']"

lemma sample_group_planned:
  "traverse (create_logical_expr ref_env) (sel_projection sample_group_query) = Ok sample_items"
  "create_data_frame ref_env sample_group_query sample_tables = Ok \<lparr>df_plan = Selection sample_group_plan sample_where\<rparr>"
proof -
  have u: "to_uppercase ''MAX'' = ''MAX''" by code_simp
  note d = sample_group_query_def u aggregate_call_def binary_expr_def is_aggregate_expr_def
  show "traverse (create_logical_expr ref_env) (sel_projection sample_group_query) = Ok sample_items"
    by (simp add: d)
  show "create_data_frame ref_env sample_group_query sample_tables = Ok \<lparr>df_plan = Selection sample_group_plan sample_where\<rparr>"
    by (simp add: d create_data_frame_def columns_referenced_by_selection_def df_schema_def sample_table_ok(2) new_schema_def new_field_def
        plan_aggregate_query_def aggregate_input_def referenced_columns_def push_new_def ordered_extend_def ordered_difference_def visit_aggregate_def aggregate_arg_def
        project_and_filter_def with_having_def with_limit_def df_project_def df_aggregate_def df_filter_def)
qed

text \<open>The filter over the schemas of the input and of the output.\<close>

abbreviation input_schema :: Schema where
  "input_schema \<equiv> new_schema [new_field ''name'' T_Utf8, new_field ''id'' T_Int32]"

abbreviation output_schema :: Schema where
  "output_schema \<equiv> new_schema [new_field ''MAX'' T_Int32, new_field ''name'' T_Utf8]"

lemma where_typed:
  "s = input_schema \<or> s = output_schema \<Longrightarrow> plan_schema ref_env p = Ok s \<Longrightarrow> well_typed ref_env p sample_where T_Boolean"
  by (auto simp: well_typed_def schema_of_def bool_type_def opt2_def compare_types_def new_schema_def new_field_def)

lemma where_values:
  "plan_schema ref_env p = Ok input_schema \<Longrightarrow> value_on ref_env p sample_where [V_Utf8 ''a'', x] = Ok (V_Boolean True)"
  "plan_schema ref_env p = Ok input_schema \<Longrightarrow> value_on ref_env p sample_where [V_Utf8 ''b'', x] = Ok (V_Boolean False)"
  "plan_schema ref_env p = Ok input_schema \<Longrightarrow> value_on ref_env p sample_where [V_Null, x] = Ok V_Null"
  "plan_schema ref_env p = Ok output_schema \<Longrightarrow> value_on ref_env p sample_where [x, V_Utf8 ''a''] = Ok (V_Boolean True)"
  by (simp_all add: schema_of_def value_on_def lift2_def compared_def compare_types_def new_schema_def new_field_def
      compare_value_def compare_typed_def cmp_arm_def as_opt_str_def bool_cell_def cmp_opt_def cmp_string_def op_holds_def utf8_encode_def)

lemma input_columns:
  assumes "plan_schema E p = Ok input_schema"
  shows "well_typed E p (Column ''id'') T_Int32" "well_typed E p (Column ''name'') T_Utf8"
    "value_on E p (Column ''name'') [v, w] = Ok v" "value_on E p (Column ''id'') [v, w] = Ok w"
  using assms by (simp_all add: well_typed_def schema_of_def value_on_def new_schema_def new_field_def find_field_def)

lemma sample_input_ok:
  "plan_schema ref_env sample_group_input = Ok input_schema" "plan_ok ref_env sample_group_input"
  "results ref_env sample_group_input = {[[V_Utf8 ''a'', V_Int32 7], [V_Utf8 ''a'', V_Int32 7]]}"
proof -
  let ?P = "Projection sample_table [Column ''name'', Column ''id'']"
  note c = sample_columns [OF sample_table_ok(2)]
  have sp: "plan_schema ref_env ?P = Ok input_schema"
    by (simp add: sample_table_ok(2) find_field_def new_schema_def new_field_def)
  have p: "plan_ok ref_env ?P"
    by (rule plan_ok.projection [OF sample_table_ok(1), where fs = "[new_field ''name'' T_Utf8, new_field ''id'' T_Int32]"])
      (simp_all add: c sample_table_ok(2,3) find_field_def new_schema_def evaluates_def new_field_def)
  have rp: "results ref_env ?P = {let rs = [[V_Utf8 ''a'', V_Int32 7], [V_Utf8 ''b'', V_Null], [V_Null, V_Int32 9]] in rs @ rs}"
    by (simp add: sample_table_ok(3) c)
  note w = where_values(1-3) [OF sp]
  show "plan_schema ref_env sample_group_input = Ok input_schema" using sp by simp
  show "plan_ok ref_env sample_group_input"
    by (rule plan_ok.selection [OF p where_typed [OF disjI1 [OF refl] sp]]) (auto simp: evaluates_def rp w simp del: results.simps)
  show "results ref_env sample_group_input = {[[V_Utf8 ''a'', V_Int32 7], [V_Utf8 ''a'', V_Int32 7]]}"
    unfolding results.simps(2) rp by (simp add: w)
qed

lemma distinct_singleton_set: "distinct xs \<and> set xs = {x} \<longleftrightarrow> xs = [x]"
proof
  assume d: "distinct xs \<and> set xs = {x}"
  then have "length xs = 1" using distinct_card [of xs] by simp
  then show "xs = [x]" using d by (cases xs) auto
qed simp

lemma sample_group_result:
  "keys_on ref_env sample_group_input [Column ''name''] [[V_Utf8 ''a'', V_Int32 7], [V_Utf8 ''a'', V_Int32 7]] = {[V_Utf8 ''a'']}"
  "group_results ref_env sample_group_input [Column ''name''] [A_Max (Column ''id'')] [[V_Utf8 ''a'', V_Int32 7], [V_Utf8 ''a'', V_Int32 7]]
     [V_Utf8 ''a''] = Ok [V_Utf8 ''a'', V_Int32 7]"
proof -
  show "keys_on ref_env sample_group_input [Column ''name''] [[V_Utf8 ''a'', V_Int32 7], [V_Utf8 ''a'', V_Int32 7]] = {[V_Utf8 ''a'']}"
    by (simp add: keys_on_def group_key_def input_columns [OF sample_input_ok(1)])
  show "group_results ref_env sample_group_input [Column ''name''] [A_Max (Column ''id'')] [[V_Utf8 ''a'', V_Int32 7], [V_Utf8 ''a'', V_Int32 7]]
     [V_Utf8 ''a''] = Ok [V_Utf8 ''a'', V_Int32 7]"
    unfolding group_results_def aggregate_result_def
    by (simp add: input_columns [OF sample_input_ok(1)] function_of_def aggregate_inner_def group_of_def group_key_def
      new_accumulator_def accumulate_def max_accumulate_def scalar_gt_def cmp_scalar_def cmp_signed_def is_null_def
      final_value_def word_sless_alt)
qed

lemma sample_group_plan_ok: "plan_ok ref_env (Selection sample_group_plan sample_where)"
proof -
  let ?A = "Aggregate sample_group_input [Column ''name''] [A_Max (Column ''id'')]"
  let ?s = "new_schema [new_field ''name'' T_Utf8, new_field ''MAX'' T_Int32]"
  note c = input_columns [OF sample_input_ok(1)]
  have fld: "to_field ref_env (plan_schema ref_env sample_group_input) (Column ''name'') = Ok (new_field ''name'' T_Utf8)"
    "to_field ref_env (plan_schema ref_env sample_group_input) (Column ''id'') = Ok (new_field ''id'' T_Int32)"
    unfolding sample_input_ok(1) by (simp_all add: find_field_def new_schema_def new_field_def)
  have s: "plan_schema ref_env ?A = Ok ?s"
    unfolding plan_schema.simps(4) sample_input_ok(1) by (simp add: find_field_def retyped_def new_schema_def new_field_def)
  have ra: "results ref_env ?A = {[[V_Utf8 ''a'', V_Int32 7]]}"
    unfolding results.simps(5) sample_input_ok(3)
    by (auto simp: sample_group_result distinct_singleton_set intro: exI [of _ "[[V_Utf8 ''a'']]"])
  have a: "plan_ok ref_env ?A"
  proof (rule plan_ok.aggregate [OF sample_input_ok(2) s])
    show "schema_ok ?s" by (simp add: schema_ok_def new_schema_def new_field_def supported_def)
    show "list_all (\<lambda>e. \<exists>t. well_typed ref_env sample_group_input e t) ([Column ''name''] @ List.map aggregate_inner [A_Max (Column ''id'')])"
      using c(1,2) by (auto simp: aggregate_inner_def)
    show "list_all (\<lambda>a. function_of a \<noteq> None) [A_Max (Column ''id'')]" by (simp add: function_of_def)
    show "evaluates ref_env sample_group_input ([Column ''name''] @ List.map aggregate_inner [A_Max (Column ''id'')])"
      unfolding evaluates_def sample_input_ok(3) by (simp add: c aggregate_inner_def)
    show "\<forall>R\<in>results ref_env sample_group_input. \<forall>k\<in>keys_on ref_env sample_group_input [Column ''name''] R.
       \<exists>r. group_results ref_env sample_group_input [Column ''name''] [A_Max (Column ''id'')] R k = Ok r \<and> row_fits (col_types ?s) r"
      unfolding sample_input_ok(3) by (simp add: sample_group_result row_fits_def new_schema_def new_field_def fits_def)
  qed
  have v: "value_on ref_env ?A (ColumnIndex n) r = idx r n" for n r by (simp add: value_on_def)
  have sp: "plan_schema ref_env sample_group_plan = Ok output_schema"
    unfolding plan_schema.simps(2) s by (simp add: new_schema_def new_field_def)
  have p: "plan_ok ref_env sample_group_plan"
  proof (rule plan_ok.projection [OF a, where fs = "[new_field ''MAX'' T_Int32, new_field ''name'' T_Utf8]"])
    show "traverse (to_field ref_env (plan_schema ref_env ?A)) [ColumnIndex 1, ColumnIndex 0] = Ok [new_field ''MAX'' T_Int32, new_field ''name'' T_Utf8]"
      unfolding s by (simp add: new_schema_def new_field_def)
    show "list_all2 (\<lambda>e f. well_typed ref_env ?A e (f_type f)) [ColumnIndex 1, ColumnIndex 0] [new_field ''MAX'' T_Int32, new_field ''name'' T_Utf8]"
      unfolding well_typed_def schema_of_def s by (simp add: new_schema_def new_field_def)
    show "evaluates ref_env ?A [ColumnIndex 1, ColumnIndex 0]" unfolding evaluates_def ra by (simp add: v idx_def)
  qed simp
  have rp: "results ref_env sample_group_plan = {[[V_Int32 7, V_Utf8 ''a'']]}"
    unfolding results.simps(3) ra by (simp add: v idx_def)
  show ?thesis
    by (rule plan_ok.selection [OF p where_typed [OF disjI2 [OF refl] sp]]) (simp add: evaluates_def rp where_values(4) [OF sp] del: results.simps One_nat_def)
qed

theorem select_group_meaning_witness:
  "results ref_env (Selection sample_group_plan sample_where) = {[[V_Int32 7, V_Utf8 ''a'']]}"
proof -
  have wc: "query_columns ref_env sample_group_query [Column ''name''] sample_items = {''name'', ''id''}"
    by (auto simp: query_columns_def where_columns_def sample_group_query_def binary_expr_def aggregate_of_def aggregate_inner_def List.map_filter_def)
  have plain: "plain_items sample_items = [Column ''name'']" by (simp add: is_aggregate_expr_def)
  have n: "output_name ref_env sample_table (Column ''name'') = ''name''"
    by (simp only: output_name_def sample_columns(6) [OF sample_table_ok(2)]) (simp add: new_field_def)
  have vis: "group_visible ref_env sample_group_query sample_table [Column ''name''] sample_items"
    unfolding group_visible_def wc plain by (simp add: visible_def n)
  have res: "results ref_env (Selection sample_group_plan sample_where)
     = (\<lambda>rows. limited sample_group_query (List.filter (having_holds ref_env (Selection sample_group_plan sample_where) sample_group_query) rows))
       ` grouped_rows ref_env sample_table sample_group_query [Column ''name''] sample_items"
    using select_group_meaning [OF sample_group_planned(2) _ sample_group_planned(1), where rest = "[]" and gs = "[Column ''name'']" and T = "\<lparr>df_plan = sample_table\<rparr>"]
      sample_group_plan_ok vis plain
    by (simp add: sample_group_query_def is_aggregate_expr_def del: results.simps)
  have kept: "where_holds ref_env sample_table sample_group_query [V_Int32 7, V_Utf8 ''a'']"
    "\<not> where_holds ref_env sample_table sample_group_query [V_Null, V_Utf8 ''b'']"
    "\<not> where_holds ref_env sample_table sample_group_query [V_Int32 9, V_Null]"
    using name_is_a(2) [OF sample_table_ok(2)] by (simp_all add: where_holds_def sample_group_query_def binary_expr_def)
  have keys: "keys_on ref_env sample_table [Column ''name''] [[V_Int32 7, V_Utf8 ''a''], [V_Int32 7, V_Utf8 ''a'']] = {[V_Utf8 ''a'']}"
    by (simp add: keys_on_def group_key_def sample_columns [OF sample_table_ok(2)])
  have items: "List.map (item_value ref_env sample_table [Column ''name''] [[V_Int32 7, V_Utf8 ''a''], [V_Int32 7, V_Utf8 ''a'']] [V_Utf8 ''a'']) sample_items
      = [V_Int32 7, V_Utf8 ''a'']"
    by (simp add: item_value_def aggregate_of_def aggregate_value_def aggregate_result_def aggregate_inner_def group_of_def group_key_def
      sample_columns [OF sample_table_ok(2)] function_of_def new_accumulator_def accumulate_def max_accumulate_def
      scalar_gt_def cmp_scalar_def cmp_signed_def is_null_def final_value_def word_sless_alt)
  have rows: "grouped_rows ref_env sample_table sample_group_query [Column ''name''] sample_items = {[[V_Int32 7, V_Utf8 ''a'']]}"
    unfolding grouped_rows_def sample_table_ok(3) using items
    by (simp add: kept keys distinct_singleton_set)
  have "plan_schema ref_env (Selection sample_group_plan sample_where) = Ok output_schema"
    by (simp add: sample_table_ok(2) find_field_def retyped_def new_schema_def new_field_def)
  note h = where_values(4) [OF this]
  show ?thesis unfolding res rows
    by (simp add: limited_def having_holds_def sample_group_query_def binary_expr_def h del: One_nat_def)
qed

end
