(* ===== verification/Execution.thy ===== *)
theory Execution
  imports Sql_Planner Optimizer_Rules Query_Planner
begin

text \<open>
  The front doors of the engine (crate @execution@): @ExecutionContext@ runs a query on one
  thread, @ParallelContext@ splits an aggregate over workers.  A @HashMap@ with string keys is
  a partial function.  The @rayon@ map over the workers' buckets keeps their order; when
  several workers panic, the panic reported here is that of the first bucket.
\<close>

definition parse_usize :: "string \<Rightarrow> nat option" where
  "parse_usize s =
     (let ds = (case s of [] \<Rightarrow> [] | c # cs \<Rightarrow> if c = CHR ''+'' then cs else s)
      in if ds = [] \<or> \<not> list_all is_ascii_digit ds \<or> \<not> digits_value ds < 2 ^ 64 then None
         else Some (digits_value ds))"

definition default_batch_size :: nat where
  "default_batch_size = 1024"

definition configured_batch_size :: "(string \<rightharpoonup> string) \<Rightarrow> nat" where
  "configured_batch_size settings =
     (case Option.bind (settings ''rquery.csv.batchSize'') parse_usize of Some n \<Rightarrow> n | None \<Rightarrow> default_batch_size)"

record ExecutionContext =
  settings :: "string \<rightharpoonup> string"
  batch_size :: nat
  tables :: "string \<rightharpoonup> DataFrame"

definition context_new :: "(string \<rightharpoonup> string) \<Rightarrow> ExecutionContext" where
  "context_new ss = \<lparr>settings = ss, batch_size = configured_batch_size ss, tables = Map.empty\<rparr>"

definition parse_query :: "string \<Rightarrow> SqlSelect res" where
  "parse_query sql = and_then (read_sql sql) (\<lambda>e. case e of
      Some (S_Select q) \<Rightarrow> Ok q
    | _ \<Rightarrow> Panic (Panicked ''Expected a SELECT statement, found''))"

definition context_sql :: "env \<Rightarrow> ExecutionContext \<Rightarrow> string \<Rightarrow> DataFrame res" where
  "context_sql E c sql = and_then (parse_query sql) (\<lambda>q. create_data_frame E q (tables c))"

definition csv_frame :: "env \<Rightarrow> nat \<Rightarrow> string \<Rightarrow> DataFrame res" where
  "csv_frame E n file = map_res (\<lambda>p. \<lparr>df_plan = p\<rparr>) (scan_new E file (Csv (csv_new file None True n)) [])"

definition context_csv :: "env \<Rightarrow> ExecutionContext \<Rightarrow> string \<Rightarrow> DataFrame res" where
  "context_csv E c file = csv_frame E (batch_size c) file"

definition register :: "ExecutionContext \<Rightarrow> string \<Rightarrow> DataFrame \<Rightarrow> ExecutionContext" where
  "register c name df = c\<lparr>tables := (tables c)(name \<mapsto> df)\<rparr>"

definition register_data_source :: "env \<Rightarrow> ExecutionContext \<Rightarrow> string \<Rightarrow> data_source \<Rightarrow> ExecutionContext res" where
  "register_data_source E c name ds = map_res (\<lambda>p. register c name \<lparr>df_plan = p\<rparr>) (scan_new E name ds [])"

definition register_csv :: "env \<Rightarrow> ExecutionContext \<Rightarrow> string \<Rightarrow> string \<Rightarrow> ExecutionContext res" where
  "register_csv E c name file = map_res (register c name) (context_csv E c file)"

definition plan_query :: "env \<Rightarrow> LogicalPlan \<Rightarrow> phys_plan res" where
  "plan_query E p = and_then (optimize E p) (create_physical_plan E)"

definition context_execute :: "env \<Rightarrow> LogicalPlan \<Rightarrow> stream res" where
  "context_execute E p = and_then (plan_query E p)
     (execute E (executor_context_new ''single-node'' ''localhost'' 0 ''/tmp/rquery-single-node''))"

definition execute_data_frame :: "env \<Rightarrow> DataFrame \<Rightarrow> stream res" where
  "execute_data_frame E df = context_execute E (df_plan df)"

section \<open>Parallel aggregation\<close>

record ParallelContext =
  parallelism :: nat
  p_settings :: "string \<rightharpoonup> string"
  p_batch_size :: nat
  p_tables :: "string \<rightharpoonup> DataFrame"

definition with_parallelism :: "nat \<Rightarrow> (string \<rightharpoonup> string) \<Rightarrow> ParallelContext" where
  "with_parallelism n ss = \<lparr>parallelism = n, p_settings = ss, p_batch_size = configured_batch_size ss,
     p_tables = Map.empty\<rparr>"

definition parallel_sql :: "env \<Rightarrow> ParallelContext \<Rightarrow> string \<Rightarrow> DataFrame res" where
  "parallel_sql E c sql = and_then (parse_query sql) (\<lambda>q. create_data_frame E q (p_tables c))"

definition parallel_csv :: "env \<Rightarrow> ParallelContext \<Rightarrow> string \<Rightarrow> DataFrame res" where
  "parallel_csv E c file = csv_frame E (p_batch_size c) file"

definition parallel_register :: "ParallelContext \<Rightarrow> string \<Rightarrow> DataFrame \<Rightarrow> ParallelContext" where
  "parallel_register c name df = c\<lparr>p_tables := (p_tables c)(name \<mapsto> df)\<rparr>"

definition parallel_register_data_source :: "env \<Rightarrow> ParallelContext \<Rightarrow> string \<Rightarrow> data_source \<Rightarrow> ParallelContext res" where
  "parallel_register_data_source E c name ds =
     map_res (\<lambda>p. parallel_register c name \<lparr>df_plan = p\<rparr>) (scan_new E name ds [])"

definition parallel_register_csv :: "env \<Rightarrow> ParallelContext \<Rightarrow> string \<Rightarrow> string \<Rightarrow> ParallelContext res" where
  "parallel_register_csv E c name file = map_res (parallel_register c name) (parallel_csv E c file)"

text \<open>Batch number @k@ goes to worker @k mod n@.\<close>

definition worker_bucket :: "nat \<Rightarrow> RecordBatch list \<Rightarrow> nat \<Rightarrow> RecordBatch list" where
  "worker_bucket n bs w = List.map snd (List.filter (\<lambda>(k, b). k mod n = w) (enumerate 0 bs))"

text \<open>The aggregate of one worker, over @InMemoryPlan@, which replays its batches.\<close>

definition execute_partial_aggregate ::
  "env \<Rightarrow> phys_plan \<Rightarrow> phys_expr list \<Rightarrow> phys_aggr list \<Rightarrow> Schema \<Rightarrow> RecordBatch list \<Rightarrow> RecordBatch res" where
  "execute_partial_aggregate E i gs as s bs =
     and_then (phys_schema E i) (\<lambda>_. aggregate_stream E gs as s Partial (List.map Ok bs))"

definition execute_final_aggregate ::
  "env \<Rightarrow> phys_expr list \<Rightarrow> phys_aggr list \<Rightarrow> Schema \<Rightarrow> RecordBatch list \<Rightarrow> stream res" where
  "execute_final_aggregate E gs as s bs =
     map_res (\<lambda>b. [Ok b]) (aggregate_stream E gs as s Final (List.map Ok bs))"

definition execute_parallel_aggregate ::
  "env \<Rightarrow> nat \<Rightarrow> ExecutorContext \<Rightarrow> phys_plan \<Rightarrow> phys_expr list \<Rightarrow> phys_aggr list \<Rightarrow> Schema \<Rightarrow> AggregateMode \<Rightarrow> stream res" where
  "execute_parallel_aggregate E n ctx i gs as s m =
     (if n \<le> 1 then execute E ctx (Hash_Aggregate_Exec i gs as s m)
      else and_then (and_then (execute E ctx i) collect) (\<lambda>bs.
        and_then (traverse (execute_partial_aggregate E i gs as s)
            (List.filter (\<lambda>bucket. bucket \<noteq> []) (List.map (worker_bucket n bs) [0..<n])))
          (\<lambda>ps. if ps = [] then Ok [] else execute_final_aggregate E gs as s ps)))"

definition execute_parallel :: "env \<Rightarrow> nat \<Rightarrow> ExecutorContext \<Rightarrow> phys_plan \<Rightarrow> stream res" where
  "execute_parallel E n ctx p = (case p of
      Hash_Aggregate_Exec i gs as s m \<Rightarrow> execute_parallel_aggregate E n ctx i gs as s m
    | _ \<Rightarrow> execute E ctx p)"

definition parallel_execute :: "env \<Rightarrow> ParallelContext \<Rightarrow> LogicalPlan \<Rightarrow> stream res" where
  "parallel_execute E c p = and_then (plan_query E p)
     (execute_parallel E (parallelism c)
       (executor_context_new ''parallel'' ''localhost'' 0 ''/tmp/rquery-parallel-ignored''))"

end
