(* ===== verification/Token_Props.thy ===== *)
theory Token_Props
  imports Sql_Tokens
begin

text \<open>
  Correctness of the tokenizer: it always terminates, the tokens cover the whole input up to
  whitespace, and printing a list of tokens and scanning the text gives the tokens back.
\<close>

section \<open>Lexemes\<close>

definition escape :: "char \<Rightarrow> string \<Rightarrow> string" where
  "escape q text = concat (List.map (\<lambda>c. if c = q then [q, q] else [c]) text)"

text \<open>The spellings of a token.\<close>

definition lexeme :: "Token \<Rightarrow> string \<Rightarrow> bool" where
  "lexeme t w = (w = tok_text t
     \<or> token_type t = TT_Literal Lit_Identifier \<and> w = [CHR 0x60] @ tok_text t @ [CHR 0x60]
     \<or> token_type t = TT_Literal Lit_String \<and> (\<exists>q. is_chars_start q \<and> w = [q] @ escape q (tok_text t) @ [q]))"

definition token_at :: "string \<Rightarrow> nat \<Rightarrow> Token \<Rightarrow> bool" where
  "token_at cs k t = (k < end_offset t \<and> end_offset t \<le> length cs \<and> lexeme t (take (end_offset t - k) (drop k cs)))"

fun covers :: "string \<Rightarrow> nat \<Rightarrow> Token list \<Rightarrow> bool" where
  "covers cs k [] = (\<forall>j. k \<le> j \<and> j < length cs \<longrightarrow> is_whitespace (cs ! j))"
| "covers cs k (t # ts) = (\<exists>m\<ge>k. (\<forall>j. k \<le> j \<and> j < m \<longrightarrow> is_whitespace (cs ! j)) \<and> token_at cs m t
     \<and> covers cs (end_offset t) ts)"

abbreviation scans :: "string \<Rightarrow> nat \<Rightarrow> Token res \<Rightarrow> bool" where
  "scans cs k r \<equiv> outcome (\<lambda>p. p \<noteq> no_fuel) (token_at cs k) r"

lemma not_no_fuel [simp]:
  "Index_Out_Of_Bounds \<noteq> no_fuel" "Arith_Overflow \<noteq> no_fuel" "Panicked m = no_fuel \<longleftrightarrow> m = ''(out of fuel)''"
  by (simp_all add: no_fuel_def)

lemma token_at_text:
  "k < e \<Longrightarrow> e \<le> length cs \<Longrightarrow> token_at cs k (token_new (take (e - k) (drop k cs)) ty e)"
  by (simp add: token_at_def token_new_def lexeme_def)

lemma scan_number_ok:
  assumes "k < length cs" "is_number_start (cs ! k)"
  shows "scans cs k (scan_number cs k)"
proof -
  let ?e = "index_of_first cs k (\<lambda>ch. \<not> is_ascii_digit ch)"
  have nm: "cs ! k \<noteq> CHR ''-''" using assms(2) by (auto simp: is_number_start_def is_ascii_digit_def)
  have e: "k \<le> ?e" "?e \<le> length cs" using index_of_first_spec [of k cs] assms(1) by auto
  have dot: "cs ! k = CHR ''.'' \<Longrightarrow> ?e = k"
    using assms(1) by (subst index_of_first.simps) (simp add: is_ascii_digit_def)
  have dig: "is_ascii_digit (cs ! k) \<Longrightarrow> k < ?e" using assms(1) index_of_first_less by simp
  show ?thesis
  proof (cases "?e = length cs")
    case True
    then show ?thesis using assms(1) nm token_at_text [of k "length cs" cs] by (simp add: scan_number_def)
  next
    case False
    let ?f = "index_of_first cs (?e + 1) (\<lambda>ch. \<not> is_ascii_digit ch)"
    have f: "?e + 1 \<le> ?f" "?f \<le> length cs" using index_of_first_spec [of "?e + 1" cs] e(2) False by auto
    have "cs ! ?e \<noteq> CHR ''.'' \<Longrightarrow> k < ?e" using assms(2) dot dig by (auto simp: is_number_start_def)
    then show ?thesis using assms(1) nm e f False
      by (auto simp: scan_number_def Let_def token_at_text)
  qed
qed

lemma scan_identifier_ok:
  assumes "k < length cs" "is_identifier_start (cs ! k)"
  shows "scans cs k (scan_identifier cs k)"
proof (cases "cs ! k = CHR 0x60")
  case True
  show ?thesis
  proof (cases "position (\<lambda>c. c = CHR 0x60) (drop (k + 1) cs)")
    case None
    then show ?thesis using True assms(1) by (simp add: scan_identifier_def offset_until_terminated_char_def)
  next
    case (Some j)
    then have j: "k + 1 + j < length cs" "cs ! (k + 1 + j) = CHR 0x60"
      using position_Some [OF Some] by auto
    have "take (j + 2) (drop k cs) = [CHR 0x60] @ take j (drop (k + 1) cs) @ [CHR 0x60]"
    proof -
      have "drop k cs = CHR 0x60 # drop (k + 1) cs" using True assms(1) by (simp add: Cons_nth_drop_Suc [symmetric])
      moreover have "take (Suc j) (drop (k + 1) cs) = take j (drop (k + 1) cs) @ [drop (k + 1) cs ! j]"
        using j by (intro take_Suc_conv_app_nth) simp
      ultimately show ?thesis using j by simp
    qed
    then have "token_at cs k (token_new (take j (drop (k + 1) cs)) (TT_Literal Lit_Identifier) (k + 1 + j + 1))"
      using j by (simp add: token_at_def token_new_def lexeme_def)
    then show ?thesis using Some True assms(1) j by (simp add: scan_identifier_def offset_until_terminated_char_def)
  qed
next
  case False
  let ?e = "index_of_first cs k (\<lambda>ch. \<not> is_identifier_part ch)"
  have "is_identifier_part (cs ! k)" using assms(2) False by (auto simp: is_identifier_start_def is_identifier_part_def)
  then have e: "k < ?e" "?e \<le> length cs" using index_of_first_less [of k cs] index_of_first_spec [of k cs] assms(1) by auto
  note t = token_at_text [OF e]
  let ?w = "take (?e - k) (drop k cs)"
  have "outcome (\<lambda>p. p \<noteq> no_fuel) (\<lambda>_. True) (process_ambiguous_identifier cs ?e ?w)"
    by (auto simp: process_ambiguous_identifier_def Let_def substring_def expect_def split: option.splits)
  then have "scans cs k (map_res (\<lambda>ty. token_new ?w ty ?e) (process_ambiguous_identifier cs ?e ?w))"
    using t by (auto simp: outcome_map_res elim: outcome_mono)
  then show ?thesis using e False assms(1) t by (simp add: scan_identifier_def Let_def)
qed

lemma shrink_symbol_ok:
  "k < e \<Longrightarrow> e \<le> length cs \<Longrightarrow> is_symbol (cs ! k) \<Longrightarrow> scans cs k (shrink_symbol cs k e)"
proof (induction e)
  case (Suc e)
  show ?case
  proof (cases "symbol_text_of (take (Suc e - k) (drop k cs))")
    case None
    have "k \<noteq> e"
    proof
      assume "k = e"
      then have "take (Suc e - k) (drop k cs) = [cs ! k]" using Suc.prems by (simp add: take_Suc_conv_app_nth)
      then show False using None single_symbol [OF Suc.prems(3)] by simp
    qed
    then show ?thesis using Suc None by (subst shrink_symbol.simps) simp
  next
    case (Some s)
    then show ?thesis using Suc.prems token_at_text [of k "Suc e" cs] by (subst shrink_symbol.simps) simp
  qed
qed simp

lemma scan_symbol_ok:
  "k < length cs \<Longrightarrow> is_symbol (cs ! k) \<Longrightarrow> scans cs k (scan_symbol cs k)"
  unfolding scan_symbol_def
  by (rule shrink_symbol_ok) (use index_of_first_less [of k cs] index_of_first_spec [of k cs] in auto)

lemma scan_chars_from_ok:
  "outcome (\<lambda>p. p \<noteq> no_fuel) (\<lambda>t. \<exists>u. tok_text t = b @ u \<and> i < end_offset t \<and> end_offset t \<le> length cs
      \<and> take (end_offset t - i) (drop i cs) = escape q u @ [q] \<and> token_type t = TT_Literal Lit_String)
     (scan_chars_from cs q i b)"
proof (induction cs q i b rule: scan_chars_from.induct)
  case (1 cs q i b)
  consider "\<not> i < length cs" | "i < length cs" "cs ! i \<noteq> q"
    | "i < length cs" "cs ! i = q" "i + 1 < length cs" "cs ! (i + 1) = q"
    | "i < length cs" "cs ! i = q" "\<not> (i + 1 < length cs \<and> cs ! (i + 1) = q)" by blast
  then show ?case
  proof cases
    case 1
    then show ?thesis by (subst scan_chars_from.simps) simp
  next
    case 2
    have step: "scan_chars_from cs q i b = scan_chars_from cs q (i + 1) (b @ [cs ! i])"
      using 2 by (subst scan_chars_from.simps) simp
    have d: "drop i cs = cs ! i # drop (i + 1) cs" using 2 by (simp add: Cons_nth_drop_Suc)
    show ?thesis unfolding step
    proof (rule outcome_mono [OF "1.IH"(2) [OF 2]])
      fix t :: Token assume "\<exists>u. tok_text t = (b @ [cs ! i]) @ u \<and> i + 1 < end_offset t \<and> end_offset t \<le> length cs
        \<and> take (end_offset t - (i + 1)) (drop (i + 1) cs) = escape q u @ [q] \<and> token_type t = TT_Literal Lit_String"
      then obtain u where u: "tok_text t = (b @ [cs ! i]) @ u" "i + 1 < end_offset t" "end_offset t \<le> length cs"
        "take (end_offset t - (i + 1)) (drop (i + 1) cs) = escape q u @ [q]" "token_type t = TT_Literal Lit_String" by blast
      have "end_offset t - i = Suc (end_offset t - (i + 1))" using u(2) by simp
      then show "\<exists>u. tok_text t = b @ u \<and> i < end_offset t \<and> end_offset t \<le> length cs
        \<and> take (end_offset t - i) (drop i cs) = escape q u @ [q] \<and> token_type t = TT_Literal Lit_String"
        using u 2 d by (intro exI [of _ "cs ! i # u"]) (simp add: escape_def)
    qed simp
  next
    case 3
    have step: "scan_chars_from cs q i b = scan_chars_from cs q (i + 2) (b @ [q])"
      using 3 by (subst scan_chars_from.simps) simp
    have d: "drop i cs = q # q # drop (i + 2) cs" using 3 by (metis Cons_nth_drop_Suc Suc_eq_plus1 add_2_eq_Suc')
    have c: "i + 1 < length cs \<and> cs ! (i + 1) = q" using 3 by simp
    show ?thesis unfolding step
    proof (rule outcome_mono [OF "1.IH"(1) [OF 3(1,2) c]])
      fix t :: Token assume "\<exists>u. tok_text t = (b @ [q]) @ u \<and> i + 2 < end_offset t \<and> end_offset t \<le> length cs
        \<and> take (end_offset t - (i + 2)) (drop (i + 2) cs) = escape q u @ [q] \<and> token_type t = TT_Literal Lit_String"
      then obtain u where u: "tok_text t = (b @ [q]) @ u" "i + 2 < end_offset t" "end_offset t \<le> length cs"
        "take (end_offset t - (i + 2)) (drop (i + 2) cs) = escape q u @ [q]" "token_type t = TT_Literal Lit_String" by blast
      have "end_offset t - i = Suc (Suc (end_offset t - (i + 2)))" using u(2) by simp
      then show "\<exists>u. tok_text t = b @ u \<and> i < end_offset t \<and> end_offset t \<le> length cs
        \<and> take (end_offset t - i) (drop i cs) = escape q u @ [q] \<and> token_type t = TT_Literal Lit_String"
        using u d by (intro exI [of _ "q # u"]) (simp add: escape_def)
    qed simp
  next
    case 4
    have "scan_chars_from cs q i b = Ok (token_new b (TT_Literal Lit_String) (i + 1))"
      using 4 by (subst scan_chars_from.simps) auto
    then show ?thesis using 4 by (auto simp: token_new_def escape_def take_Suc_conv_app_nth)
  qed
qed

lemma scan_chars_ok:
  assumes "k < length cs" "is_chars_start (cs ! k)"
  shows "scans cs k (scan_chars cs k (cs ! k))"
  unfolding scan_chars_def
proof (rule outcome_mono [OF scan_chars_from_ok])
  fix t :: Token assume "\<exists>u. tok_text t = [] @ u \<and> k + 1 < end_offset t \<and> end_offset t \<le> length cs
    \<and> take (end_offset t - (k + 1)) (drop (k + 1) cs) = escape (cs ! k) u @ [cs ! k] \<and> token_type t = TT_Literal Lit_String"
  then obtain u where u: "tok_text t = u" "k + 1 < end_offset t" "end_offset t \<le> length cs"
    "take (end_offset t - (k + 1)) (drop (k + 1) cs) = escape (cs ! k) u @ [cs ! k]" "token_type t = TT_Literal Lit_String" by auto
  have d: "drop k cs = cs ! k # drop (k + 1) cs" using assms(1) by (simp add: Cons_nth_drop_Suc)
  have "end_offset t - k = Suc (end_offset t - (k + 1))" using u(2) by simp
  then show "token_at cs k t" using u d assms(2) by (auto simp: token_at_def lexeme_def)
qed simp

section \<open>Termination and coverage\<close>

lemma next_token_ok:
  assumes "offset z \<le> length (chars z)"
  shows "outcome (\<lambda>p. p \<noteq> no_fuel) (\<lambda>(t, z'). chars z' = chars z \<and> (case t of
      None \<Rightarrow> covers (chars z) (offset z) []
    | Some t \<Rightarrow> offset z' = end_offset t \<and> (\<exists>m\<ge>offset z.
         (\<forall>j. offset z \<le> j \<and> j < m \<longrightarrow> is_whitespace (chars z ! j)) \<and> token_at (chars z) m t))) (next_token z)"
proof -
  let ?cs = "chars z" and ?k = "skip_whitespace (chars z) (offset z)"
  have k: "offset z \<le> ?k" "?k \<le> length ?cs" "\<And>j. offset z \<le> j \<Longrightarrow> j < ?k \<Longrightarrow> is_whitespace (?cs ! j)"
    using index_of_first_spec [OF assms, of "\<lambda>ch. \<not> is_whitespace ch"] by (auto simp: skip_whitespace_def)
  show ?thesis
  proof (cases "length ?cs \<le> ?k")
    case True
    then show ?thesis using k by (auto simp: next_token_def Let_def)
  next
    case False
    then have lt: "?k < length ?cs" by simp
    let ?r = "if is_identifier_start (?cs ! ?k) then scan_identifier ?cs ?k
         else if is_number_start (?cs ! ?k) then scan_number ?cs ?k
         else if is_symbol (?cs ! ?k) then scan_symbol ?cs ?k
         else if is_chars_start (?cs ! ?k) then scan_chars ?cs ?k (?cs ! ?k)
         else Panic (Panicked ''Unexpected character'')"
    have "scans ?cs ?k ?r"
      using scan_identifier_ok [OF lt] scan_number_ok [OF lt] scan_symbol_ok [OF lt] scan_chars_ok [OF lt] by auto
    moreover have "next_token z = map_res (\<lambda>t. (Some t, z\<lparr>offset := end_offset t\<rparr>)) ?r"
      using False by (simp add: next_token_def Let_def)
    ultimately show ?thesis using k
      by (auto simp: outcome_map_res elim!: outcome_mono intro!: exI [of _ ?k])
  qed
qed

lemma tokenize_loop_ok:
  "offset z \<le> length (chars z) \<Longrightarrow> length (chars z) < offset z + n \<Longrightarrow>
     outcome (\<lambda>p. p \<noteq> no_fuel) (covers (chars z) (offset z)) (tokenize_loop n z)"
proof (induction n arbitrary: z)
  case (Suc n)
  note nt = next_token_ok [OF Suc.prems(1)]
  show ?case
  proof (cases "next_token z")
    case (Ok r)
    obtain t z' where r: "r = (t, z')" by force
    show ?thesis
    proof (cases t)
      case None
      then show ?thesis using Ok r nt by simp
    next
      case (Some tok)
      then obtain m where m: "chars z' = chars z" "offset z' = end_offset tok" "m \<ge> offset z"
        "\<forall>j. offset z \<le> j \<and> j < m \<longrightarrow> is_whitespace (chars z ! j)" "token_at (chars z) m tok"
        using nt Ok r by auto
      have "outcome (\<lambda>p. p \<noteq> no_fuel) (covers (chars z') (offset z')) (tokenize_loop n z')"
        using m Suc.prems by (intro Suc.IH) (auto simp: token_at_def)
      then show ?thesis using Ok r Some m by (auto simp: outcome_map_res elim!: outcome_mono)
    qed
  qed (use nt in simp)
qed simp

section \<open>Printing and scanning\<close>

definition plain_word :: "string \<Rightarrow> bool" where
  "plain_word w = (w \<noteq> [] \<and> is_alphabetic (hd w) \<and> list_all is_identifier_part w)"

text \<open>The tokens the printer handles: a keyword in its canonical spelling other than the
  context-dependent ORDER and GROUP, a symbol other than the dots, a number, any string, any
  identifier without a back quote.\<close>

fun plain :: "string \<times> TokenType \<Rightarrow> bool" where
  "plain (w, TT_Keyword k) = (w = kw_name k \<and> w \<in> set keyword_names \<and> \<not> is_ambiguous_identifier w)"
| "plain (w, TT_Symbol s) = (w = symbol_text s \<and> s \<noteq> Sym_Dot \<and> s \<noteq> Sym_DoubleDot)"
| "plain (w, TT_Literal Lit_Long) = (w \<noteq> [] \<and> list_all is_ascii_digit w)"
| "plain (w, TT_Literal Lit_Double) = (\<exists>a b. w = a @ CHR ''.'' # b \<and> list_all is_ascii_digit a \<and> list_all is_ascii_digit b)"
| "plain (w, TT_Literal Lit_String) = True"
| "plain (w, TT_Literal Lit_Identifier) = (CHR 0x60 \<notin> set w)"

fun spelling :: "string \<times> TokenType \<Rightarrow> string" where
  "spelling (w, TT_Literal Lit_String) = [CHR 0x27] @ escape (CHR 0x27) w @ [CHR 0x27]"
| "spelling (w, TT_Literal Lit_Identifier) =
     (if plain_word w \<and> keyword_text_of w = None \<and> \<not> is_ambiguous_identifier w then w
      else [CHR 0x60] @ w @ [CHR 0x60])"
| "spelling (w, ty) = w"

definition scan_at :: "string \<Rightarrow> nat \<Rightarrow> Token res" where
  "scan_at cs k = (let ch = cs ! k in
     if is_identifier_start ch then scan_identifier cs k
     else if is_number_start ch then scan_number cs k
     else if is_symbol ch then scan_symbol cs k
     else if is_chars_start ch then scan_chars cs k ch
     else Panic (Panicked ''Unexpected character''))"

lemma next_token_scan:
  "skip_whitespace (chars z) (offset z) < length (chars z) \<Longrightarrow>
     next_token z = map_res (\<lambda>t. (Some t, z\<lparr>offset := end_offset t\<rparr>)) (scan_at (chars z) (skip_whitespace (chars z) (offset z)))"
  by (simp add: next_token_def scan_at_def Let_def)

lemma keyword_facts:
  "list_all (\<lambda>w. w \<noteq> [] \<and> is_alphabetic (hd w) \<and> list_all is_identifier_part w \<and> to_uppercase w = w) keyword_names"
  by (simp add: keyword_names_def is_alphabetic_def is_identifier_part_def is_ascii_digit_def to_uppercase_def upper_char_def)

lemma symbol_facts:
  "symbol_text_of (symbol_text s) = Some s \<and> symbol_text s \<noteq> [] \<and> list_all is_symbol (symbol_text s)
   \<and> (s \<noteq> Sym_Dot \<and> s \<noteq> Sym_DoubleDot \<longrightarrow> \<not> is_identifier_start (hd (symbol_text s)) \<and> \<not> is_number_start (hd (symbol_text s)))
   \<and> \<not> is_whitespace (hd (symbol_text s))"
  by (cases s) (simp_all add: symbol_text_of_def symbol_text_def symbol_table_def is_symbol_def is_identifier_start_def
      is_alphabetic_def is_number_start_def is_ascii_digit_def is_whitespace_def)

lemma space_facts [simp]:
  "is_whitespace (CHR '' '')" "\<not> is_identifier_part (CHR '' '')" "\<not> is_ascii_digit (CHR '' '')"
  "\<not> is_symbol (CHR '' '')"
  by (simp_all add: is_whitespace_def is_identifier_part_def is_alphabetic_def is_ascii_digit_def is_symbol_def symbol_table_def)

text \<open>Scanning one spelling between @pre@ and a space.\<close>

definition scanned :: "string \<Rightarrow> string \<times> TokenType \<Rightarrow> string \<Rightarrow> bool" where
  "scanned pre t post = (scan_at (pre @ spelling t @ CHR '' '' # post) (length pre)
     = Ok (token_new (fst t) (snd t) (length pre + length (spelling t))))"

lemma run_to_space:
  "list_all (\<lambda>c. \<not> p c) w \<Longrightarrow> p (CHR '' '') \<Longrightarrow>
     index_of_first (pre @ w @ CHR '' '' # post) (length pre) p = length pre + length w"
  by (rule index_of_first_run)

lemma scan_word:
  assumes "plain_word w" "\<not> is_ambiguous_identifier w"
  shows "scan_at (pre @ w @ CHR '' '' # post) (length pre)
     = Ok (token_new w (case keyword_text_of w of Some k \<Rightarrow> TT_Keyword k | None \<Rightarrow> TT_Literal Lit_Identifier)
         (length pre + length w))"
proof -
  obtain c cs where w: "w = c # cs" "is_alphabetic c" using assms(1) by (cases w) (auto simp: plain_word_def)
  have e: "index_of_first (pre @ w @ CHR '' '' # post) (length pre) (\<lambda>ch. \<not> is_identifier_part ch) = length pre + length w"
    by (rule run_to_space) (use assms(1) in \<open>auto simp: plain_word_def\<close>)
  have "c \<noteq> CHR 0x60" using w(2) by (auto simp: is_alphabetic_def)
  then have "scan_identifier (pre @ w @ CHR '' '' # post) (length pre)
     = Ok (token_new w (case keyword_text_of w of Some k \<Rightarrow> TT_Keyword k | None \<Rightarrow> TT_Literal Lit_Identifier)
         (length pre + length w))"
    using assms(2) unfolding scan_identifier_def Let_def e substring_mid by (simp add: w(1))
  then show ?thesis using w by (simp add: scan_at_def is_identifier_start_def)
qed

lemma scanned_keyword: "plain (w, TT_Keyword k) \<Longrightarrow> scanned pre (w, TT_Keyword k) post"
proof -
  assume a: "plain (w, TT_Keyword k)"
  then have k: "w \<in> set keyword_names" "k = KW w" "\<not> is_ambiguous_identifier w" by (auto intro: Keyword.expand)
  have f: "plain_word w" "to_uppercase w = w" using k(1) keyword_facts by (auto simp: list_all_iff plain_word_def)
  then have "keyword_text_of w = Some k" using k by (simp add: keyword_text_of_def)
  then show ?thesis using scan_word [OF f(1) k(3)] by (simp add: scanned_def)
qed

lemma scanned_symbol: "plain (w, TT_Symbol s) \<Longrightarrow> scanned pre (w, TT_Symbol s) post"
proof -
  assume a: "plain (w, TT_Symbol s)"
  then have w: "w = symbol_text s" "s \<noteq> Sym_Dot" "s \<noteq> Sym_DoubleDot" by auto
  have "w \<noteq> []" using symbol_facts [of s] w(1) by simp
  then obtain c cs where c: "w = c # cs" by (cases w) auto
  have f: "\<not> is_identifier_start c" "\<not> is_number_start c" "is_symbol c" "symbol_text_of w = Some s"
    "list_all is_symbol w" using symbol_facts [of s] w(2,3) unfolding w(1) [symmetric] c by auto
  have e: "index_of_first (pre @ w @ CHR '' '' # post) (length pre) (\<lambda>ch. \<not> is_symbol ch) = length pre + length w"
    by (rule run_to_space) (use f(5) in auto)
  have "scan_symbol (pre @ w @ CHR '' '' # post) (length pre) = Ok (token_new w (TT_Symbol s) (length pre + length w))"
    unfolding scan_symbol_def e by (subst shrink_symbol.simps) (simp only: substring_mid and_then_simps f(4) option.simps)
  then show ?thesis using f c by (simp add: scanned_def scan_at_def)
qed

lemma digit_number_start: "is_ascii_digit c \<Longrightarrow> is_number_start c \<and> \<not> is_identifier_start c \<and> c \<noteq> CHR ''-'' \<and> c \<noteq> CHR ''.''"
  using digit_not_alphabetic [of c] by (auto simp: is_number_start_def is_identifier_start_def is_ascii_digit_def)

text \<open>The number scanner, given where the digits end.\<close>

lemma scan_number_at:
  assumes "k < length cs" "cs ! k \<noteq> CHR ''-''" "index_of_first cs k (\<lambda>ch. \<not> is_ascii_digit ch) = e" "e < length cs"
  shows "cs ! e \<noteq> CHR ''.'' \<Longrightarrow> scan_number cs k
      = map_res (\<lambda>t. token_new t (TT_Literal Lit_Long) e) (substring cs k e)"
    "cs ! e = CHR ''.'' \<Longrightarrow> index_of_first cs (e + 1) (\<lambda>ch. \<not> is_ascii_digit ch) = f \<Longrightarrow> scan_number cs k
      = map_res (\<lambda>t. token_new t (TT_Literal Lit_Double) f) (substring cs k f)"
  using assms by (simp_all add: scan_number_def Let_def)

lemma scanned_long: "plain (w, TT_Literal Lit_Long) \<Longrightarrow> scanned pre (w, TT_Literal Lit_Long) post"
proof -
  assume a: "plain (w, TT_Literal Lit_Long)"
  then obtain c cs where c: "w = c # cs" "is_ascii_digit c" by (cases w) auto
  let ?s = "pre @ w @ CHR '' '' # post"
  have e: "index_of_first ?s (length pre) (\<lambda>ch. \<not> is_ascii_digit ch) = length pre + length w"
    by (rule run_to_space) (use a in auto)
  have first: "?s ! length pre = c" using c by simp
  have last: "?s ! (length pre + length w) = CHR '' ''" by (simp add: nth_append)
  have "scan_number ?s (length pre) = map_res (\<lambda>t. token_new t (TT_Literal Lit_Long) (length pre + length w))
      (substring ?s (length pre) (length pre + length w))"
    by (rule scan_number_at(1)) (use digit_number_start [OF c(2)] first last e c(1) in auto)
  then have "scan_number ?s (length pre) = Ok (token_new w (TT_Literal Lit_Long) (length pre + length w))"
    by (simp only: substring_mid map_res_simps)
  then show ?thesis using digit_number_start [OF c(2)] first by (simp add: scanned_def scan_at_def)
qed

lemma scanned_double: "plain (w, TT_Literal Lit_Double) \<Longrightarrow> scanned pre (w, TT_Literal Lit_Double) post"
proof -
  assume "plain (w, TT_Literal Lit_Double)"
  then obtain a b where w: "w = a @ CHR ''.'' # b" "list_all is_ascii_digit a" "list_all is_ascii_digit b" by auto
  let ?s = "pre @ w @ CHR '' '' # post"
  have s: "?s = pre @ a @ CHR ''.'' # b @ CHR '' '' # post" "?s = (pre @ a @ [CHR ''.'']) @ b @ CHR '' '' # post"
    using w(1) by simp_all
  have e: "index_of_first ?s (length pre) (\<lambda>ch. \<not> is_ascii_digit ch) = length pre + length a"
    unfolding s(1) by (rule index_of_first_run) (use w(2) in \<open>auto simp: is_ascii_digit_def list_all_iff\<close>)
  have f: "index_of_first ?s (length pre + length a + 1) (\<lambda>ch. \<not> is_ascii_digit ch) = length pre + length w"
    using run_to_space [of "\<lambda>ch. \<not> is_ascii_digit ch" b "pre @ a @ [CHR ''.'']" post] w(3)
    unfolding s(2) by (simp add: w(1))
  have start: "is_number_start (?s ! length pre) \<and> \<not> is_identifier_start (?s ! length pre) \<and> ?s ! length pre \<noteq> CHR ''-''"
  proof (cases a)
    case Nil
    then show ?thesis using s(1) by (simp add: is_number_start_def is_identifier_start_def is_alphabetic_def)
  next
    case (Cons c cs)
    then have "is_ascii_digit c" using w(2) by simp
    then show ?thesis using digit_number_start [of c] Cons s(1) by simp
  qed
  have dot: "?s ! (length pre + length a) = CHR ''.''" unfolding s(1) by (simp add: nth_append)
  have "scan_number ?s (length pre) = map_res (\<lambda>t. token_new t (TT_Literal Lit_Double) (length pre + length w))
      (substring ?s (length pre) (length pre + length w))"
    by (rule scan_number_at(2) [OF _ _ e _ dot f]) (use start w(1) in auto)
  then have "scan_number ?s (length pre) = Ok (token_new w (TT_Literal Lit_Double) (length pre + length w))"
    by (simp only: substring_mid map_res_simps)
  then show ?thesis using start by (simp add: scanned_def scan_at_def)
qed

lemma position_run: "x \<notin> set w \<Longrightarrow> position (\<lambda>c. c = x) (w @ x # post) = Some (length w)"
  by (induction w) auto

lemma scanned_quoted_identifier:
  assumes "CHR 0x60 \<notin> set w"
  shows "scan_at (pre @ ([CHR 0x60] @ w @ [CHR 0x60]) @ post) (length pre)
    = Ok (token_new w (TT_Literal Lit_Identifier) (length pre + length ([CHR 0x60] @ w @ [CHR 0x60])))"
proof -
  let ?s = "pre @ ([CHR 0x60] @ w @ [CHR 0x60]) @ post"
  have s: "?s = (pre @ [CHR 0x60]) @ w @ CHR 0x60 # post" by simp
  have "offset_until_terminated_char ?s (CHR 0x60) (length pre + 1) = Ok (length pre + 1 + length w)"
    using position_run [OF assms, of post] by (simp add: offset_until_terminated_char_def)
  moreover have "substring ?s (length pre + 1) (length pre + 1 + length w) = Ok w"
    using substring_mid [of "pre @ [CHR 0x60]" w "CHR 0x60 # post"] unfolding s by simp
  ultimately have "scan_identifier ?s (length pre) = Ok (token_new w (TT_Literal Lit_Identifier) (length pre + 1 + length w + 1))"
    by (simp add: scan_identifier_def)
  then show ?thesis by (simp add: scan_at_def is_identifier_start_def)
qed

lemma scanned_identifier: "plain (w, TT_Literal Lit_Identifier) \<Longrightarrow> scanned pre (w, TT_Literal Lit_Identifier) post"
proof (cases "plain_word w \<and> keyword_text_of w = None \<and> \<not> is_ambiguous_identifier w")
  case True
  then show ?thesis using scan_word [of w pre post] by (simp add: scanned_def)
next
  case False
  assume "plain (w, TT_Literal Lit_Identifier)"
  then have w: "CHR 0x60 \<notin> set w" by simp
  have sp: "spelling (w, TT_Literal Lit_Identifier) = [CHR 0x60] @ w @ [CHR 0x60]" by (simp only: spelling.simps if_not_P [OF False])
  show ?thesis unfolding scanned_def sp fst_conv snd_conv by (rule scanned_quoted_identifier [OF w])
qed

lemma scan_chars_run:
  "scan_chars_from (pre @ escape q w @ q # c # post) q (length pre) b
     = (if c = q then scan_chars_from (pre @ escape q w @ q # c # post) q (length pre + length (escape q w)) (b @ w)
        else Ok (token_new (b @ w) (TT_Literal Lit_String) (length pre + length (escape q w) + 1)))"
proof (induction w arbitrary: pre b)
  case Nil
  show ?case by (auto simp: escape_def nth_append intro: trans [OF scan_chars_from.simps])
next
  case (Cons a w)
  let ?x = "if a = q then [q, q] else [a]"
  have esc: "escape q (a # w) = ?x @ escape q w" by (simp add: escape_def)
  let ?s = "pre @ escape q (a # w) @ q # c # post"
  have s: "?s = (pre @ ?x) @ escape q w @ q # c # post" using esc by simp
  have "scan_chars_from ?s q (length pre) b = scan_chars_from ?s q (length (pre @ ?x)) (b @ [a])"
    by (rule trans [OF scan_chars_from.simps]) (auto simp: esc nth_append)
  then show ?case using Cons.IH [of "pre @ ?x" "b @ [a]"] unfolding s by (simp add: esc)
qed

lemma scanned_string: "scanned pre (w, TT_Literal Lit_String) post"
proof -
  let ?q = "CHR 0x27"
  let ?s = "pre @ spelling (w, TT_Literal Lit_String) @ CHR '' '' # post"
  have s: "?s = (pre @ [?q]) @ escape ?q w @ ?q # CHR '' '' # post" by simp
  have "scan_chars_from ?s ?q (length (pre @ [?q])) [] = Ok (token_new ([] @ w) (TT_Literal Lit_String)
      (length (pre @ [?q]) + length (escape ?q w) + 1))"
    unfolding s scan_chars_run by simp
  then have "scan_chars ?s (length pre) ?q = Ok (token_new w (TT_Literal Lit_String) (length pre + length (spelling (w, TT_Literal Lit_String))))"
    by (simp add: scan_chars_def)
  moreover have "\<not> is_identifier_start ?q" "\<not> is_number_start ?q" "\<not> is_symbol ?q" "is_chars_start ?q"
    by (simp_all add: is_identifier_start_def is_alphabetic_def is_number_start_def is_ascii_digit_def is_symbol_def
        symbol_table_def is_chars_start_def)
  moreover have "?s ! length pre = ?q" by simp
  ultimately show ?thesis unfolding scanned_def scan_at_def Let_def by simp
qed

lemma plain_scanned: "plain t \<Longrightarrow> scanned pre t post"
proof -
  assume a: "plain t"
  obtain w ty where t: "t = (w, ty)" by force
  show ?thesis
  proof (cases ty)
    case (TT_Literal l)
    then show ?thesis using a t scanned_long scanned_double scanned_string scanned_identifier by (cases l) blast+
  qed (use a t scanned_keyword scanned_symbol in blast)+
qed

lemma plain_spelling: "plain t \<Longrightarrow> spelling t \<noteq> [] \<and> \<not> is_whitespace (hd (spelling t))"
proof (induction t rule: plain.induct)
  case (1 w k)
  then have "w \<noteq> [] \<and> is_alphabetic (hd w)" using keyword_facts by (auto simp: list_all_iff)
  then show ?case using alphabetic_not_whitespace by auto
next
  case (2 w s)
  then show ?case using symbol_facts [of s] by simp
next
  case (3 w)
  then show ?case using digit_not_whitespace by (cases w) auto
next
  case (4 w)
  then obtain a b where w: "w = a @ CHR ''.'' # b" "list_all is_ascii_digit a" by auto
  then show ?case using digit_not_whitespace by (cases a) (auto simp: is_whitespace_def)
next
  case (6 w)
  then show ?case using alphabetic_not_whitespace by (auto simp: plain_word_def is_whitespace_def)
qed (simp add: is_whitespace_def)

definition print_tokens :: "(string \<times> TokenType) list \<Rightarrow> string" where
  "print_tokens ts = concat (List.map (\<lambda>t. spelling t @ '' '') ts)"

lemma skip_spaces:
  "list_all is_whitespace ws \<Longrightarrow> w \<noteq> [] \<Longrightarrow> \<not> is_whitespace (hd w) \<Longrightarrow>
     skip_whitespace (pre @ ws @ w @ post) (length pre) = length (pre @ ws)"
  using index_of_first_run [of "\<lambda>ch. \<not> is_whitespace ch" ws "hd w" pre "tl w @ post"]
  by (cases w) (simp_all add: skip_whitespace_def)

lemma skip_to_end:
  "list_all is_whitespace ws \<Longrightarrow> skip_whitespace (pre @ ws) (length pre) = length (pre @ ws)"
proof -
  assume "list_all is_whitespace ws"
  then have "\<not> skip_whitespace (pre @ ws) (length pre) < length (pre @ ws)"
    using index_of_first_spec [of "length pre" "pre @ ws" "\<lambda>ch. \<not> is_whitespace ch"]
    by (auto simp: skip_whitespace_def list_all_length nth_append)
  then show ?thesis
    using index_of_first_spec [of "length pre" "pre @ ws" "\<lambda>ch. \<not> is_whitespace ch"] by (simp add: skip_whitespace_def)
qed

text \<open>GROUP and ORDER are keywords when BY follows.\<close>

definition by_token :: "string \<times> TokenType" where
  "by_token = (''BY'', TT_Keyword (KW ''BY''))"

fun plain_seq :: "(string \<times> TokenType) list \<Rightarrow> bool" where
  "plain_seq [] = True"
| "plain_seq (t # ts) = ((plain t \<or> (t = (''GROUP'', TT_Keyword (KW ''GROUP'')) \<or> t = (''ORDER'', TT_Keyword (KW ''ORDER'')))
     \<and> (\<exists>r. ts = by_token # r)) \<and> plain_seq ts)"

lemma scanned_ambiguous:
  assumes "w = ''GROUP'' \<or> w = ''ORDER''"
  shows "scanned pre (w, TT_Keyword (KW w)) (''BY'' @ post)"
proof -
  let ?s = "pre @ w @ CHR '' '' # ''BY'' @ post"
  have amb: "is_ambiguous_identifier w" using assms by (auto simp: is_ambiguous_identifier_def eq_ignore_ascii_case_def)
  have pw: "list_all is_identifier_part w" "w \<noteq> []" "is_alphabetic (hd w)" "hd w \<noteq> CHR 0x60"
    using assms by (auto simp: is_identifier_part_def is_alphabetic_def)
  have e: "index_of_first ?s (length pre) (\<lambda>ch. \<not> is_identifier_part ch) = length pre + length w"
    by (rule run_to_space) (use pw in auto)
  have s2: "?s = (pre @ w) @ [CHR '' ''] @ ''BY'' @ post" by simp
  have skip: "skip_whitespace ?s (length pre + length w) = length pre + length w + 1"
    using skip_spaces [of "[CHR '' '']" "''BY''" "pre @ w" post] unfolding s2
    by (simp add: is_whitespace_def)
  have by_: "substring ?s (length pre + length w + 1) (length pre + length w + 1 + 2) = Ok ''BY''"
    using substring_mid [of "pre @ w @ [CHR '' '']" "''BY''" post] by (simp add: numeral_2_eq_2)
  have "eq_ignore_ascii_case ''BY'' ''BY''" by (simp add: eq_ignore_ascii_case_def)
  moreover have "keyword_text_of w = Some (KW w)"
  proof -
    have "w \<in> set keyword_names" using assms by (auto simp: keyword_names_def)
    then show ?thesis using keyword_facts by (auto simp: keyword_text_of_def list_all_iff)
  qed
  ultimately have amb2: "process_ambiguous_identifier ?s (length pre + length w) w = Ok (TT_Keyword (KW w))"
    unfolding process_ambiguous_identifier_def Let_def skip by_ by simp
  have first: "idx ?s (length pre) = Ok (hd w)" using pw(2) by (cases w) auto
  have "scan_identifier ?s (length pre) = Ok (token_new w (TT_Keyword (KW w)) (length pre + length w))"
    unfolding scan_identifier_def Let_def e first and_then_simps if_not_P [OF pw(4)] substring_mid
    using amb amb2 by simp
  moreover have "?s ! length pre = hd w" using pw(2) by (cases w) auto
  ultimately show ?thesis using pw(3) by (simp add: scanned_def scan_at_def is_identifier_start_def)
qed

lemma by_plain: "plain by_token"
  by (auto simp: by_token_def keyword_names_def is_ambiguous_identifier_def eq_ignore_ascii_case_def ascii_lower_char_def)

lemma plain_seq_head:
  assumes "plain_seq (t # ts)"
  shows "scanned pre t (print_tokens ts)" "spelling t \<noteq> [] \<and> \<not> is_whitespace (hd (spelling t))"
proof -
  consider "plain t" | w r where "t = (w, TT_Keyword (KW w))" "w = ''GROUP'' \<or> w = ''ORDER''" "ts = by_token # r"
    using assms by auto
  then show "scanned pre t (print_tokens ts)"
  proof cases
    case 2
    have "print_tokens ts = ''BY'' @ '' '' @ print_tokens r" by (simp add: 2(3) print_tokens_def by_token_def)
    then show ?thesis using scanned_ambiguous [OF 2(2)] unfolding 2(1) by simp
  qed (rule plain_scanned)
  from assms show "spelling t \<noteq> [] \<and> \<not> is_whitespace (hd (spelling t))"
    using plain_spelling [of t] by (auto simp: is_whitespace_def)
qed

lemma tokenize_loop_print:
  "plain_seq ts \<Longrightarrow> list_all is_whitespace ws \<Longrightarrow> length ts < n \<Longrightarrow>
     \<exists>out. tokenize_loop n \<lparr>chars = pre @ ws @ print_tokens ts, offset = length pre\<rparr> = Ok out
       \<and> List.map (\<lambda>t. (tok_text t, token_type t)) out = ts"
proof (induction ts arbitrary: pre ws n)
  case Nil
  then obtain m where n: "n = Suc m" by (cases n) auto
  have "skip_whitespace (pre @ ws) (length pre) = length (pre @ ws)" using skip_to_end Nil by blast
  then show ?case using n by (simp add: next_token_def print_tokens_def Let_def)
next
  case (Cons t ts)
  obtain m where n: "n = Suc m" "length ts < m" using Cons.prems(3) by (cases n) auto
  note t = plain_seq_head [OF Cons.prems(1)]
  have ts: "plain_seq ts" using Cons.prems(1) by simp
  let ?w = "spelling t"
  let ?cs = "pre @ ws @ print_tokens (t # ts)"
  have cs: "?cs = pre @ ws @ ?w @ CHR '' '' # print_tokens ts" "?cs = (pre @ ws) @ ?w @ CHR '' '' # print_tokens ts"
    "?cs = (pre @ ws @ ?w) @ '' '' @ print_tokens ts"
    by (simp_all add: print_tokens_def)
  have skip: "skip_whitespace ?cs (length pre) = length (pre @ ws)"
    unfolding cs(1) by (rule skip_spaces) (use t(2) Cons.prems(2) in auto)
  have less: "length (pre @ ws) < length ?cs" using t(2) unfolding cs(1) by (cases ?w) auto
  have scan: "scan_at ?cs (length (pre @ ws)) = Ok (token_new (fst t) (snd t) (length (pre @ ws @ ?w)))"
    using t(1) [of "pre @ ws"] unfolding cs(2) scanned_def by (simp add: add.assoc)
  let ?z = "\<lparr>chars = ?cs, offset = length pre\<rparr>"
  have nt: "next_token ?z = Ok (Some (token_new (fst t) (snd t) (length (pre @ ws @ ?w))), \<lparr>chars = ?cs, offset = length (pre @ ws @ ?w)\<rparr>)"
    using next_token_scan [of ?z] less by (simp only: SqlTokenizer.select_convs skip scan SqlTokenizer.update_convs map_res_simps)
      (simp add: token_new_def)
  obtain out where "tokenize_loop m \<lparr>chars = (pre @ ws @ ?w) @ '' '' @ print_tokens ts, offset = length (pre @ ws @ ?w)\<rparr> = Ok out"
    "List.map (\<lambda>t. (tok_text t, token_type t)) out = ts"
    using Cons.IH [OF ts, of "'' ''" m "pre @ ws @ ?w"] n(2) by auto
  then show ?case unfolding n(1) tokenize_loop.simps nt and_then_simps prod.case option.case unfolding cs(3)
    by (intro exI [of _ "token_new (fst t) (snd t) (length (pre @ ws @ ?w)) # out"]) (simp add: token_new_def)
qed

section \<open>Properties\<close>

text \<open>C25: The tokenizer terminates on every input within @length sql + 1@ scans, either with a
  panic or with tokens that cover the input: every character belongs to exactly one token or
  is whitespace between tokens, in order, and every token's text is what its characters spell
  (quotes and doubled quote escapes removed).\<close>

theorem tokenize_covers:
  "case tokenize sql of
     Ok s \<Rightarrow> ts_i s = 0 \<and> covers sql 0 (ts_tokens s)
   | Panic p \<Rightarrow> p \<noteq> no_fuel"
  using tokenize_loop_ok [of "tokenizer_new sql" "length sql + 1"]
  by (cases "tokenize_loop (length sql + 1) (tokenizer_new sql)")
    (auto simp: tokenize_def tokenizer_new_def token_stream_new_def)

lemma tokenize_printed:
  assumes "plain_seq ts"
  shows "\<exists>s. tokenize (print_tokens ts) = Ok s \<and> ts_i s = 0 \<and> List.map (\<lambda>t. (tok_text t, token_type t)) (ts_tokens s) = ts"
proof -
  have "length ts \<le> length (print_tokens ts)"
    by (induction ts) (auto simp: print_tokens_def)
  then show ?thesis
    using tokenize_loop_print [OF assms, of "[]" "length (print_tokens ts) + 1" "[]"]
    by (auto simp: tokenize_def tokenizer_new_def token_stream_new_def)
qed

text \<open>C26: Scanning inverts printing: the text of any list of plain tokens (keywords, GROUP and
  ORDER only before BY, operators, numbers, strings with any content, identifiers back-quoted
  where needed), printed with quotes doubled and separated by spaces, tokenizes to exactly
  those tokens.\<close>

theorem tokenize_print_roundtrip:
  assumes "plain_seq ts"
  shows "\<exists>s. tokenize (print_tokens ts) = Ok s \<and> List.map (\<lambda>t. (tok_text t, token_type t)) (ts_tokens s) = ts"
  using tokenize_printed [OF assms] by blast

theorem tokenize_print_roundtrip_witness:
  "\<exists>s. tokenize (print_tokens [(''SELECT'', TT_Keyword (KW ''SELECT'')), (''id'', TT_Literal Lit_Identifier),
       (''>='', TT_Symbol Sym_GtEq), (''12'', TT_Literal Lit_Long), (''a b'', TT_Literal Lit_String)]) = Ok s
     \<and> length (ts_tokens s) = 5"
proof -
  let ?ts = "[(''SELECT'', TT_Keyword (KW ''SELECT'')), (''id'', TT_Literal Lit_Identifier),
       (''>='', TT_Symbol Sym_GtEq), (''12'', TT_Literal Lit_Long), (''a b'', TT_Literal Lit_String)]"
  have "''SELECT'' \<in> set keyword_names" by (simp add: keyword_names_def)
  then have "plain_seq ?ts"
    by (simp add: is_ambiguous_identifier_def eq_ignore_ascii_case_def ascii_lower_char_def
        symbol_text_def symbol_table_def is_ascii_digit_def)
  then have "\<exists>s. tokenize (print_tokens ?ts) = Ok s \<and> List.map (\<lambda>t. (tok_text t, token_type t)) (ts_tokens s) = ?ts"
    by (rule tokenize_print_roundtrip)
  then obtain s where s: "tokenize (print_tokens ?ts) = Ok s"
    "List.map (\<lambda>t. (tok_text t, token_type t)) (ts_tokens s) = ?ts" by (elim exE conjE)
  have "length (ts_tokens s) = 5" using arg_cong [OF s(2), of length] by simp
  then show ?thesis using s(1) by blast
qed

end
