(* ===== verification/Parser_Props.thy ===== *)
theory Parser_Props
  imports Token_Props Sql_Parser
begin

text \<open>
  Correctness of the parser: it terminates within one unit of fuel per token, and parsing
  inverts printing with minimal parentheses, so the precedence table and the associativity
  of the operators are what the printer says.
\<close>

section \<open>Termination\<close>

definition unread :: "TokenStream \<Rightarrow> nat" where
  "unread s = length (remaining s)"

text \<open>A parser run that does not run out of fuel and leaves at most @m@ tokens unread.\<close>

abbreviation leaves :: "nat \<Rightarrow> ('a \<times> TokenStream) res \<Rightarrow> bool" where
  "leaves m r \<equiv> outcome (\<lambda>p. p \<noteq> no_fuel) (\<lambda>(x, s). unread s \<le> m) r"

text \<open>An expression parser with enough fuel for @m@ unread tokens: it consumes a token
  whenever it returns an expression.\<close>

definition sound_parser :: "nat \<Rightarrow> expr_parser \<Rightarrow> bool" where
  "sound_parser m pr = (\<forall>p s. unread s < m \<longrightarrow> outcome (\<lambda>p. p \<noteq> no_fuel)
     (\<lambda>(e, s'). unread s' \<le> unread s \<and> (e \<noteq> None \<longrightarrow> unread s' < unread s)) (pr p s))"

lemma sound_parserD:
  "sound_parser m pr \<Longrightarrow> unread s < m \<Longrightarrow> outcome (\<lambda>p. p \<noteq> no_fuel)
     (\<lambda>(e, s'). unread s' \<le> unread s \<and> (e \<noteq> None \<longrightarrow> unread s' < unread s)) (pr p s)"
  by (auto simp: sound_parser_def)

lemma sound_leaves: "sound_parser m pr \<Longrightarrow> unread s < m \<Longrightarrow> unread s \<le> k \<Longrightarrow> leaves k (pr p s)"
  by (rule outcome_mono [OF sound_parserD]) auto

lemma unread_index: "unread s = length (ts_tokens s) - ts_i s"
  by (simp add: unread_def remaining_def)

lemma unread_advance: "peek s = Some t \<Longrightarrow> Suc (unread (advance s)) = unread s"
  by (auto simp: unread_index peek_def split: if_splits)

lemma unread_next: "next_tok s = (Some t, s') \<Longrightarrow> Suc (unread s') = unread s"
  by (auto simp: unread_index next_tok_def split: if_splits)

lemma at_symbol_peek: "at_symbol y s \<Longrightarrow> \<exists>t. peek s = Some t"
  by (auto simp: at_symbol_def)

lemma expect_token_leaves: "Panicked msg \<noteq> no_fuel \<Longrightarrow>
   outcome (\<lambda>p. p \<noteq> no_fuel) (\<lambda>s'. unread s' < unread s) (expect_token t msg s)"
  using unread_advance [of s] by (auto simp: expect_token_def consume_token_type_def split: option.splits)

lemma consume_keyword_unread: "consume_keyword kw s = (b, s') \<Longrightarrow> unread s' \<le> unread s"
  using unread_advance [of s] by (fastforce simp: consume_keyword_def split: option.splits if_splits)

lemma consume_all_unread: "consume_all kws s = (b, s') \<Longrightarrow> unread s' \<le> unread s \<and> ts_tokens s' = ts_tokens s"
proof (induction kws arbitrary: s)
  case (Cons kw kws)
  obtain c s1 where c: "consume_keyword kw s = (c, s1)" by force
  then have "unread s1 \<le> unread s" "ts_tokens s1 = ts_tokens s"
    using consume_keyword_unread by (auto simp: consume_keyword_def split: option.splits if_splits)
  then show ?case using Cons.IH [of s1] Cons.prems c by (cases c) auto
qed simp

lemma consume_keywords_unread: "consume_keywords kws s = (b, s') \<Longrightarrow> unread s' \<le> unread s"
  using consume_all_unread [of kws s] by (auto simp: consume_keywords_def unread_index split: prod.splits bool.splits)

lemma clause_leaves:
  assumes "\<And>b s'. c = (b, s') \<Longrightarrow> unread s' \<le> m" and "\<And>s. unread s \<le> m \<Longrightarrow> leaves m (body s)"
  shows "leaves m (clause c d body)"
  using assms by (cases c) (auto simp: clause_def split: bool.split)

lemma parse_expr_list_leaves:
  "sound_parser m pr \<Longrightarrow> unread s < m \<Longrightarrow> unread s < n \<Longrightarrow> unread s \<le> k \<Longrightarrow> leaves k (parse_expr_list pr n s)"
proof (induction n arbitrary: s k)
  case (Suc n)
  note pr = sound_parserD [OF Suc.prems(1,2), of 0]
  show ?case
  proof (cases "pr 0 s")
    case (Ok r)
    obtain e s1 where r: "r = (e, s1)" by force
    show ?thesis
    proof (cases e)
      case None
      then show ?thesis using Ok r pr Suc.prems(4) by auto
    next
      case (Some x)
      then have s1: "unread s1 < unread s" using Ok r pr by auto
      show ?thesis
      proof (cases "at_symbol Sym_Comma s1")
        case True
        then obtain t where "peek s1 = Some t" using at_symbol_peek by blast
        then have "unread (advance s1) < unread s1" using unread_advance [of s1 t] by simp
        then have "leaves k (parse_expr_list pr n (advance s1))"
          using Suc.prems s1 by (intro Suc.IH) auto
        then show ?thesis using Ok r Some True by (auto simp: outcome_map_res elim!: outcome_mono)
      qed (use Ok r Some s1 Suc.prems in auto)
    qed
  qed (use pr in auto)
qed simp

lemma parse_order_leaves:
  "sound_parser m pr \<Longrightarrow> unread s < m \<Longrightarrow> unread s < n \<Longrightarrow> unread s \<le> k \<Longrightarrow> leaves k (parse_order pr n s)"
proof (induction n arbitrary: s k)
  case (Suc n)
  note pr = sound_parserD [OF Suc.prems(1,2), of 0]
  show ?case
  proof (cases "pr 0 s")
    case (Ok r)
    obtain e s1 where r: "r = (e, s1)" by force
    show ?thesis
    proof (cases e)
      case None
      then show ?thesis using Ok r pr Suc.prems(4) by auto
    next
      case (Some x)
      then have s1: "unread s1 < unread s" using Ok r pr by auto
      have sk: "outcome (\<lambda>p. p \<noteq> no_fuel) (\<lambda>_. True) (sort_key x)"
        by (cases x) (auto simp: sort_key_def)
      show ?thesis
      proof (cases "at_symbol Sym_Comma s1")
        case True
        then obtain t where "peek s1 = Some t" using at_symbol_peek by blast
        then have "unread (advance s1) < unread s1" using unread_advance [of s1 t] by simp
        then have "leaves k (parse_order pr n (advance s1))"
          using Suc.prems s1 by (intro Suc.IH) auto
        then show ?thesis using Ok r Some True sk
          by (cases "sort_key x") (auto simp: outcome_map_res elim!: outcome_mono)
      next
        case False
        then show ?thesis using Ok r Some s1 Suc.prems sk by (cases "sort_key x") auto
      qed
    qed
  qed (use pr in auto)
qed simp

lemma expect_fuel: "Panicked msg \<noteq> no_fuel \<Longrightarrow> outcome (\<lambda>p. p \<noteq> no_fuel) (\<lambda>_. True) (expect msg x)"
  by (cases x) auto

lemma parse_cast_leaves:
  assumes "sound_parser m pr" "unread s < m" "unread s \<le> k"
  shows "leaves k (parse_cast pr s)"
  unfolding parse_cast_def
proof (rule outcome_and_then [OF expect_token_leaves], simp)
  fix s1 assume s1: "unread s1 < unread s"
  then have "unread s1 < m" using assms(2) by simp
  note pr = sound_parserD [OF assms(1) this, of 0]
  show "leaves k (and_then (pr 0 s1) (\<lambda>(e, s). and_then (expect ''Expected expression in CAST'' e) (\<lambda>e. case e of
        S_Alias x a \<Rightarrow> map_res (\<lambda>s. (S_Cast x a, s))
          (expect_token (TT_Symbol Sym_RightParen) ''Expected ) after CAST expression'' s)
      | _ \<Rightarrow> Panic (Panicked ''Expected AS type in CAST expression''))))"
  proof (rule outcome_and_then [OF pr])
    fix r :: "SqlExpr option \<times> TokenStream" assume "case r of (e, s') \<Rightarrow> unread s' \<le> unread s1 \<and> (e \<noteq> None \<longrightarrow> unread s' < unread s1)"
    then obtain e s2 where r: "r = (e, s2)" "unread s2 \<le> unread s1" by (cases r) auto
    have "leaves k (map_res (\<lambda>s. (S_Cast x a, s)) (expect_token (TT_Symbol Sym_RightParen) ''Expected ) after CAST expression'' s2))" for x a
      using r(2) s1 assms(3) by (auto simp: outcome_map_res intro!: outcome_mono [OF expect_token_leaves])
    then show "leaves k (case r of (e, s) \<Rightarrow> and_then (expect ''Expected expression in CAST'' e) (\<lambda>e. case e of
        S_Alias x a \<Rightarrow> map_res (\<lambda>s. (S_Cast x a, s))
          (expect_token (TT_Symbol Sym_RightParen) ''Expected ) after CAST expression'' s)
      | _ \<Rightarrow> Panic (Panicked ''Expected AS type in CAST expression'')))"
      unfolding r(1) by (cases e) (auto split: SqlExpr.split)
  qed
qed

lemma parse_paren_leaves:
  assumes "sound_parser m pr" "unread s < m" "unread s \<le> k"
  shows "leaves k (parse_paren pr s)"
  unfolding parse_paren_def
proof (rule outcome_and_then [OF sound_parserD [OF assms(1,2)]])
  fix r :: "SqlExpr option \<times> TokenStream" assume "case r of (e, s') \<Rightarrow> unread s' \<le> unread s \<and> (e \<noteq> None \<longrightarrow> unread s' < unread s)"
  then obtain e s2 where r: "r = (e, s2)" "unread s2 \<le> unread s" by (cases r) auto
  have "leaves k (map_res (\<lambda>s. (x, s)) (expect_token (TT_Symbol Sym_RightParen) ''Expected ) after expression'' s2))" for x :: SqlExpr
    using r(2) assms(3) by (auto simp: outcome_map_res intro!: outcome_mono [OF expect_token_leaves])
  then show "leaves k (case r of (e, s) \<Rightarrow> and_then (expect ''Expected expression after ('' e) (\<lambda>e.
       map_res (\<lambda>s. (e, s)) (expect_token (TT_Symbol Sym_RightParen) ''Expected ) after expression'' s)))"
    unfolding r(1) by (cases e) auto
qed

lemma leaves_and_then:
  "leaves m r \<Longrightarrow> (\<And>x s. r = Ok (x, s) \<Longrightarrow> unread s \<le> m \<Longrightarrow> leaves k (f (x, s))) \<Longrightarrow> leaves k (and_then r f)"
  by (cases r) auto

lemma identifier_of_fuel: "Panicked msg \<noteq> no_fuel \<Longrightarrow> outcome (\<lambda>p. p \<noteq> no_fuel) (\<lambda>_. True) (identifier_of msg e)"
  by (auto simp: identifier_of_def split: option.split SqlExpr.split)

lemma limit_of_fuel: "outcome (\<lambda>p. p \<noteq> no_fuel) (\<lambda>_. True) (limit_of e)"
  by (auto simp: limit_of_def split: option.split SqlExpr.split)

lemma parse_limit_leaves:
  assumes "sound_parser m pr" "unread s < m" "unread s \<le> k"
  shows "leaves k (parse_limit pr s)"
  unfolding parse_limit_def
  by (rule leaves_and_then [OF sound_leaves [OF assms]])
    (auto simp: outcome_map_res intro: outcome_mono [OF limit_of_fuel])

lemma parse_select_leaves:
  assumes "sound_parser m pr" "unread s < m" "unread s < n" "unread s \<le> k"
  shows "leaves k (parse_select pr n s)"
proof -
  let ?k = "unread s"
  have pr: "unread s1 \<le> ?k \<Longrightarrow> leaves ?k (pr 0 s1)" for s1
    using sound_leaves [OF assms(1)] assms(2) by simp
  have lst: "unread s1 \<le> ?k \<Longrightarrow> leaves ?k (parse_expr_list pr n s1)"
    and ord: "unread s1 \<le> ?k \<Longrightarrow> leaves ?k (parse_order pr n s1)"
    and lim: "unread s1 \<le> ?k \<Longrightarrow> leaves ?k (parse_limit pr s1)" for s1
    using parse_expr_list_leaves [OF assms(1)] parse_order_leaves [OF assms(1)] parse_limit_leaves [OF assms(1)] assms by auto
  have kw: "leaves ?k (clause (consume_keyword w s1) d body)"
    if "unread s1 \<le> ?k" "\<And>s. unread s \<le> ?k \<Longrightarrow> leaves ?k (body s)" for w s1 d and body :: "TokenStream \<Rightarrow> ('x \<times> TokenStream) res"
    by (rule clause_leaves) (use that consume_keyword_unread in fastforce)+
  have kws: "leaves ?k (clause (consume_keywords w s1) d body)"
    if "unread s1 \<le> ?k" "\<And>s. unread s \<le> ?k \<Longrightarrow> leaves ?k (body s)" for w s1 d and body :: "TokenStream \<Rightarrow> ('x \<times> TokenStream) res"
    by (rule clause_leaves) (use that consume_keywords_unread in fastforce)+
  have "leaves ?k (parse_select pr n s)"
    unfolding parse_select_def
  proof (rule leaves_and_then [OF lst], simp, goal_cases)
    case (1 es s1)
    obtain b s2 where c: "consume_keyword ''FROM'' s1 = (b, s2)" by force
    then have s2: "unread s2 \<le> ?k" using consume_keyword_unread 1(2) by fastforce
    have "leaves ?k (and_then (pr 0 s2) (\<lambda>(te, s).
          and_then (identifier_of ''Expected table name after FROM'' te) (\<lambda>table_name.
          and_then (clause (consume_keyword ''WHERE'' s) None (pr 0)) (\<lambda>(selection, s).
          and_then (clause (consume_keywords [''GROUP'', ''BY''] s) [] (parse_expr_list pr n)) (\<lambda>(group_by, s).
          and_then (clause (consume_keyword ''HAVING'' s) None (pr 0)) (\<lambda>(having, s).
          and_then (clause (consume_keywords [''ORDER'', ''BY''] s) [] (parse_order pr n)) (\<lambda>(order_by, s).
          and_then (clause (consume_keyword ''LIMIT'' s) None (parse_limit pr)) (\<lambda>(limit, s).
            Ok (SqlSelect es selection group_by order_by having limit table_name, s)))))))))"
      apply (rule leaves_and_then [OF pr [OF s2]])
      apply (simp only: prod.case)
      apply (rule outcome_and_then [OF identifier_of_fuel], simp)
      apply (rule leaves_and_then [OF kw [OF _ pr]], assumption, assumption, simp only: prod.case)
      apply (rule leaves_and_then [OF kws [OF _ lst]], assumption, assumption, simp only: prod.case)
      apply (rule leaves_and_then [OF kw [OF _ pr]], assumption, assumption, simp only: prod.case)
      apply (rule leaves_and_then [OF kws [OF _ ord]], assumption, assumption, simp only: prod.case)
      apply (rule leaves_and_then [OF kw [OF _ lim]], assumption, assumption, simp)
      done
    then show ?case using c by (cases b) auto
  qed
  then show ?thesis using assms(4) by (auto elim!: outcome_mono)
qed

lemma prefix_keyword_leaves:
  assumes "sound_parser m pr" "unread s < m" "unread s < n"
  shows "leaves (unread s) (prefix_keyword pr n k t s)"
proof -
  have "leaves (unread s) (map_res (\<lambda>(d, s). (f d, s)) (parse_string_after msg s))"
    if "Panicked msg \<noteq> no_fuel" for f :: "string \<Rightarrow> SqlExpr" and msg
    using that unread_next [of s] by (fastforce simp: parse_string_after_def split: prod.split option.split)
  moreover have "leaves (unread s) (map_res (\<lambda>(q, s). (S_Select q, s)) (parse_select pr n s))"
    using parse_select_leaves [OF assms(1,2,3), of "unread s"] by (auto simp: outcome_map_res elim!: outcome_mono)
  ultimately show ?thesis using parse_cast_leaves [OF assms(1,2)] by (simp add: prefix_keyword_def)
qed

lemma parse_prefix_leaves:
  assumes "sound_parser m pr" "unread s \<le> m" "unread s \<le> n"
  shows "outcome (\<lambda>p. p \<noteq> no_fuel) (\<lambda>(e, s'). unread s' \<le> unread s \<and> (e \<noteq> None \<longrightarrow> unread s' < unread s)) (parse_prefix pr n s)"
proof -
  obtain t s1 where n: "next_tok s = (t, s1)" by force
  show ?thesis
  proof (cases t)
    case None
    then have "s1 = s" using n by (auto simp: next_tok_def split: if_splits)
    then show ?thesis using n None by (simp add: parse_prefix_def)
  next
    case (Some tok)
    then have u: "Suc (unread s1) = unread s" using n unread_next by blast
    then have lt: "unread s1 < m" "unread s1 < n" using assms(2,3) by auto
    have lit: "outcome (\<lambda>p. p \<noteq> no_fuel) (\<lambda>_. True) (prefix_literal l tok)" for l
      by (cases l) (auto simp: prefix_literal_def outcome_map_res expect_def split: option.split)
    have "leaves (unread s1) (case token_type tok of
        TT_Keyword k \<Rightarrow> prefix_keyword pr n k tok s1
      | TT_Literal l \<Rightarrow> map_res (\<lambda>e. (e, s1)) (prefix_literal l tok)
      | TT_Symbol y \<Rightarrow>
          if y = Sym_LeftParen then parse_paren pr s1
          else if y = Sym_Star then Ok (S_Identifier ''*'', s1)
          else Panic (Panicked ''Unexpected token''))"
      using prefix_keyword_leaves [OF assms(1) lt] parse_paren_leaves [OF assms(1) lt(1)] lit
      by (auto simp: outcome_map_res split: TokenType.split)
    then show ?thesis unfolding parse_prefix_def n Some prod.case option.case
      by (auto simp: outcome_map_res case_prod_beta u [symmetric] elim!: outcome_mono)
  qed
qed

lemma parse_call_leaves:
  assumes "sound_parser m pr" "unread s < m" "unread s < n"
  shows "leaves (unread s) (parse_call pr n f s)"
  unfolding parse_call_def
proof (rule leaves_and_then)
  show "leaves (unread s) (if at_symbol Sym_RightParen s then Ok ([], s) else parse_expr_list pr n s)"
    using parse_expr_list_leaves [OF assms, of "unread s"] by simp
  fix args s1 assume "unread s1 \<le> unread s"
  then show "leaves (unread s) (case (args, s1) of (args, s) \<Rightarrow> map_res (\<lambda>s. (S_Function f args, s))
          (expect_token (TT_Symbol Sym_RightParen) ''Expected ) after function arguments'' s))"
    by (auto simp: outcome_map_res intro!: outcome_mono [OF expect_token_leaves])
qed

lemma parse_infix_leaves:
  assumes "sound_parser m pr" "unread s \<le> m" "unread s \<le> n"
  shows "outcome (\<lambda>p. p \<noteq> no_fuel) (\<lambda>(e, s'). unread s' < unread s) (parse_infix pr n left p s)"
proof (cases "peek s")
  case (Some t)
  let ?a = "advance s"
  have u: "Suc (unread ?a) = unread s" using unread_advance [OF Some] .
  then have lt: "unread ?a < m" "unread ?a < n" using assms(2,3) by auto
  have pr: "leaves (unread ?a) (pr q ?a)" for q using sound_leaves [OF assms(1) lt(1)] by simp
  have "leaves (unread ?a) (and_then (pr p ?a) (\<lambda>(r, s).
            map_res (\<lambda>r. (S_BinaryExpr left (tok_text t) r, s)) (expect ''Error parsing infix'' r)))"
    by (rule leaves_and_then [OF pr]) (auto simp: outcome_map_res intro: outcome_mono [OF expect_fuel])
  moreover have "leaves (unread ?a) (and_then (pr 0 ?a) (\<lambda>(e, s).
            map_res (\<lambda>a. (S_Alias left a, s)) (identifier_of ''Expected identifier'' e)))"
    by (rule leaves_and_then [OF pr]) (auto simp: outcome_map_res intro: outcome_mono [OF identifier_of_fuel])
  ultimately have "leaves (unread ?a) (parse_infix pr n left p s)"
    using Some parse_call_leaves [OF assms(1) lt] by (auto simp: parse_infix_def split: SqlExpr.split)
  then show ?thesis by (rule outcome_mono) (use u in auto)
qed (simp add: parse_infix_def)

lemma infix_loop_leaves:
  "sound_parser m pr \<Longrightarrow> unread s \<le> m \<Longrightarrow> unread s < n \<Longrightarrow> leaves (unread s) (infix_loop pr n p e s)"
proof (induction n arbitrary: e s)
  case (Suc n)
  have le: "unread s \<le> n" using Suc.prems(3) by simp
  have "leaves (unread s) (and_then (parse_infix pr n e (next_precedence s) s) (\<lambda>(e, s). infix_loop pr n p e s))"
  proof (rule outcome_and_then [OF parse_infix_leaves [OF Suc.prems(1,2) le]])
    fix r :: "SqlExpr \<times> TokenStream" assume "case r of (e, s') \<Rightarrow> unread s' < unread s"
    then obtain e1 s1 where r: "r = (e1, s1)" "unread s1 < unread s" by (cases r) auto
    have "leaves (unread s1) (infix_loop pr n p e1 s1)" using Suc.prems r(2) by (intro Suc.IH) auto
    then show "leaves (unread s) (case r of (e, s) \<Rightarrow> infix_loop pr n p e s)"
      using r by (auto elim!: outcome_mono)
  qed
  then show ?case by simp
qed simp

lemma parse_sound: "sound_parser n (parse n)"
proof (induction n)
  case 0
  show ?case by (simp add: sound_parser_def)
next
  case (Suc n)
  show ?case unfolding sound_parser_def
  proof (intro allI impI)
    fix p s assume "unread s < Suc n"
    then have le: "unread s \<le> n" by simp
    note pre = parse_prefix_leaves [OF Suc le le]
    show "outcome (\<lambda>p. p \<noteq> no_fuel) (\<lambda>(e, s'). unread s' \<le> unread s \<and> (e \<noteq> None \<longrightarrow> unread s' < unread s)) (parse (Suc n) p s)"
      unfolding parse.simps
    proof (rule outcome_and_then [OF pre])
      fix r :: "SqlExpr option \<times> TokenStream"
      assume "case r of (e, s') \<Rightarrow> unread s' \<le> unread s \<and> (e \<noteq> None \<longrightarrow> unread s' < unread s)"
      then obtain e s1 where r: "r = (e, s1)" "unread s1 \<le> unread s" "e \<noteq> None \<Longrightarrow> unread s1 < unread s" by (cases r) auto
      have "leaves (unread s1) (infix_loop (parse n) (Suc n) p x s1)" for x
        by (rule infix_loop_leaves [OF Suc]) (use r(2) le in auto)
      then show "outcome (\<lambda>p. p \<noteq> no_fuel) (\<lambda>(e, s'). unread s' \<le> unread s \<and> (e \<noteq> None \<longrightarrow> unread s' < unread s))
        (case r of (e, s) \<Rightarrow> (case e of None \<Rightarrow> Ok (None, s)
          | Some e \<Rightarrow> map_res (\<lambda>(e, s). (Some e, s)) (infix_loop (parse n) (Suc n) p e s)))"
        using r by (cases e) (auto simp: outcome_map_res case_prod_beta simp del: infix_loop.simps
            intro!: outcome_mono [OF \<open>\<And>x. leaves (unread s1) (infix_loop (parse n) (Suc n) p x s1)\<close>])
    qed
  qed
qed

section \<open>Printing expressions\<close>

type_synonym tok = "string \<times> TokenType"

definition view :: "TokenStream \<Rightarrow> tok list" where
  "view s = List.map (\<lambda>t. (tok_text t, token_type t)) (remaining s)"

lemma view_Cons:
  assumes "view s = (w, ty) # r"
  shows "\<exists>t. peek s = Some t \<and> next_tok s = (Some t, advance s) \<and> tok_text t = w \<and> token_type t = ty \<and> view (advance s) = r"
proof -
  obtain t ts where t: "remaining s = t # ts" "tok_text t = w" "token_type t = ty" "List.map (\<lambda>t. (tok_text t, token_type t)) ts = r"
    using assms by (auto simp: view_def)
  then show ?thesis by (auto simp: view_def peek_remaining next_remaining)
qed

lemma view_Nil: "view s = [] \<Longrightarrow> peek s = None \<and> next_tok s = (None, s)"
  by (simp add: view_def peek_remaining next_remaining)

lemma unread_view: "unread s = length (view s)"
  by (simp add: unread_def view_def)

text \<open>The binary operators the parser knows, with their token and precedence.\<close>

definition operators :: "(string \<times> TokenType \<times> nat) list" where
  "operators = [(''OR'', keyword ''OR'', 20), (''AND'', keyword ''AND'', 30),
     (''<'', TT_Symbol Sym_Lt, 40), (''<='', TT_Symbol Sym_LtEq, 40), (''='', TT_Symbol Sym_Eq, 40),
     (''!='', TT_Symbol Sym_BangEq, 40), (''>='', TT_Symbol Sym_GtEq, 40), (''>'', TT_Symbol Sym_Gt, 40),
     (''+'', TT_Symbol Sym_Plus, 50), (''-'', TT_Symbol Sym_Sub, 50),
     (''*'', TT_Symbol Sym_Star, 60), (''/'', TT_Symbol Sym_Slash, 60)]"

definition op_type :: "string \<Rightarrow> TokenType" where
  "op_type w = fst (the (map_of operators w))"

definition op_prec :: "string \<Rightarrow> nat" where
  "op_prec w = snd (the (map_of operators w))"

definition is_operator :: "string \<Rightarrow> bool" where
  "is_operator w = (map_of operators w \<noteq> None)"

lemma operator_facts:
  "is_operator w \<Longrightarrow> is_infix_operator (op_type w) \<and> token_precedence (op_type w) = op_prec w
     \<and> 20 \<le> op_prec w \<and> op_prec w \<le> 60 \<and> 10 dvd op_prec w"
  by (auto simp: is_operator_def op_type_def op_prec_def operators_def is_infix_operator_def infix_symbols_def
      token_precedence_def split: if_splits)

definition symb :: "Symbol \<Rightarrow> tok" where
  "symb y = (symbol_text y, TT_Symbol y)"

definition kw :: "string \<Rightarrow> tok" where
  "kw k = (k, keyword k)"

text \<open>Whether an expression needs parentheses where operators of precedence @q@ and below end
  it: a binary operator that does not bind tighter, and an alias or a sort key anywhere but
  at the end of a clause.\<close>

fun needs_parens :: "nat \<Rightarrow> SqlExpr \<Rightarrow> bool" where
  "needs_parens q (S_BinaryExpr l w r) = (op_prec w \<le> q)"
| "needs_parens q (S_Alias e a) = (0 < q)"
| "needs_parens q (S_Sort e asc) = (0 < q)"
| "needs_parens q e = False"

definition parens :: "bool \<Rightarrow> tok list \<Rightarrow> tok list" where
  "parens b ts = (if b then symb Sym_LeftParen # ts @ [symb Sym_RightParen] else ts)"

fun separated :: "tok \<Rightarrow> tok list list \<Rightarrow> tok list" where
  "separated c [] = []"
| "separated c [t] = t"
| "separated c (t # u # us) = t @ c # separated c (u # us)"

fun body :: "SqlExpr \<Rightarrow> tok list" where
  "body (S_Identifier n) = [(n, TT_Literal Lit_Identifier)]"
| "body (S_BinaryExpr l w r) = parens (needs_parens (op_prec w - 1) l) (body l)
     @ (w, op_type w) # parens (needs_parens (op_prec w) r) (body r)"
| "body (S_String t) = [(t, TT_Literal Lit_String)]"
| "body (S_Long n) = [(show_signed n, TT_Literal Lit_Long)]"
| "body (S_Double x) = [(show_f64 x, TT_Literal Lit_Double)]"
| "body (S_Date d) = [kw ''DATE'', (d, TT_Literal Lit_String)]"
| "body (S_Interval d) = [kw ''INTERVAL'', (d, TT_Literal Lit_String)]"
| "body (S_Function f args) = (f, TT_Literal Lit_Identifier) # symb Sym_LeftParen
     # separated (symb Sym_Comma) (List.map body args) @ [symb Sym_RightParen]"
| "body (S_Alias e a) = parens (needs_parens 9 e) (body e) @ [kw ''AS'', (a, TT_Literal Lit_Identifier)]"
| "body (S_Cast e a) = kw ''CAST'' # symb Sym_LeftParen # parens (needs_parens 9 e) (body e)
     @ [kw ''AS'', (a, TT_Literal Lit_Identifier), symb Sym_RightParen]"
| "body (S_Sort e asc) = parens (needs_parens 9 e) (body e) @ [kw (if asc then ''ASC'' else ''DESC'')]"
| "body (S_Select q) = []"

definition expr_tokens :: "nat \<Rightarrow> SqlExpr \<Rightarrow> tok list" where
  "expr_tokens q e = parens (needs_parens q e) (body e)"

text \<open>The expressions the printer covers: operators the parser knows, non-negative integer
  literals (there is no unary minus), no floating-point literal and no nested SELECT.\<close>

fun printable :: "SqlExpr \<Rightarrow> bool" where
  "printable (S_Identifier n) = True"
| "printable (S_BinaryExpr l w r) = (is_operator w \<and> printable l \<and> printable r)"
| "printable (S_String t) = True"
| "printable (S_Long n) = (0 \<le> sint n)"
| "printable (S_Double x) = False"
| "printable (S_Date d) = True"
| "printable (S_Interval d) = True"
| "printable (S_Function f args) = list_all printable args"
| "printable (S_Alias e a) = printable e"
| "printable (S_Cast e a) = printable e"
| "printable (S_Sort e asc) = printable e"
| "printable (S_Select q) = False"

section \<open>Parsing inverts printing\<close>

definition np :: "tok list \<Rightarrow> nat" where
  "np ts = (case ts of [] \<Rightarrow> 0 | t # _ \<Rightarrow> token_precedence (snd t))"

lemma next_precedence_view: "next_precedence s = np (view s)"
proof (cases "view s")
  case Nil
  then show ?thesis using view_Nil [of s] by (simp add: next_precedence_def np_def)
next
  case (Cons t r)
  then show ?thesis using view_Cons [of s "fst t" "snd t" r] by (auto simp: next_precedence_def np_def)
qed

text \<open>One call of @parse@ after its fuel check.\<close>

definition run :: "nat \<Rightarrow> nat \<Rightarrow> nat \<Rightarrow> TokenStream \<Rightarrow> (SqlExpr option \<times> TokenStream) res" where
  "run n f q s = and_then (parse_prefix (parse n) n s) (\<lambda>(e, s). case e of
      None \<Rightarrow> Ok (None, s)
    | Some e \<Rightarrow> map_res (\<lambda>(e, s). (Some e, s)) (infix_loop (parse n) f q e s))"

lemma parse_run: "parse (Suc n) q s = run n (Suc n) q s"
  by (simp add: run_def)

definition parses :: "nat \<Rightarrow> SqlExpr \<Rightarrow> tok list \<Rightarrow> bool" where
  "parses q e ts = (\<forall>n s rest. view s = ts @ rest \<longrightarrow> np rest \<le> q \<longrightarrow> length (view s) < n \<longrightarrow>
     (\<exists>s'. parse n q s = Ok (Some e, s') \<and> view s' = rest))"

text \<open>The prefix and the first rounds of the loop read @ts@ into @e@, for the loop at
  precedence @q@, when the next operator does not bind tighter than @b@.\<close>

definition spine :: "nat \<Rightarrow> nat \<Rightarrow> SqlExpr \<Rightarrow> tok list \<Rightarrow> bool" where
  "spine q b e ts = (\<forall>n f s rest. view s = ts @ rest \<longrightarrow> np rest \<le> b \<longrightarrow> length (view s) \<le> n \<longrightarrow> length (view s) \<le> f \<longrightarrow>
     (\<exists>s' g. run n f q s = map_res (\<lambda>(e, s). (Some e, s)) (infix_loop (parse n) g q e s') \<and> view s' = rest \<and> length rest < g))"

lemma parsesD:
  "parses q e ts \<Longrightarrow> view s = ts @ rest \<Longrightarrow> np rest \<le> q \<Longrightarrow> length (view s) < n \<Longrightarrow>
     \<exists>s'. parse n q s = Ok (Some e, s') \<and> view s' = rest"
  by (auto simp: parses_def)

lemma spineD:
  "spine q b e ts \<Longrightarrow> view s = ts @ rest \<Longrightarrow> np rest \<le> b \<Longrightarrow> length (view s) \<le> n \<Longrightarrow> length (view s) \<le> f \<Longrightarrow>
     \<exists>s' g. run n f q s = map_res (\<lambda>(e, s). (Some e, s)) (infix_loop (parse n) g q e s') \<and> view s' = rest \<and> length rest < g"
  by (auto simp: spine_def)

lemma spine_mono: "spine q b e ts \<Longrightarrow> c \<le> b \<Longrightarrow> spine q c e ts"
  by (auto simp: spine_def)

lemma spine_parses:
  assumes "spine q b e ts" "q \<le> b"
  shows "parses q e ts"
  unfolding parses_def
proof (intro allI impI)
  fix n s rest assume a: "view s = ts @ rest" "np rest \<le> q" "length (view s) < n"
  then obtain m where m: "n = Suc m" by (cases n) auto
  obtain s' g where g: "run m (Suc m) q s = map_res (\<lambda>(e, s). (Some e, s)) (infix_loop (parse m) g q e s')"
    "view s' = rest" "length rest < g" using spineD [OF assms(1) a(1), of m "Suc m"] a assms(2) m by auto
  then obtain h where "g = Suc h" by (cases g) auto
  then have "infix_loop (parse m) g q e s' = Ok (e, s')" using a(2) g(2) by (simp add: next_precedence_view)
  then show "\<exists>s'. parse n q s = Ok (Some e, s') \<and> view s' = rest"
    using g m by (simp add: parse_run del: parse.simps)
qed

text \<open>A prefix that reads an expression directly.\<close>

lemma spine_prefix:
  assumes "\<And>n s rest. view s = ts @ rest \<Longrightarrow> length (view s) \<le> n \<Longrightarrow>
     \<exists>s'. parse_prefix (parse n) n s = Ok (Some e, s') \<and> view s' = rest" and "ts \<noteq> []"
  shows "spine q b e ts"
  unfolding spine_def
proof (intro allI impI)
  fix n f s rest assume a: "view s = ts @ rest" "length (view s) \<le> n" "length (view s) \<le> f"
  obtain s' where "parse_prefix (parse n) n s = Ok (Some e, s')" "view s' = rest" using assms(1) [OF a(1,2)] by blast
  moreover have "length rest < f" using a assms(2) by (cases ts) auto
  ultimately show "\<exists>s' g. run n f q s = map_res (\<lambda>(e, s). (Some e, s)) (infix_loop (parse n) g q e s') \<and> view s' = rest \<and> length rest < g"
    by (intro exI [of _ s'] exI [of _ f]) (simp add: run_def)
qed

lemma expect_token_view:
  "view s = (w, ty) # r \<Longrightarrow> expect_token ty msg s = Ok (advance s) \<and> view (advance s) = r"
  using view_Cons [of s w ty r] by (auto simp: expect_token_def consume_token_type_def)

lemma expect_token_symb:
  "view s = symb y # r \<Longrightarrow> expect_token (TT_Symbol y) msg s = Ok (advance s) \<and> view (advance s) = r"
  unfolding symb_def by (rule expect_token_view)

lemma spine_parens:
  assumes "parses 0 e ts"
  shows "spine q b e (parens True ts)"
proof (rule spine_prefix)
  fix n s rest assume a: "view s = parens True ts @ rest" "length (view s) \<le> n"
  then have v: "view s = symb Sym_LeftParen # (ts @ symb Sym_RightParen # rest)" by (simp add: parens_def)
  then obtain t where t: "next_tok s = (Some t, advance s)" "token_type t = TT_Symbol Sym_LeftParen"
    "view (advance s) = ts @ symb Sym_RightParen # rest" using view_Cons [of s] by (auto simp: symb_def)
  have "np (symb Sym_RightParen # rest) \<le> 0" by (simp add: np_def symb_def token_precedence_def image_iff)
  moreover have "length (view (advance s)) < n" using a(2) v t(3) by simp
  ultimately obtain s1 where s1: "parse n 0 (advance s) = Ok (Some e, s1)" "view s1 = symb Sym_RightParen # rest"
    using parsesD [OF assms t(3)] by blast
  have "expect_token (TT_Symbol Sym_RightParen) ''Expected ) after expression'' s1 = Ok (advance s1)" "view (advance s1) = rest"
    using expect_token_view [of s1] s1(2) by (auto simp: symb_def)
  then show "\<exists>s'. parse_prefix (parse n) n s = Ok (Some e, s') \<and> view s' = rest"
    using t s1 by (simp add: parse_prefix_def parse_paren_def)
qed (simp add: parens_def)

lemma parens_False [simp]: "parens False ts = ts"
  by (simp add: parens_def)

text \<open>The level below which the printed expression must be followed.\<close>

fun level :: "SqlExpr \<Rightarrow> nat" where
  "level (S_BinaryExpr l w r) = op_prec w"
| "level (S_Alias e a) = 9"
| "level (S_Sort e asc) = 9"
| "level e = 69"

lemma needs_parens_0 [simp]: "printable e \<Longrightarrow> \<not> needs_parens 0 e"
  using operator_facts by (cases e) fastforce+

lemma needs_parens_mono: "\<not> needs_parens q e \<Longrightarrow> p \<le> q \<Longrightarrow> \<not> needs_parens p e"
  by (cases e) auto

lemma level_bound: "\<not> needs_parens q e \<Longrightarrow> q \<le> 60 \<Longrightarrow> Suc q \<le> level e"
  by (cases e) auto

definition body_ok :: "SqlExpr \<Rightarrow> bool" where
  "body_ok e = (\<forall>q\<le>60. \<not> needs_parens q e \<longrightarrow> spine q (level e) e (body e))"

lemma body_ok_parses_0: "body_ok e \<Longrightarrow> printable e \<Longrightarrow> parses 0 e (body e)"
  unfolding body_ok_def by (rule spine_parses [of 0 "level e"]) auto

lemma expr_spine:
  assumes "body_ok e" "printable e" "p \<le> q" "q \<le> 60"
  shows "spine p (Suc q) e (expr_tokens q e)"
proof (cases "needs_parens q e")
  case True
  then show ?thesis using spine_parens body_ok_parses_0 [OF assms(1,2)] by (simp add: expr_tokens_def)
next
  case False
  then have "spine p (level e) e (body e)"
    using assms needs_parens_mono unfolding body_ok_def by (meson order_trans)
  then show ?thesis using False level_bound [OF False assms(4)] by (simp add: expr_tokens_def spine_mono)
qed

lemma expr_parses: "body_ok e \<Longrightarrow> printable e \<Longrightarrow> q \<le> 60 \<Longrightarrow> parses q e (expr_tokens q e)"
  by (rule spine_parses [OF expr_spine]) auto

lemma expr_tokens_0: "printable e \<Longrightarrow> expr_tokens 0 e = body e"
  by (simp add: expr_tokens_def)

text \<open>A left operand followed by a token the loop takes: what one infix step makes of it
  decides.\<close>

lemma spine_infix:
  assumes left: "spine q k l ts" and ne: "ts \<noteq> []"
    and op: "token_precedence ty = k" "q < k"
    and step: "\<And>n m s rest. view s = (w, ty) # us @ rest \<Longrightarrow> np rest \<le> b \<Longrightarrow> length (view s) < n \<Longrightarrow> length (view s) \<le> m \<Longrightarrow>
      \<exists>s'. parse_infix (parse n) m l k s = Ok (e, s') \<and> view s' = rest"
  shows "spine q b e (ts @ (w, ty) # us)"
  unfolding spine_def
proof (intro allI impI)
  fix n f s rest assume a: "view s = (ts @ (w, ty) # us) @ rest" "np rest \<le> b" "length (view s) \<le> n" "length (view s) \<le> f"
  have v: "view s = ts @ ((w, ty) # us @ rest)" using a(1) by simp
  have "np ((w, ty) # us @ rest) \<le> k" using op(1) by (simp add: np_def)
  then obtain s1 g where g: "run n f q s = map_res (\<lambda>(e, s). (Some e, s)) (infix_loop (parse n) g q l s1)"
    "view s1 = (w, ty) # us @ rest" "length ((w, ty) # us @ rest) < g"
    using spineD [OF left v _ a(3,4)] by blast
  then obtain m where m: "g = Suc m" "length (view s1) \<le> m" by (cases g) auto
  have "length (view s1) < n" using a(3) v g(2) ne by (cases ts) auto
  then obtain s2 where s2: "parse_infix (parse n) m l k s1 = Ok (e, s2)" "view s2 = rest"
    using step [OF g(2) a(2) _ m(2)] by blast
  have "next_precedence s1 = k" using op(1) g(2) by (simp add: next_precedence_view np_def)
  then have "infix_loop (parse n) g q l s1 = infix_loop (parse n) m q e s2" using m(1) op(2) s2(1) by simp
  then show "\<exists>s' g. run n f q s = map_res (\<lambda>(e, s). (Some e, s)) (infix_loop (parse n) g q e s') \<and> view s' = rest \<and> length rest < g"
    using g s2(2) m by (intro exI [of _ s2] exI [of _ m]) simp
qed

lemma body_ne: "printable e \<Longrightarrow> body e \<noteq> []"
  by (cases e) auto

lemma expr_tokens_ne: "printable e \<Longrightarrow> expr_tokens q e \<noteq> []"
  by (simp add: expr_tokens_def parens_def body_ne)

lemma spine_binary:
  assumes "body_ok l" "body_ok r" "printable l" "printable r" "is_operator w" "q < op_prec w"
  shows "spine q (op_prec w) (S_BinaryExpr l w r) (body (S_BinaryExpr l w r))"
proof -
  let ?k = "op_prec w"
  have k: "is_infix_operator (op_type w)" "token_precedence (op_type w) = ?k" "20 \<le> ?k" "?k \<le> 60"
    using operator_facts [OF assms(5)] by auto
  have "spine q (Suc (?k - 1)) l (expr_tokens (?k - 1) l)" by (rule expr_spine) (use assms k in auto)
  then have left: "spine q ?k l (expr_tokens (?k - 1) l)" using k(3) by simp
  have "spine q ?k (S_BinaryExpr l w r) (expr_tokens (?k - 1) l @ (w, op_type w) # expr_tokens ?k r)"
  proof (rule spine_infix [OF left expr_tokens_ne [OF assms(3)] k(2) assms(6)])
    fix n m s rest
    assume a: "view s = (w, op_type w) # expr_tokens ?k r @ rest" "np rest \<le> ?k" "length (view s) < n" "length (view s) \<le> m"
    obtain t where t: "peek s = Some t" "tok_text t = w" "token_type t = op_type w" "view (advance s) = expr_tokens ?k r @ rest"
      using view_Cons [OF a(1)] by auto
    have "length (view (advance s)) < n" using a(1,3) t(4) by simp
    then obtain s' where "parse n ?k (advance s) = Ok (Some r, s')" "view s' = rest"
      using parsesD [OF expr_parses [OF assms(2,4) k(4)] t(4) a(2)] by blast
    then show "\<exists>s'. parse_infix (parse n) m l ?k s = Ok (S_BinaryExpr l w r, s') \<and> view s' = rest"
      using t k(1) by (simp add: parse_infix_def)
  qed
  then show ?thesis by (simp add: expr_tokens_def)
qed

lemma as_token: "\<not> is_infix_operator (keyword ''AS'')" "token_precedence (keyword ''AS'') = 10"
  by (auto simp: is_infix_operator_def token_precedence_def)

lemma np_zero: "np rest \<le> 9 \<Longrightarrow> np rest = 0"
  by (auto simp: np_def token_precedence_def split: list.splits if_splits)

lemma parse_name:
  assumes "view s = (a, TT_Literal Lit_Identifier) # rest" "np rest = 0" "length (view s) < n"
  shows "\<exists>s'. parse n 0 s = Ok (Some (S_Identifier a), s') \<and> view s' = rest"
proof -
  have "spine 0 69 (S_Identifier a) [(a, TT_Literal Lit_Identifier)]"
  proof (rule spine_prefix)
    fix n s rest assume "view s = [(a, TT_Literal Lit_Identifier)] @ rest"
    then show "\<exists>s'. parse_prefix (parse n) n s = Ok (Some (S_Identifier a), s') \<and> view s' = rest"
      using view_Cons [of s a "TT_Literal Lit_Identifier" rest] by (auto simp: parse_prefix_def prefix_literal_def)
  qed simp
  then show ?thesis using parsesD [OF spine_parses, of 0 69] assms by fastforce
qed

lemma spine_alias:
  assumes "body_ok e" "printable e" "q < 10"
  shows "spine q 9 (S_Alias e a) (body (S_Alias e a))"
proof -
  have left: "spine q 10 e (expr_tokens 9 e)" using expr_spine [OF assms(1,2), of q 9] assms(3) by simp
  have "spine q 9 (S_Alias e a) (expr_tokens 9 e @ (''AS'', keyword ''AS'') # [(a, TT_Literal Lit_Identifier)])"
  proof (rule spine_infix [OF left expr_tokens_ne [OF assms(2)] as_token(2) assms(3)])
    fix n m s rest
    assume v: "view s = (''AS'', keyword ''AS'') # [(a, TT_Literal Lit_Identifier)] @ rest" "np rest \<le> 9" "length (view s) < n"
    obtain t where t: "peek s = Some t" "token_type t = keyword ''AS''" "view (advance s) = (a, TT_Literal Lit_Identifier) # rest"
      using view_Cons [OF v(1)] by auto
    have "length (view (advance s)) < n" using v(1,3) t(3) by simp
    then obtain s' where "parse n 0 (advance s) = Ok (Some (S_Identifier a), s')" "view s' = rest"
      using parse_name [OF t(3) np_zero [OF v(2)]] by blast
    then show "\<exists>s'. parse_infix (parse n) m e 10 s = Ok (S_Alias e a, s') \<and> view s' = rest"
      using t by (simp add: parse_infix_def as_token identifier_of_def)
  qed
  then show ?thesis by (simp add: expr_tokens_def kw_def)
qed

lemma spine_sort:
  assumes "body_ok e" "printable e" "q < 10"
  shows "spine q 9 (S_Sort e asc) (body (S_Sort e asc))"
proof -
  let ?w = "if asc then ''ASC'' else ''DESC''"
  have left: "spine q 10 e (expr_tokens 9 e)" using expr_spine [OF assms(1,2), of q 9] assms(3) by simp
  have ty: "token_precedence (keyword ?w) = 10" "\<not> is_infix_operator (keyword ?w)"
    by (auto simp: token_precedence_def is_infix_operator_def)
  have "spine q 9 (S_Sort e asc) (expr_tokens 9 e @ (?w, keyword ?w) # [])"
  proof (rule spine_infix [OF left expr_tokens_ne [OF assms(2)] ty(1) assms(3)])
    fix n m s rest
    assume v: "view s = (?w, keyword ?w) # [] @ rest" "np rest \<le> 9" "length (view s) < n"
    obtain t where "peek s = Some t" "token_type t = keyword ?w" "view (advance s) = rest"
      using view_Cons [OF v(1)] by auto
    then show "\<exists>s'. parse_infix (parse n) m e 10 s = Ok (S_Sort e asc, s') \<and> view s' = rest"
      using ty(2) by (cases asc) (auto simp: parse_infix_def)
  qed
  then show ?thesis by (simp add: expr_tokens_def kw_def)
qed

text \<open>Leaves, casts and calls.\<close>

lemma parse_i64_nonneg: "0 \<le> sint (n :: 64 word) \<Longrightarrow> parse_i64 (show_signed n) = Some n"
  by (rule parse_i64_show)

lemma spine_leaf:
  assumes "\<And>t s. token_type t = TT_Literal l \<Longrightarrow> tok_text t = w \<Longrightarrow> prefix_literal l t = Ok e"
  shows "spine q b e [(w, TT_Literal l)]"
proof (rule spine_prefix)
  fix n s rest assume "view s = [(w, TT_Literal l)] @ rest"
  then obtain t where "next_tok s = (Some t, advance s)" "tok_text t = w" "token_type t = TT_Literal l" "view (advance s) = rest"
    using view_Cons [of s w "TT_Literal l" rest] by auto
  then show "\<exists>s'. parse_prefix (parse n) n s = Ok (Some e, s') \<and> view s' = rest"
    using assms [of t] by (simp add: parse_prefix_def)
qed simp

lemma spine_string_keyword:
  assumes "\<And>pr n t s. prefix_keyword pr n (KW k) t s = map_res (\<lambda>(d, s). (f d, s)) (parse_string_after msg s)"
  shows "spine q b (f d) [kw k, (d, TT_Literal Lit_String)]"
proof (rule spine_prefix)
  fix n s rest assume "view s = [kw k, (d, TT_Literal Lit_String)] @ rest"
  then have v: "view s = (k, keyword k) # (d, TT_Literal Lit_String) # rest" by (simp add: kw_def)
  then obtain t where t: "next_tok s = (Some t, advance s)" "token_type t = keyword k"
    "view (advance s) = (d, TT_Literal Lit_String) # rest" using view_Cons [OF v] by auto
  then obtain u where "next_tok (advance s) = (Some u, advance (advance s))" "tok_text u = d"
    "token_type u = TT_Literal Lit_String" "view (advance (advance s)) = rest" using view_Cons [OF t(3)] by auto
  then show "\<exists>s'. parse_prefix (parse n) n s = Ok (Some (f d), s') \<and> view s' = rest"
    using t by (simp add: parse_prefix_def assms parse_string_after_def)
qed simp

lemma spine_cast:
  assumes "body_ok e" "printable e"
  shows "spine q b (S_Cast e a) (body (S_Cast e a))"
proof (rule spine_prefix)
  fix n s rest assume a: "view s = body (S_Cast e a) @ rest" "length (view s) \<le> n"
  have p: "parses 0 (S_Alias e a) (body (S_Alias e a))"
    by (rule spine_parses [OF spine_alias [OF assms]]) simp_all
  let ?r = "symb Sym_RightParen # rest"
  have v: "view s = (''CAST'', keyword ''CAST'') # symb Sym_LeftParen # (body (S_Alias e a) @ ?r)"
    using a(1) by (simp add: kw_def)
  obtain t where t: "next_tok s = (Some t, advance s)" "token_type t = keyword ''CAST''"
    "view (advance s) = symb Sym_LeftParen # (body (S_Alias e a) @ ?r)" using view_Cons [OF v] by auto
  let ?s2 = "advance (advance s)"
  have s2: "expect_token (TT_Symbol Sym_LeftParen) ''Expected ( after CAST'' (advance s) = Ok ?s2"
    "view ?s2 = body (S_Alias e a) @ ?r"
    using expect_token_symb [OF t(3)] by auto
  have "np ?r \<le> 0" by (simp add: np_def symb_def token_precedence_def image_iff)
  moreover have "length (view ?s2) < n" using a(2) v s2(2) by simp
  ultimately obtain s3 where s3: "parse n 0 ?s2 = Ok (Some (S_Alias e a), s3)" "view s3 = ?r"
    using parsesD [OF p s2(2)] by blast
  have "expect_token (TT_Symbol Sym_RightParen) ''Expected ) after CAST expression'' s3 = Ok (advance s3)"
    "view (advance s3) = rest" using expect_token_symb [OF s3(2)] by auto
  then show "\<exists>s'. parse_prefix (parse n) n s = Ok (Some (S_Cast e a), s') \<and> view s' = rest"
    using t(1,2) s2(1) s3(1) by (simp add: parse_prefix_def prefix_keyword_def parse_cast_def)
qed simp

definition ends_list :: "tok list \<Rightarrow> bool" where
  "ends_list rest = (np rest = 0 \<and> (\<forall>t r. rest = t # r \<longrightarrow> snd t \<noteq> TT_Symbol Sym_Comma))"

lemma at_symbol_view: "at_symbol y s \<longleftrightarrow> (\<exists>w r. view s = (w, TT_Symbol y) # r)"
proof (cases "view s")
  case Nil
  then show ?thesis using view_Nil [of s] by (simp add: at_symbol_def)
next
  case (Cons t r)
  then show ?thesis using view_Cons [of s "fst t" "snd t" r] by (cases t) (auto simp: at_symbol_def)
qed

lemma parse_list_printed:
  assumes "\<And>e. e \<in> set es \<Longrightarrow> parses 0 e (body e)"
  shows "es \<noteq> [] \<Longrightarrow> view s = separated (symb Sym_Comma) (List.map body es) @ rest \<Longrightarrow> ends_list rest \<Longrightarrow>
     length (view s) < n \<Longrightarrow> length (view s) < k \<Longrightarrow>
     \<exists>s'. parse_expr_list (parse n) k s = Ok (es, s') \<and> view s' = rest"
  using assms
proof (induction es arbitrary: s k)
  case (Cons e es)
  obtain j where k: "k = Suc j" using Cons.prems by (cases k) auto
  have p: "parses 0 e (body e)" using Cons.prems by simp
  show ?case
  proof (cases es)
    case Nil
    then have v: "view s = body e @ rest" using Cons.prems(2) by simp
    have "np rest \<le> 0" using Cons.prems(3) by (simp add: ends_list_def)
    then obtain s' where s': "parse n 0 s = Ok (Some e, s')" "view s' = rest"
      using parsesD [OF p v] Cons.prems(4) by blast
    have "\<not> at_symbol Sym_Comma s'" using Cons.prems(3) s'(2) by (auto simp: at_symbol_view ends_list_def)
    then show ?thesis using s' Nil k by simp
  next
    case (Cons e2 es2)
    let ?r = "separated (symb Sym_Comma) (List.map body es) @ rest"
    have v: "view s = body e @ symb Sym_Comma # ?r" using Cons.prems(2) Cons by simp
    have "np (symb Sym_Comma # ?r) \<le> 0" by (simp add: np_def symb_def token_precedence_def image_iff)
    then obtain s' where s': "parse n 0 s = Ok (Some e, s')" "view s' = symb Sym_Comma # ?r"
      using parsesD [OF p v] Cons.prems(4) by blast
    have c: "at_symbol Sym_Comma s'" "view (advance s') = ?r"
      using s'(2) view_Cons [of s'] by (auto simp: at_symbol_view symb_def)
    have "length (view (advance s')) < n" "length (view (advance s')) < j"
      using Cons.prems(4,5) k v c(2) by auto
    then obtain s'' where "parse_expr_list (parse n) j (advance s') = Ok (es, s'')" "view s'' = rest"
      using Cons.IH [OF _ c(2) Cons.prems(3)] Cons Cons.prems(6) by auto
    then show ?thesis using s'(1) c(1) k by simp
  qed
qed simp

lemma body_head: "printable e \<Longrightarrow> \<exists>t r. body e = t # r \<and> snd t \<noteq> TT_Symbol Sym_RightParen"
proof (induction e rule: printable.induct)
  case (2 l w r)
  then show ?case by (cases "needs_parens (op_prec w - 1) l") (auto simp: parens_def symb_def)
next
  case (9 e a)
  then show ?case by (cases "needs_parens 9 e") (auto simp: parens_def symb_def)
next
  case (11 e asc)
  then show ?case by (cases "needs_parens 9 e") (auto simp: parens_def symb_def)
qed (auto simp: kw_def)

lemma separated_head:
  "es \<noteq> [] \<Longrightarrow> list_all printable es \<Longrightarrow>
     \<exists>t r. separated c (List.map body es) = t # r \<and> snd t \<noteq> TT_Symbol Sym_RightParen"
proof -
  assume a: "es \<noteq> []" "list_all printable es"
  then obtain e es' where e: "es = e # es'" "printable e" by (cases es) auto
  then show ?thesis using body_head [OF e(2)] by (cases es') auto
qed

lemma ends_list_close: "ends_list (symb Sym_RightParen # rest)"
  by (auto simp: ends_list_def np_def symb_def token_precedence_def image_iff)

lemma spine_function:
  assumes "\<And>e. e \<in> set args \<Longrightarrow> parses 0 e (body e)" "list_all printable args" "q \<le> 60"
  shows "spine q 69 (S_Function f args) (body (S_Function f args))"
proof -
  have left: "spine q 70 (S_Identifier f) [(f, TT_Literal Lit_Identifier)]"
    by (rule spine_leaf) (simp add: prefix_literal_def)
  let ?as = "separated (symb Sym_Comma) (List.map body args)"
  have ty: "token_precedence (TT_Symbol Sym_LeftParen) = 70" "\<not> is_infix_operator (TT_Symbol Sym_LeftParen)"
    by (auto simp: token_precedence_def is_infix_operator_def infix_symbols_def)
  have "spine q 69 (S_Function f args) ([(f, TT_Literal Lit_Identifier)]
      @ (symbol_text Sym_LeftParen, TT_Symbol Sym_LeftParen) # (?as @ [symb Sym_RightParen]))"
  proof (rule spine_infix [OF left _ ty(1)])
    fix n m s rest
    assume v: "view s = (symbol_text Sym_LeftParen, TT_Symbol Sym_LeftParen) # (?as @ [symb Sym_RightParen]) @ rest"
      "length (view s) < n" "length (view s) \<le> m"
    let ?r = "symb Sym_RightParen # rest"
    obtain t where t: "peek s = Some t" "token_type t = TT_Symbol Sym_LeftParen" "view (advance s) = ?as @ ?r"
      using view_Cons [OF v(1)] by auto
    have len: "length (view (advance s)) < n" "length (view (advance s)) < m" using v t(3) by auto
    have "\<exists>s1. (if at_symbol Sym_RightParen (advance s) then Ok ([], advance s) else parse_expr_list (parse n) m (advance s))
        = Ok (args, s1) \<and> view s1 = ?r"
    proof (cases "args = []")
      case True
      then have "at_symbol Sym_RightParen (advance s)" using t(3) by (auto simp: at_symbol_view symb_def)
      then show ?thesis using True t(3) by simp
    next
      case False
      then obtain u r where "?as = u # r" "snd u \<noteq> TT_Symbol Sym_RightParen" using separated_head [OF False assms(2)] by blast
      then have "\<not> at_symbol Sym_RightParen (advance s)" using t(3) by (auto simp: at_symbol_view)
      then show ?thesis
        using parse_list_printed [OF assms(1) False t(3) ends_list_close len] by simp
    qed
    then obtain s1 where s1: "(if at_symbol Sym_RightParen (advance s) then Ok ([], advance s)
        else parse_expr_list (parse n) m (advance s)) = Ok (args, s1)" "view s1 = ?r" by blast
    then have "parse_call (parse n) m f (advance s) = Ok (S_Function f args, advance s1)" "view (advance s1) = rest"
      using expect_token_symb [OF s1(2)] by (simp_all add: parse_call_def)
    then show "\<exists>s'. parse_infix (parse n) m (S_Identifier f) 70 s = Ok (S_Function f args, s') \<and> view s' = rest"
      using t ty(2) by (auto simp: parse_infix_def)
  qed (use assms(3) in auto)
  then show ?thesis by (simp add: symb_def)
qed

lemma printed_body_ok: "printable e \<Longrightarrow> body_ok e"
proof (induction e rule: printable.induct)
  case (1 n)
  show ?case by (auto simp: body_ok_def prefix_literal_def intro!: spine_leaf)
next
  case (2 l w r)
  then show ?case using spine_binary unfolding body_ok_def [of "S_BinaryExpr l w r"] by auto
next
  case (3 t)
  show ?case by (auto simp: body_ok_def prefix_literal_def intro!: spine_leaf)
next
  case (4 n)
  then show ?case by (auto simp: body_ok_def prefix_literal_def parse_i64_nonneg intro!: spine_leaf)
next
  case (6 d)
  show ?case unfolding body_ok_def by (auto intro!: spine_string_keyword simp: prefix_keyword_def)
next
  case (7 d)
  show ?case unfolding body_ok_def by (auto intro!: spine_string_keyword simp: prefix_keyword_def)
next
  case (8 f args)
  then have a: "parses 0 e (body e)" if "e \<in> set args" for e
    using that body_ok_parses_0 by (simp add: list_all_iff)
  show ?case unfolding body_ok_def using spine_function [OF a] 8 by simp
next
  case (9 e a)
  then show ?case using spine_alias unfolding body_ok_def [of "S_Alias e a"] by auto
next
  case (10 e a)
  then show ?case using spine_cast unfolding body_ok_def [of "S_Cast e a"] by auto
next
  case (11 e asc)
  then show ?case using spine_sort unfolding body_ok_def [of "S_Sort e asc"] by auto
qed auto

end
