(* ===== verification/Select_Props.thy ===== *)
theory Select_Props
  imports Parser_Props
begin

text \<open>
  Parsing inverts printing for whole SELECT statements, and from SQL text to syntax tree:
  tokenizer and parser composed.
\<close>

section \<open>Printing statements\<close>

definition list_tokens :: "SqlExpr list \<Rightarrow> tok list" where
  "list_tokens es = separated (symb Sym_Comma) (List.map body es)"

definition limit_tokens :: "32 word option \<Rightarrow> tok list" where
  "limit_tokens l = (case l of None \<Rightarrow> [] | Some v \<Rightarrow> [kw ''LIMIT'', (show_signed v, TT_Literal Lit_Long)])"

definition order_tokens :: "SqlExpr list \<Rightarrow> tok list \<Rightarrow> tok list" where
  "order_tokens os rest = (if os = [] then rest else kw ''ORDER'' # kw ''BY'' # list_tokens os @ rest)"

definition having_tokens :: "SqlExpr option \<Rightarrow> tok list \<Rightarrow> tok list" where
  "having_tokens h rest = (case h of None \<Rightarrow> rest | Some e \<Rightarrow> kw ''HAVING'' # body e @ rest)"

definition group_tokens :: "SqlExpr list \<Rightarrow> tok list \<Rightarrow> tok list" where
  "group_tokens gs rest = (if gs = [] then rest else kw ''GROUP'' # kw ''BY'' # list_tokens gs @ rest)"

definition where_tokens :: "SqlExpr option \<Rightarrow> tok list \<Rightarrow> tok list" where
  "where_tokens w rest = (case w of None \<Rightarrow> rest | Some e \<Rightarrow> kw ''WHERE'' # body e @ rest)"

definition select_tokens :: "SqlSelect \<Rightarrow> tok list" where
  "select_tokens q = kw ''SELECT'' # list_tokens (sel_projection q)
     @ kw ''FROM'' # (sel_table_name q, TT_Literal Lit_Identifier)
     # where_tokens (sel_selection q) (group_tokens (sel_group_by q) (having_tokens (sel_having q)
         (order_tokens (sel_order_by q) (limit_tokens (sel_limit q)))))"

definition is_sort :: "SqlExpr \<Rightarrow> bool" where
  "is_sort e = (case e of S_Sort x asc \<Rightarrow> True | _ \<Rightarrow> False)"

definition printable_select :: "SqlSelect \<Rightarrow> bool" where
  "printable_select q = (sel_projection q \<noteq> [] \<and> list_all printable (sel_projection q)
     \<and> pred_option printable (sel_selection q) \<and> list_all printable (sel_group_by q)
     \<and> pred_option printable (sel_having q)
     \<and> list_all (\<lambda>e. printable e \<and> is_sort e) (sel_order_by q)
     \<and> pred_option (\<lambda>v. 0 \<le> sint v) (sel_limit q))"

section \<open>Clauses\<close>

text \<open>What follows a clause: the end of the statement or one of the keywords @ks@.\<close>

definition starts :: "string list \<Rightarrow> tok list \<Rightarrow> bool" where
  "starts ks ts = (ts = [] \<or> (\<exists>k r. ts = kw k # r \<and> k \<in> set ks))"

lemma starts_ends_list:
  "starts ks ts \<Longrightarrow> set ks \<subseteq> {''FROM'', ''WHERE'', ''GROUP'', ''HAVING'', ''ORDER'', ''LIMIT''} \<Longrightarrow> ends_list ts"
  by (auto simp: starts_def ends_list_def np_def kw_def token_precedence_def)

lemma consume_keyword_same:
  "view s = kw k # r \<Longrightarrow> consume_keyword k s = (True, advance s) \<and> view (advance s) = r"
  using view_Cons [of s k "keyword k" r]
  by (auto simp: kw_def consume_keyword_def is_keyword_type_def eq_ignore_ascii_case_def)

lemma consume_keyword_other:
  assumes "starts ks (view s)" "list_all (\<lambda>k. \<not> eq_ignore_ascii_case k w) ks"
  shows "consume_keyword w s = (False, s)"
proof (cases "view s")
  case Nil
  then show ?thesis using view_Nil [of s] by (simp add: consume_keyword_def)
next
  case (Cons t r)
  then obtain k where k: "view s = (k, keyword k) # r" "k \<in> set ks" using assms(1) by (auto simp: starts_def kw_def)
  then show ?thesis using view_Cons [OF k(1)] assms(2)
    by (auto simp: consume_keyword_def list_all_iff)
qed

lemma consume_keywords_other:
  "consume_keyword w s = (False, s) \<Longrightarrow> consume_keywords (w # ws) s = (False, s)"
  by (simp add: consume_keywords_def)

lemma consume_two_keywords:
  "view s = kw a # kw b # r \<Longrightarrow> consume_keywords [a, b] s = (True, advance (advance s)) \<and> view (advance (advance s)) = r"
  using consume_keyword_same [of s a "kw b # r"] consume_keyword_same [of "advance s" b r]
  by (auto simp: consume_keywords_def)

lemma starts_tails:
  "starts [''LIMIT''] (limit_tokens l)"
  "starts [''LIMIT''] rest \<Longrightarrow> starts [''ORDER'', ''LIMIT''] (order_tokens os rest)"
  "starts [''ORDER'', ''LIMIT''] rest \<Longrightarrow> starts [''HAVING'', ''ORDER'', ''LIMIT''] (having_tokens h rest)"
  "starts [''HAVING'', ''ORDER'', ''LIMIT''] rest \<Longrightarrow> starts [''GROUP'', ''HAVING'', ''ORDER'', ''LIMIT''] (group_tokens gs rest)"
  "starts [''GROUP'', ''HAVING'', ''ORDER'', ''LIMIT''] rest \<Longrightarrow>
     starts [''WHERE'', ''GROUP'', ''HAVING'', ''ORDER'', ''LIMIT''] (where_tokens w rest)"
  by (auto simp: starts_def limit_tokens_def order_tokens_def having_tokens_def group_tokens_def where_tokens_def
      split: option.split)

lemma ends_np: "ends_list rest \<Longrightarrow> np rest \<le> q"
  by (simp add: ends_list_def)

lemma printed_parses: "printable e \<Longrightarrow> parses 0 e (body e)"
  using body_ok_parses_0 printed_body_ok by blast

lemma expr_clause:
  assumes "pred_option printable t" "view s = (case t of None \<Rightarrow> rest | Some e \<Rightarrow> kw k # body e @ rest)"
    "consume_keyword k s = (False, s) \<or> t \<noteq> None" "ends_list rest" "length (view s) < n"
  shows "\<exists>s'. clause (consume_keyword k s) None (parse n 0) = Ok (t, s') \<and> view s' = rest"
proof (cases t)
  case None
  then show ?thesis using assms by (simp add: clause_def)
next
  case (Some e)
  then have v: "view s = kw k # (body e @ rest)" using assms(2) by simp
  note c = consume_keyword_same [OF v]
  have "printable e" using assms(1) Some by simp
  moreover have "length (view (advance s)) < n" using assms(5) v c by simp
  ultimately obtain s' where "parse n 0 (advance s) = Ok (Some e, s')" "view s' = rest"
    using parsesD [OF printed_parses conjunct2 [OF c] ends_np [OF assms(4)]] by blast
  then show ?thesis using Some c by (simp add: clause_def)
qed

lemma group_clause:
  assumes "list_all printable gs" "view s = group_tokens gs rest" "starts [''HAVING'', ''ORDER'', ''LIMIT''] rest"
    "length (view s) < n" "length (view s) < k"
  shows "\<exists>s'. clause (consume_keywords [''GROUP'', ''BY''] s) [] (parse_expr_list (parse n) k) = Ok (gs, s') \<and> view s' = rest"
proof (cases "gs = []")
  case True
  then have "consume_keyword ''GROUP'' s = (False, s)"
    using assms(2,3) by (intro consume_keyword_other [of "[''HAVING'', ''ORDER'', ''LIMIT'']"])
      (auto simp: group_tokens_def eq_ignore_ascii_case_def ascii_lower_char_def)
  then show ?thesis using True assms(2) by (simp add: clause_def consume_keywords_other group_tokens_def)
next
  case False
  then have v: "view s = kw ''GROUP'' # kw ''BY'' # (separated (symb Sym_Comma) (List.map body gs) @ rest)"
    using assms(2) by (simp add: group_tokens_def list_tokens_def)
  note c = consume_two_keywords [OF v]
  have p: "parses 0 e (body e)" if "e \<in> set gs" for e using that assms(1) printed_parses by (simp add: list_all_iff)
  have "ends_list rest" by (rule starts_ends_list [OF assms(3)]) simp
  moreover have "length (view (advance (advance s))) < n" "length (view (advance (advance s))) < k"
    using assms(4,5) v c by auto
  ultimately show ?thesis using parse_list_printed [OF p False conjunct2 [OF c]] c by (simp add: clause_def)
qed

text \<open>@parse_order@ reads a printed list of sort keys.\<close>

lemma parse_order_list:
  "parse_expr_list pr n s = Ok (es, s') \<Longrightarrow> list_all is_sort es \<Longrightarrow> parse_order pr n s = Ok (es, s')"
proof (induction n arbitrary: s es)
  case (Suc n)
  obtain e s1 where e: "pr 0 s = Ok (e, s1)"
    using Suc.prems(1) by (auto simp: and_then_eq_Ok)
  show ?case
  proof (cases e)
    case (Some x)
    have sk: "sort_key x = Ok x" if "is_sort x" using that by (cases x) (auto simp: is_sort_def sort_key_def)
    show ?thesis
    proof (cases "at_symbol Sym_Comma s1")
      case True
      then obtain es' s2 where "parse_expr_list pr n (advance s1) = Ok (es', s2)" "es = x # es'" "s' = s2"
        using Suc.prems(1) e Some by (auto simp: map_res_eq_Ok)
      then show ?thesis using Suc.IH [of "advance s1" es'] Suc.prems(2) e Some True sk by simp
    qed (use Suc.prems e Some sk in auto)
  qed (use Suc.prems e in simp)
qed simp

lemma order_clause:
  assumes "list_all (\<lambda>e. printable e \<and> is_sort e) os" "view s = order_tokens os rest" "starts [''LIMIT''] rest"
    "length (view s) < n" "length (view s) < k"
  shows "\<exists>s'. clause (consume_keywords [''ORDER'', ''BY''] s) [] (parse_order (parse n) k) = Ok (os, s') \<and> view s' = rest"
proof (cases "os = []")
  case True
  then have "consume_keyword ''ORDER'' s = (False, s)"
    using assms(2,3) by (intro consume_keyword_other [of "[''LIMIT'']"])
      (auto simp: order_tokens_def eq_ignore_ascii_case_def ascii_lower_char_def)
  then show ?thesis using True assms(2) by (simp add: clause_def consume_keywords_other order_tokens_def)
next
  case False
  then have v: "view s = kw ''ORDER'' # kw ''BY'' # (separated (symb Sym_Comma) (List.map body os) @ rest)"
    using assms(2) by (simp add: order_tokens_def list_tokens_def)
  note c = consume_two_keywords [OF v]
  have p: "parses 0 e (body e)" if "e \<in> set os" for e using that assms(1) printed_parses by (simp add: list_all_iff)
  have "ends_list rest" by (rule starts_ends_list [OF assms(3)]) simp
  moreover have "length (view (advance (advance s))) < n" "length (view (advance (advance s))) < k"
    using assms(4,5) v c by auto
  ultimately obtain s' where s': "parse_expr_list (parse n) k (advance (advance s)) = Ok (os, s')" "view s' = rest"
    using parse_list_printed [OF p False conjunct2 [OF c]] by blast
  have "list_all is_sort os" using assms(1) by (simp add: list_all_iff)
  then show ?thesis using c s'(2) parse_order_list [OF s'(1)] by (simp add: clause_def)
qed

lemma limit_text:
  shows "parse_i64 (show_signed (v :: 32 word)) = Some (scast v :: 64 word)"
    and "(ucast (scast v :: 64 word) :: 32 word) = v"
proof -
  have "sint (scast v :: 64 word) = sint v" by (rule sint_up_scast) (simp add: is_up)
  then have "show_signed v = show_signed (scast v :: 64 word)" by (simp only: show_signed_def)
  then show "parse_i64 (show_signed v) = Some (scast v :: 64 word)" using parse_i64_show by simp
  show "(ucast (scast v :: 64 word) :: 32 word) = v"
    by (rule bit_word_eqI) (auto simp: bit_simps)
qed

lemma limit_clause:
  assumes "view s = limit_tokens l" "length (view s) < n"
  shows "\<exists>s'. clause (consume_keyword ''LIMIT'' s) None (parse_limit (parse n)) = Ok (l, s') \<and> view s' = []"
proof (cases l)
  case None
  then have "consume_keyword ''LIMIT'' s = (False, s)"
    using assms(1) by (intro consume_keyword_other [of "[]"]) (auto simp: starts_def limit_tokens_def)
  then show ?thesis using None assms(1) by (simp add: clause_def limit_tokens_def)
next
  case (Some v)
  then have w: "view s = kw ''LIMIT'' # ([(show_signed v, TT_Literal Lit_Long)] @ [])"
    using assms(1) by (auto simp: limit_tokens_def)
  note c = consume_keyword_same [OF w]
  have "spine 0 0 (S_Long (scast v)) [(show_signed v, TT_Literal Lit_Long)]"
    by (rule spine_leaf) (simp add: prefix_literal_def limit_text(1))
  then have p: "parses 0 (S_Long (scast v)) [(show_signed v, TT_Literal Lit_Long)]" by (rule spine_parses) simp
  have len: "length (view (advance s)) < n" using assms(2) w c by simp
  obtain s' where "parse n 0 (advance s) = Ok (Some (S_Long (scast v)), s')" "view s' = []"
    using parsesD [OF p conjunct2 [OF c] _ len] by (auto simp: np_def)
  then show ?thesis using Some c limit_text(2) by (simp add: clause_def parse_limit_def limit_of_def)
qed

section \<open>Statements\<close>

lemma list_clause:
  assumes "list_all printable es" "es \<noteq> []" "view s = list_tokens es @ rest" "ends_list rest"
    "length (view s) < n" "length (view s) < k"
  shows "\<exists>s'. parse_expr_list (parse n) k s = Ok (es, s') \<and> view s' = rest"
proof -
  have p: "parses 0 e (body e)" if "e \<in> set es" for e using that assms(1) printed_parses by (simp add: list_all_iff)
  show ?thesis
    using parse_list_printed [OF p assms(2) assms(3) [unfolded list_tokens_def] assms(4-6)] by simp
qed

lemma parse_select_printed:
  assumes q: "printable_select q" and v: "kw ''SELECT'' # view s = select_tokens q"
    and n: "length (view s) < n" and k: "length (view s) < k"
  shows "\<exists>s'. parse_select (parse n) k s = Ok (q, s') \<and> view s' = []"
proof -
  obtain pj w gs os h l tn where qe: "q = SqlSelect pj w gs os h l tn" by (cases q)
  note pq = q [unfolded printable_select_def qe, simplified]
  define t5 where "t5 = limit_tokens l"
  define t4 where "t4 = order_tokens os t5"
  define t3 where "t3 = having_tokens h t4"
  define t2 where "t2 = group_tokens gs t3"
  define t1 where "t1 = where_tokens w t2"
  have st5: "starts [''LIMIT''] t5" unfolding t5_def by (rule starts_tails)
  have st4: "starts [''ORDER'', ''LIMIT''] t4" unfolding t4_def by (rule starts_tails(2) [OF st5])
  have st3: "starts [''HAVING'', ''ORDER'', ''LIMIT''] t3" unfolding t3_def by (rule starts_tails(3) [OF st4])
  have st2: "starts [''GROUP'', ''HAVING'', ''ORDER'', ''LIMIT''] t2" unfolding t2_def by (rule starts_tails(4) [OF st3])
  have st1: "starts [''WHERE'', ''GROUP'', ''HAVING'', ''ORDER'', ''LIMIT''] t1" unfolding t1_def by (rule starts_tails(5) [OF st2])
  note ends = starts_ends_list [OF st1] starts_ends_list [OF st2] starts_ends_list [OF st4] starts_ends_list [OF st5]
  have v0: "view s = list_tokens pj @ (kw ''FROM'' # (body (S_Identifier tn) @ t1))"
    using v by (simp add: qe select_tokens_def t1_def t2_def t3_def t4_def t5_def)
  have "ends_list (kw ''FROM'' # body (S_Identifier tn) @ t1)"
    by (rule starts_ends_list [of "[''FROM'']"]) (auto simp: starts_def)
  then obtain s1 where s1: "parse_expr_list (parse n) k s = Ok (pj, s1)" "view s1 = kw ''FROM'' # (body (S_Identifier tn) @ t1)"
    using list_clause [OF _ _ v0 _ n k] pq by auto
  note c1 = consume_keyword_same [OF s1(2)]
  have "length (view (advance s1)) < n" using n v0 c1 by simp
  then obtain s2 where s2: "parse n 0 (advance s1) = Ok (Some (S_Identifier tn), s2)" "view s2 = t1"
    using parsesD [OF printed_parses conjunct2 [OF c1] ends_np [OF ends(1)], of n] by auto
  have n1: "length t1 < n" "length t1 < k" using n k v0 by auto
  have "consume_keyword ''WHERE'' s2 = (False, s2) \<or> w \<noteq> None"
    using st2 s2(2) by (cases w) (auto simp: t1_def where_tokens_def eq_ignore_ascii_case_def ascii_lower_char_def
      intro!: consume_keyword_other)
  moreover have "view s2 = (case w of None \<Rightarrow> t2 | Some e \<Rightarrow> kw ''WHERE'' # body e @ t2)"
    using s2(2) by (simp add: t1_def where_tokens_def)
  ultimately obtain s3 where s3: "clause (consume_keyword ''WHERE'' s2) None (parse n 0) = Ok (w, s3)" "view s3 = t2"
    using expr_clause [of w s2 t2 "''WHERE''" n] ends(2) pq s2(2) n1 by auto
  have n2: "length t2 \<le> length t1" by (simp add: t1_def where_tokens_def split: option.split)
  obtain s4 where s4: "clause (consume_keywords [''GROUP'', ''BY''] s3) [] (parse_expr_list (parse n) k) = Ok (gs, s4)" "view s4 = t3"
    using group_clause [of gs s3 t3 n k] pq s3(2) st3 n1 n2 by (auto simp: t2_def)
  have n3: "length t3 \<le> length t2" by (simp add: t2_def group_tokens_def)
  have "consume_keyword ''HAVING'' s4 = (False, s4) \<or> h \<noteq> None"
    using st4 s4(2) by (cases h) (auto simp: t3_def having_tokens_def eq_ignore_ascii_case_def ascii_lower_char_def
      intro!: consume_keyword_other)
  moreover have "view s4 = (case h of None \<Rightarrow> t4 | Some e \<Rightarrow> kw ''HAVING'' # body e @ t4)"
    using s4(2) by (simp add: t3_def having_tokens_def)
  ultimately obtain s5 where s5: "clause (consume_keyword ''HAVING'' s4) None (parse n 0) = Ok (h, s5)" "view s5 = t4"
    using expr_clause [of h s4 t4 "''HAVING''" n] ends(3) pq s4(2) n1 n2 n3 by auto
  have n4: "length t4 \<le> length t3" by (simp add: t3_def having_tokens_def split: option.split)
  obtain s6 where s6: "clause (consume_keywords [''ORDER'', ''BY''] s5) [] (parse_order (parse n) k) = Ok (os, s6)" "view s6 = t5"
    using order_clause [of os s5 t5 n k] pq s5(2) st5 n1 n2 n3 n4 by (auto simp: t4_def)
  have n5: "length t5 \<le> length t4" by (simp add: t4_def order_tokens_def)
  obtain s7 where s7: "clause (consume_keyword ''LIMIT'' s6) None (parse_limit (parse n)) = Ok (l, s7)" "view s7 = []"
    using limit_clause [of s6 l n] s6(2) n1 n2 n3 n4 n5 by (auto simp: t5_def)
  show ?thesis
    using s1(1) c1 s2(1) s3 s4 s5 s6 s7 by (simp add: parse_select_def identifier_of_def qe)
qed

theorem parse_statement:
  assumes "printable_select q" "view s = select_tokens q" "length (view s) < n"
  shows "\<exists>s'. parse n 0 s = Ok (Some (S_Select q), s') \<and> view s' = []"
proof -
  obtain m where n: "n = Suc m" using assms(3) by (cases n) auto
  have "\<exists>r. select_tokens q = kw ''SELECT'' # r" by (simp add: select_tokens_def)
  then obtain r where v: "view s = (''SELECT'', keyword ''SELECT'') # r" using assms(2) by (auto simp: kw_def)
  obtain t where t: "next_tok s = (Some t, advance s)" "token_type t = keyword ''SELECT''" "view (advance s) = r"
    using view_Cons [OF v] by auto
  have "length (view (advance s)) < m" using assms(3) v t(3) n by simp
  moreover have "kw ''SELECT'' # view (advance s) = select_tokens q" using assms(2) v t(3) by (simp add: kw_def)
  ultimately obtain s' where s': "parse_select (parse m) m (advance s) = Ok (q, s')" "view s' = []"
    using parse_select_printed [OF assms(1), of "advance s" m m] by blast
  have "next_precedence s' = 0" using view_Nil [OF s'(2)] by (simp add: next_precedence_def)
  then show ?thesis using n t s' by (simp add: parse_prefix_def prefix_keyword_def)
qed

section \<open>From text to syntax tree\<close>

text \<open>Names can be printed when they hold no back quote.\<close>

definition plain_name :: "string \<Rightarrow> bool" where
  "plain_name n = (CHR 0x60 \<notin> set n)"

fun plain_names :: "SqlExpr \<Rightarrow> bool" where
  "plain_names (S_Identifier n) = plain_name n"
| "plain_names (S_BinaryExpr l w r) = (plain_names l \<and> plain_names r)"
| "plain_names (S_Function f args) = (plain_name f \<and> list_all plain_names args)"
| "plain_names (S_Alias e a) = (plain_name a \<and> plain_names e)"
| "plain_names (S_Cast e a) = (plain_name a \<and> plain_names e)"
| "plain_names (S_Sort e asc) = plain_names e"
| "plain_names e = True"

definition plain_select :: "SqlSelect \<Rightarrow> bool" where
  "plain_select q = (plain_name (sel_table_name q) \<and> list_all plain_names (sel_projection q)
     \<and> pred_option plain_names (sel_selection q) \<and> list_all plain_names (sel_group_by q)
     \<and> pred_option plain_names (sel_having q) \<and> list_all plain_names (sel_order_by q))"

lemma plain_keywords:
  "plain (kw ''SELECT'')" "plain (kw ''FROM'')" "plain (kw ''WHERE'')" "plain (kw ''HAVING'')" "plain (kw ''LIMIT'')"
  "plain (kw ''BY'')" "plain (kw ''AS'')" "plain (kw ''ASC'')" "plain (kw ''DESC'')" "plain (kw ''CAST'')"
  "plain (kw ''DATE'')" "plain (kw ''INTERVAL'')" "plain (kw ''AND'')" "plain (kw ''OR'')"
  by (simp_all add: kw_def keyword_names_def is_ambiguous_identifier_def eq_ignore_ascii_case_def ascii_lower_char_def)

lemma plain_symbols: "y \<noteq> Sym_Dot \<Longrightarrow> y \<noteq> Sym_DoubleDot \<Longrightarrow> plain (symb y)"
  by (simp add: symb_def)

lemma plain_operator: "is_operator w \<Longrightarrow> plain (w, op_type w)"
  using plain_keywords(13,14)
  by (auto simp: is_operator_def operators_def op_type_def kw_def symbol_text_def symbol_table_def)

lemma plain_number: "0 \<le> sint n \<Longrightarrow> plain (show_signed n, TT_Literal Lit_Long)"
  using show_nat_digits by (simp add: show_signed_def show_int_def)

lemma plain_separated:
  "plain c \<Longrightarrow> list_all (list_all plain) tss \<Longrightarrow> list_all plain (separated c tss)"
  by (induction c tss rule: separated.induct) auto

lemma plain_parens: "list_all plain ts \<Longrightarrow> list_all plain (parens b ts)"
  using plain_symbols [of Sym_LeftParen] plain_symbols [of Sym_RightParen] by (simp add: parens_def)

lemma plain_body: "printable e \<Longrightarrow> plain_names e \<Longrightarrow> list_all plain (body e)"
proof (induction e rule: printable.induct)
  case (2 l w r)
  then show ?case using plain_parens plain_operator by simp
next
  case (4 n)
  then show ?case using plain_number by simp
next
  case (8 f args)
  then have "list_all (list_all plain) (List.map body args)" by (simp add: list_all_iff)
  then show ?case using 8(3) plain_separated plain_symbols by (simp add: plain_name_def)
qed (use plain_keywords plain_parens plain_symbols in \<open>auto simp: plain_name_def\<close>)

lemma plain_list: "list_all printable es \<Longrightarrow> list_all plain_names es \<Longrightarrow> list_all plain (list_tokens es)"
  using plain_body plain_symbols [of Sym_Comma] unfolding list_tokens_def
  by (intro plain_separated) (auto simp: list_all_iff)

lemma plain_seq_append: "list_all plain ts \<Longrightarrow> plain_seq (ts @ us) = plain_seq us"
  by (induction ts) auto

lemma plain_seq_Cons: "plain t \<Longrightarrow> plain_seq (t # us) = plain_seq us"
  by simp

lemma plain_seq_group: "w = ''GROUP'' \<or> w = ''ORDER'' \<Longrightarrow> plain_seq (kw w # kw ''BY'' # us) = plain_seq us"
  using plain_keywords(6) by (auto simp: kw_def by_token_def)

lemma plain_select_tokens:
  assumes "printable_select q" "plain_select q"
  shows "plain_seq (select_tokens q)"
proof -
  note a = assms [unfolded printable_select_def plain_select_def]
  have l: "plain_seq (limit_tokens (sel_limit q))"
    using a(1) plain_keywords(5)
    by (auto simp: limit_tokens_def plain_seq_Cons plain_number simp del: plain_seq.simps(2) plain.simps split: option.split)
  have o1: "list_all printable (sel_order_by q)" using a(1) by (simp add: list_all_iff)
  have o: "plain_seq (order_tokens (sel_order_by q) (limit_tokens (sel_limit q)))"
    using o1 a(2) l by (simp add: order_tokens_def plain_seq_group plain_seq_append plain_list del: plain_seq.simps)
  have h: "plain_seq (having_tokens (sel_having q) (order_tokens (sel_order_by q) (limit_tokens (sel_limit q))))"
    using a o plain_keywords(4)
    by (auto simp: having_tokens_def plain_seq_Cons plain_seq_append plain_body simp del: plain_seq.simps split: option.split)
  have g: "plain_seq (group_tokens (sel_group_by q) (having_tokens (sel_having q)
      (order_tokens (sel_order_by q) (limit_tokens (sel_limit q)))))"
    using a h by (simp add: group_tokens_def plain_seq_group plain_seq_append plain_list del: plain_seq.simps)
  have w: "plain_seq (where_tokens (sel_selection q) (group_tokens (sel_group_by q) (having_tokens (sel_having q)
      (order_tokens (sel_order_by q) (limit_tokens (sel_limit q))))))"
    using a g plain_keywords(3)
    by (auto simp: where_tokens_def plain_seq_Cons plain_seq_append plain_body simp del: plain_seq.simps split: option.split)
  have "plain (sel_table_name q, TT_Literal Lit_Identifier)" using a(2) by (simp add: plain_name_def)
  then show ?thesis using a w plain_keywords(1,2)
    by (simp add: select_tokens_def plain_seq_Cons plain_seq_append plain_list del: plain_seq.simps plain.simps)
qed

lemma read_printed:
  assumes "plain_seq ts"
    and parsed: "\<And>s n. view s = ts \<Longrightarrow> length (view s) < n \<Longrightarrow> \<exists>s'. parse n 0 s = Ok (Some e, s') \<and> view s' = []"
  shows "read_sql (print_tokens ts) = Ok (Some e)"
proof -
  obtain s where s: "tokenize (print_tokens ts) = Ok s" "view s = ts"
    using tokenize_printed [OF assms(1)] by (auto simp: view_def remaining_def)
  obtain s' where "parse (length (view s) + 1) 0 s = Ok (Some e, s')"
    using parsed [OF s(2), of "length (view s) + 1"] by auto
  then show ?thesis using s(1) by (simp add: read_sql_def parse_sql_def view_def del: parse.simps)
qed

text \<open>C24: The parser always returns: on any token stream, one call of @parse(0)@ with one
  unit of fuel per token ends with a syntax tree, with nothing (no token left), or with one of
  the source's panics, never for lack of fuel, and it consumes a token whenever it returns a
  tree.\<close>

theorem parser_returns:
  "case parse_sql s of
     Ok (e, s') \<Rightarrow> length (remaining s') + (if e = None then 0 else 1) \<le> length (remaining s)
   | Panic p \<Rightarrow> p \<noteq> no_fuel"
proof -
  have "outcome (\<lambda>p. p \<noteq> no_fuel) (\<lambda>(e, s'). unread s' \<le> unread s \<and> (e \<noteq> None \<longrightarrow> unread s' < unread s)) (parse_sql s)"
    unfolding parse_sql_def by (rule sound_parserD [OF parse_sound]) (simp add: unread_def)
  then show ?thesis by (auto simp: unread_def split: res.splits)
qed

text \<open>C15: Operator precedence and associativity: an expression printed with the fewest
  parentheses its precedences (OR, AND, comparisons, sums, products, from loose to tight) and
  left associativity ask for is read back as the same tree, whatever the nesting of operators,
  calls, aliases and casts.\<close>

theorem expression_roundtrip:
  assumes "printable e" "plain_names e"
  shows "read_sql (print_tokens (body e)) = Ok (Some e)"
proof (rule read_printed)
  show "plain_seq (body e)" using plain_seq_append [OF plain_body [OF assms], of "[]"] by simp
next
  fix s n assume "view s = body e" "length (view s) < n"
  then show "\<exists>s'. parse n 0 s = Ok (Some e, s') \<and> view s' = []"
    using parsesD [OF printed_parses [OF assms(1)], of s "[]" n] by (simp add: np_def)
qed

text \<open>C21: A whole SELECT statement (projection, table, WHERE, GROUP BY, HAVING, ORDER BY,
  LIMIT, each optional clause present or not) printed as SQL text is tokenized and parsed back
  to the same syntax tree.\<close>

theorem select_roundtrip:
  assumes "printable_select q" "plain_select q"
  shows "read_sql (print_tokens (select_tokens q)) = Ok (Some (S_Select q))"
  by (rule read_printed [OF plain_select_tokens [OF assms]]) (rule parse_statement [OF assms(1)])

theorem expression_roundtrip_witness:
  "read_sql ''a + b * c > 1 AND d OR ( e + f ) * g AS x '' = Ok (Some (S_Alias (S_BinaryExpr
     (S_BinaryExpr (S_BinaryExpr (S_BinaryExpr (S_Identifier ''a'') ''+''
         (S_BinaryExpr (S_Identifier ''b'') ''*'' (S_Identifier ''c''))) ''>'' (S_Long 1))
       ''AND'' (S_Identifier ''d'')) ''OR''
     (S_BinaryExpr (S_BinaryExpr (S_Identifier ''e'') ''+'' (S_Identifier ''f'')) ''*'' (S_Identifier ''g''))) ''x''))"
  (is "read_sql ?t = Ok (Some ?e)")
proof -
  have "print_tokens (body ?e) = ?t" by code_simp
  moreover have "printable ?e" by (simp add: is_operator_def operators_def)
  moreover have "plain_names ?e" by (simp add: plain_name_def)
  ultimately show ?thesis using expression_roundtrip [of ?e] by simp
qed

theorem select_roundtrip_witness:
  "read_sql ''SELECT a , SQRT ( b ) FROM t WHERE a = 1 GROUP BY a HAVING b > 2 ORDER BY a DESC LIMIT 10 ''
     = Ok (Some (S_Select (SqlSelect [S_Identifier ''a'', S_Function ''SQRT'' [S_Identifier ''b'']]
         (Some (S_BinaryExpr (S_Identifier ''a'') ''='' (S_Long 1))) [S_Identifier ''a'']
         [S_Sort (S_Identifier ''a'') False]
         (Some (S_BinaryExpr (S_Identifier ''b'') ''>'' (S_Long 2))) (Some 10) ''t'')))"
  (is "read_sql ?t = Ok (Some (S_Select ?q))")
proof -
  have "print_tokens (select_tokens ?q) = ?t" by code_simp
  moreover have "printable_select ?q" by (simp add: printable_select_def is_operator_def operators_def is_sort_def)
  moreover have "plain_select ?q" by (simp add: plain_select_def plain_name_def)
  ultimately show ?thesis using select_roundtrip [of ?q] by simp
qed

end
