(* ===== verification/Execution_Props.thy ===== *)
theory Execution_Props
  imports Execution Sql_Plan_Props Select_Props
begin

text \<open>
  The whole pipeline: SQL text to rows through tokenizer, parser, planner, optimizer, query
  planner and operators; and which queries the planner accepts that can never run.
\<close>

section \<open>Optimized plans run\<close>

text \<open>A pushed-down scan reports its schema when some of its columns were asked for.  The columns
  asked for on the way down, @C@ so far: \<close>

definition asks_columns :: "string set \<Rightarrow> LogicalPlan \<Rightarrow> bool" where
  "asks_columns C p = (case p of Scan path ds ns s \<Rightarrow> ns \<noteq> [] \<or> C \<inter> set (col_names s) \<noteq> {} | _ \<Rightarrow> True)"

definition columns_of :: "LogicalExpr list \<Rightarrow> string set" where
  "columns_of es = (\<Union>e\<in>set es. expr_columns e)"

fun schema_known :: "string set \<Rightarrow> LogicalPlan \<Rightarrow> bool" where
  "schema_known C (Scan path ds ns s) = True"
| "schema_known C (Projection i es) = schema_known (C \<union> columns_of es) i"
| "schema_known C (Selection i e) = (let D = C \<union> expr_columns e in asks_columns D i \<and> schema_known D i)"
| "schema_known C (Aggregate i gs as) = schema_known (C \<union> columns_of (gs @ List.map aggregate_inner as)) i"
| "schema_known C (Join l r jt ons) = (let D = C \<union> fst ` set ons \<union> snd ` set ons in
     asks_columns D l \<and> asks_columns D r \<and> schema_known D l \<and> schema_known D r)"
| "schema_known C (Limit i n) = (asks_columns C i \<and> schema_known C i)"

lemma asks_mono: "asks_columns C p \<Longrightarrow> C \<subseteq> D \<Longrightarrow> asks_columns D p"
  by (auto simp: asks_columns_def split: LogicalPlan.splits)

lemma known_mono: "schema_known C p \<Longrightarrow> C \<subseteq> D \<Longrightarrow> schema_known D p"
proof (induction p arbitrary: C D)
  case (Projection i es)
  show ?case using Projection.prems(1) Projection.IH [OF _ Un_mono [OF Projection.prems(2) subset_refl]] by simp
next
  case (Selection i e)
  note sub = Un_mono [OF Selection.prems(2) subset_refl [of "expr_columns e"]]
  show ?case using Selection.prems(1) asks_mono [OF _ sub] Selection.IH [OF _ sub] by (simp add: Let_def)
next
  case (Aggregate i gs as)
  show ?case using Aggregate.prems(1) Aggregate.IH [OF _ Un_mono [OF Aggregate.prems(2) subset_refl]] by simp
next
  case (Join l r jt ons)
  note sub = Un_mono [OF Un_mono [OF Join.prems(2) subset_refl [of "fst ` set ons"]] subset_refl [of "snd ` set ons"]]
  show ?case using Join.prems(1) asks_mono [OF _ sub] Join.IH(1) [OF _ sub] Join.IH(2) [OF _ sub] by (simp add: Let_def)
next
  case (Limit i n)
  show ?case using Limit.prems(1) asks_mono [OF _ Limit.prems(2)] Limit.IH [OF _ Limit.prems(2)] by simp
qed simp

lemma reporting_known: "reporting p \<Longrightarrow> schema_known C p"
  by (induction p arbitrary: C) (auto simp: Let_def asks_columns_def reports_schema_def split: LogicalPlan.splits)

lemma collected:
  assumes "plan_ok E i" "\<forall>e\<in>set es. \<exists>t. well_typed E i e t" "extract_columns_list E i es D = Ok D1"
  shows "D \<union> columns_of es \<subseteq> D1"
  using extract_list_ok [OF assms(1,2), of D] assms(3) by (auto simp: columns_of_def)

lemma push_down_shape:
  assumes "optimizable E p" "asks_columns D p" "push_down E p D = Ok (p', D')"
  shows "reports_schema p'"
proof (cases p)
  case (Scan path ds ns s)
  then have ns: "ns = []" and sch: "ds_schema E ds = Ok s" using assms(1) by (auto simp: source_ok_def)
  have "D \<inter> set (col_names s) \<noteq> {}" using assms(2) Scan ns by (simp add: asks_columns_def)
  then have "List.filter (\<lambda>n. n \<in> D) (col_names s) \<noteq> []" by (auto simp: filter_empty_conv)
  then have "pushed_columns s D \<noteq> []" unfolding pushed_columns_def by (metis set_empty set_sort)
  then show ?thesis using assms(3) Scan sch by (auto simp: map_res_eq_Ok scan_new_def reports_schema_def)
qed (use assms(3) in \<open>auto simp: and_then_eq_Ok map_res_eq_Ok reports_schema_def\<close>)

lemma push_down_reporting:
  assumes "plan_ok E p" "optimizable E p" "schema_known C p" "C \<subseteq> D" "push_down E p D = Ok (p', D')"
  shows "reporting p'"
  using assms
proof (induction arbitrary: C D p' D' rule: plan_ok.induct)
  case (scan ds ns bs s path)
  then show ?case by (auto simp: and_then_eq_Ok map_res_eq_Ok scan_new_def)
next
  case (selection i e)
  obtain D1 i' where d: "extract_columns E i e D = Ok D1" "push_down E i D1 = Ok (i', D')" "p' = Selection i' e"
    using selection.prems(4) by (auto simp: and_then_eq_Ok map_res_eq_Ok)
  have "D \<union> columns_of [e] \<subseteq> D1"
    by (rule collected [OF selection.hyps(1)]) (use selection.hyps(2) d(1) in \<open>auto simp: extract_columns_list_def\<close>)
  then have D1: "C \<union> expr_columns e \<subseteq> D1" using selection.prems(3) by (auto simp: columns_of_def)
  have i: "optimizable E i" "asks_columns (C \<union> expr_columns e) i" "schema_known (C \<union> expr_columns e) i"
    using selection.prems(1,2) by (simp_all add: Let_def)
  show ?case using selection.IH [OF i(1,3) D1 d(2)] push_down_shape [OF i(1) asks_mono [OF i(2) D1] d(2)] d(3) by simp
next
  case (projection i es fs)
  obtain D1 i' where d: "extract_columns_list E i es D = Ok D1" "push_down E i D1 = Ok (i', D')" "p' = Projection i' es"
    using projection.prems(4) by (auto simp: and_then_eq_Ok map_res_eq_Ok)
  have "\<forall>e\<in>set es. \<exists>t. well_typed E i e t"
    using projection.hyps(4) by (fastforce simp: list_all2_conv_all_nth in_set_conv_nth)
  then have "C \<union> columns_of es \<subseteq> D1" using collected [OF projection.hyps(1) _ d(1)] projection.prems(3) by blast
  then show ?case using projection.IH [OF _ _ _ d(2)] projection.prems(1,2) d(3) by simp
next
  case (limit i n)
  obtain i' where d: "push_down E i D = Ok (i', D')" "p' = Limit i' n"
    using limit.prems(4) by (auto simp: map_res_eq_Ok)
  have i: "optimizable E i" "asks_columns C i" "schema_known C i" using limit.prems(1,2) by simp_all
  show ?case using limit.IH [OF i(1,3) limit.prems(3) d(1)] push_down_shape [OF i(1) asks_mono [OF i(2) limit.prems(3)] d(1)] d(2) by simp
next
  case (aggregate i gs as s)
  let ?es = "gs @ List.map aggregate_inner as"
  obtain D1 i' where d: "extract_columns_list E i ?es D = Ok D1" "push_down E i D1 = Ok (i', D')" "p' = Aggregate i' gs as"
    using aggregate.prems(4) by (auto simp: and_then_eq_Ok map_res_eq_Ok extract_list_append)
  have "\<forall>e\<in>set ?es. \<exists>t. well_typed E i e t" using aggregate.hyps(4) by (simp add: list_all_iff)
  then have "C \<union> columns_of ?es \<subseteq> D1" using collected [OF aggregate.hyps(1) _ d(1)] aggregate.prems(3) by blast
  then show ?case using aggregate.IH [OF _ _ _ d(2)] aggregate.prems(1,2) d(3) by simp
next
  case (join l r ons jt)
  obtain D1 D2 l' r' where d: "join_columns E l r ons D = Ok D1" "push_down E l D1 = Ok (l', D2)" "push_down E r D2 = Ok (r', D')"
    "p' = Join l' r' jt ons" using join.prems(4) by (auto simp: and_then_eq_Ok map_res_eq_Ok)
  let ?C = "C \<union> fst ` set ons \<union> snd ` set ons"
  have D1: "?C \<subseteq> D1" using join_columns_grow [OF d(1)] join.prems(3) by blast
  then have D2: "?C \<subseteq> D2" using push_down_mono [OF d(2)] by blast
  have o: "optimizable E l" "optimizable E r" "asks_columns ?C l" "asks_columns ?C r" "schema_known ?C l" "schema_known ?C r"
    using join.prems(1,2) by (simp_all add: Let_def)
  show ?case using join.IH(1) [OF o(1,5) D1 d(2)] join.IH(2) [OF o(2,6) D2 d(3)]
      push_down_shape [OF o(1) asks_mono [OF o(3) D1] d(2)] push_down_shape [OF o(2) asks_mono [OF o(4) D2] d(3)] d(4) by simp
qed

lemma root_distinct:
  "optimizable E p \<Longrightarrow> \<not> stable p \<Longrightarrow> distinct (col_names (schema_of E p))"
  by (induction p) (auto simp: schema_of_def)

lemma query_outcome:
  assumes "env_ok E" "plan_ok E p" "optimizable E p" "schema_known {} p"
  shows "\<exists>p' bs. optimize E p = Ok p' \<and> context_execute E p = Ok (List.map Ok bs) \<and> list_all (typed (schema_of E p')) bs
     \<and> agree (schema_of E p) (schema_of E p') \<and> (stable p \<longrightarrow> schema_of E p' = schema_of E p)
     \<and> stream_rows bs \<in> (if stable p then results E p
          else List.map (pick_columns (schema_of E p) (schema_of E p')) ` results E p)"
proof -
  obtain p' C' f where p': "push_down E p {} = Ok (p', C')" "plan_ok E p'" "pruned E {} p p' f"
    using push_down_pushes [OF assms(2,3), of "{}"] unfolding pushes_def by blast
  have "reporting p'" by (rule push_down_reporting [OF assms(2,3,4) _ p'(1)]) simp
  then obtain pp bs where run: "create_physical_plan E p' = Ok pp" "list_all (typed (schema_of E p')) bs"
    "execute E (executor_context_new ''single-node'' ''localhost'' 0 ''/tmp/rquery-single-node'') pp = Ok (List.map Ok bs)"
    "stream_rows bs \<in> results E p'"
    using planned_runs [OF assms(1) p'(2)] unfolding runs_def by blast
  have "stream_rows bs \<in> (if stable p then results E p
      else List.map (pick_columns (schema_of E p) (schema_of E p')) ` results E p)"
  proof (cases "stable p")
    case True
    then show ?thesis using run(4) prunedD(3,5) [OF p'(3)] by auto
  next
    case False
    then show ?thesis
      using run(4) prunedD(3) [OF p'(3)] pruned_picks [OF assms(2) p'(2,3) root_distinct [OF assms(3) False]] by auto
  qed
  then show ?thesis using p'(1) run(1-3) prunedD(1,5) [OF p'(3)]
    by (intro exI [of _ p'] exI [of _ bs]) (auto simp: context_execute_def plan_query_def optimize_def)
qed

lemma query_runs:
  assumes "env_ok E" "plan_ok E p" "optimizable E p" "stable p" "schema_known {} p"
  shows "\<exists>bs. context_execute E p = Ok (List.map Ok bs) \<and> list_all (typed (schema_of E p)) bs \<and> stream_rows bs \<in> results E p"
  using query_outcome [OF assms(1-3,5)] assms(4) by auto

lemma sql_of_printed:
  assumes "printable_select q" "plain_select q"
  shows "context_sql E c (print_tokens (select_tokens q)) = create_data_frame E q (tables c)"
proof -
  have "read_sql (print_tokens (select_tokens q)) = Ok (Some (S_Select q))"
    by (rule read_printed [OF plain_select_tokens [OF assms]]) (rule parse_statement [OF assms(1)])
  then show ?thesis by (simp add: context_sql_def parse_query_def)
qed



section \<open>Queries that cannot run\<close>

lemma aggr_to_field_name:
  "aggr_to_field E s x = Ok f \<Longrightarrow> aggr_to_field E s' x = Ok f' \<Longrightarrow> f_name f' = f_name f"
  by (cases x) (auto simp: retyped_def map_res_eq_Ok new_field_def)

lemma column_field_name: "to_field E s (Column n) = Ok f \<Longrightarrow> f_name f = n"
  by (auto simp: and_then_eq_Ok find_field_def expect_eq_Ok find_Some_iff)

lemma to_field_flat_name:
  "to_field E s x = Ok f \<Longrightarrow> to_field E s' x = Ok f' \<Longrightarrow> by_name x \<Longrightarrow> (\<And>n. x \<noteq> Column n) \<Longrightarrow>
   (\<And>e t. x \<noteq> L_Cast e t) \<Longrightarrow> f_name f' = f_name f"
  by (cases x) (auto simp: retyped_def map_res_eq_Ok new_field_def dest: aggr_to_field_name)

lemma to_field_name:
  "to_field E s x = Ok f \<Longrightarrow> to_field E s' x = Ok f' \<Longrightarrow> by_name x \<Longrightarrow> f_name f' = f_name f"
proof (induction "size x" arbitrary: x f f' rule: less_induct)
  case less
  show ?case
  proof (cases "\<exists>e t. x = L_Cast e t")
    case True
    then obtain e t where x: "x = L_Cast e t" by blast
    obtain g g' where g: "to_field E s e = Ok g" "to_field E s' e = Ok g'" "f = new_field (f_name g) t" "f' = new_field (f_name g') t"
      using less.prems(1,2) unfolding x by (auto simp: map_res_eq_Ok)
    have "f_name g' = f_name g" by (rule less.hyps [OF _ g(1,2)]) (use less.prems(3) x in simp_all)
    then show ?thesis unfolding g(3,4) by (simp add: new_field_def)
  next
    case False
    show ?thesis
    proof (cases "\<exists>n. x = Column n")
      case True
      then obtain n where x: "x = Column n" by blast
      show ?thesis using column_field_name less.prems(1,2) unfolding x by metis
    next
      case neq: False
      show ?thesis by (rule to_field_flat_name [OF less.prems]) (use False neq in blast)+
    qed
  qed
qed

lemma lowered_without_schema: "create_physical_expr (Panic p) e = Ok pe \<Longrightarrow> expr_columns e = {}"
proof (induction e arbitrary: pe rule: expr_shapes)
  case (binary f e l r)
  then show ?case using binary_nodeD(1,3) [OF binary.hyps] by blast
next
  case (literal e c)
  then show ?case by (auto simp: literal_node_def)
next
  case (unsupported e)
  then show ?case using is_ok_simps(1) by metis
qed (auto simp: map_res_eq_Ok)

text \<open>C36: Filtering on a column that the select list uses only inside an expression can never
  run: when every column of the WHERE clause is mentioned in the select list, the planner
  filters the projected rows, so if one of them is not the name of an output column (as in
  @SELECT id + 1 FROM t WHERE id > 0@), lowering the plan panics on every table and every
  data.\<close>

theorem computed_column_where_panics:
  assumes "create_data_frame E q tbls = Ok df" "tbls (sel_table_name q) = Some T"
    "traverse (create_logical_expr E) (sel_projection q) = Ok es" "list_all (\<lambda>e. \<not> is_aggregate_expr e) es"
    "sel_selection q = Some w" "create_logical_expr E w = Ok e" "set (visit e []) \<subseteq> set (referenced_columns es)"
    "traverse (to_field E (plan_schema E (df_plan T))) es = Ok fs" "n \<in> expr_columns e" "n \<notin> f_name ` set fs"
  shows "\<not> is_ok (plan_query E (df_plan df))"
proof
  assume ok: "is_ok (plan_query E (df_plan df))"
  let ?p = "Selection (Projection (df_plan T) es) e"
  have na: "List.filter is_aggregate_expr es = []" using assms(4) by (simp add: filter_empty_conv list_all_iff)
  have "df = with_limit q \<lparr>df_plan = ?p\<rparr>"
  proof -
    obtain sc where sc: "columns_referenced_by_selection E q T = Ok sc"
      "plan_non_aggregate_query E q T es sc (referenced_columns es) = Ok df"
      using assms(1-3) na by (auto simp: create_data_frame_def Let_def and_then_eq_Ok split: if_splits)
    have "set sc \<subseteq> set (referenced_columns es)" using sc(1) assms(5-7)
      by (auto simp: columns_referenced_by_selection_def map_res_eq_Ok)
    then have "ordered_difference sc (referenced_columns es) = []" by (auto simp: ordered_difference_def filter_empty_conv)
    then show ?thesis using sc(2) assms(5,6)
      by (simp add: plan_non_aggregate_query_def project_and_filter_def df_filter_def df_project_def)
  qed
  then have "is_ok (plan_query E ?p)"
    using ok by (auto simp: with_limit_def df_limit_def plan_query_def optimize_def is_ok_iff and_then_eq_Ok map_res_eq_Ok
        split: option.splits)
  then obtain p' pp where p': "push_down E ?p {} = Ok p'" "create_physical_plan E (fst p') = Ok pp"
    by (auto simp: plan_query_def optimize_def is_ok_iff and_then_eq_Ok map_res_eq_Ok)
  then obtain t' where t': "fst p' = Selection (Projection t' es) e" by (auto simp: and_then_eq_Ok map_res_eq_Ok)
  then obtain pe where pe: "create_physical_expr (plan_schema E (Projection t' es)) e = Ok pe"
    using p'(2) by (auto simp: and_then_eq_Ok map_res_eq_Ok)
  obtain fs' where fs': "traverse (to_field E (plan_schema E t')) es = Ok fs'" "plan_schema E (Projection t' es) = Ok (new_schema fs')"
    using lowered_without_schema [of _ e pe] pe assms(9) by (cases "traverse (to_field E (plan_schema E t')) es") auto
  have "n \<in> f_name ` set fs'" using lowered_columns [OF pe [unfolded fs'(2)]] assms(9) by (auto simp: new_schema_def)
  then obtain k where k: "k < length fs'" "f_name (fs' ! k) = n" by (auto simp: in_set_conv_nth)
  have len: "length fs' = length es" "length fs = length es" using traverse_length [OF fs'(1)] traverse_length [OF assms(8)] by auto
  have "by_name (es ! k)" using planned_by_name traverse_set [OF assms(3), of "es ! k"] k(1) len by fastforce
  moreover have "to_field E (plan_schema E t') (es ! k) = Ok (fs' ! k)" "to_field E (plan_schema E (df_plan T)) (es ! k) = Ok (fs ! k)"
    using traverse_nth [OF fs'(1)] traverse_nth [OF assms(8)] k(1) len by auto
  ultimately have "f_name (fs ! k) = n" using to_field_name k(2) by metis
  then show False using assms(10) k(1) len nth_mem [of k fs] by force
qed

section \<open>Concrete runs\<close>

definition sample_context :: ExecutionContext where
  "sample_context = register (context_new Map.empty) ''t'' \<lparr>df_plan = sample_table\<rparr>"

lemma sample_context_tables: "tables sample_context = sample_tables"
  by (simp add: sample_context_def register_def context_new_def)

text \<open>A join of two tables in memory under a projection; the sides are whole scans, which only
  the optimizer makes executable.\<close>

abbreviation city_schema :: Schema where
  "city_schema \<equiv> new_schema [new_field ''id'' T_Int32, new_field ''city'' T_Utf8]"

definition city_batch :: RecordBatch where
  "city_batch = \<lparr>rb_schema = to_arrow city_schema,
     rb_columns = [\<lparr>arr_type = T_Int32, arr_cells = [V_Int32 7, V_Int32 9]\<rparr>,
                   \<lparr>arr_type = T_Utf8, arr_cells = [V_Utf8 ''x'', V_Utf8 ''y'']\<rparr>],
     rb_rows = 2\<rparr>"

definition city_table :: LogicalPlan where
  "city_table = Scan ''c'' (In_Memory city_schema [city_batch]) [] city_schema"

abbreviation city_join :: LogicalPlan where
  "city_join \<equiv> Join sample_table city_table Inner [(''id'', ''id'')]"

definition city_query :: LogicalPlan where
  "city_query = Projection city_join [Column ''name'', Column ''city'']"

lemma city_table_ok:
  "plan_ok ref_env city_table" "plan_schema ref_env city_table = Ok city_schema"
  "results ref_env city_table = {[[V_Int32 7, V_Utf8 ''x''], [V_Int32 9, V_Utf8 ''y'']]}"
  "source_ok ref_env (In_Memory city_schema [city_batch]) city_schema [city_batch]"
proof -
  have ty: "list_all (typed city_schema) [city_batch]"
    by (simp add: city_batch_def typed_def batch_wf_def array_wf_def supported_def new_schema_def new_field_def to_arrow_def field_to_arrow_def)
  have rows: "stream_rows [city_batch] = [[V_Int32 7, V_Utf8 ''x''], [V_Int32 9, V_Utf8 ''y'']]"
    by (simp add: batch_rows_def batch_row_def city_batch_def upt_rec)
  have tw: "table_wf city_schema [city_batch]" using ty by (auto simp: table_wf_def typed_def)
  show so: "source_ok ref_env (In_Memory city_schema [city_batch]) city_schema [city_batch]"
    by (rule memory_source_ok [OF ref_env_ok tw]) (simp add: new_schema_def)
  then have x: "ds_scan ref_env (In_Memory city_schema [city_batch]) [] = Ok (List.map Ok [city_batch])"
    unfolding source_ok_def by blast
  show "plan_ok ref_env city_table" unfolding city_table_def
    by (rule plan_ok.scan [OF x ty]) (simp add: derive_schema_def ds_schema_def)
  show "plan_schema ref_env city_table = Ok city_schema" by (simp add: city_table_def)
  show "results ref_env city_table = {[[V_Int32 7, V_Utf8 ''x''], [V_Int32 9, V_Utf8 ''y'']]}"
    using x rows by (simp add: comp_def city_table_def)
qed

lemma city_join_ok:
  "plan_schema ref_env city_join = Ok (new_schema [new_field ''id'' T_Int32, new_field ''name'' T_Utf8, new_field ''city'' T_Utf8])"
  "results ref_env city_join = {let rs = [[V_Int32 7, V_Utf8 ''a'', V_Utf8 ''x''], [V_Int32 9, V_Null, V_Utf8 ''y'']] in rs @ rs}"
  "plan_ok ref_env city_join"
proof -
  note sch = new_schema_def new_field_def duplicate_keys_def
  show s: "plan_schema ref_env city_join = Ok (new_schema [new_field ''id'' T_Int32, new_field ''name'' T_Utf8, new_field ''city'' T_Utf8])"
    by (simp add: sample_table_ok(2) city_table_ok(2) join_schema_def drop_fields_def sch)
  show "results ref_env city_join = {let rs = [[V_Int32 7, V_Utf8 ''a'', V_Utf8 ''x''], [V_Int32 9, V_Null, V_Utf8 ''y'']] in rs @ rs}"
  proof -
    have pos: "schema_of ref_env sample_table = sample_schema" "schema_of ref_env city_table = city_schema"
      "names_positions sample_schema [''id''] = [0]" "names_positions city_schema [''id''] = [0]"
      "excluded_columns [(''id'', ''id'')] city_schema = [0]" "width city_schema = 2"
      by (simp_all add: schema_of_def sample_table_ok(2) city_table_ok(2) names_positions_def column_of_def excluded_columns_def upt_rec sch)
    have comb: "combine_rows [0] l [v, w] = l @ [w]" for l v w by (simp add: combine_rows_def)
    show ?thesis
      unfolding results.simps(6) Let_def sample_table_ok(3) city_table_ok(3) by (simp add: pos nested_loop_def matches_def join_key_def comb)
  qed
  show "plan_ok ref_env city_join"
    by (rule plan_ok.join [OF sample_table_ok(1) city_table_ok(1)])
      (simp_all add: schema_of_def sample_table_ok(2) city_table_ok(2) join_schema_def drop_fields_def schema_ok_def supported_def sch)
qed

lemma city_query_ok:
  "plan_ok ref_env city_query" "optimizable ref_env city_query" "stable city_query" "schema_known {} city_query"
  "results ref_env city_query = {let rs = [[V_Utf8 ''a'', V_Utf8 ''x''], [V_Null, V_Utf8 ''y'']] in rs @ rs}"
proof -
  have v: "value_on ref_env city_join (Column ''name'') [x, y, z] = Ok y" "value_on ref_env city_join (Column ''city'') [x, y, z] = Ok z"
    "well_typed ref_env city_join (Column ''name'') T_Utf8" "well_typed ref_env city_join (Column ''city'') T_Utf8" for x y z
    unfolding well_typed_def value_on_def schema_of_def city_join_ok(1) by (simp_all add: new_schema_def new_field_def)
  show "plan_ok ref_env city_query" unfolding city_query_def
    by (rule plan_ok.projection [OF city_join_ok(3), where fs = "[new_field ''name'' T_Utf8, new_field ''city'' T_Utf8]"])
      (simp_all add: v evaluates_def city_join_ok(1,2) find_field_def new_schema_def new_field_def del: plan_schema.simps results.simps)
  show "results ref_env city_query = {let rs = [[V_Utf8 ''a'', V_Utf8 ''x''], [V_Null, V_Utf8 ''y'']] in rs @ rs}"
    unfolding city_query_def results.simps(3) city_join_ok(2) by (simp add: v)
  show "optimizable ref_env city_query" "stable city_query" "schema_known {} city_query"
    using sample_table_ok(4) city_table_ok(4)
    by (auto simp: city_query_def admissible_def schema_of_def sample_table_def city_table_def new_schema_def new_field_def
        columns_of_def asks_columns_def Let_def join_schema_def drop_fields_def duplicate_keys_def)
qed


text \<open>A filter over a whole table loses the columns it does not mention.\<close>

lemma filter_loses_columns:
  "\<exists>bs. context_execute ref_env (Selection sample_table sample_where) = Ok (List.map Ok bs)
     \<and> stream_rows bs = [[V_Utf8 ''a''], [V_Utf8 ''a'']]"
  "results ref_env (Selection sample_table sample_where) = {[[V_Int32 7, V_Utf8 ''a''], [V_Int32 7, V_Utf8 ''a'']]}"
proof -
  let ?p = "Selection sample_table sample_where"
  note w = name_is_a [OF sample_table_ok(2)]
  show res: "results ref_env ?p = {[[V_Int32 7, V_Utf8 ''a''], [V_Int32 7, V_Utf8 ''a'']]}"
    using w(2) by (simp add: sample_table_ok(3))
  have ok: "plan_ok ref_env ?p"
    by (rule plan_ok.selection [OF sample_table_ok(1) w(1)]) (use w(2) in \<open>simp add: evaluates_def sample_table_ok(3)\<close>)
  have shape: "optimizable ref_env ?p" "schema_known {} ?p"
    using sample_table_ok(4) by (auto simp: sample_table_def admissible_def asks_columns_def Let_def new_schema_def new_field_def)
  have opt: "col_names (schema_of ref_env p') = [''name'']" if "optimize ref_env ?p = Ok p'" for p'
    using that by (auto simp: optimize_def sample_table_def and_then_eq_Ok map_res_eq_Ok extract_columns_list_def pushed_columns_def
      scan_new_def derive_schema_def ds_schema_def select_def select_field_def new_schema_def new_field_def schema_of_def)
  have "pick_columns sample_schema s [V_Int32 7, V_Utf8 ''a''] = [V_Utf8 ''a'']" if "col_names s = [''name'']" for s
    using that by (simp add: pick_columns_def named_cells_def new_schema_def new_field_def)
  then show "\<exists>bs. context_execute ref_env ?p = Ok (List.map Ok bs) \<and> stream_rows bs = [[V_Utf8 ''a''], [V_Utf8 ''a'']]"
    using query_outcome [OF ref_env_ok ok shape] opt unfolding res
    by (auto simp: sample_table_ok(2) schema_of_def sample_table_def)
qed


theorem computed_column_where_panics_witness:
  "\<exists>df. create_data_frame ref_env (SqlSelect [S_BinaryExpr (S_Identifier ''id'') ''+'' (S_Long 1)]
        (Some (S_BinaryExpr (S_Identifier ''id'') ''>'' (S_Long 0))) [] [] None None ''t'') sample_tables = Ok df
     \<and> \<not> is_ok (plan_query ref_env (df_plan df))"
proof -
  let ?w = "S_BinaryExpr (S_Identifier ''id'') ''>'' (S_Long 0)" and ?x = "S_BinaryExpr (S_Identifier ''id'') ''+'' (S_Long 1)"
  let ?q = "SqlSelect [?x] (Some ?w) [] [] None None ''t''" and ?e = "L_Add (Column ''id'') (LiteralLong 1)"
    and ?f = "L_Gt (Column ''id'') (LiteralLong 0)"
  note ex = binary_expr_def date_and_interval_def
  have es: "traverse (create_logical_expr ref_env) (sel_projection ?q) = Ok [?e]" "create_logical_expr ref_env ?w = Ok ?f"
    by (simp_all add: ex)
  have df: "create_data_frame ref_env ?q sample_tables = Ok \<lparr>df_plan = Selection (Projection sample_table [?e]) ?f\<rparr>"
    by (simp add: create_data_frame_def ex is_aggregate_expr_def columns_referenced_by_selection_def df_schema_def
        sample_table_ok(2) new_schema_def new_field_def referenced_columns_def push_new_def plan_non_aggregate_query_def
        ordered_difference_def project_and_filter_def df_project_def df_filter_def with_limit_def)
  have fs: "traverse (to_field ref_env (plan_schema ref_env (df_plan \<lparr>df_plan = sample_table\<rparr>))) [?e] = Ok [new_field ''add'' T_Int32]"
    by (simp add: sample_table_ok(2) new_schema_def new_field_def find_field_def retyped_def)
  have "\<not> is_ok (plan_query ref_env (df_plan \<lparr>df_plan = Selection (Projection sample_table [?e]) ?f\<rparr>))"
    by (rule computed_column_where_panics [OF df _ es(1) _ _ es(2) _ fs, where n = "''id''"])
      (simp_all add: is_aggregate_expr_def referenced_columns_def push_new_def new_field_def)
  then show ?thesis using df by blast
qed

end
