(* ===== verification/Sql_Total.thy ===== *)
theory Sql_Total
  imports Execution_Props
begin

text \<open>
  A class of queries that always run: columns of a table, a WHERE clause built with AND and OR
  from comparisons of columns and literals, and LIMIT.  When the WHERE clause type checks, the
  text of such a query is parsed, planned, optimized and executed without a panic, and its rows
  are a filter, a projection and a prefix of the rows of the table.
\<close>

section \<open>Conditions\<close>

fun operand :: "SqlExpr \<Rightarrow> bool" where
  "operand (S_Identifier n) = True"
| "operand (S_String t) = True"
| "operand (S_Long v) = True"
| "operand (S_Double v) = True"
| "operand e = False"

fun condition :: "SqlExpr \<Rightarrow> bool" where
  "condition (S_BinaryExpr l w r) =
     (if w \<in> {''AND'', ''OR''} then condition l \<and> condition r
      else w \<in> {''='', ''!='', ''<'', ''<='', ''>'', ''>=''} \<and> operand l \<and> operand r)"
| "condition e = False"

fun flat_expr :: "LogicalExpr \<Rightarrow> bool" where
  "flat_expr (Column n) = True"
| "flat_expr (LiteralString t) = True"
| "flat_expr (LiteralLong v) = True"
| "flat_expr (LiteralDouble v) = True"
| "flat_expr e = False"

fun cond_expr :: "LogicalExpr \<Rightarrow> bool" where
  "cond_expr (L_And l r) = (cond_expr l \<and> cond_expr r)"
| "cond_expr (L_Or l r) = (cond_expr l \<and> cond_expr r)"
| "cond_expr (L_Eq l r) = (flat_expr l \<and> flat_expr r)"
| "cond_expr (L_Neq l r) = (flat_expr l \<and> flat_expr r)"
| "cond_expr (L_Lt l r) = (flat_expr l \<and> flat_expr r)"
| "cond_expr (L_LtEq l r) = (flat_expr l \<and> flat_expr r)"
| "cond_expr (L_Gt l r) = (flat_expr l \<and> flat_expr r)"
| "cond_expr (L_GtEq l r) = (flat_expr l \<and> flat_expr r)"
| "cond_expr e = False"

lemma operand_planned: "operand x \<Longrightarrow> \<exists>e. create_logical_expr E x = Ok e \<and> flat_expr e"
  by (cases x) auto

lemma condition_planned: "condition x \<Longrightarrow> \<exists>e. create_logical_expr E x = Ok e \<and> cond_expr e"
proof (induction x rule: condition.induct)
  case (1 l w r)
  show ?case
  proof (cases "w \<in> {''AND'', ''OR''}")
    case True
    then obtain a b where "create_logical_expr E l = Ok a" "create_logical_expr E r = Ok b" "cond_expr a" "cond_expr b"
      using 1 by auto
    then show ?thesis using True by (auto simp: binary_expr_def)
  next
    case False
    then have "operand l" "operand r" using "1.prems" by (auto split: if_splits)
    then obtain a b where "create_logical_expr E l = Ok a" "create_logical_expr E r = Ok b" "flat_expr a" "flat_expr b"
      using operand_planned [of l E] operand_planned [of r E] by blast
    then show ?thesis using "1.prems" False by (auto simp: binary_expr_def)
  qed
qed simp_all

lemma flat_visit: "flat_expr e \<Longrightarrow> set (visit e acc) = set acc \<union> expr_columns e"
  by (cases e) auto

lemma cond_visit: "cond_expr e \<Longrightarrow> set (visit e acc) = set acc \<union> expr_columns e"
proof (induction e arbitrary: acc rule: cond_expr.induct)
qed (auto simp: flat_visit)

lemma flat_total: "flat_expr e \<Longrightarrow> create_physical_expr (Ok s) e = Ok pe \<Longrightarrow> total_expr ts pe"
  by (cases e) (auto simp: map_res_eq_Ok)

lemma cond_total: "cond_expr e \<Longrightarrow> create_physical_expr (Ok s) e = Ok pe \<Longrightarrow> total_expr ts pe"
proof (induction e arbitrary: pe rule: cond_expr.induct)
qed (auto simp: both_eq_Ok flat_total)

lemma cond_not_aggregate: "cond_expr e \<Longrightarrow> by_name e"
proof (induction e rule: cond_expr.induct)
qed (auto elim: flat_expr.elims)

section \<open>Columns of a table\<close>

lemma column_plain:
  assumes "plan_ok E p" "n \<in> set (col_names (schema_of E p))"
  shows "\<exists>f. field_named (schema_of E p) n = Some f \<and> f_name f = n \<and> to_field E (plan_schema E p) (Column n) = Ok f
     \<and> well_typed E p (Column n) (f_type f)"
    "R \<in> results E p \<Longrightarrow> r \<in> set R \<Longrightarrow> is_ok (value_on E p (Column n) r)"
proof -
  let ?s = "schema_of E p"
  note ps = plan_ok_schema [OF assms(1)]
  obtain k where k: "column_of ''No column named'' ?s n = Ok k" "k < width ?s" "f_name (s_fields ?s ! k) = n"
    using column_of_Ok [OF assms(2)] by blast
  have pos: "position (\<lambda>f. f_name f = n) (s_fields ?s) = Some k" using k(1) by (simp add: column_of_def expect_eq_Ok)
  have f: "field_named ?s n = Some (s_fields ?s ! k)" using column_of_field [OF k(1)] by blast
  then show "\<exists>f. field_named ?s n = Some f \<and> f_name f = n \<and> to_field E (plan_schema E p) (Column n) = Ok f
     \<and> well_typed E p (Column n) (f_type f)"
    using k pos ps by (auto simp: well_typed_def find_field_def field_named_def map_of_fields)
  show "is_ok (value_on E p (Column n) r)" if "R \<in> results E p" "r \<in> set R"
    using results_width [OF assms(1) that] k(2) by (simp add: value_on_def pos idx_def)
qed

definition field_of :: "Schema \<Rightarrow> string \<Rightarrow> Field" where
  "field_of s n = the (field_named s n)"

lemma columns_projection:
  assumes "plan_ok E p" "ns \<noteq> []" "set ns \<subseteq> set (col_names (schema_of E p))"
  shows "plan_ok E (Projection p (List.map Column ns))"
    "schema_of E (Projection p (List.map Column ns)) = new_schema (List.map (field_of (schema_of E p)) ns)"
    "col_names (schema_of E (Projection p (List.map Column ns))) = ns"
    "distinct ns \<Longrightarrow> agree_on (set ns) (schema_of E p) (schema_of E (Projection p (List.map Column ns)))"
    "visible E p (List.map Column ns) n"
    "List.map (output_name E p) (List.map Column ns) = ns"
proof -
  let ?s = "schema_of E p" and ?es = "List.map Column ns"
  have col: "field_named ?s n = Some (field_of ?s n) \<and> f_name (field_of ?s n) = n
      \<and> to_field E (plan_schema E p) (Column n) = Ok (field_of ?s n) \<and> well_typed E p (Column n) (f_type (field_of ?s n))"
    if "n \<in> set ns" for n
    using column_plain(1) [OF assms(1), of n] assms(3) that unfolding field_of_def by (metis option.sel subsetD)
  have fs: "traverse (to_field E (plan_schema E p)) ?es = Ok (List.map (field_of ?s) ns)"
    unfolding traverse_map using col by (intro traverse_all_Ok) simp
  show ok: "plan_ok E (Projection p ?es)"
  proof (rule plan_ok.projection [OF assms(1) _ fs])
    show "list_all2 (\<lambda>e f. well_typed E p e (f_type f)) ?es (List.map (field_of ?s) ns)"
      using col by (simp add: list_all2_map1 list_all2_map2 list_all2_same)
    show "evaluates E p ?es" using column_plain(2) [OF assms(1)] assms(3) by (auto simp: evaluates_def)
  qed (use assms(2) in simp)
  show sch: "schema_of E (Projection p ?es) = new_schema (List.map (field_of ?s) ns)"
    unfolding schema_of_def [of E "Projection p ?es"] plan_schema.simps(2) fs by simp
  show names: "col_names (schema_of E (Projection p ?es)) = ns"
    unfolding sch using col by (simp add: new_schema_def map_idI)
  show on: "List.map (output_name E p) ?es = ns"
    using col by (simp add: output_name_def map_idI)
  show "visible E p ?es n" using col by (auto simp: visible_def output_name_def)
  show "agree_on (set ns) ?s (schema_of E (Projection p ?es))" if "distinct ns"
    unfolding agree_on_def names
  proof (intro ballI conjI)
    fix n assume n: "n \<in> set ns"
    then have "field_of ?s n \<in> set (s_fields (schema_of E (Projection p ?es)))" unfolding sch by (simp add: new_schema_def)
    then have "field_named (schema_of E (Projection p ?es)) (f_name (field_of ?s n)) = Some (field_of ?s n)"
      by (intro field_named_unique) (use names that in simp_all)
    then show "field_named (schema_of E (Projection p ?es)) n = field_named ?s n" using col [OF n] by simp
  qed
qed

text \<open>A condition that type checks on the table type checks on the projection and has a value
  on every row.\<close>

lemma condition_on_projection:
  assumes "plan_ok E p" "ns \<noteq> []" "set ns \<subseteq> set (col_names (schema_of E p))" "distinct ns"
    "well_typed E p c T_Boolean" "cond_expr c" "expr_columns c \<subseteq> set ns" "evaluates E p [c]"
  shows "plan_ok E (Selection (Projection p (List.map Column ns)) c)"
proof -
  let ?es = "List.map Column ns"
  let ?P = "Projection p ?es"
  note pr = columns_projection [OF assms(1-3)]
  note low = well_typedD [OF assms(1,5)]
  have bn: "by_name c" by (rule cond_not_aggregate [OF assms(6)])
  obtain pe' where "create_physical_expr (Ok (schema_of E ?P)) c = Ok pe'"
    "same_expr (set ns) E (schema_of E p) (schema_of E ?P) (lowered E p c) pe'"
    using lower_transfer [OF pr(4) [OF assms(4)] low(1) bn assms(7), of E] by blast
  then have ty: "well_typed E ?P c T_Boolean"
    using low(2) lower_type by (fastforce simp: well_typed_iff [OF pr(1)] same_expr_def)
  have "evaluates E ?P [c]"
    unfolding evaluates_def results_projection
  proof (intro ballI)
    fix R' r' e assume r: "R' \<in> List.map (row_of E p ?es) ` results E p" "r' \<in> set R'" and e: "e \<in> set [c]"
    then obtain R r where "R \<in> results E p" "r \<in> set R" "r' = row_of E p ?es r" by auto
    then show "is_ok (value_on E ?P e r')"
      using filter_visible [OF pr(1) ty bn _ \<open>R \<in> results E p\<close> \<open>r \<in> set R\<close>] pr(5) assms(8) e by (auto simp: evaluates_def)
  qed
  then show ?thesis by (rule plan_ok.selection [OF pr(1) ty])
qed

lemma condition_evaluates:
  assumes "list_all (typed s) bs" "plan_ok E p" "schema_of E p = s" "results E p = {stream_rows bs}"
    "well_typed E p c T_Boolean" "cond_expr c"
  shows "evaluates E p [c]"
proof -
  note low = well_typedD [OF assms(2,5)]
  have tot: "total_expr ts (lowered E p c)" for ts by (rule cond_total [OF assms(6) low(1)])
  have "is_ok (value_on E p c (batch_row b i))" if "b \<in> set bs" "i < rb_rows b" for b i
  proof -
    have b: "batch_wf b" "batch_types b = col_types s" using assms(1) that(1) by (auto simp: list_all_iff typed_def)
    have t: "expr_type (batch_types b) (lowered E p c) = Some T_Boolean" using low(2) assms(3) b(2) by simp
    obtain v where "evaluate E (lowered E p c) b = Ok v"
      using evaluate_outcome [OF b(1) t, of E] tot by (auto simp: outcome_def allowed_def split: res.splits)
    then show ?thesis using evaluate_agrees [OF b(1) t, of E] that(2) b(2) assms(3)
      value_on_eval [OF assms(2,5)] by (auto simp: agrees_def)
  qed
  then show ?thesis unfolding evaluates_def assms(4) by (auto simp: stream_rows_def batch_rows_def)
qed

section \<open>Plans of simple queries\<close>

definition simple_query :: "SqlSelect \<Rightarrow> string list \<Rightarrow> bool" where
  "simple_query q ns = (sel_projection q = List.map S_Identifier ns \<and> ns \<noteq> [] \<and> distinct ns \<and> sel_group_by q = []
     \<and> pred_option condition (sel_selection q))"

definition where_expr :: "env \<Rightarrow> SqlSelect \<Rightarrow> LogicalExpr option" where
  "where_expr E q = map_option (\<lambda>w. the_ok (create_logical_expr E w)) (sel_selection q)"

lemma simple_where:
  assumes "simple_query q ns" "sel_selection q = Some w"
  shows "\<exists>c. where_expr E q = Some c \<and> create_logical_expr E w = Ok c \<and> cond_expr c"
proof -
  have "condition w" using assms by (simp add: simple_query_def)
  then show ?thesis using condition_planned [of w E] assms(2) by (auto simp: where_expr_def)
qed

lemma identifiers_planned: "traverse (create_logical_expr E) (List.map S_Identifier ns) = Ok (List.map Column ns)"
  unfolding traverse_map by (rule traverse_all_Ok) simp

lemma columns_not_aggregates: "List.filter is_aggregate_expr (List.map Column ns) = []"
  by (auto simp: filter_empty_conv is_aggregate_expr_def)

lemma referenced_names: "set (referenced_columns (List.map Column ns)) = set ns"
proof -
  have "set (fold visit (List.map Column ns) acc) = set acc \<union> set ns" for acc by (induction ns arbitrary: acc) auto
  then show ?thesis by (simp add: referenced_columns_def)
qed

lemma visit_distinct: "distinct acc \<Longrightarrow> cond_expr e \<Longrightarrow> distinct (visit e acc)"
proof -
  have flat: "flat_expr e \<Longrightarrow> distinct acc \<Longrightarrow> distinct (visit e acc)" for e acc by (cases e) auto
  show "distinct acc \<Longrightarrow> cond_expr e \<Longrightarrow> distinct (visit e acc)"
    by (induction e arbitrary: acc rule: cond_expr.induct) (auto simp: flat)
qed

text \<open>The columns projected under the filter: the wanted ones and those of the condition.\<close>

lemma simple_selection_plan:
  assumes "plan_ok E p" "tbls (sel_table_name q) = Some T" "df_plan T = p" "simple_query q ns"
    "set ns \<subseteq> set (col_names (schema_of E p))" "sel_selection q = Some w" "where_expr E q = Some c" "well_typed E p c T_Boolean"
  shows "\<exists>ms. distinct (ns @ ms) \<and> set (ns @ ms) \<subseteq> set (col_names (schema_of E p)) \<and> expr_columns c \<subseteq> set (ns @ ms)
     \<and> create_data_frame E q tbls = and_then (if ms = [] then Ok \<lparr>df_plan = Selection (Projection p (List.map Column ns)) c\<rparr>
          else and_then (plan_schema E (Projection p (List.map Column (ns @ ms)))) (\<lambda>s.
            map_res (\<lambda>fs. \<lparr>df_plan = Projection (Selection (Projection p (List.map Column (ns @ ms))) c) (List.map (\<lambda>f. Column (f_name f)) fs)\<rparr>)
              (traverse (idx (s_fields s)) [0..<length ns])))
        (\<lambda>d. Ok (with_limit q d))"
proof -
  let ?s = "schema_of E p"
  have c: "create_logical_expr E w = Ok c" "cond_expr c" using simple_where [OF assms(4,6), of E] assms(7) by auto
  have sub: "expr_columns c \<subseteq> set (col_names ?s)" by (rule lowered_columns [OF well_typedD(1) [OF assms(1,8)]])
  let ?sc = "List.filter (\<lambda>n. n \<in> set (col_names ?s)) (visit c [])"
  let ?ms = "ordered_difference ?sc (referenced_columns (List.map Column ns))"
  have sc: "set ?sc = expr_columns c" "distinct ?sc" using cond_visit [OF c(2), of "[]"] visit_distinct [OF _ c(2), of "[]"] sub by auto
  have ms: "set ?ms = expr_columns c - set ns" using sc(1) unfolding ordered_difference_def referenced_names by auto
  have dm: "distinct ?ms" unfolding ordered_difference_def by (rule distinct_filter [OF sc(2)])
  have ref: "columns_referenced_by_selection E q T = Ok ?sc"
    using plan_ok_schema [OF assms(1)] assms(3,6) c(1) by (simp add: columns_referenced_by_selection_def df_schema_def)
  have q: "sel_projection q = List.map S_Identifier ns" "sel_group_by q = []" using assms(4) by (simp_all add: simple_query_def)
  have plan: "create_data_frame E q tbls = plan_non_aggregate_query E q T (List.map Column ns) ?sc (referenced_columns (List.map Column ns))"
    using assms(2) ref by (simp add: create_data_frame_def q identifiers_planned columns_not_aggregates)
  have "create_data_frame E q tbls = and_then (if ?ms = [] then Ok \<lparr>df_plan = Selection (Projection p (List.map Column ns)) c\<rparr>
          else and_then (plan_schema E (Projection p (List.map Column (ns @ ?ms)))) (\<lambda>s.
            map_res (\<lambda>fs. \<lparr>df_plan = Projection (Selection (Projection p (List.map Column (ns @ ?ms))) c) (List.map (\<lambda>f. Column (f_name f)) fs)\<rparr>)
              (traverse (idx (s_fields s)) [0..<length ns])))
        (\<lambda>d. Ok (with_limit q d))"
    unfolding plan using assms(3)
    by (simp add: plan_non_aggregate_query_def assms(6) project_and_filter_def c(1) df_filter_def df_project_def df_schema_def
        map_res_and_then del: upt_Suc)
  moreover have "distinct (ns @ ?ms)" using ms dm assms(4) by (auto simp: simple_query_def)
  moreover have "set (ns @ ?ms) \<subseteq> set (col_names ?s)" "expr_columns c \<subseteq> set (ns @ ?ms)"
    using ms assms(5) sub unfolding set_append by blast+
  ultimately show ?thesis by blast
qed

lemma traverse_idx_take: "n \<le> length xs \<Longrightarrow> traverse (idx xs) [0..<n] = Ok (take n xs)"
proof -
  assume n: "n \<le> length xs"
  then have "traverse (idx xs) [0..<n] = Ok (List.map ((!) xs) [0..<n])" by (intro traverse_all_Ok) (auto simp: idx_def)
  moreover have "List.map ((!) xs) [0..<n] = take n xs" using n by (intro nth_equalityI) auto
  ultimately show ?thesis by simp
qed

lemma with_limit_runnable:
  assumes "plan_ok E x" "optimizable E x" "stable x" "schema_known {} x" "asks_columns {} x"
  shows "plan_ok E (df_plan (with_limit q \<lparr>df_plan = x\<rparr>))" "optimizable E (df_plan (with_limit q \<lparr>df_plan = x\<rparr>))"
    "stable (df_plan (with_limit q \<lparr>df_plan = x\<rparr>))" "schema_known {} (df_plan (with_limit q \<lparr>df_plan = x\<rparr>))"
  using assms plan_ok.limit by (auto simp: with_limit_def df_limit_def split: option.split)

definition runnable :: "env \<Rightarrow> LogicalPlan \<Rightarrow> bool" where
  "runnable E x = (plan_ok E x \<and> optimizable E x \<and> stable x \<and> schema_known {} x)"

lemma simple_query_runnable:
  assumes "plan_ok E p" "tbls (sel_table_name q) = Some T" "df_plan T = p" "simple_query q ns"
    "set ns \<subseteq> set (col_names (schema_of E p))" "p = Scan path ds [] s" "optimizable E p"
    "\<forall>c. where_expr E q = Some c \<longrightarrow> well_typed E p c T_Boolean \<and> evaluates E p [c]"
  shows "\<exists>df. create_data_frame E q tbls = Ok df \<and> runnable E (df_plan df)"
proof (cases "sel_selection q")
  case None
  have ns: "ns \<noteq> []" using assms(4) by (simp add: simple_query_def)
  let ?x = "Projection p (List.map Column ns)"
  have "create_data_frame E q tbls = Ok (with_limit q \<lparr>df_plan = ?x\<rparr>)"
    using assms(2-4) by (simp add: create_data_frame_def simple_query_def identifiers_planned columns_not_aggregates
        columns_referenced_by_selection_def plan_non_aggregate_query_def df_project_def None)
  moreover have "optimizable E ?x" "stable ?x" "schema_known {} ?x" "asks_columns {} ?x"
    using assms(6,7) by (auto simp: admissible_def list_all_iff asks_columns_def)
  ultimately show ?thesis using with_limit_runnable [OF columns_projection(1) [OF assms(1) ns assms(5)]] unfolding runnable_def by blast
next
  case (Some w)
  obtain c where c: "where_expr E q = Some c" "create_logical_expr E w = Ok c" "cond_expr c"
    using simple_where [OF assms(4) Some] by blast
  have wt: "well_typed E p c T_Boolean" and ev: "evaluates E p [c]" using assms(8) c(1) by blast+
  have bn: "by_name c" by (rule cond_not_aggregate [OF c(3)])
  obtain ms where ms: "distinct (ns @ ms)" "set (ns @ ms) \<subseteq> set (col_names (schema_of E p))" "expr_columns c \<subseteq> set (ns @ ms)"
    and plan: "create_data_frame E q tbls = and_then (if ms = [] then Ok \<lparr>df_plan = Selection (Projection p (List.map Column ns)) c\<rparr>
          else and_then (plan_schema E (Projection p (List.map Column (ns @ ms)))) (\<lambda>s.
            map_res (\<lambda>fs. \<lparr>df_plan = Projection (Selection (Projection p (List.map Column (ns @ ms))) c) (List.map (\<lambda>f. Column (f_name f)) fs)\<rparr>)
              (traverse (idx (s_fields s)) [0..<length ns])))
        (\<lambda>d. Ok (with_limit q d))"
    using simple_selection_plan [where tbls = tbls, OF assms(1-5) Some c(1) wt] by blast
  have ns: "ns \<noteq> []" "ns @ ms \<noteq> []" using assms(4) by (simp_all add: simple_query_def)
  let ?P = "Projection p (List.map Column (ns @ ms))"
  let ?S = "Selection ?P c"
  note pr = columns_projection [OF assms(1) ns(2) ms(2)]
  have sel: "plan_ok E ?S" by (rule condition_on_projection [OF assms(1) ns(2) ms(2,1) wt c(3) ms(3) ev])
  have oP: "optimizable E ?P" "optimizable E ?S" "stable ?S" "schema_known {} ?S" "asks_columns {} ?S"
    using assms(6,7) bn by (auto simp: admissible_def list_all_iff asks_columns_def Let_def)
  show ?thesis
  proof (cases "ms = []")
    case True
    then show ?thesis using plan with_limit_runnable [OF sel oP(2-5)] unfolding runnable_def by simp
  next
    case False
    let ?s = "schema_of E ?P"
    have len: "length ns \<le> length (s_fields ?s)" using arg_cong [OF pr(3), of length] by simp
    have fs: "traverse (idx (s_fields ?s)) [0..<length ns] = Ok (take (length ns) (s_fields ?s))"
      by (rule traverse_idx_take [OF len])
    have "List.map (\<lambda>f. Column (f_name f)) (take (length ns) (s_fields ?s)) = List.map Column (take (length ns) (col_names ?s))"
      by (simp add: take_map)
    then have names: "List.map (\<lambda>f. Column (f_name f)) (take (length ns) (s_fields ?s)) = List.map Column ns" unfolding pr(3) by simp
    have df: "create_data_frame E q tbls = Ok (with_limit q \<lparr>df_plan = Projection ?S (List.map Column ns)\<rparr>)"
      unfolding plan if_not_P [OF False] plan_ok_schema [OF pr(1)] and_then_simps fs map_res_simps names ..
    have "schema_of E ?S = ?s" by (simp add: schema_of_def)
    then have "set ns \<subseteq> set (col_names (schema_of E ?S))" using pr(3) by simp
    note okP = columns_projection(1) [OF sel ns(1) this]
    have "optimizable E (Projection ?S (List.map Column ns))" "stable (Projection ?S (List.map Column ns))"
      "schema_known {} (Projection ?S (List.map Column ns))" "asks_columns {} (Projection ?S (List.map Column ns))"
      using oP assms(6) by (auto simp: admissible_def list_all_iff asks_columns_def Let_def)
    then show ?thesis using df with_limit_runnable [OF okP] unfolding runnable_def by blast
  qed
qed

text \<open>The rows of a simple query: those of the table on which the condition is TRUE, cut to the
  wanted columns, at most LIMIT of them.\<close>

definition simple_rows :: "env \<Rightarrow> Schema \<Rightarrow> SqlSelect \<Rightarrow> string list \<Rightarrow> ScalarValue list list \<Rightarrow> ScalarValue list list" where
  "simple_rows E s q ns R = limited q (List.map (\<lambda>r. List.map (\<lambda>n. the_ok (column_value s n r)) ns)
     (List.filter (\<lambda>r. case where_expr E q of None \<Rightarrow> True
        | Some c \<Rightarrow> logical_value s c r = Ok (V_Boolean True)) R))"

lemma column_value_on:
  assumes "plan_ok E p" "n \<in> set (col_names (schema_of E p))"
  shows "value_on E p (Column n) r = column_value (schema_of E p) n r"
proof -
  obtain k where "column_of [] (schema_of E p) n = Ok k" using column_of_Ok [OF assms(2)] by blast
  then show ?thesis by (simp add: value_on_def column_value_def column_of_def expect_eq_Ok)
qed

lemma simple_query_rows:
  assumes "create_data_frame E q tbls = Ok df" "tbls (sel_table_name q) = Some T" "simple_query q ns" "plan_ok E (df_plan df)"
    "plan_ok E (df_plan T)" "schema_of E (df_plan T) = s" "set ns \<subseteq> set (col_names s)"
  shows "results E (df_plan df) = simple_rows E s q ns ` results E (df_plan T)"
proof -
  let ?p = "df_plan T" and ?es = "List.map Column ns"
  have ns: "ns \<noteq> []" "distinct ns" "traverse (create_logical_expr E) (sel_projection q) = Ok ?es"
    using assms(3) identifiers_planned by (simp_all add: simple_query_def)
  have sub: "set ns \<subseteq> set (col_names (schema_of E ?p))" using assms(6,7) by simp
  note pr = columns_projection [OF assms(5) ns(1) sub]
  have "results E (df_plan df) = (\<lambda>R. limited q (List.map (row_of E ?p ?es) (List.filter (where_holds E ?p q) R))) ` results E ?p"
    by (rule plain_query_meaning [OF assms(1,2) ns(3) _ assms(4)])
      (use pr(5,6) ns(2) in \<open>simp_all add: list_all_iff is_aggregate_expr_def del: List.map_map\<close>)
  moreover have "row_of E ?p ?es = (\<lambda>r. List.map (\<lambda>n. the_ok (column_value s n r)) ns)"
    using column_value_on [OF assms(5)] assms(6,7) by (auto simp: row_of_def fun_eq_iff)
  moreover have "where_holds E ?p q = (\<lambda>r. case where_expr E q of None \<Rightarrow> True
      | Some c \<Rightarrow> logical_value s c r = Ok (V_Boolean True))"
    using plan_ok_schema [OF assms(5)] assms(6)
    by (auto simp: where_holds_def where_expr_def value_on_def fun_eq_iff split: option.split)
  ultimately show ?thesis unfolding simple_rows_def by (simp only:)
qed

lemma scan_table_ok:
  assumes "source_ok E ds s bs" "distinct (col_names s)"
  shows "plan_ok E (Scan path ds [] s)" "schema_of E (Scan path ds [] s) = s" "optimizable E (Scan path ds [] s)"
    "results E (Scan path ds [] s) = {stream_rows bs}"
proof -
  have so: "ds_scan E ds [] = Ok (List.map Ok bs)" "list_all (typed s) bs" "ds_schema E ds = Ok s"
    using assms(1) unfolding source_ok_def by blast+
  show "plan_ok E (Scan path ds [] s)" by (rule plan_ok.scan [OF so(1,2)]) (simp add: derive_schema_def so(3))
  show "schema_of E (Scan path ds [] s) = s" by (simp add: schema_of_def)
  show "optimizable E (Scan path ds [] s)" using assms by auto
  show "results E (Scan path ds [] s) = {stream_rows bs}" using so(1) by (simp add: comp_def)
qed

lemma simple_text_runs:
  assumes "env_ok E" "source_ok E ds s bs" "distinct (col_names s)" "tables c (sel_table_name q) = Some \<lparr>df_plan = Scan path ds [] s\<rparr>"
    "printable_select q" "plain_select q" "simple_query q ns" "set ns \<subseteq> set (col_names s)"
    "pred_option (\<lambda>c. well_typed E (Scan path ds [] s) c T_Boolean) (where_expr E q)"
  shows "\<exists>cs. and_then (context_sql E c (print_tokens (select_tokens q))) (execute_data_frame E) = Ok (List.map Ok cs)
     \<and> stream_rows cs = simple_rows E s q ns (stream_rows bs)"
proof -
  let ?p = "Scan path ds [] s"
  note t = scan_table_ok [OF assms(2,3), of path]
  have ty: "list_all (typed s) bs" using assms(2) unfolding source_ok_def by blast
  have wt: "well_typed E ?p c T_Boolean \<and> evaluates E ?p [c]" if c: "where_expr E q = Some c" for c
  proof -
    obtain w where w: "sel_selection q = Some w" using c by (auto simp: where_expr_def)
    have "cond_expr c" using simple_where [OF assms(7) w, of E] c by auto
    then show ?thesis using condition_evaluates [OF ty t(1,2,4)] assms(9) c by simp
  qed
  have sub: "set ns \<subseteq> set (col_names (schema_of E ?p))" using assms(8) t(2) by simp
  obtain df where df: "create_data_frame E q (tables c) = Ok df" "runnable E (df_plan df)"
    using simple_query_runnable [where tbls = "tables c" and T = "\<lparr>df_plan = ?p\<rparr>" and p = ?p, OF t(1) assms(4) _ assms(7) sub refl t(3)] wt by auto
  have "results E (df_plan df) = {simple_rows E s q ns (stream_rows bs)}"
    using simple_query_rows [where tbls = "tables c" and T = "\<lparr>df_plan = ?p\<rparr>", OF df(1) assms(4,7) _ _ _ assms(8)] df(2) t
    unfolding runnable_def by (simp del: results.simps)
  then show ?thesis
    using query_runs [OF assms(1), of "df_plan df"] df sql_of_printed [OF assms(5,6), of E c]
    by (auto simp: runnable_def execute_data_frame_def simp del: results.simps)
qed

section \<open>Properties\<close>

text \<open>C1: Simple queries always run, and return what SQL says: the text of
  @SELECT columns FROM t [WHERE condition] [LIMIT n]@, over a table with distinct column names
  that its source can read, where the condition is built with AND and OR from comparisons of
  columns and literals and has type Boolean over the columns of the table, is tokenized, parsed, planned, optimized, lowered and
  executed without a panic, and the rows are, in the order of the table, the wanted columns of
  the rows on which the condition is TRUE, at most @n@ of them.\<close>

theorem simple_select_total:
  assumes "env_ok E" "source_ok E ds s bs" "distinct (col_names s)" "tables c (sel_table_name q) = Some \<lparr>df_plan = Scan path ds [] s\<rparr>"
    "printable_select q" "plain_select q" "simple_query q ns" "set ns \<subseteq> set (col_names s)"
    "pred_option (\<lambda>c. well_typed E (Scan path ds [] s) c T_Boolean) (where_expr E q)"
  shows "\<exists>cs. and_then (context_sql E c (print_tokens (select_tokens q))) (execute_data_frame E) = Ok (List.map Ok cs)
     \<and> stream_rows cs = simple_rows E s q ns (stream_rows bs)"
  by (rule simple_text_runs [OF assms])

theorem simple_select_total_witness:
  "\<exists>cs. and_then (context_sql ref_env sample_context ''SELECT id FROM t WHERE name = 'a' LIMIT 1 '')
       (execute_data_frame ref_env) = Ok (List.map Ok cs) \<and> stream_rows cs = [[V_Int32 7]]"
proof -
  have txt_eq: "print_tokens (select_tokens sample_select) = ''SELECT id FROM t WHERE name = 'a' LIMIT 1 ''"
    unfolding sample_select_def by code_simp
  have ok: "printable_select sample_select" "plain_select sample_select" "simple_query sample_select [''id'']"
    by (simp_all add: sample_select_def printable_select_def is_operator_def operators_def is_sort_def plain_select_def plain_name_def
        simple_query_def)
  have w: "where_expr ref_env sample_select = Some sample_where"
    by (simp add: where_expr_def sample_select_def binary_expr_def)
  let ?ds = "In_Memory sample_schema [sample_batch, sample_batch]"
  have p: "plan_schema ref_env (Scan ''t'' ?ds [] sample_schema) = Ok sample_schema" by simp
  have wt: "pred_option (\<lambda>c. well_typed ref_env (Scan ''t'' ?ds [] sample_schema) c T_Boolean) (where_expr ref_env sample_select)"
    using name_is_a(1) [OF p] by (simp add: w)
  have t: "tables sample_context (sel_table_name sample_select) = Some \<lparr>df_plan = Scan ''t'' ?ds [] sample_schema\<rparr>"
    by (simp add: sample_context_tables sample_select_def sample_table_def)
  have d: "distinct (col_names sample_schema)" "set [''id''] \<subseteq> set (col_names sample_schema)"
    by (simp_all add: new_schema_def new_field_def)
  have holds: "logical_value sample_schema sample_where r = value_on ref_env sample_table sample_where r" for r
    by (simp add: value_on_def schema_of_def sample_table_ok(2))
  have "simple_rows ref_env sample_schema sample_select [''id''] (stream_rows [sample_batch, sample_batch]) = [[V_Int32 7]]"
    using name_is_a(2) [OF sample_table_ok(2)] unfolding simple_rows_def w sample_rows option.case holds
    by (simp add: limited_def sample_select_def i32_as_usize_def column_value_def column_of_def new_schema_def new_field_def idx_def)
  then show ?thesis
    using simple_select_total [OF ref_env_ok sample_table_ok(4) d(1) t ok d(2) wt] unfolding txt_eq by simp
qed

end
