(* ===== verification/Distributed.thy ===== *)
theory Distributed
  imports Execution
begin

text \<open>
  Distributed execution (crate @distributed@ and @physical-plan/src/task.rs@): the planner cuts
  an aggregate into two stages at a shuffle, the scheduler runs the stages in order.  The trait
  @ExecutorClient@ is a record of its two operations over the state @'s@ of the cluster, which
  a task may change; the job id the scheduler draws with @Uuid::new_v4@ is an argument.
\<close>

section \<open>Configuration\<close>

record ExecutorConfig =
  ec_id :: string
  ec_host :: string
  ec_port :: "32 word"

definition executor_config_new :: "string \<Rightarrow> string \<Rightarrow> 32 word \<Rightarrow> ExecutorConfig" where
  "executor_config_new i h p = \<lparr>ec_id = i, ec_host = h, ec_port = p\<rparr>"

record DistributedConfig =
  executors :: "ExecutorConfig list"
  shuffle_dir :: string
  default_partitions :: "32 word"

definition distributed_config_new :: "ExecutorConfig list \<Rightarrow> DistributedConfig" where
  "distributed_config_new es = \<lparr>executors = es, shuffle_dir = ''/tmp/rquery-shuffle'', default_partitions = 0\<rparr>"

definition with_shuffle_dir :: "DistributedConfig \<Rightarrow> string \<Rightarrow> DistributedConfig" where
  "with_shuffle_dir c d = c\<lparr>shuffle_dir := d\<rparr>"

definition with_default_partitions :: "DistributedConfig \<Rightarrow> 32 word \<Rightarrow> DistributedConfig" where
  "with_default_partitions c n = c\<lparr>default_partitions := n\<rparr>"

definition partition_count :: "DistributedConfig \<Rightarrow> 32 word" where
  "partition_count c = (if 0 <s default_partitions c then default_partitions c
     else word_of_nat (length (executors c)))"

section \<open>Stages and tasks\<close>

record QueryStage =
  st_id :: "32 word"
  st_plan :: phys_plan
  st_dependencies :: "32 word list"
  st_partition_count :: "32 word"
  st_is_final :: bool

definition stage_new :: "32 word \<Rightarrow> phys_plan \<Rightarrow> QueryStage" where
  "stage_new i p = \<lparr>st_id = i, st_plan = p, st_dependencies = [], st_partition_count = 1, st_is_final = False\<rparr>"

definition with_dependencies :: "QueryStage \<Rightarrow> 32 word list \<Rightarrow> QueryStage" where
  "with_dependencies s ds = s\<lparr>st_dependencies := ds\<rparr>"

definition with_partition_count :: "QueryStage \<Rightarrow> 32 word \<Rightarrow> QueryStage" where
  "with_partition_count s n = s\<lparr>st_partition_count := n\<rparr>"

definition as_final_stage :: "QueryStage \<Rightarrow> QueryStage" where
  "as_final_stage s = s\<lparr>st_is_final := True\<rparr>"

definition with_plan :: "QueryStage \<Rightarrow> phys_plan \<Rightarrow> QueryStage" where
  "with_plan s p = s\<lparr>st_plan := p\<rparr>"

record Task =
  t_job_uuid :: string
  t_stage_id :: "32 word"
  t_task_id :: "32 word"
  t_partition_id :: "32 word"
  t_plan :: phys_plan

definition task_new :: "string \<Rightarrow> 32 word \<Rightarrow> 32 word \<Rightarrow> 32 word \<Rightarrow> phys_plan \<Rightarrow> Task" where
  "task_new job st t p plan =
     \<lparr>t_job_uuid = job, t_stage_id = st, t_task_id = t, t_partition_id = p, t_plan = plan\<rparr>"

section \<open>The planner\<close>

definition plan_aggregate :: "DistributedConfig \<Rightarrow> phys_plan \<Rightarrow> phys_expr list \<Rightarrow> phys_aggr list \<Rightarrow> Schema
    \<Rightarrow> string \<Rightarrow> QueryStage list" where
  "plan_aggregate c i gs as s job =
     (let n = partition_count c;
          stage0 = with_partition_count
            (stage_new 0 (Shuffle_Writer_Exec (Hash_Aggregate_Exec i gs as s Partial) gs job 0 n)) n;
          stage1 = as_final_stage (with_dependencies
            (stage_new 1 (Hash_Aggregate_Exec (Shuffle_Reader_Exec s []) gs as s Final)) [0])
      in [stage0, stage1])"

definition plan_stages :: "DistributedConfig \<Rightarrow> phys_plan \<Rightarrow> string \<Rightarrow> QueryStage list" where
  "plan_stages c p job = (case p of
      Hash_Aggregate_Exec i gs as s m \<Rightarrow> plan_aggregate c i gs as s job
    | _ \<Rightarrow> [as_final_stage (stage_new 0 p)])"

fun substitute_shuffle_reader :: "ShuffleLocation list \<Rightarrow> phys_plan \<Rightarrow> phys_plan res" where
  "substitute_shuffle_reader locs (Shuffle_Reader_Exec s ls) = Ok (Shuffle_Reader_Exec s locs)"
| "substitute_shuffle_reader locs (Scan_Exec ds ns) = with_new_children (Scan_Exec ds ns) []"
| "substitute_shuffle_reader locs (Projection_Exec i s es) =
     and_then (substitute_shuffle_reader locs i) (\<lambda>c. with_new_children (Projection_Exec i s es) [c])"
| "substitute_shuffle_reader locs (Selection_Exec i e) =
     and_then (substitute_shuffle_reader locs i) (\<lambda>c. with_new_children (Selection_Exec i e) [c])"
| "substitute_shuffle_reader locs (Limit_Exec i n) =
     and_then (substitute_shuffle_reader locs i) (\<lambda>c. with_new_children (Limit_Exec i n) [c])"
| "substitute_shuffle_reader locs (Hash_Aggregate_Exec i gs as s m) =
     and_then (substitute_shuffle_reader locs i) (\<lambda>c. with_new_children (Hash_Aggregate_Exec i gs as s m) [c])"
| "substitute_shuffle_reader locs (Hash_Join_Exec l r jt lk rk s ex) =
     and_then (substitute_shuffle_reader locs l) (\<lambda>a. and_then (substitute_shuffle_reader locs r) (\<lambda>b.
       with_new_children (Hash_Join_Exec l r jt lk rk s ex) [a, b]))"
| "substitute_shuffle_reader locs (Shuffle_Writer_Exec i es job st n) =
     and_then (substitute_shuffle_reader locs i) (\<lambda>c. with_new_children (Shuffle_Writer_Exec i es job st n) [c])"

definition update_shuffle_locations :: "QueryStage \<Rightarrow> ShuffleLocation list \<Rightarrow> QueryStage res" where
  "update_shuffle_locations s locs = map_res (with_plan s) (substitute_shuffle_reader locs (st_plan s))"

section \<open>The scheduler\<close>

record 's executor_client =
  cl_execute_task :: "'s \<Rightarrow> ExecutorConfig \<Rightarrow> Task \<Rightarrow> (ShuffleLocation list \<times> 's) res"
  cl_execute_final_task :: "'s \<Rightarrow> ExecutorConfig \<Rightarrow> Task \<Rightarrow> stream res"

type_synonym locations_by_stage = "32 word \<rightharpoonup> ShuffleLocation list"

definition check_dependencies :: "locations_by_stage \<Rightarrow> QueryStage \<Rightarrow> unit res" where
  "check_dependencies ls s = guard_res (list_all (\<lambda>d. ls d \<noteq> None) (st_dependencies s))
     (Panicked ''Stage depends on a stage which hasn't completed'')"

definition input_locations :: "locations_by_stage \<Rightarrow> QueryStage \<Rightarrow> ShuffleLocation list" where
  "input_locations ls s = concat (List.map (\<lambda>d. case ls d of Some l \<Rightarrow> l | None \<Rightarrow> []) (st_dependencies s))"

definition updated_stage :: "locations_by_stage \<Rightarrow> QueryStage \<Rightarrow> QueryStage res" where
  "updated_stage ls s = and_then (check_dependencies ls s) (\<lambda>_.
     if input_locations ls s \<noteq> [] then update_shuffle_locations s (input_locations ls s) else Ok s)"

text \<open>Partition @p@ runs on executor @p mod length@; the range @0..n@ of a negative count is
  empty.\<close>

definition partition_ids :: "QueryStage \<Rightarrow> nat list" where
  "partition_ids s = [0..<nat (sint (st_partition_count s))]"

definition task_executor :: "DistributedConfig \<Rightarrow> nat \<Rightarrow> ExecutorConfig res" where
  "task_executor c p = (if executors c = [] then Panic Divide_By_Zero
     else Ok (executors c ! (p mod length (executors c))))"

definition stage_task :: "string \<Rightarrow> QueryStage \<Rightarrow> nat \<Rightarrow> Task" where
  "stage_task job s p = task_new job (st_id s) (word_of_nat p) (word_of_nat p) (st_plan s)"

definition dispatch_task :: "'s executor_client \<Rightarrow> DistributedConfig \<Rightarrow> string \<Rightarrow> QueryStage
    \<Rightarrow> ShuffleLocation list \<times> 's \<Rightarrow> nat \<Rightarrow> (ShuffleLocation list \<times> 's) res" where
  "dispatch_task cl c job s a p = and_then (task_executor c p) (\<lambda>e.
     map_res (\<lambda>(ls, w). (fst a @ ls, w)) (cl_execute_task cl (snd a) e (stage_task job s p)))"

definition execute_stage :: "'s executor_client \<Rightarrow> DistributedConfig \<Rightarrow> string \<Rightarrow> QueryStage \<Rightarrow> 's
    \<Rightarrow> (ShuffleLocation list \<times> 's) res" where
  "execute_stage cl c job s w = fold_res (dispatch_task cl c job s) ([], w) (partition_ids s)"

definition execute_final_stage :: "'s executor_client \<Rightarrow> DistributedConfig \<Rightarrow> string \<Rightarrow> QueryStage \<Rightarrow> 's
    \<Rightarrow> stream res" where
  "execute_final_stage cl c job s w = (case executors c of
      [] \<Rightarrow> Panic (Panicked ''DistributedConfig has no executors'')
    | e # es \<Rightarrow> cl_execute_final_task cl w e (task_new job (st_id s) 0 0 (st_plan s)))"

fun run_stages :: "'s executor_client \<Rightarrow> DistributedConfig \<Rightarrow> string \<Rightarrow> QueryStage list \<Rightarrow> locations_by_stage
    \<Rightarrow> 's \<Rightarrow> (stream \<times> 's) res" where
  "run_stages cl c job [] ls w = Panic (Panicked ''Distributed plan had no final stage'')"
| "run_stages cl c job (s # ss) ls w = and_then (updated_stage ls s) (\<lambda>u.
     if st_is_final u then map_res (\<lambda>xs. (xs, w)) (execute_final_stage cl c job u w)
     else and_then (execute_stage cl c job u w) (\<lambda>(l, w'). run_stages cl c job ss (ls(st_id u \<mapsto> l)) w'))"

definition scheduler_execute :: "'s executor_client \<Rightarrow> DistributedConfig \<Rightarrow> string \<Rightarrow> phys_plan \<Rightarrow> 's
    \<Rightarrow> (stream \<times> 's) res" where
  "scheduler_execute cl c job p w =
     run_stages cl c job (linorder_class.sort_key (\<lambda>s. sint (st_id s)) (plan_stages c p job)) Map.empty w"

section \<open>The distributed context\<close>

record 's DistributedContext =
  d_tables :: "string \<rightharpoonup> DataFrame"
  d_config :: DistributedConfig
  d_client :: "'s executor_client"

definition distributed_context_new :: "DistributedConfig \<Rightarrow> 's executor_client \<Rightarrow> 's DistributedContext" where
  "distributed_context_new c cl = \<lparr>d_tables = Map.empty, d_config = c, d_client = cl\<rparr>"

definition d_register :: "'s DistributedContext \<Rightarrow> string \<Rightarrow> DataFrame \<Rightarrow> 's DistributedContext" where
  "d_register c n df = c\<lparr>d_tables := (d_tables c)(n \<mapsto> df)\<rparr>"

definition d_register_csv :: "env \<Rightarrow> 's DistributedContext \<Rightarrow> string \<Rightarrow> string \<Rightarrow> bool \<Rightarrow> 's DistributedContext res" where
  "d_register_csv E c n path h =
     map_res (\<lambda>p. d_register c n \<lparr>df_plan = p\<rparr>) (scan_new E path (Csv (csv_new path None h 1024)) [])"

definition d_execute :: "env \<Rightarrow> 's DistributedContext \<Rightarrow> string \<Rightarrow> LogicalPlan \<Rightarrow> 's \<Rightarrow> (stream \<times> 's) res" where
  "d_execute E c job p w = and_then (plan_query E p) (\<lambda>pp. scheduler_execute (d_client c) (d_config c) job pp w)"

definition d_sql :: "env \<Rightarrow> 's DistributedContext \<Rightarrow> string \<Rightarrow> string \<Rightarrow> 's \<Rightarrow> (stream \<times> 's) res" where
  "d_sql E c job sql w = and_then (parse_query sql) (\<lambda>q. and_then (create_data_frame E q (d_tables c))
     (\<lambda>df. d_execute E c job (df_plan df) w))"

end
