(* ===== verification/Distributed_Props.thy ===== *)
theory Distributed_Props
  imports Distributed "HOL-Library.Sublist"
begin

text \<open>
  The scheduler as a state machine: one step per task, with the tasks it has dispatched as a
  log.  The function @run_stages@ computes exactly its runs; the log invariant; progress.
\<close>

section \<open>The state machine\<close>

text \<open>The scheduler between two stages, in a stage with the partitions still to dispatch and the
  locations collected so far, at the end, or stopped by a panic.\<close>

datatype 's sched =
    Between "QueryStage list" locations_by_stage 's
  | In_Stage QueryStage "nat list" "ShuffleLocation list" "QueryStage list" locations_by_stage 's
  | Finished stream 's
  | Failed panic

type_synonym dispatch = "ExecutorConfig \<times> Task"

inductive sched_step :: "'s executor_client \<Rightarrow> DistributedConfig \<Rightarrow> string
    \<Rightarrow> 's sched \<Rightarrow> dispatch list \<Rightarrow> 's sched \<Rightarrow> bool" for cl c job where
  no_final: "sched_step cl c job (Between [] ls w) [] (Failed (Panicked ''Distributed plan had no final stage''))"
| not_ready: "updated_stage ls s = Panic p \<Longrightarrow> sched_step cl c job (Between (s # ss) ls w) [] (Failed p)"
| start: "updated_stage ls s = Ok u \<Longrightarrow> \<not> st_is_final u \<Longrightarrow>
     sched_step cl c job (Between (s # ss) ls w) [] (In_Stage u (partition_ids u) [] ss ls w)"
| finish: "updated_stage ls s = Ok u \<Longrightarrow> st_is_final u \<Longrightarrow> execute_final_stage cl c job u w = Ok xs \<Longrightarrow>
     sched_step cl c job (Between (s # ss) ls w) [] (Finished xs w)"
| finish_fails: "updated_stage ls s = Ok u \<Longrightarrow> st_is_final u \<Longrightarrow> execute_final_stage cl c job u w = Panic p \<Longrightarrow>
     sched_step cl c job (Between (s # ss) ls w) [] (Failed p)"
| task: "task_executor c p = Ok e \<Longrightarrow> cl_execute_task cl w e (stage_task job u p) = Ok (l, w') \<Longrightarrow>
     sched_step cl c job (In_Stage u (p # ps) acc ss ls w) [(e, stage_task job u p)] (In_Stage u ps (acc @ l) ss ls w')"
| task_fails: "dispatch_task cl c job u (acc, w) p = Panic q \<Longrightarrow>
     sched_step cl c job (In_Stage u (p # ps) acc ss ls w) [] (Failed q)"
| stage_done: "sched_step cl c job (In_Stage u [] acc ss ls w) [] (Between ss (ls(st_id u \<mapsto> acc)) w)"

inductive_cases sched_step_betweenE: "sched_step cl c job (Between ss ls w) l \<sigma>"
inductive_cases sched_step_stageE: "sched_step cl c job (In_Stage u ps acc ss ls w) l \<sigma>"

inductive_simps sched_step_end [simp]:
  "sched_step cl c job (Finished xs w) l \<sigma>"
  "sched_step cl c job (Failed p) l \<sigma>"

inductive sched_run :: "'s executor_client \<Rightarrow> DistributedConfig \<Rightarrow> string
    \<Rightarrow> 's sched \<Rightarrow> dispatch list \<Rightarrow> nat \<Rightarrow> 's sched \<Rightarrow> bool" for cl c job where
  none: "sched_run cl c job \<sigma> [] 0 \<sigma>"
| step: "sched_run cl c job \<sigma> log n \<tau> \<Longrightarrow> sched_step cl c job \<tau> l \<tau>' \<Longrightarrow> sched_run cl c job \<sigma> (log @ l) (Suc n) \<tau>'"

definition sched_start :: "DistributedConfig \<Rightarrow> string \<Rightarrow> phys_plan \<Rightarrow> 's \<Rightarrow> 's sched" where
  "sched_start c job p w = Between (linorder_class.sort_key (\<lambda>s. sint (st_id s)) (plan_stages c p job)) Map.empty w"

lemma dispatch_task_Ok:
  "dispatch_task cl c job u (acc, w) p = Ok (acc', w') \<longleftrightarrow>
     (\<exists>e l. task_executor c p = Ok e \<and> cl_execute_task cl w e (stage_task job u p) = Ok (l, w') \<and> acc' = acc @ l)"
  by (auto simp: dispatch_task_def and_then_eq_Ok map_res_eq_Ok)

lemma sched_run_one: "sched_step cl c job \<sigma> l \<tau> \<Longrightarrow> sched_run cl c job \<sigma> l (Suc 0) \<tau>"
  using sched_run.step [OF sched_run.none] by fastforce

lemma sched_run_trans:
  assumes "sched_run cl c job \<rho> log n \<sigma>" "sched_run cl c job \<sigma> log' m \<tau>"
  shows "sched_run cl c job \<rho> (log @ log') (n + m) \<tau>"
  using assms(2,1)
proof (induction rule: sched_run.induct)
  case (step \<sigma> log' m \<tau> l \<tau>')
  show ?case using sched_run.step [OF step.IH [OF step.prems] step.hyps(2)] by simp
qed simp

lemma sched_run_step: "sched_step cl c job \<sigma> l \<tau> \<Longrightarrow> sched_run cl c job \<tau> log n \<upsilon> \<Longrightarrow> sched_run cl c job \<sigma> (l @ log) (Suc n) \<upsilon>"
  using sched_run_trans [OF sched_run_one] by fastforce

section \<open>The function computes the runs\<close>

text \<open>What the code still computes from a state, and how many steps that takes at most.\<close>

fun resume :: "'s executor_client \<Rightarrow> DistributedConfig \<Rightarrow> string \<Rightarrow> 's sched \<Rightarrow> (stream \<times> 's) res" where
  "resume cl c job (Between ss ls w) = run_stages cl c job ss ls w"
| "resume cl c job (In_Stage u ps acc ss ls w) = and_then (fold_res (dispatch_task cl c job u) (acc, w) ps)
     (\<lambda>(l, w'). run_stages cl c job ss (ls(st_id u \<mapsto> l)) w')"
| "resume cl c job (Finished xs w) = Ok (xs, w)"
| "resume cl c job (Failed p) = Panic p"

fun stage_steps :: "QueryStage list \<Rightarrow> nat" where
  "stage_steps [] = 1"
| "stage_steps (s # ss) = (if st_is_final s then 1 else length (partition_ids s) + 2 + stage_steps ss)"

fun steps_left :: "'s sched \<Rightarrow> nat" where
  "steps_left (Between ss ls w) = stage_steps ss"
| "steps_left (In_Stage u ps acc ss ls w) = length ps + 1 + stage_steps ss"
| "steps_left (Finished xs w) = 0"
| "steps_left (Failed p) = 0"

definition ended :: "'s sched \<Rightarrow> bool" where
  "ended \<sigma> = (case \<sigma> of Finished xs w \<Rightarrow> True | Failed p \<Rightarrow> True | _ \<Rightarrow> False)"

lemma updated_stage_same:
  "updated_stage ls s = Ok u \<Longrightarrow> st_id u = st_id s \<and> st_dependencies u = st_dependencies s
     \<and> st_is_final u = st_is_final s \<and> partition_ids u = partition_ids s \<and> set (st_dependencies s) \<subseteq> dom ls"
  by (auto simp: updated_stage_def check_dependencies_def and_then_eq_Ok update_shuffle_locations_def map_res_eq_Ok
      with_plan_def partition_ids_def list_all_iff split: if_splits)

lemma step_resume: "sched_step cl c job \<sigma> l \<tau> \<Longrightarrow> resume cl c job \<tau> = resume cl c job \<sigma>"
proof (induction rule: sched_step.induct)
  case (task p e w u l w' ps acc ss ls)
  then have "dispatch_task cl c job u (acc, w) p = Ok (acc @ l, w')" by (simp add: dispatch_task_Ok)
  then show ?case by simp
qed (auto simp: execute_stage_def)

lemma step_decreases: "sched_step cl c job \<sigma> l \<tau> \<Longrightarrow> steps_left \<tau> < steps_left \<sigma>"
  by (induction rule: sched_step.induct) (auto dest: updated_stage_same)

lemma step_exists: "\<not> ended \<sigma> \<Longrightarrow> \<exists>l \<tau>. sched_step cl c job \<sigma> l \<tau>"
proof (cases \<sigma>)
  case (Between ss ls w)
  show ?thesis
  proof (cases ss)
    case Nil
    show ?thesis unfolding Between Nil by (blast intro: sched_step.no_final)
  next
    case (Cons s ss')
    show ?thesis
    proof (cases "updated_stage ls s")
      case (Ok u)
      show ?thesis
      proof (cases "st_is_final u")
        case True
        show ?thesis unfolding Between Cons
          by (cases "execute_final_stage cl c job u w") (blast intro: sched_step.finish [OF Ok True] sched_step.finish_fails [OF Ok True])+
      next
        case False
        show ?thesis unfolding Between Cons by (blast intro: sched_step.start [OF Ok False])
      qed
    next
      case (Panic p)
      show ?thesis unfolding Between Cons by (blast intro: sched_step.not_ready [OF Panic])
    qed
  qed
next
  case (In_Stage u ps acc ss ls w)
  show ?thesis
  proof (cases ps)
    case Nil
    show ?thesis unfolding In_Stage Nil by (blast intro: sched_step.stage_done)
  next
    case (Cons p ps')
    show ?thesis
    proof (cases "dispatch_task cl c job u (acc, w) p")
      case (Ok x)
      then obtain acc' w' where "dispatch_task cl c job u (acc, w) p = Ok (acc', w')" by (cases x) auto
      then show ?thesis unfolding In_Stage Cons dispatch_task_Ok by (blast intro: sched_step.task)
    next
      case (Panic q)
      show ?thesis unfolding In_Stage Cons by (blast intro: sched_step.task_fails [OF Panic])
    qed
  qed
qed (simp_all add: ended_def)

lemma run_resume: "sched_run cl c job \<sigma> log n \<tau> \<Longrightarrow> resume cl c job \<tau> = resume cl c job \<sigma>"
  by (induction rule: sched_run.induct) (auto dest: step_resume)

lemma run_bound: "sched_run cl c job \<sigma> log n \<tau> \<Longrightarrow> n + steps_left \<tau> \<le> steps_left \<sigma>"
proof (induction rule: sched_run.induct)
  case (step \<sigma> log n \<tau> l \<tau>')
  then show ?case using step_decreases by fastforce
qed simp

lemma run_ends: "\<exists>log n \<tau>. sched_run cl c job \<sigma> log n \<tau> \<and> ended \<tau>"
proof (induction "steps_left \<sigma>" arbitrary: \<sigma> rule: less_induct)
  case less
  show ?case
  proof (cases "ended \<sigma>")
    case True
    then show ?thesis using sched_run.none by blast
  next
    case False
    then obtain l \<tau> where t: "sched_step cl c job \<sigma> l \<tau>" using step_exists by blast
    then show ?thesis using less.hyps [OF step_decreases [OF t]] sched_run_step [OF t] by blast
  qed
qed

lemma ended_resume: "ended \<tau> \<Longrightarrow> \<tau> = (case resume cl c job \<tau> of Ok (xs, w) \<Rightarrow> Finished xs w | Panic p \<Rightarrow> Failed p)"
  by (cases \<tau>) (simp_all add: ended_def)

lemma runs_reach:
  "(\<exists>log n. sched_run cl c job \<sigma> log n (Finished xs w)) \<longleftrightarrow> resume cl c job \<sigma> = Ok (xs, w)"
  "(\<exists>log n. sched_run cl c job \<sigma> log n (Failed p)) \<longleftrightarrow> resume cl c job \<sigma> = Panic p"
proof -
  obtain log n \<tau> where r: "sched_run cl c job \<sigma> log n \<tau>" "ended \<tau>" using run_ends by blast
  have \<tau>: "\<tau> = (case resume cl c job \<sigma> of Ok (xs, w) \<Rightarrow> Finished xs w | Panic p \<Rightarrow> Failed p)"
    using ended_resume [OF r(2), of cl c job] run_resume [OF r(1)] by simp
  have "\<exists>log n. sched_run cl c job \<sigma> log n (Finished xs w)" if "resume cl c job \<sigma> = Ok (xs, w)"
    using r(1) \<tau> that by auto
  moreover have "\<exists>log n. sched_run cl c job \<sigma> log n (Failed p)" if "resume cl c job \<sigma> = Panic p"
    using r(1) \<tau> that by auto
  ultimately show "(\<exists>log n. sched_run cl c job \<sigma> log n (Finished xs w)) \<longleftrightarrow> resume cl c job \<sigma> = Ok (xs, w)"
    "(\<exists>log n. sched_run cl c job \<sigma> log n (Failed p)) \<longleftrightarrow> resume cl c job \<sigma> = Panic p"
    by (auto dest: run_resume)
qed

section \<open>What has been dispatched\<close>

definition stage_log :: "DistributedConfig \<Rightarrow> string \<Rightarrow> QueryStage \<Rightarrow> dispatch list" where
  "stage_log c job u = List.map (\<lambda>p. (executors c ! (p mod length (executors c)), stage_task job u p)) (partition_ids u)"

definition logs :: "DistributedConfig \<Rightarrow> string \<Rightarrow> QueryStage list \<Rightarrow> dispatch list" where
  "logs c job us = concat (List.map (stage_log c job) us)"

text \<open>The stages @us@ are the completed ones, in the order of their execution: each ran after
  the stages it depends on.\<close>

definition completed :: "locations_by_stage \<Rightarrow> QueryStage list \<Rightarrow> bool" where
  "completed ls us = (dom ls = st_id ` set us
     \<and> (\<forall>i<length us. set (st_dependencies (us ! i)) \<subseteq> st_id ` set (take i us)))"

text \<open>@ids@ are the stages of the job in the order they are to run.\<close>

definition in_order :: "DistributedConfig \<Rightarrow> string \<Rightarrow> 32 word list \<Rightarrow> dispatch list \<Rightarrow> 's sched \<Rightarrow> bool" where
  "in_order c job ids log \<sigma> = (\<exists>us. case \<sigma> of
      Between ss ls w \<Rightarrow> completed ls us \<and> log = logs c job us \<and> ids = List.map st_id us @ List.map st_id ss
    | In_Stage u ps acc ss ls w \<Rightarrow> completed ls us \<and> ids = List.map st_id us @ st_id u # List.map st_id ss
        \<and> set (st_dependencies u) \<subseteq> st_id ` set us
        \<and> (\<exists>k. ps = drop k (partition_ids u) \<and> log = logs c job us @ take k (stage_log c job u))
    | Finished xs w \<Rightarrow> log = logs c job us \<and> prefix (List.map st_id us) ids
    | Failed p \<Rightarrow> \<exists>u k. log = logs c job us @ take k (stage_log c job u) \<and> prefix (List.map st_id us) ids)"

lemma failed_in_order:
  "log = logs c job us \<Longrightarrow> prefix (List.map st_id us) ids \<Longrightarrow> in_order c job ids log (Failed p)"
  unfolding in_order_def by (auto intro!: exI [of _ us] exI [of _ "0::nat"])

lemma step_in_order:
  assumes "sched_step cl c job \<sigma> l \<tau>" "in_order c job ids log \<sigma>"
  shows "in_order c job ids (log @ l) \<tau>"
  using assms
proof (induction rule: sched_step.induct)
  case (start ls s u ss w)
  then obtain us where "completed ls us" "log = logs c job us" "ids = List.map st_id us @ List.map st_id (s # ss)"
    unfolding in_order_def by auto
  moreover have "st_id u = st_id s" "set (st_dependencies u) \<subseteq> st_id ` set us"
    using updated_stage_same [OF start.hyps(1)] calculation(1) unfolding completed_def by auto
  ultimately show ?case unfolding in_order_def by (intro exI [of _ us]) (auto intro: exI [of _ 0])
next
  case (task p e w u l w' ps acc ss ls)
  then obtain us k where us: "completed ls us" "ids = List.map st_id us @ st_id u # List.map st_id ss"
    "set (st_dependencies u) \<subseteq> st_id ` set us" "p # ps = drop k (partition_ids u)" "log = logs c job us @ take k (stage_log c job u)"
    unfolding in_order_def by auto
  have k: "k < length (partition_ids u)" using us(4) by (cases "k < length (partition_ids u)") auto
  then have "p # ps = partition_ids u ! k # drop (Suc k) (partition_ids u)" using us(4) Cons_nth_drop_Suc [OF k] by metis
  then have "p = partition_ids u ! k" "ps = drop (Suc k) (partition_ids u)" by simp_all
  moreover have "e = executors c ! (p mod length (executors c))" using task.hyps(1) by (auto simp: task_executor_def split: if_splits)
  ultimately have "ps = drop (Suc k) (partition_ids u)"
    "log @ [(e, stage_task job u p)] = logs c job us @ take (Suc k) (stage_log c job u)"
    using us(5) k by (simp_all add: stage_log_def take_Suc_conv_app_nth)
  then show ?case using us(1-3) unfolding in_order_def by auto
next
  case (stage_done u acc ss ls w)
  then obtain us k where us: "completed ls us" "ids = List.map st_id us @ st_id u # List.map st_id ss"
    "set (st_dependencies u) \<subseteq> st_id ` set us" "drop k (partition_ids u) = []" "log = logs c job us @ take k (stage_log c job u)"
    unfolding in_order_def by auto
  have "log = logs c job (us @ [u])" using us(4,5) by (simp add: logs_def stage_log_def)
  moreover have "completed (ls(st_id u \<mapsto> acc)) (us @ [u])"
    using us(1,3) unfolding completed_def by (auto simp: nth_append less_Suc_eq)
  ultimately show ?case using us(2) unfolding in_order_def by (auto intro: exI [of _ "us @ [u]"])
next
  case (task_fails u acc w p q ps ss ls)
  then obtain us k where "ids = List.map st_id us @ st_id u # List.map st_id ss" "log = logs c job us @ take k (stage_log c job u)"
    unfolding in_order_def by auto
  then show ?case unfolding in_order_def by (auto intro!: exI [of _ us] exI [of _ u] exI [of _ k])
next
  case (no_final ls w)
  then obtain us where "log = logs c job us" "prefix (List.map st_id us) ids" unfolding in_order_def by auto
  then show ?case by (simp add: failed_in_order)
next
  case (not_ready ls s p ss w)
  then obtain us where "log = logs c job us" "prefix (List.map st_id us) ids" unfolding in_order_def by auto
  then show ?case by (simp add: failed_in_order)
next
  case (finish ls s u w xs ss)
  then show ?case unfolding in_order_def by auto
next
  case (finish_fails ls s u w p ss)
  then obtain us where "log = logs c job us" "prefix (List.map st_id us) ids" unfolding in_order_def by auto
  then show ?case by (simp add: failed_in_order)
qed

lemma run_in_order:
  "sched_run cl c job \<sigma> log n \<tau> \<Longrightarrow> in_order c job ids [] \<sigma> \<Longrightarrow> in_order c job ids log \<tau>"
  by (induction rule: sched_run.induct) (auto dest: step_in_order)

section \<open>Jobs\<close>

lemma plan_stages_sorted:
  "linorder_class.sort_key (\<lambda>s. sint (st_id s)) (plan_stages c p job) = plan_stages c p job"
  by (cases p) (simp_all add: plan_stages_def plan_aggregate_def as_final_stage_def stage_new_def with_partition_count_def
      with_dependencies_def Let_def)

definition job_steps :: "DistributedConfig \<Rightarrow> phys_plan \<Rightarrow> nat" where
  "job_steps c p = (case p of Hash_Aggregate_Exec i gs as s m \<Rightarrow> nat (sint (partition_count c)) + 3 | _ \<Rightarrow> 1)"

section \<open>Progress\<close>

lemma substitute_total: "\<exists>p'. substitute_shuffle_reader locs p = Ok p'"
  by (induction p) (auto simp: only_child_def)

fun ready :: "32 word set \<Rightarrow> QueryStage list \<Rightarrow> bool" where
  "ready D [] = False"
| "ready D (s # ss) = (set (st_dependencies s) \<subseteq> D \<and> (st_is_final s \<or> ready (insert (st_id s) D) ss))"

fun healthy :: "'s sched \<Rightarrow> bool" where
  "healthy (Between ss ls w) = ready (dom ls) ss"
| "healthy (In_Stage u ps acc ss ls w) = ready (insert (st_id u) (dom ls)) ss"
| "healthy (Finished xs w) = True"
| "healthy (Failed p) = False"

definition reliable :: "'s executor_client \<Rightarrow> DistributedConfig \<Rightarrow> bool" where
  "reliable cl c = (executors c \<noteq> [] \<and> (\<forall>w e t. is_ok (cl_execute_task cl w e t) \<and> is_ok (cl_execute_final_task cl w e t)))"

lemma updated_stage_ready: "set (st_dependencies s) \<subseteq> dom ls \<Longrightarrow> \<exists>u. updated_stage ls s = Ok u"
  using substitute_total [of "input_locations ls s" "st_plan s"]
  by (auto simp: updated_stage_def check_dependencies_def guard_res_def list_all_iff update_shuffle_locations_def domIff subset_iff)

lemma step_healthy:
  assumes "reliable cl c" "sched_step cl c job \<sigma> l \<tau>" "healthy \<sigma>"
  shows "healthy \<tau> \<and> Suc (steps_left \<tau>) = steps_left \<sigma>"
  using assms(2,3)
proof (induction rule: sched_step.induct)
  case (not_ready ls s p ss w)
  then show ?case using updated_stage_ready [of s ls] by auto
next
  case (start ls s u ss w)
  then show ?case by (auto dest: updated_stage_same)
next
  case (finish ls s u w xs ss)
  then show ?case by (auto dest: updated_stage_same)
next
  case (finish_fails ls s u w p ss)
  then show ?case using assms(1) by (auto simp: execute_final_stage_def reliable_def is_ok_def split: list.splits res.splits)
next
  case (task_fails u acc w p q ps ss ls)
  let ?e = "executors c ! (p mod length (executors c))"
  have "is_ok (cl_execute_task cl w ?e (stage_task job u p))" "executors c \<noteq> []" using assms(1) by (simp_all add: reliable_def)
  then obtain x where "cl_execute_task cl w ?e (stage_task job u p) = Ok x" "executors c \<noteq> []" by (auto simp: is_ok_iff)
  then show ?case using task_fails.hyps by (simp add: dispatch_task_def task_executor_def split: prod.splits)
qed auto

lemma run_healthy:
  assumes "reliable cl c" "sched_run cl c job \<sigma> log n \<tau>" "healthy \<sigma>"
  shows "healthy \<tau> \<and> n + steps_left \<tau> = steps_left \<sigma>"
  using assms(2,3) by (induction rule: sched_run.induct) (use step_healthy [OF assms(1)] in fastforce)+

lemma job_healthy: "healthy (sched_start c job p w)" "steps_left (sched_start c job p w) = job_steps c p"
  unfolding sched_start_def plan_stages_sorted
  by (cases p; simp add: plan_stages_def plan_aggregate_def as_final_stage_def stage_new_def with_partition_count_def
      with_dependencies_def Let_def job_steps_def partition_ids_def)+

text \<open>The scheduler's function is its state machine: it returns a stream and a cluster state
  exactly when a run of the machine finishes with them, and panics exactly when a run fails
  with that panic.\<close>

lemma scheduler_refines_machine:
  "(scheduler_execute cl c job p w = Ok (xs, w')
      \<longleftrightarrow> (\<exists>log n. sched_run cl c job (sched_start c job p w) log n (Finished xs w')))
   \<and> (scheduler_execute cl c job p w = Panic q
      \<longleftrightarrow> (\<exists>log n. sched_run cl c job (sched_start c job p w) log n (Failed q)))"
  unfolding runs_reach by (simp add: scheduler_execute_def sched_start_def)

section \<open>The calls of a job\<close>

text \<open>Written out without stages: the tasks that precede the final one, with the executor each is
  sent to, and what a client makes of them, one after the other.\<close>

definition first_calls :: "DistributedConfig \<Rightarrow> string \<Rightarrow> phys_plan \<Rightarrow> phys_expr list \<Rightarrow> phys_aggr list \<Rightarrow> Schema
    \<Rightarrow> (ExecutorConfig \<times> Task) list" where
  "first_calls c job i gs as s = List.map (\<lambda>p. (executors c ! (p mod length (executors c)),
     \<lparr>t_job_uuid = job, t_stage_id = 0, t_task_id = word_of_nat p, t_partition_id = word_of_nat p,
      t_plan = Shuffle_Writer_Exec (Hash_Aggregate_Exec i gs as s Partial) gs job 0 (partition_count c)\<rparr>))
     [0..<nat (sint (partition_count c))]"

fun run_calls :: "'s executor_client \<Rightarrow> (ExecutorConfig \<times> Task) list \<Rightarrow> 's \<Rightarrow> (ShuffleLocation list \<times> 's) res" where
  "run_calls cl [] w = Ok ([], w)"
| "run_calls cl ((e, t) # calls) w = (case cl_execute_task cl w e t of
     Ok (ls, w') \<Rightarrow> (case run_calls cl calls w' of Ok (ls', w'') \<Rightarrow> Ok (ls @ ls', w'') | Panic q \<Rightarrow> Panic q)
   | Panic q \<Rightarrow> Panic q)"

lemma dispatched_calls:
  assumes "executors c \<noteq> []"
  shows "fold_res (dispatch_task cl c job s) (acc, w) ps = map_res (\<lambda>(ls, w'). (acc @ ls, w'))
     (run_calls cl (List.map (\<lambda>p. (executors c ! (p mod length (executors c)), stage_task job s p)) ps) w)"
  by (induction ps arbitrary: acc w)
    (auto simp: dispatch_task_def task_executor_def assms split: res.splits)

lemma first_stage_calls:
  assumes "executors c \<noteq> []" "plan_aggregate c i gs as s job = [s0, s1]"
  shows "execute_stage cl c job s0 w = run_calls cl (first_calls c job i gs as s) w"
  using assms(2) unfolding execute_stage_def dispatched_calls [OF assms(1)]
  by (auto simp: plan_aggregate_def Let_def first_calls_def partition_ids_def stage_task_def [abs_def] task_new_def
      stage_new_def with_partition_count_def map_res_and_then split: prod.splits)

text \<open>The second stage, given the locations the first one reported.\<close>

lemma second_stage_updated:
  assumes "plan_aggregate c i gs as s job = [s0, s1]"
  shows "updated_stage [0 \<mapsto> locs] s1
    = Ok (s1\<lparr>st_plan := Hash_Aggregate_Exec (Shuffle_Reader_Exec s locs) gs as s Final\<rparr>)"
  using assms by (auto simp: plan_aggregate_def Let_def updated_stage_def check_dependencies_def input_locations_def
      as_final_stage_def with_dependencies_def stage_new_def update_shuffle_locations_def only_child_def with_plan_def)

section \<open>Properties\<close>

text \<open>C17: What the scheduler computes, for any client, on a cluster with executors.  An aggregate is
  run in two stages: for every partition @p@, in order, the shuffle writer over the partial
  aggregate is sent to executor @p@ modulo the number of executors; then the final aggregate
  over a reader of exactly the locations these tasks reported, in the order they were reported,
  is sent to the first executor, in the state the tasks left.  Any other plan is sent to the
  first executor as it is.  The first call that panics ends the job with its panic.\<close>

theorem scheduler_computes:
  assumes "executors c \<noteq> []"
  shows "scheduler_execute cl c job p w = (case p of
      Hash_Aggregate_Exec i gs as s m \<Rightarrow> (case run_calls cl (first_calls c job i gs as s) w of
          Panic q \<Rightarrow> Panic q
        | Ok (locs, w') \<Rightarrow> map_res (\<lambda>xs. (xs, w')) (cl_execute_final_task cl w' (hd (executors c))
            \<lparr>t_job_uuid = job, t_stage_id = 1, t_task_id = 0, t_partition_id = 0,
             t_plan = Hash_Aggregate_Exec (Shuffle_Reader_Exec s locs) gs as s Final\<rparr>))
    | _ \<Rightarrow> map_res (\<lambda>xs. (xs, w)) (cl_execute_final_task cl w (hd (executors c))
            \<lparr>t_job_uuid = job, t_stage_id = 0, t_task_id = 0, t_partition_id = 0, t_plan = p\<rparr>))"
proof -
  obtain e es where c: "executors c = e # es" using assms by (cases "executors c") auto
  have one: "updated_stage Map.empty (as_final_stage (stage_new 0 p)) = Ok (as_final_stage (stage_new 0 p))"
    by (simp add: updated_stage_def check_dependencies_def input_locations_def as_final_stage_def stage_new_def)
  show ?thesis
  proof (cases "\<exists>i gs as s m. p = Hash_Aggregate_Exec i gs as s m")
    case True
    then obtain i gs as s m where p: "p = Hash_Aggregate_Exec i gs as s m" by blast
    obtain s0 s1 where st: "plan_aggregate c i gs as s job = [s0, s1]" by (simp add: plan_aggregate_def Let_def)
    have s0: "updated_stage Map.empty s0 = Ok s0" "\<not> st_is_final s0" "st_id s0 = 0" "st_is_final s1" "st_id s1 = 1"
      using st by (auto simp: plan_aggregate_def Let_def updated_stage_def check_dependencies_def input_locations_def
          stage_new_def with_partition_count_def as_final_stage_def with_dependencies_def)
    show ?thesis
      by (simp add: scheduler_execute_def plan_stages_sorted plan_stages_def p st s0 first_stage_calls [OF assms st]
          second_stage_updated [OF st] execute_final_stage_def c task_new_def split: res.splits prod.splits)
  next
    case False
    then have "plan_stages c p job = [as_final_stage (stage_new 0 p)]" by (cases p) (simp_all add: plan_stages_def)
    then have "scheduler_execute cl c job p w = map_res (\<lambda>xs. (xs, w)) (cl_execute_final_task cl w (hd (executors c))
        \<lparr>t_job_uuid = job, t_stage_id = 0, t_task_id = 0, t_partition_id = 0, t_plan = p\<rparr>)"
      using one unfolding scheduler_execute_def plan_stages_sorted
      by (simp add: execute_final_stage_def c task_new_def as_final_stage_def stage_new_def)
    then show ?thesis using False by (cases p) simp_all
  qed
qed

text \<open>C11: In every reachable state of the scheduler, on any list of stages, the tasks
  dispatched so far are those of the completed stages, in order and one per partition, partition
  @p@ on executor @p@ modulo the number of executors, followed by an initial part of those of the
  running stage; and a stage has started only after every stage it depends on was completed,
  with the locations of exactly the completed stages recorded.\<close>

theorem scheduler_invariant:
  assumes "sched_run cl c job (Between ss Map.empty w) log n \<sigma>"
  shows "in_order c job (List.map st_id ss) log \<sigma>"
  by (rule run_in_order [OF assms]) (auto simp: in_order_def completed_def logs_def intro: exI [of _ "[]"])

text \<open>C12: Liveness: with at least one executor and a client whose calls return, every run of a
  job can be continued until it has finished, which it does after exactly one step per
  partition and three more for an aggregate, and after one step for any other plan; it never
  waits for a stage and never fails.\<close>

theorem scheduler_live:
  assumes "reliable cl c" "sched_run cl c job (sched_start c job p w) log n \<sigma>"
  shows "n \<le> job_steps c p \<and> (if n = job_steps c p then \<exists>xs w'. \<sigma> = Finished xs w' else \<exists>l \<tau>. sched_step cl c job \<sigma> l \<tau>)"
proof -
  have h: "healthy \<sigma>" "n + steps_left \<sigma> = job_steps c p"
    using run_healthy [OF assms job_healthy(1)] job_healthy(2) by auto
  show ?thesis
  proof (cases "ended \<sigma>")
    case True
    then show ?thesis using h by (cases \<sigma>) (auto simp: ended_def)
  next
    case False
    then have "0 < steps_left \<sigma>" using step_exists [OF False] step_decreases by (metis gr_zeroI not_less_zero)
    then show ?thesis using h(2) step_exists [OF False] by auto
  qed
qed

section \<open>A concrete job\<close>

definition sample_client :: "nat executor_client" where
  "sample_client = \<lparr>cl_execute_task = (\<lambda>w e t. Ok ([], Suc w)), cl_execute_final_task = (\<lambda>w e t. Ok [])\<rparr>"

definition sample_cluster :: DistributedConfig where
  "sample_cluster = with_default_partitions (distributed_config_new [executor_config_new ''e0'' ''localhost'' 50051,
     executor_config_new ''e1'' ''localhost'' 50052]) 3"

definition sample_job :: phys_plan where
  "sample_job = Hash_Aggregate_Exec (Scan_Exec (In_Memory (new_schema []) []) []) [] [] (new_schema []) Complete"

lemma sample_cluster_facts: "reliable sample_client sample_cluster" "partition_count sample_cluster = 3" "job_steps sample_cluster sample_job = 6"
  by (simp_all add: reliable_def sample_client_def sample_cluster_def with_default_partitions_def distributed_config_new_def
      partition_count_def job_steps_def sample_job_def word_sless_alt)

theorem scheduler_live_witness:
  "\<exists>l \<tau>. sched_step sample_client sample_cluster ''j'' (sched_start sample_cluster ''j'' sample_job 0) l \<tau>"
  using scheduler_live [OF sample_cluster_facts(1) sched_run.none, where job = "''j''" and p = sample_job and w = 0]
  by (simp add: sample_cluster_facts(3))

theorem scheduler_invariant_witness:
  "in_order sample_cluster ''j'' (List.map st_id (plan_stages sample_cluster sample_job ''j'')) []
     (Between (plan_stages sample_cluster sample_job ''j'') Map.empty (0::nat))"
  using scheduler_invariant [OF sched_run.none, of sample_cluster "''j''" "plan_stages sample_cluster sample_job ''j''" 0] .

text \<open>A client that records which executor each task of the first stage was sent to.\<close>

definition logging_client :: "(string \<times> nat) list executor_client" where
  "logging_client = \<lparr>cl_execute_task = (\<lambda>w e t. Ok ([new_location (t_job_uuid t) (t_stage_id t) (t_partition_id t)
       (ec_id e) (ec_host e) (ec_port e)], w @ [(ec_id e, unat (t_partition_id t))])),
     cl_execute_final_task = (\<lambda>w e t. case t_plan t of
       Hash_Aggregate_Exec (Shuffle_Reader_Exec s ls) gs as s' m \<Rightarrow> if length ls = 3 then Ok [] else Panic Divide_By_Zero
     | _ \<Rightarrow> Panic Divide_By_Zero)\<rparr>"

theorem scheduler_computes_witness:
  "scheduler_execute logging_client sample_cluster ''j'' sample_job [] = Ok ([], [(''e0'', 0), (''e1'', 1), (''e0'', 2)])"
proof -
  have c: "executors sample_cluster \<noteq> []" by (simp add: sample_cluster_def with_default_partitions_def distributed_config_new_def)
  show ?thesis unfolding scheduler_computes [OF c] sample_job_def
    by (simp add: first_calls_def sample_cluster_facts(2) logging_client_def upt_rec)
      (simp add: sample_cluster_def with_default_partitions_def distributed_config_new_def executor_config_new_def)
qed

end
