(* ===== verification/Wire_Logical.thy ===== *)
theory Wire_Logical
  imports Query_Planner Optimizer_Rules
begin

text \<open>
  Logical plans on the wire (crate @protobuf@: protobuf_serializer, protobuf_deserializer).  The
  message types are those of @proto/rquery.proto@ as prost generates them: a message field is an
  option, an enum a 32-bit number.  Message fields no code of the repository sets or reads are
  left out.
\<close>

section \<open>Messages\<close>

datatype LogicalExprNode = LogicalExprNode "LogicalExprType option"
and LogicalExprType =
    Pb_ColumnName string
  | Pb_Alias "LogicalExprNode option" string
  | Pb_LiteralString string
  | Pb_LiteralInt8 "32 word" | Pb_LiteralInt16 "32 word" | Pb_LiteralInt32 "32 word" | Pb_LiteralInt64 "64 word"
  | Pb_LiteralUint8 "32 word" | Pb_LiteralUint16 "32 word" | Pb_LiteralUint32 "32 word" | Pb_LiteralUint64 "64 word"
  | Pb_LiteralF32 f32 | Pb_LiteralF64 f64
  | Pb_LiteralDate "32 word"
  | Pb_BinaryExpr "LogicalExprNode option" "LogicalExprNode option" string
  | Pb_AggregateExpr "32 word" "LogicalExprNode option"
  | Pb_IsNullExpr "LogicalExprNode option" | Pb_IsNotNullExpr "LogicalExprNode option" | Pb_NotExpr "LogicalExprNode option"

datatype AggregateFunction = Fn_Min | Fn_Max | Fn_Sum | Fn_Avg | Fn_Count | Fn_CountDistinct

definition aggregate_functions :: "AggregateFunction list" where
  "aggregate_functions = [Fn_Min, Fn_Max, Fn_Sum, Fn_Avg, Fn_Count, Fn_CountDistinct]"

definition function_number :: "AggregateFunction \<Rightarrow> 32 word" where
  "function_number f = (case f of Fn_Min \<Rightarrow> 0 | Fn_Max \<Rightarrow> 1 | Fn_Sum \<Rightarrow> 2 | Fn_Avg \<Rightarrow> 3 | Fn_Count \<Rightarrow> 4 | Fn_CountDistinct \<Rightarrow> 5)"

definition function_of_number :: "32 word \<Rightarrow> AggregateFunction option" where
  "function_of_number n = (if unat n < length aggregate_functions then Some (aggregate_functions ! unat n) else None)"

record CsvTableScanNode =
  cn_path :: string
  cn_has_header :: bool
  cn_projection :: "string list option"

record ParquetTableScanNode =
  pq_path :: string
  pq_projection :: "string list option"

record AggregateNode =
  an_group_expr :: "LogicalExprNode list"
  an_aggr_expr :: "LogicalExprNode list"

datatype LogicalPlanNode = LogicalPlanNode
  (pn_input: "LogicalPlanNode option") (pn_csv_scan: "CsvTableScanNode option") (pn_parquet_scan: "ParquetTableScanNode option")
  (pn_projection: "LogicalExprNode list option") (pn_selection: "LogicalExprNode option option") (pn_limit: "32 word option")
  (pn_aggregate: "AggregateNode option") (pn_join: "JoinNode option")
and JoinNode = JoinNode "LogicalPlanNode option" "LogicalPlanNode option" "32 word" "string list" "string list"

section \<open>Serializing\<close>

definition binary_op_variant :: "string \<Rightarrow> LogicalExprNode res \<Rightarrow> LogicalExprNode res \<Rightarrow> LogicalExprNode res" where
  "binary_op_variant op l r = and_then l (\<lambda>l. map_res (\<lambda>r. LogicalExprNode (Some (Pb_BinaryExpr (Some l) (Some r) op))) r)"

fun serialize_logical_expr :: "LogicalExpr \<Rightarrow> LogicalExprNode res" where
  "serialize_logical_expr (Column n) = Ok (LogicalExprNode (Some (Pb_ColumnName n)))"
| "serialize_logical_expr (LiteralString s) = Ok (LogicalExprNode (Some (Pb_LiteralString s)))"
| "serialize_logical_expr (LiteralFloat x) = Ok (LogicalExprNode (Some (Pb_LiteralF32 x)))"
| "serialize_logical_expr (LiteralDouble x) = Ok (LogicalExprNode (Some (Pb_LiteralF64 x)))"
| "serialize_logical_expr (LiteralLong n) = Ok (LogicalExprNode (Some (Pb_LiteralInt64 n)))"
| "serialize_logical_expr (LiteralDate d) = Ok (LogicalExprNode (Some (Pb_LiteralDate (days_since_unix_epoch d))))"
| "serialize_logical_expr (L_Eq l r) = binary_op_variant ''eq'' (serialize_logical_expr l) (serialize_logical_expr r)"
| "serialize_logical_expr (L_Neq l r) = binary_op_variant ''neq'' (serialize_logical_expr l) (serialize_logical_expr r)"
| "serialize_logical_expr (L_Lt l r) = binary_op_variant ''lt'' (serialize_logical_expr l) (serialize_logical_expr r)"
| "serialize_logical_expr (L_LtEq l r) = binary_op_variant ''lteq'' (serialize_logical_expr l) (serialize_logical_expr r)"
| "serialize_logical_expr (L_Gt l r) = binary_op_variant ''gt'' (serialize_logical_expr l) (serialize_logical_expr r)"
| "serialize_logical_expr (L_GtEq l r) = binary_op_variant ''gteq'' (serialize_logical_expr l) (serialize_logical_expr r)"
| "serialize_logical_expr (L_And l r) = binary_op_variant ''and'' (serialize_logical_expr l) (serialize_logical_expr r)"
| "serialize_logical_expr (L_Or l r) = binary_op_variant ''or'' (serialize_logical_expr l) (serialize_logical_expr r)"
| "serialize_logical_expr e = Panic (Panicked ''Cannot serialize logical expression to protobuf'')"

definition aggregate_function :: "AggregateExpr \<Rightarrow> AggregateFunction" where
  "aggregate_function a = (case a of A_Sum e \<Rightarrow> Fn_Sum | A_Min e \<Rightarrow> Fn_Min | A_Max e \<Rightarrow> Fn_Max | A_Avg e \<Rightarrow> Fn_Avg
     | A_Count e \<Rightarrow> Fn_Count | A_CountDistinct e \<Rightarrow> Fn_CountDistinct)"

definition serialize_logical_aggregate_expr :: "AggregateExpr \<Rightarrow> LogicalExprNode res" where
  "serialize_logical_aggregate_expr a = map_res
     (\<lambda>n. LogicalExprNode (Some (Pb_AggregateExpr (function_number (aggregate_function a)) (Some n))))
     (serialize_logical_expr (aggregate_inner a))"

definition join_type_to_proto :: "JoinType \<Rightarrow> 32 word" where
  "join_type_to_proto jt = (case jt of Inner \<Rightarrow> 0 | Left \<Rightarrow> 1 | Right \<Rightarrow> 2)"

fun serialize_logical_plan :: "LogicalPlan \<Rightarrow> LogicalPlanNode res" where
  "serialize_logical_plan (Scan path ds ns s) = (case ds of
      Csv c \<Rightarrow> Ok (LogicalPlanNode None
        (Some \<lparr>cn_path = path, cn_has_header = csv_has_headers c, cn_projection = Some ns\<rparr>) None None None None None None)
    | Parquet f \<Rightarrow> Ok (LogicalPlanNode None None (Some \<lparr>pq_path = path, pq_projection = Some ns\<rparr>) None None None None None)
    | In_Memory s bs \<Rightarrow> Panic (Panicked ''Unsupported datasource used in scan''))"
| "serialize_logical_plan (Projection i es) = and_then (serialize_logical_plan i) (\<lambda>n.
     map_res (\<lambda>xs. LogicalPlanNode (Some n) None None (Some xs) None None None None) (traverse serialize_logical_expr es))"
| "serialize_logical_plan (Selection i e) = and_then (serialize_logical_plan i) (\<lambda>n.
     map_res (\<lambda>x. LogicalPlanNode (Some n) None None None (Some (Some x)) None None None) (serialize_logical_expr e))"
| "serialize_logical_plan (Limit i k) =
     map_res (\<lambda>n. LogicalPlanNode (Some n) None None None None (Some k) None None) (serialize_logical_plan i)"
| "serialize_logical_plan (Aggregate i gs as) = and_then (serialize_logical_plan i) (\<lambda>n.
     and_then (traverse serialize_logical_expr gs) (\<lambda>xs. map_res
       (\<lambda>ys. LogicalPlanNode (Some n) None None None None None (Some \<lparr>an_group_expr = xs, an_aggr_expr = ys\<rparr>) None)
       (traverse serialize_logical_aggregate_expr as)))"
| "serialize_logical_plan (Join l r jt ons) = and_then (serialize_logical_plan l) (\<lambda>a.
     map_res (\<lambda>b. LogicalPlanNode None None None None None None None
        (Some (JoinNode (Some a) (Some b) (join_type_to_proto jt) (List.map fst ons) (List.map snd ons))))
       (serialize_logical_plan r))"

section \<open>Deserializing\<close>

text \<open>@NaiveDate + Duration@ panics outside chrono's years -262143 to 262142.\<close>

definition naive_date_from_days :: "32 word \<Rightarrow> int res" where
  "naive_date_from_days d = (if -96465292 \<le> sint d \<and> sint d \<le> 95026236 then Ok (sint d)
     else Panic (Panicked ''`NaiveDate + TimeDelta` overflowed''))"

definition logical_binary :: "string \<Rightarrow> LogicalExpr \<Rightarrow> LogicalExpr \<Rightarrow> LogicalExpr res" where
  "logical_binary op l r =
     (if op = ''eq'' then Ok (L_Eq l r) else if op = ''neq'' then Ok (L_Neq l r)
      else if op = ''lt'' then Ok (L_Lt l r) else if op = ''lteq'' then Ok (L_LtEq l r)
      else if op = ''gt'' then Ok (L_Gt l r) else if op = ''gteq'' then Ok (L_GtEq l r)
      else if op = ''and'' then Ok (L_And l r) else if op = ''or'' then Ok (L_Or l r)
      else if op = ''add'' then Ok (L_Add l r) else if op = ''subtract'' then Ok (L_Subtract l r)
      else if op = ''multiply'' then Ok (L_Multiply l r) else if op = ''divide'' then Ok (L_Divide l r)
      else Panic (Panicked ''Unsupported binary operator''))"

definition logical_aggregate :: "AggregateFunction \<Rightarrow> LogicalExpr \<Rightarrow> AggregateExpr" where
  "logical_aggregate f e = (case f of Fn_Min \<Rightarrow> A_Min e | Fn_Max \<Rightarrow> A_Max e | Fn_Sum \<Rightarrow> A_Sum e | Fn_Avg \<Rightarrow> A_Avg e
     | Fn_Count \<Rightarrow> A_Count e | Fn_CountDistinct \<Rightarrow> A_CountDistinct e)"

text \<open>An unset message field is the panic of @expect@; @as i64@ widens with or without sign.\<close>

fun deserialize_logical_expr :: "LogicalExprNode \<Rightarrow> LogicalExpr res"
  and deserialize_expr_type :: "LogicalExprType \<Rightarrow> LogicalExpr res"
  and deserialize_child :: "string \<Rightarrow> LogicalExprNode option \<Rightarrow> LogicalExpr res" where
  "deserialize_logical_expr (LogicalExprNode None) =
     Panic (Panicked ''Found null expr enum when deserialising protobuf logical expression'')"
| "deserialize_logical_expr (LogicalExprNode (Some t)) = deserialize_expr_type t"
| "deserialize_child m None = Panic (Panicked m)"
| "deserialize_child m (Some n) = deserialize_logical_expr n"
| "deserialize_expr_type (Pb_ColumnName n) = Ok (Column n)"
| "deserialize_expr_type (Pb_LiteralString s) = Ok (LiteralString s)"
| "deserialize_expr_type (Pb_LiteralInt8 n) = Ok (LiteralLong (scast n))"
| "deserialize_expr_type (Pb_LiteralInt16 n) = Ok (LiteralLong (scast n))"
| "deserialize_expr_type (Pb_LiteralInt32 n) = Ok (LiteralLong (scast n))"
| "deserialize_expr_type (Pb_LiteralInt64 n) = Ok (LiteralLong n)"
| "deserialize_expr_type (Pb_LiteralUint8 n) = Ok (LiteralLong (ucast n))"
| "deserialize_expr_type (Pb_LiteralUint16 n) = Ok (LiteralLong (ucast n))"
| "deserialize_expr_type (Pb_LiteralUint32 n) = Ok (LiteralLong (ucast n))"
| "deserialize_expr_type (Pb_LiteralUint64 n) = Ok (LiteralLong n)"
| "deserialize_expr_type (Pb_LiteralF32 x) = Ok (LiteralFloat x)"
| "deserialize_expr_type (Pb_LiteralF64 x) = Ok (LiteralDouble x)"
| "deserialize_expr_type (Pb_LiteralDate d) = map_res LiteralDate (naive_date_from_days d)"
| "deserialize_expr_type (Pb_Alias e a) = map_res (\<lambda>e. L_Alias e a) (deserialize_child ''AliasNode.expr unset'' e)"
| "deserialize_expr_type (Pb_BinaryExpr l r op) = and_then (deserialize_child ''BinaryExprNode.l unset'' l) (\<lambda>l.
     and_then (deserialize_child ''BinaryExprNode.r unset'' r) (logical_binary op l))"
| "deserialize_expr_type (Pb_AggregateExpr f e) = and_then (deserialize_child ''AggregateExprNode.expr unset'' e) (\<lambda>e.
     map_res (\<lambda>f. L_Aggregate (logical_aggregate f e)) (expect ''Unknown AggregateFunction enum value'' (function_of_number f)))"
| "deserialize_expr_type (Pb_IsNullExpr e) = Panic (Panicked ''not yet implemented: IsNull is not yet implemented in logical-plan'')"
| "deserialize_expr_type (Pb_IsNotNullExpr e) = Panic (Panicked ''not yet implemented: IsNotNull is not yet implemented in logical-plan'')"
| "deserialize_expr_type (Pb_NotExpr e) = Panic (Panicked ''not yet implemented: Not is not yet implemented as a logical expression'')"

definition unwrap_aggregate :: "LogicalExpr \<Rightarrow> AggregateExpr res" where
  "unwrap_aggregate e = (case e of L_Aggregate a \<Rightarrow> Ok a
     | _ \<Rightarrow> Panic (Panicked ''AggregateNode.aggr_expr did not deserialise to an AggregateExpr''))"

fun deserialize_logical_plan :: "env \<Rightarrow> LogicalPlanNode \<Rightarrow> LogicalPlan res"
  and deserialize_plan_input :: "env \<Rightarrow> LogicalPlanNode option \<Rightarrow> LogicalPlan res" where
  "deserialize_plan_input E None = Panic (Panicked ''LogicalPlanNode.input unset on a non-leaf plan'')"
| "deserialize_plan_input E (Some n) = deserialize_logical_plan E n"
| "deserialize_logical_plan E (LogicalPlanNode input csv parquet proj sel lim agg jn) = (case csv of
      Some c \<Rightarrow> scan_new E (cn_path c) (Csv (csv_new (cn_path c) None (cn_has_header c) 1024))
        (case cn_projection c of Some ns \<Rightarrow> ns | None \<Rightarrow> [])
    | None \<Rightarrow> (case parquet of
      Some q \<Rightarrow> scan_new E (pq_path q) (Parquet (pq_path q)) (case pq_projection q of Some ns \<Rightarrow> ns | None \<Rightarrow> [])
    | None \<Rightarrow> (case sel of
      Some e \<Rightarrow> and_then (deserialize_plan_input E input) (\<lambda>i.
        map_res (Selection i) (deserialize_child ''SelectionNode.expr unset'' e))
    | None \<Rightarrow> (case proj of
      Some es \<Rightarrow> and_then (deserialize_plan_input E input) (\<lambda>i.
        map_res (Projection i) (traverse deserialize_logical_expr es))
    | None \<Rightarrow> (case lim of
      Some k \<Rightarrow> map_res (\<lambda>i. Limit i k) (deserialize_plan_input E input)
    | None \<Rightarrow> (case agg of
      Some a \<Rightarrow> and_then (deserialize_plan_input E input) (\<lambda>i.
        and_then (traverse deserialize_logical_expr (an_group_expr a)) (\<lambda>gs.
        map_res (Aggregate i gs) (traverse (\<lambda>e. and_then (deserialize_logical_expr e) unwrap_aggregate) (an_aggr_expr a))))
    | None \<Rightarrow> Panic (Panicked ''Failed to parse logical operator: no recognised plan field set'')))))))"

end
