(* ===== verification/Wire_Physical.thy ===== *)
theory Wire_Physical
  imports Wire_Logical Distributed
begin

text \<open>
  Physical plans and tasks on the wire (crate @protobuf@: physical_plan_serializer,
  physical_plan_deserializer; schemas and fields of protobuf_deserializer).
\<close>

section \<open>Messages\<close>

datatype PbField = PbField (pf_name: string) (pf_arrow_type: "32 word") (pf_nullable: bool) (pf_children: "PbField list")

record PbSchema =
  pb_columns :: "PbField list"

record PbShuffleLocation =
  pl_job_uuid :: string
  pl_stage_id :: "32 word"
  pl_partition_id :: "32 word"
  pl_executor_id :: string
  pl_executor_host :: string
  pl_executor_port :: "32 word"

datatype PhysicalExprNode = PhysicalExprNode "PhysicalExprType option"
and PhysicalExprType =
    Px_Column "32 word"
  | Px_LiteralString string
  | Px_LiteralLong "64 word"
  | Px_LiteralDouble f64
  | Px_LiteralDate "32 word"
  | Px_BinaryExpr "PhysicalExprNode option" "PhysicalExprNode option" string
  | Px_CastExpr "PhysicalExprNode option" "32 word"

record PhysicalAggregateExprNode =
  pa_function :: "32 word"
  pa_input_expr :: "PhysicalExprNode option"

datatype PhysicalPlanNode = PhysicalPlanNode "PhysicalPlanType option"
and PhysicalPlanType =
    Pp_Scan string "PbSchema option" "string list" string
  | Pp_Projection "PhysicalPlanNode option" "PbSchema option" "PhysicalExprNode list"
  | Pp_Selection "PhysicalPlanNode option" "PhysicalExprNode option"
  | Pp_HashAggregate "PhysicalPlanNode option" "PhysicalExprNode list" "PhysicalAggregateExprNode list" "PbSchema option" "32 word"
  | Pp_ShuffleWriter "PhysicalPlanNode option" "PhysicalExprNode list" string "32 word" "32 word"
  | Pp_ShuffleReader "PbSchema option" "PbShuffleLocation list"

record TaskInfo =
  ti_job_uuid :: string
  ti_stage_id :: "32 word"
  ti_task_id :: "32 word"
  ti_partition_id :: "32 word"
  ti_plan :: "PhysicalPlanNode option"

record TaskResult =
  tr_job_uuid :: string
  tr_stage_id :: "32 word"
  tr_task_id :: "32 word"
  tr_partition_id :: "32 word"
  tr_shuffle_locations :: "PbShuffleLocation list"

section \<open>Types, schemas, locations\<close>

text \<open>The enum @ArrowType@ has 28 values, of which the engine knows these.\<close>

definition arrow_numbers :: "(DataType \<times> 32 word) list" where
  "arrow_numbers = [(T_Boolean, 1), (T_UInt8, 2), (T_Int8, 3), (T_UInt16, 4), (T_Int16, 5), (T_UInt32, 6), (T_Int32, 7),
     (T_UInt64, 8), (T_Int64, 9), (T_Float32, 11), (T_Float64, 12), (T_Utf8, 13), (T_Date32, 16)]"

definition data_type_to_proto :: "DataType \<Rightarrow> 32 word res" where
  "data_type_to_proto t = expect ''Cannot serialize Arrow type to protobuf'' (map_of arrow_numbers t)"

definition from_proto_arrow_type :: "32 word \<Rightarrow> DataType res" where
  "from_proto_arrow_type n = (if n \<ge> 28 then Panic (Panicked ''Cannot deserialize Arrow data type enum from protobuf'')
     else expect ''Cannot deserialize Arrow type from protobuf'' (map_of (List.map prod.swap arrow_numbers) n))"

definition field_to_proto :: "Field \<Rightarrow> PbField res" where
  "field_to_proto f = map_res (\<lambda>t. PbField (f_name f) t True []) (data_type_to_proto (f_type f))"

definition schema_to_proto :: "Schema \<Rightarrow> PbSchema res" where
  "schema_to_proto s = map_res (\<lambda>fs. \<lparr>pb_columns = fs\<rparr>) (traverse field_to_proto (s_fields s))"

definition deserialize_field :: "PbField \<Rightarrow> Field res" where
  "deserialize_field f = map_res (new_field (pf_name f)) (from_proto_arrow_type (pf_arrow_type f))"

definition deserialize_schema :: "PbSchema \<Rightarrow> Schema res" where
  "deserialize_schema s = map_res new_schema (traverse deserialize_field (pb_columns s))"

definition location_to_proto :: "ShuffleLocation \<Rightarrow> PbShuffleLocation" where
  "location_to_proto l = \<lparr>pl_job_uuid = loc_job_uuid l, pl_stage_id = loc_stage_id l, pl_partition_id = loc_partition_id l,
     pl_executor_id = loc_executor_id l, pl_executor_host = loc_executor_host l, pl_executor_port = loc_executor_port l\<rparr>"

definition deserialize_shuffle_location :: "PbShuffleLocation \<Rightarrow> ShuffleLocation" where
  "deserialize_shuffle_location l = new_location (pl_job_uuid l) (pl_stage_id l) (pl_partition_id l)
     (pl_executor_id l) (pl_executor_host l) (pl_executor_port l)"

definition aggregate_mode_to_proto :: "AggregateMode \<Rightarrow> 32 word" where
  "aggregate_mode_to_proto m = (case m of Complete \<Rightarrow> 0 | Partial \<Rightarrow> 1 | Final \<Rightarrow> 2)"

definition aggregate_mode_from_proto :: "32 word \<Rightarrow> AggregateMode" where
  "aggregate_mode_from_proto n = (if n = 1 then Partial else if n = 2 then Final else Complete)"

section \<open>Expressions\<close>

definition physical_binary_node :: "string \<Rightarrow> PhysicalExprNode res \<Rightarrow> PhysicalExprNode res \<Rightarrow> PhysicalExprNode res" where
  "physical_binary_node op l r = and_then l (\<lambda>l. map_res (\<lambda>r. PhysicalExprNode (Some (Px_BinaryExpr (Some l) (Some r) op))) r)"

fun serialize_physical_expr :: "phys_expr \<Rightarrow> PhysicalExprNode res" where
  "serialize_physical_expr (Column_Expr i) = Ok (PhysicalExprNode (Some (Px_Column (word_of_nat i))))"
| "serialize_physical_expr (Literal_String s) = Ok (PhysicalExprNode (Some (Px_LiteralString s)))"
| "serialize_physical_expr (Literal_Long n) = Ok (PhysicalExprNode (Some (Px_LiteralLong n)))"
| "serialize_physical_expr (Literal_Double x) = Ok (PhysicalExprNode (Some (Px_LiteralDouble x)))"
| "serialize_physical_expr (Literal_Date d) = Ok (PhysicalExprNode (Some (Px_LiteralDate d)))"
| "serialize_physical_expr (Boolean_Expr op l r) =
     physical_binary_node (bool_op_name op) (serialize_physical_expr l) (serialize_physical_expr r)"
| "serialize_physical_expr (Math_Expr op l r) =
     physical_binary_node (math_op_name op) (serialize_physical_expr l) (serialize_physical_expr r)"
| "serialize_physical_expr (Cast_Expr e t) = and_then (serialize_physical_expr e) (\<lambda>n.
     map_res (\<lambda>k. PhysicalExprNode (Some (Px_CastExpr (Some n) k))) (data_type_to_proto t))"
| "serialize_physical_expr e = Panic (Panicked ''Cannot serialize physical expression to protobuf'')"

definition physical_binary :: "string \<Rightarrow> phys_expr \<Rightarrow> phys_expr \<Rightarrow> phys_expr res" where
  "physical_binary op l r =
     (if op = ''eq'' then Ok (Boolean_Expr Op_Eq l r) else if op = ''neq'' then Ok (Boolean_Expr Op_Neq l r)
      else if op = ''lt'' then Ok (Boolean_Expr Op_Lt l r) else if op = ''lteq'' then Ok (Boolean_Expr Op_LtEq l r)
      else if op = ''gt'' then Ok (Boolean_Expr Op_Gt l r) else if op = ''gteq'' then Ok (Boolean_Expr Op_GtEq l r)
      else if op = ''and'' then Ok (Boolean_Expr Op_And l r) else if op = ''or'' then Ok (Boolean_Expr Op_Or l r)
      else if op = ''add'' then Ok (Math_Expr Op_Add l r) else if op = ''subtract'' then Ok (Math_Expr Op_Subtract l r)
      else if op = ''multiply'' then Ok (Math_Expr Op_Multiply l r) else if op = ''divide'' then Ok (Math_Expr Op_Divide l r)
      else Panic (Panicked ''Unsupported binary operator''))"

fun deserialize_physical_expr :: "PhysicalExprNode \<Rightarrow> phys_expr res"
  and deserialize_physical_child :: "string \<Rightarrow> PhysicalExprNode option \<Rightarrow> phys_expr res" where
  "deserialize_physical_child m None = Panic (Panicked m)"
| "deserialize_physical_child m (Some n) = deserialize_physical_expr n"
| "deserialize_physical_expr (PhysicalExprNode t) = (case t of
      None \<Rightarrow> Panic (Panicked ''Physical expression type not set in protobuf'')
    | Some t \<Rightarrow> (case t of
        Px_Column i \<Rightarrow> Ok (Column_Expr (i32_as_usize i))
      | Px_LiteralString s \<Rightarrow> Ok (Literal_String s)
      | Px_LiteralLong n \<Rightarrow> Ok (Literal_Long n)
      | Px_LiteralDouble x \<Rightarrow> Ok (Literal_Double x)
      | Px_LiteralDate d \<Rightarrow> Ok (Literal_Date d)
      | Px_BinaryExpr l r op \<Rightarrow> and_then (deserialize_physical_child ''PhysicalBinaryExprNode.l unset'' l) (\<lambda>l.
          and_then (deserialize_physical_child ''PhysicalBinaryExprNode.r unset'' r) (physical_binary op l))
      | Px_CastExpr e k \<Rightarrow> and_then (deserialize_physical_child ''PhysicalCastExprNode.expr unset'' e) (\<lambda>e.
          map_res (Cast_Expr e) (from_proto_arrow_type k))))"

definition aggr_function_of :: "aggr_kind \<Rightarrow> AggregateFunction" where
  "aggr_function_of k = (case k of Agg_Sum \<Rightarrow> Fn_Sum | Agg_Min \<Rightarrow> Fn_Min | Agg_Max \<Rightarrow> Fn_Max | Agg_Avg \<Rightarrow> Fn_Avg | Agg_Count \<Rightarrow> Fn_Count)"

definition serialize_physical_aggr_expr :: "phys_aggr \<Rightarrow> PhysicalAggregateExprNode res" where
  "serialize_physical_aggr_expr a = map_res
     (\<lambda>n. \<lparr>pa_function = function_number (aggr_function_of (aggr_fun a)), pa_input_expr = Some n\<rparr>)
     (serialize_physical_expr (input_expression a))"

definition aggr_kind_of :: "AggregateFunction \<Rightarrow> aggr_kind res" where
  "aggr_kind_of f = (case f of Fn_Sum \<Rightarrow> Ok Agg_Sum | Fn_Min \<Rightarrow> Ok Agg_Min | Fn_Max \<Rightarrow> Ok Agg_Max | Fn_Avg \<Rightarrow> Ok Agg_Avg
     | Fn_Count \<Rightarrow> Ok Agg_Count | Fn_CountDistinct \<Rightarrow> Panic (Panicked ''Unsupported aggregate function''))"

definition deserialize_physical_aggr_expr :: "PhysicalAggregateExprNode \<Rightarrow> phys_aggr res" where
  "deserialize_physical_aggr_expr n =
     and_then (deserialize_physical_child ''PhysicalAggregateExprNode.input_expr unset'' (pa_input_expr n)) (\<lambda>e.
     and_then (expect ''Unknown AggregateFunction enum value'' (function_of_number (pa_function n))) (\<lambda>f.
     map_res (\<lambda>k. Aggr k e) (aggr_kind_of f)))"

section \<open>Plans and tasks\<close>

definition data_source_path_and_format :: "data_source \<Rightarrow> (string \<times> string) res" where
  "data_source_path_and_format ds = (case ds of
      Csv c \<Rightarrow> Ok (csv_filename c, ''csv'')
    | Parquet f \<Rightarrow> Ok (f, ''parquet'')
    | In_Memory s bs \<Rightarrow> Panic (Panicked ''Unsupported data-source type for protobuf serialisation''))"

definition plan_node :: "PhysicalPlanType \<Rightarrow> PhysicalPlanNode" where
  "plan_node t = PhysicalPlanNode (Some t)"

fun serialize_physical_plan :: "env \<Rightarrow> phys_plan \<Rightarrow> PhysicalPlanNode res" where
  "serialize_physical_plan E (Scan_Exec ds ns) = and_then (data_source_path_and_format ds) (\<lambda>(path, fmt).
     and_then (ds_schema E ds) (\<lambda>s. map_res (\<lambda>s. plan_node (Pp_Scan path (Some s) ns fmt)) (schema_to_proto s)))"
| "serialize_physical_plan E (Projection_Exec i s es) = and_then (serialize_physical_plan E i) (\<lambda>n.
     and_then (schema_to_proto s) (\<lambda>s.
     map_res (\<lambda>xs. plan_node (Pp_Projection (Some n) (Some s) xs)) (traverse serialize_physical_expr es)))"
| "serialize_physical_plan E (Selection_Exec i e) = and_then (serialize_physical_plan E i) (\<lambda>n.
     map_res (\<lambda>x. plan_node (Pp_Selection (Some n) (Some x))) (serialize_physical_expr e))"
| "serialize_physical_plan E (Hash_Aggregate_Exec i gs as s m) = and_then (serialize_physical_plan E i) (\<lambda>n.
     and_then (traverse serialize_physical_expr gs) (\<lambda>xs.
     and_then (traverse serialize_physical_aggr_expr as) (\<lambda>ys.
     map_res (\<lambda>s. plan_node (Pp_HashAggregate (Some n) xs ys (Some s) (aggregate_mode_to_proto m))) (schema_to_proto s))))"
| "serialize_physical_plan E (Shuffle_Writer_Exec i es job st n) = and_then (serialize_physical_plan E i) (\<lambda>k.
     map_res (\<lambda>xs. plan_node (Pp_ShuffleWriter (Some k) xs job st n)) (traverse serialize_physical_expr es))"
| "serialize_physical_plan E (Shuffle_Reader_Exec s locs) =
     map_res (\<lambda>s. plan_node (Pp_ShuffleReader (Some s) (List.map location_to_proto locs))) (schema_to_proto s)"
| "serialize_physical_plan E p = Panic (Panicked ''Cannot serialize physical operator to protobuf'')"

definition deserialize_source :: "string \<Rightarrow> string \<Rightarrow> Schema \<Rightarrow> data_source res" where
  "deserialize_source fmt path s =
     (if fmt = ''csv'' then Ok (Csv (csv_new path (Some s) True 1024))
      else if fmt = ''parquet'' then Ok (Parquet path)
      else Panic (Panicked ''Unsupported file format''))"

definition schema_field :: "string \<Rightarrow> PbSchema option \<Rightarrow> Schema res" where
  "schema_field m s = and_then (expect m s) deserialize_schema"

fun deserialize_physical_plan :: "PhysicalPlanNode \<Rightarrow> phys_plan res"
  and deserialize_input :: "string \<Rightarrow> PhysicalPlanNode option \<Rightarrow> phys_plan res" where
  "deserialize_input m None = Panic (Panicked m)"
| "deserialize_input m (Some n) = deserialize_physical_plan n"
| "deserialize_physical_plan (PhysicalPlanNode t) = (case t of
      None \<Rightarrow> Panic (Panicked ''Failed to parse physical plan node: plan_type unset'')
    | Some t \<Rightarrow> (case t of
        Pp_Scan path s ns fmt \<Rightarrow> and_then (schema_field ''ScanExecNode.schema unset'' s) (\<lambda>s.
          map_res (\<lambda>ds. Scan_Exec ds ns) (deserialize_source fmt path s))
      | Pp_Projection i s es \<Rightarrow> and_then (deserialize_input ''ProjectionExecNode.input unset'' i) (\<lambda>i.
          and_then (schema_field ''ProjectionExecNode.schema unset'' s) (\<lambda>s.
          map_res (Projection_Exec i s) (traverse deserialize_physical_expr es)))
      | Pp_Selection i e \<Rightarrow> and_then (deserialize_input ''SelectionExecNode.input unset'' i) (\<lambda>i.
          map_res (Selection_Exec i) (deserialize_physical_child ''SelectionExecNode.expr unset'' e))
      | Pp_HashAggregate i gs as s m \<Rightarrow> and_then (deserialize_input ''HashAggregateExecNode.input unset'' i) (\<lambda>i.
          and_then (traverse deserialize_physical_expr gs) (\<lambda>gs.
          and_then (traverse deserialize_physical_aggr_expr as) (\<lambda>as.
          map_res (\<lambda>s. Hash_Aggregate_Exec i gs as s (aggregate_mode_from_proto m))
            (schema_field ''HashAggregateExecNode.schema unset'' s))))
      | Pp_ShuffleWriter i es job st n \<Rightarrow> and_then (deserialize_input ''ShuffleWriterExecNode.input unset'' i) (\<lambda>i.
          map_res (\<lambda>es. Shuffle_Writer_Exec i es job st n) (traverse deserialize_physical_expr es))
      | Pp_ShuffleReader s locs \<Rightarrow> map_res (\<lambda>s. Shuffle_Reader_Exec s (List.map deserialize_shuffle_location locs))
          (schema_field ''ShuffleReaderExecNode.schema unset'' s)))"

definition serialize_task :: "env \<Rightarrow> Task \<Rightarrow> TaskInfo res" where
  "serialize_task E t = map_res (\<lambda>n. \<lparr>ti_job_uuid = t_job_uuid t, ti_stage_id = t_stage_id t, ti_task_id = t_task_id t,
     ti_partition_id = t_partition_id t, ti_plan = Some n\<rparr>) (serialize_physical_plan E (t_plan t))"

definition deserialize_task :: "TaskInfo \<Rightarrow> Task res" where
  "deserialize_task t = map_res (task_new (ti_job_uuid t) (ti_stage_id t) (ti_task_id t) (ti_partition_id t))
     (deserialize_input ''TaskInfo.plan unset'' (ti_plan t))"

end
