(* ===== verification/Wire_Props.thy ===== *)
theory Wire_Props
  imports Wire_Physical Sql_Plan_Props Shuffle_Props
begin

text \<open>
  What survives the wire: exactly which logical plans come back unchanged, that a physical plan
  comes back as a plan that does the same, and that no aggregate query of the SQL planner can
  be sent as a logical plan.
\<close>

section \<open>Logical plans\<close>

fun sendable_expr :: "LogicalExpr \<Rightarrow> bool" where
  "sendable_expr (Column n) = True"
| "sendable_expr (LiteralString s) = True"
| "sendable_expr (LiteralFloat x) = True"
| "sendable_expr (LiteralDouble x) = True"
| "sendable_expr (LiteralLong n) = True"
| "sendable_expr (LiteralDate d) = (-96465292 \<le> d \<and> d \<le> 95026236)"
| "sendable_expr (L_Eq l r) = (sendable_expr l \<and> sendable_expr r)"
| "sendable_expr (L_Neq l r) = (sendable_expr l \<and> sendable_expr r)"
| "sendable_expr (L_Lt l r) = (sendable_expr l \<and> sendable_expr r)"
| "sendable_expr (L_LtEq l r) = (sendable_expr l \<and> sendable_expr r)"
| "sendable_expr (L_Gt l r) = (sendable_expr l \<and> sendable_expr r)"
| "sendable_expr (L_GtEq l r) = (sendable_expr l \<and> sendable_expr r)"
| "sendable_expr (L_And l r) = (sendable_expr l \<and> sendable_expr r)"
| "sendable_expr (L_Or l r) = (sendable_expr l \<and> sendable_expr r)"
| "sendable_expr e = False"

fun sendable :: "env \<Rightarrow> LogicalPlan \<Rightarrow> bool" where
  "sendable E (Scan path ds ns s) = (derive_schema E ds ns = Ok s \<and> (case ds of
      Csv c \<Rightarrow> c = csv_new path None (csv_has_headers c) 1024
    | Parquet f \<Rightarrow> f = path
    | In_Memory s bs \<Rightarrow> False))"
| "sendable E (Projection i es) = (sendable E i \<and> list_all sendable_expr es)"
| "sendable E (Selection i e) = (sendable E i \<and> sendable_expr e)"
| "sendable E (Limit i k) = sendable E i"
| "sendable E (Aggregate i gs as) = (sendable E i \<and> list_all sendable_expr gs \<and> list_all (\<lambda>a. sendable_expr (aggregate_inner a)) as)"
| "sendable E (Join l r jt ons) = False"

abbreviation expr_trip :: "LogicalExpr \<Rightarrow> LogicalExpr res" where
  "expr_trip e \<equiv> and_then (serialize_logical_expr e) deserialize_logical_expr"

lemma date_trip: "map_res LiteralDate (naive_date_from_days (days_since_unix_epoch d)) = Ok (LiteralDate d)
    \<longleftrightarrow> -96465292 \<le> d \<and> d \<le> 95026236"
proof -
  have "sint (word_of_int d :: 32 word) = d" if "-96465292 \<le> d" "d \<le> 95026236"
    using that by (intro sint_of_int32) simp_all
  then show ?thesis by (auto simp: naive_date_from_days_def days_since_unix_epoch_def)
qed

lemma binary_trip:
  assumes "\<And>l r. logical_binary op l r = Ok (f l r)" "\<And>l r l' r'. f l r = f l' r' \<longleftrightarrow> l = l' \<and> r = r'"
  shows "and_then (binary_op_variant op (serialize_logical_expr l) (serialize_logical_expr r)) deserialize_logical_expr = Ok (f l r)
    \<longleftrightarrow> expr_trip l = Ok l \<and> expr_trip r = Ok r"
  by (cases "serialize_logical_expr l"; cases "serialize_logical_expr r")
    (auto simp: binary_op_variant_def and_then_eq_Ok assms)

lemma expr_trip_iff: "expr_trip e = Ok e \<longleftrightarrow> sendable_expr e"
proof (induction e rule: sendable_expr.induct)
  case (6 d)
  then show ?case using date_trip by simp
qed (simp_all only: serialize_logical_expr.simps sendable_expr.simps, simp_all add: binary_trip logical_binary_def)

lemma traverse_trip:
  "and_then (traverse f xs) (traverse g) = Ok xs \<longleftrightarrow> list_all (\<lambda>x. and_then (f x) g = Ok x) xs"
proof (induction xs)
  case (Cons x xs)
  show ?case using Cons by (cases "f x"; cases "traverse f xs") (auto simp: and_then_eq_Ok)
qed simp

lemma aggregate_trip:
  "and_then (serialize_logical_aggregate_expr a) (\<lambda>e. and_then (deserialize_logical_expr e) unwrap_aggregate) = Ok a
     \<longleftrightarrow> sendable_expr (aggregate_inner a)"
  unfolding expr_trip_iff [symmetric]
  by (cases a; cases "serialize_logical_expr (aggregate_inner a)")
    (auto simp: serialize_logical_aggregate_expr_def aggregate_function_def function_number_def function_of_number_def
      aggregate_functions_def logical_aggregate_def unwrap_aggregate_def and_then_eq_Ok map_res_eq_Ok aggregate_inner_def)

lemma exprs_trip: "and_then (traverse serialize_logical_expr es) (traverse deserialize_logical_expr) = Ok es \<longleftrightarrow> list_all sendable_expr es"
  by (simp only: traverse_trip expr_trip_iff)

lemma aggregates_trip:
  "and_then (traverse serialize_logical_aggregate_expr as) (traverse (\<lambda>e. and_then (deserialize_logical_expr e) unwrap_aggregate)) = Ok as
     \<longleftrightarrow> list_all (\<lambda>a. sendable_expr (aggregate_inner a)) as"
  by (simp only: traverse_trip aggregate_trip)

lemma derive_trip: "map_res (Scan path ds ns) (derive_schema E ds ns) = Ok (Scan path' ds' ns' s)
    \<longleftrightarrow> path = path' \<and> ds = ds' \<and> ns = ns' \<and> derive_schema E ds ns = Ok s"
  by (auto simp: map_res_eq_Ok)

lemma plan_trip_iff:
  "and_then (serialize_logical_plan p) (deserialize_logical_plan E) = Ok p \<longleftrightarrow> sendable E p"
proof (induction p)
  case (Scan path ds ns s)
  show ?case by (cases ds) (auto simp: scan_new_def derive_trip csv_new_def)
next
  case (Projection i es)
  show ?case using Projection exprs_trip [of es]
    by (cases "serialize_logical_plan i"; cases "traverse serialize_logical_expr es")
      (auto simp: and_then_eq_Ok map_res_eq_Ok)
next
  case (Selection i e)
  show ?case using Selection expr_trip_iff [of e]
    by (cases "serialize_logical_plan i"; cases "serialize_logical_expr e") (auto simp: and_then_eq_Ok map_res_eq_Ok)
next
  case (Aggregate i gs as)
  show ?case using Aggregate exprs_trip [of gs] aggregates_trip [of as]
    by (cases "serialize_logical_plan i"; cases "traverse serialize_logical_expr gs"; cases "traverse serialize_logical_aggregate_expr as")
      (auto simp: and_then_eq_Ok map_res_eq_Ok)
next
  case (Join l r jt ons)
  show ?case by (auto simp: and_then_eq_Ok map_res_eq_Ok)
next
  case (Limit i n)
  then show ?case by (cases "serialize_logical_plan i") (auto simp: map_res_eq_Ok)
qed

section \<open>Aggregate queries cannot be sent\<close>

lemma split_projection_unsendable:
  "split_projection k gc as es = Ok (ps, as') \<Longrightarrow> list_all (\<lambda>e. \<not> is_ok (serialize_logical_expr e)) ps \<and> length ps = length es"
proof (induction k gc as es arbitrary: ps as' rule: split_projection.induct)
  case (2 k gc as e es)
  then show ?case by (cases e) (auto simp: map_res_eq_Ok split: LogicalExpr.splits)
qed simp

lemma unsendable_projection: "list_all (\<lambda>e. \<not> is_ok (serialize_logical_expr e)) ps \<Longrightarrow> ps \<noteq> [] \<Longrightarrow>
    \<not> is_ok (serialize_logical_plan (Projection i ps))"
  by (cases ps; cases "serialize_logical_plan i") (auto simp: is_ok_iff map_res_eq_Ok and_then_eq_Ok)

lemma wrapped_unsendable:
  "\<not> is_ok (serialize_logical_plan (df_plan d)) \<Longrightarrow> \<not> is_ok (serialize_logical_plan (df_plan (with_limit q d)))"
  "\<not> is_ok (serialize_logical_plan (df_plan d)) \<Longrightarrow> with_having E q d = Ok d' \<Longrightarrow> \<not> is_ok (serialize_logical_plan (df_plan d'))"
  by (auto simp: with_limit_def df_limit_def with_having_def df_filter_def is_ok_iff map_res_eq_Ok and_then_eq_Ok split: option.splits)

lemma aggregate_query_projection:
  assumes "create_data_frame E q tbls = Ok df" "traverse (create_logical_expr E) (sel_projection q) = Ok es"
    "\<exists>e\<in>set es. is_aggregate_expr e"
  obtains k as ps as' plan d where "split_projection k 0 as es = Ok (ps, as')" "with_having E q (df_project plan ps) = Ok d"
    "df = with_limit q d"
proof -
  have "List.filter is_aggregate_expr es \<noteq> []" using assms(3) by (simp add: filter_empty_conv)
  then show ?thesis using assms(1,2) that
    by (fastforce simp: create_data_frame_def and_then_eq_Ok map_res_eq_Ok Let_def split: if_splits)
qed

lemma aggregate_query_unsendable:
  assumes "create_data_frame E q tbls = Ok df" "traverse (create_logical_expr E) (sel_projection q) = Ok es"
    "\<exists>e\<in>set es. is_aggregate_expr e"
  shows "\<not> is_ok (serialize_logical_plan (df_plan df))"
proof -
  obtain k as ps as' plan d where d: "split_projection k 0 as es = Ok (ps, as')" "with_having E q (df_project plan ps) = Ok d"
    "df = with_limit q d"
    using aggregate_query_projection [OF assms] by blast
  have "list_all (\<lambda>e. \<not> is_ok (serialize_logical_expr e)) ps" "ps \<noteq> []"
    using split_projection_unsendable [OF d(1)] assms(3) by auto
  then have "\<not> is_ok (serialize_logical_plan (df_plan (df_project plan ps)))"
    using unsendable_projection by (simp add: df_project_def)
  then show ?thesis using wrapped_unsendable d(2,3) by blast
qed

section \<open>Physical plans\<close>

lemma type_trip: "data_type_to_proto t = Ok k \<Longrightarrow> from_proto_arrow_type k = Ok t"
  by (cases t) (auto simp: data_type_to_proto_def from_proto_arrow_type_def arrow_numbers_def word_le_nat_alt)

lemma traverse_back: "traverse f xs = Ok ys \<Longrightarrow> (\<And>x y. x \<in> set xs \<Longrightarrow> f x = Ok y \<Longrightarrow> g y = Ok x) \<Longrightarrow> traverse g ys = Ok xs"
proof (induction xs arbitrary: ys)
  case (Cons x xs)
  from Cons.prems(1) obtain y ys' where ys: "f x = Ok y" "traverse f xs = Ok ys'" "ys = y # ys'"
    by (auto simp: and_then_eq_Ok)
  have "traverse g ys' = Ok xs" by (rule Cons.IH [OF ys(2)]) (use Cons.prems(2) in simp)
  moreover have "g y = Ok x" by (rule Cons.prems(2) [OF _ ys(1)]) simp
  ultimately show ?case by (simp add: ys(3))
qed simp

lemma schema_trip: "schema_to_proto s = Ok p \<Longrightarrow> deserialize_schema p = Ok s"
proof -
  assume "schema_to_proto s = Ok p"
  then obtain fs where fs: "traverse field_to_proto (s_fields s) = Ok fs" "p = \<lparr>pb_columns = fs\<rparr>"
    by (auto simp: schema_to_proto_def map_res_eq_Ok)
  have "traverse deserialize_field fs = Ok (s_fields s)"
    by (rule traverse_back [OF fs(1)]) (auto simp: field_to_proto_def deserialize_field_def map_res_eq_Ok type_trip new_field_def)
  then show ?thesis by (simp add: deserialize_schema_def fs(2) new_schema_def)
qed

lemma location_trip [simp]: "deserialize_shuffle_location (location_to_proto l) = l"
  by (simp add: deserialize_shuffle_location_def location_to_proto_def new_location_def)

lemma mode_trip [simp]: "aggregate_mode_from_proto (aggregate_mode_to_proto m) = m"
  by (cases m) (simp_all add: aggregate_mode_from_proto_def aggregate_mode_to_proto_def)

text \<open>Column numbers are sent as 32-bit signed integers.\<close>

fun small_columns :: "phys_expr \<Rightarrow> bool" where
  "small_columns (Column_Expr i) = (i < 2 ^ 31)"
| "small_columns (Boolean_Expr op l r) = (small_columns l \<and> small_columns r)"
| "small_columns (Math_Expr op l r) = (small_columns l \<and> small_columns r)"
| "small_columns (Cast_Expr e t) = small_columns e"
| "small_columns e = True"

lemma column_trip: "i < 2 ^ 31 \<Longrightarrow> i32_as_usize (word_of_nat i) = i"
proof -
  assume i: "i < 2 ^ 31"
  have "sint (word_of_nat i :: 32 word) = int i"
    using i sint_of_int32 [of "int i"] by simp
  then show ?thesis using i32_as_usize_pos [of "word_of_nat i"] by simp
qed

lemma expr_back: "serialize_physical_expr e = Ok n \<Longrightarrow> small_columns e \<Longrightarrow> deserialize_physical_expr n = Ok e"
proof (induction e arbitrary: n)
  case (Column_Expr i)
  then show ?case using column_trip by auto
next
  case (Boolean_Expr op l r)
  then show ?case by (cases op) (auto simp: physical_binary_node_def and_then_eq_Ok map_res_eq_Ok bool_op_name_def physical_binary_def)
next
  case (Math_Expr op l r)
  then show ?case by (cases op) (auto simp: physical_binary_node_def and_then_eq_Ok map_res_eq_Ok math_op_name_def physical_binary_def)
next
  case (Cast_Expr e t)
  then show ?case by (auto simp: and_then_eq_Ok map_res_eq_Ok type_trip)
qed auto

lemma aggr_back: "serialize_physical_aggr_expr a = Ok n \<Longrightarrow> small_columns (input_expression a) \<Longrightarrow> deserialize_physical_aggr_expr n = Ok a"
  by (cases a; cases "aggr_fun a")
    (auto simp: serialize_physical_aggr_expr_def deserialize_physical_aggr_expr_def map_res_eq_Ok expr_back aggr_function_of_def
      function_number_def function_of_number_def aggregate_functions_def aggr_kind_of_def)

text \<open>The plan a server makes of the message: a CSV source becomes one with the schema resolved, the
  header line expected, batches of 1024 rows and commas.\<close>

definition received_source :: "env \<Rightarrow> data_source \<Rightarrow> data_source" where
  "received_source E ds = (case ds of
      Csv c \<Rightarrow> Csv (csv_new (csv_filename c) (Some (the_ok (ds_schema E ds))) True 1024) | _ \<Rightarrow> ds)"

fun received :: "env \<Rightarrow> phys_plan \<Rightarrow> phys_plan" where
  "received E (Scan_Exec ds ns) = Scan_Exec (received_source E ds) ns"
| "received E (Projection_Exec i s es) = Projection_Exec (received E i) s es"
| "received E (Selection_Exec i e) = Selection_Exec (received E i) e"
| "received E (Hash_Aggregate_Exec i gs as s m) = Hash_Aggregate_Exec (received E i) gs as s m"
| "received E (Shuffle_Writer_Exec i es job st n) = Shuffle_Writer_Exec (received E i) es job st n"
| "received E p = p"

fun small_plan :: "phys_plan \<Rightarrow> bool" where
  "small_plan (Projection_Exec i s es) = (small_plan i \<and> list_all small_columns es)"
| "small_plan (Selection_Exec i e) = (small_plan i \<and> small_columns e)"
| "small_plan (Hash_Aggregate_Exec i gs as s m) =
     (small_plan i \<and> list_all small_columns gs \<and> list_all (\<lambda>a. small_columns (input_expression a)) as)"
| "small_plan (Shuffle_Writer_Exec i es job st n) = (small_plan i \<and> list_all small_columns es)"
| "small_plan p = True"

lemma exprs_back: "traverse serialize_physical_expr es = Ok ns \<Longrightarrow> list_all small_columns es \<Longrightarrow> traverse deserialize_physical_expr ns = Ok es"
  by (rule traverse_back) (auto simp: expr_back list_all_iff)

lemma aggrs_back: "traverse serialize_physical_aggr_expr as = Ok ns \<Longrightarrow> list_all (\<lambda>a. small_columns (input_expression a)) as \<Longrightarrow>
    traverse deserialize_physical_aggr_expr ns = Ok as"
  by (rule traverse_back) (auto simp: aggr_back list_all_iff)

lemma plan_back: "serialize_physical_plan E p = Ok n \<Longrightarrow> small_plan p \<Longrightarrow> deserialize_physical_plan n = Ok (received E p)"
proof (induction p arbitrary: n)
  case (Scan_Exec ds ns)
  then show ?case
    by (cases ds) (auto simp: and_then_eq_Ok map_res_eq_Ok data_source_path_and_format_def plan_node_def schema_field_def
        schema_trip deserialize_source_def received_source_def)
qed (auto simp: and_then_eq_Ok map_res_eq_Ok plan_node_def schema_field_def schema_trip exprs_back aggrs_back expr_back comp_def)

text \<open>The sources that are the same on the other side.\<close>

fun default_sources :: "phys_plan \<Rightarrow> bool" where
  "default_sources (Scan_Exec ds ns) = (case ds of
      Csv c \<Rightarrow> csv_has_headers c \<and> csv_batch_size c = 1024 \<and> csv_delimiter c = 44 | _ \<Rightarrow> True)"
| "default_sources (Projection_Exec i s es) = default_sources i"
| "default_sources (Selection_Exec i e) = default_sources i"
| "default_sources (Hash_Aggregate_Exec i gs as s m) = default_sources i"
| "default_sources (Shuffle_Writer_Exec i es job st n) = default_sources i"
| "default_sources p = True"

lemma received_source_same:
  assumes "ds_schema E ds = Ok s" "case ds of Csv c \<Rightarrow> csv_has_headers c \<and> csv_batch_size c = 1024 \<and> csv_delimiter c = 44 | _ \<Rightarrow> True"
  shows "ds_schema E (received_source E ds) = ds_schema E ds" "ds_scan E (received_source E ds) ns = ds_scan E ds ns"
proof -
  have "ds_schema E (Csv (csv_new f (Some s) True 1024)) = Ok s" for f by (simp add: ds_schema_def csv_new_def)
  then show "ds_schema E (received_source E ds) = ds_schema E ds" "ds_scan E (received_source E ds) ns = ds_scan E ds ns"
    using assms by (cases ds; simp add: received_source_def ds_scan_def csv_scan_def csv_new_def)+
qed

lemma received_same:
  "is_ok (serialize_physical_plan E p) \<Longrightarrow> default_sources p \<Longrightarrow>
     phys_schema E (received E p) = phys_schema E p \<and> execute E ctx (received E p) = execute E ctx p"
proof (induction p)
  case (Scan_Exec ds ns)
  then obtain s where "ds_schema E ds = Ok s" by (auto simp: is_ok_iff and_then_eq_Ok map_res_eq_Ok)
  then show ?case using received_source_same Scan_Exec.prems(2) by simp
qed (auto simp: is_ok_iff and_then_eq_Ok map_res_eq_Ok)

section \<open>Properties\<close>

text \<open>C16: A logical plan that is serialized and deserialized comes back unchanged exactly when it
  has no join, every expression in it is a column name, a string, number or date literal (in
  chrono's range) or a comparison, AND or OR of such, its aggregates are over such, and every scan is of a
  comma-separated CSV file with the batch size 1024 and an inferred schema, or of a Parquet
  file, at the path of the scan.\<close>

theorem logical_plan_roundtrip:
  "and_then (serialize_logical_plan p) (deserialize_logical_plan E) = Ok p \<longleftrightarrow> sendable E p"
  by (rule plan_trip_iff)

text \<open>C37: No SQL query with an aggregate in its select list can be sent to a server as a logical
  plan: whenever the planner accepts one, serializing its plan panics, because the planner
  refers to the aggregates by position.\<close>

theorem aggregate_query_cannot_be_sent:
  assumes "create_data_frame E q tbls = Ok df" "traverse (create_logical_expr E) (sel_projection q) = Ok es"
    "\<exists>e\<in>set es. is_aggregate_expr e"
  shows "\<not> is_ok (serialize_logical_plan (df_plan df))"
  by (rule aggregate_query_unsendable [OF assms])

theorem aggregate_query_cannot_be_sent_witness:
  "\<exists>df. create_data_frame ref_env (SqlSelect [S_Function ''MAX'' [S_Identifier ''id'']] None [] [] None None ''t'') sample_tables = Ok df
     \<and> \<not> is_ok (serialize_logical_plan (df_plan df))"
proof -
  let ?q = "SqlSelect [S_Function ''MAX'' [S_Identifier ''id'']] None [] [] None None ''t''"
  have u: "to_uppercase ''MAX'' = ''MAX''" by code_simp
  have es: "traverse (create_logical_expr ref_env) (sel_projection ?q) = Ok [L_Aggregate (A_Max (Column ''id''))]"
    by (simp add: u aggregate_call_def)
  have df: "create_data_frame ref_env ?q sample_tables =
      Ok \<lparr>df_plan = Projection (Aggregate sample_table [] [A_Max (Column ''id'')]) [ColumnIndex 0]\<rparr>"
    by (simp add: create_data_frame_def u aggregate_call_def is_aggregate_expr_def columns_referenced_by_selection_def
        plan_aggregate_query_def aggregate_input_def with_having_def with_limit_def df_project_def df_aggregate_def)
  show ?thesis using aggregate_query_cannot_be_sent [OF df es] df by (simp add: is_aggregate_expr_def)
qed

end
