(* ===== verification/Two_Stage.thy ===== *)
theory Two_Stage
  imports Join_Props
begin

text \<open>
  Two-stage aggregation over rows: partial aggregates of the parts of a table and a final
  aggregate over their output, in any order, are the complete aggregate of the table.  The
  locale @partial_aggregation@ (merging runs in order) is extended by the law that lets the
  parts come in any order.
\<close>

section \<open>Folds in any order\<close>

lemma fold_res_move:
  assumes "\<And>s x y. I s \<Longrightarrow> P x \<Longrightarrow> P y \<Longrightarrow> and_then (f s x) (\<lambda>s. f s y) = and_then (f s y) (\<lambda>s. f s x)"
    and "\<And>s x s'. I s \<Longrightarrow> P x \<Longrightarrow> f s x = Ok s' \<Longrightarrow> I s'"
    and "I s" "P x" "list_all P xs"
  shows "fold_res f s (x # xs) = fold_res f s (xs @ [x])"
  using assms(3,5)
proof (induction xs arbitrary: s)
  case (Cons y ys)
  have P: "P y" "list_all P ys" using Cons.prems(2) by auto
  have "fold_res f s (x # y # ys) = and_then (and_then (f s x) (\<lambda>s. f s y)) (\<lambda>s. fold_res f s ys)" by simp
  also have "\<dots> = and_then (f s y) (\<lambda>s. fold_res f s (x # ys))" using assms(1) [OF Cons.prems(1) assms(4) P(1)] by simp
  also have "\<dots> = and_then (f s y) (\<lambda>s. fold_res f s (ys @ [x]))"
    by (rule and_then_cong [OF refl]) (use Cons.IH assms(2) Cons.prems(1) P in blast)
  finally show ?case by simp
qed simp

lemma fold_res_permute:
  assumes comm: "\<And>s x y. I s \<Longrightarrow> P x \<Longrightarrow> P y \<Longrightarrow> and_then (f s x) (\<lambda>s. f s y) = and_then (f s y) (\<lambda>s. f s x)"
    and step: "\<And>s x s'. I s \<Longrightarrow> P x \<Longrightarrow> f s x = Ok s' \<Longrightarrow> I s'"
    and "I s" "list_all P xs" "mset xs = mset ys"
  shows "fold_res f s xs = fold_res f s ys"
  using assms(3-5)
proof (induction xs arbitrary: s ys)
  case (Cons x xs)
  have "x \<in> set ys" using Cons.prems(3) by (metis list.set_intros(1) set_mset_mset)
  then obtain us vs where ys: "ys = us @ x # vs" by (meson split_list)
  have rest: "mset xs = mset (us @ vs)" using Cons.prems(3) ys by simp
  have P: "P x" "list_all P xs" using Cons.prems(2) by auto
  then have Pu: "list_all P us" using rest by (metis (no_types, lifting) Ball_set list_all_append set_mset_mset)
  have "fold_res f s (x # xs) = fold_res f s (x # us @ vs)"
    unfolding fold_res.simps by (rule and_then_cong [OF refl]) (use Cons.IH [OF _ P(2) rest] step Cons.prems(1) P(1) in blast)
  also have "\<dots> = and_then (fold_res f s (x # us)) (\<lambda>s. fold_res f s vs)" by (simp add: fold_res_append)
  also have "fold_res f s (x # us) = fold_res f s (us @ [x])"
    by (rule fold_res_move [of I P f, OF comm step Cons.prems(1) P(1) Pu])
  finally show ?case by (simp add: ys fold_res_append)
qed simp

lemma mset_map_inv: "mset ys = mset (List.map f xs) \<Longrightarrow> \<exists>xs'. mset xs' = mset xs \<and> List.map f xs' = ys"
proof (induction ys arbitrary: xs)
  case (Cons y ys)
  have "y \<in> set (List.map f xs)" using Cons.prems by (metis list.set_intros(1) set_mset_mset)
  then obtain us x vs where xs: "xs = us @ x # vs" "f x = y" by (metis (no_types, lifting) imageE list.set_map split_list)
  then have "mset ys = mset (List.map f (us @ vs))" using Cons.prems by simp
  then obtain zs where "mset zs = mset (us @ vs)" "List.map f zs = ys" using Cons.IH by blast
  then show ?case using xs by (intro exI [of _ "x # zs"]) simp
qed simp

lemma fold_parts_ok:
  "fold_res (\<lambda>s p. and_then (F p) (G s)) s parts = Ok s' \<Longrightarrow> fold_res G s (List.map (\<lambda>p. the_ok (F p)) parts) = Ok s' \<and> list_all (\<lambda>p. is_ok (F p)) parts"
  by (induction parts arbitrary: s) (auto simp: and_then_eq_Ok)

section \<open>The contract, in any order\<close>

locale commuting_aggregation = partial_aggregation +
  assumes step_commute: "inv s \<Longrightarrow> valid u \<Longrightarrow> valid v \<Longrightarrow>
    and_then (step s u) (\<lambda>s. step s v) = and_then (step s v) (\<lambda>s. step s u)"
begin

lemma run_permute: "list_all valid vs \<Longrightarrow> mset vs = mset ws \<Longrightarrow> fold_res step init vs = fold_res step init ws"
  by (rule fold_res_permute [of inv valid]) (auto simp: step_commute inv_init intro: inv_step)

text \<open>Merging the exports of the runs over the parts, in any order, is one run over all of them.\<close>

lemma merge_parts:
  assumes "list_all (list_all valid) parts" "mset (concat parts) = mset vs" "fold_res step init vs = Ok s"
    "mset xs = mset (List.map (\<lambda>p. export (the_ok (fold_res step init p))) parts)"
  shows "fold_res join init xs = Ok s"
proof -
  obtain ps where ps: "mset ps = mset parts" "List.map (\<lambda>p. export (the_ok (fold_res step init p))) ps = xs"
    using mset_map_inv [OF assms(4)] by blast
  have v: "list_all (list_all valid) ps" using assms(1) ps(1) by (metis (no_types, lifting) Ball_set set_mset_mset)
  have "mset (concat ps) = mset vs" using assms(2) ps(1) by (metis mset_concat mset_map sum_mset_sum_list)
  moreover have "list_all valid (concat ps)" using v by (auto simp: list_all_iff)
  ultimately have "fold_res step init (concat ps) = Ok s" using run_permute assms(3) by metis
  then have two: "fold_res (\<lambda>s p. and_then (fold_res step init p) (\<lambda>t. join s (export t))) init ps = Ok s"
    using two_stage_from [OF inv_init v] by simp
  have "fold_res (\<lambda>s t. join s (export t)) init (List.map (\<lambda>p. the_ok (fold_res step init p)) ps) = Ok s"
    using fold_parts_ok [OF two] by blast
  then show ?thesis by (simp add: ps(2) [symmetric] fold_res_map comp_def)
qed

lemma parts_run:
  assumes "list_all (list_all valid) parts" "mset (concat parts) = mset vs" "fold_res step init vs = Ok s" "p \<in> set parts"
  shows "is_ok (fold_res step init p)"
proof -
  have "list_all valid (concat parts)" using assms(1) by (auto simp: list_all_iff)
  then have "fold_res step init (concat parts) = Ok s" using run_permute assms(2,3) by metis
  then have two: "fold_res (\<lambda>s p. and_then (fold_res step init p) (\<lambda>t. join s (export t))) init parts = Ok s"
    using two_stage_from [OF inv_init assms(1)] by simp
  show ?thesis using fold_parts_ok [OF two] assms(4) by (auto simp: list_all_iff)
qed

end

section \<open>Every accumulator but AVG keeps it\<close>

lemma min_commute:
  assumes "not_float s" "not_float u" "not_float v"
  shows "and_then (min_accumulate s u) (\<lambda>s. min_accumulate s v) = and_then (min_accumulate s v) (\<lambda>s. min_accumulate s u)"
proof (cases "s = V_Null \<or> u = V_Null \<or> v = V_Null")
  case True
  then show ?thesis using assms
    by (auto simp: min_accumulate_def is_null_def scalar_lt_eq same_type_in_sym scalar_key_inject)
next
  case False
  then have n: "\<not> is_null s" "\<not> is_null u" "\<not> is_null v" by auto
  show ?thesis using assms False n
    by (cases "scalar_type u = scalar_type s"; cases "scalar_type v = scalar_type s"; cases "scalar_type s \<in> set ord_types")
      (auto simp: min_accumulate_def scalar_lt_eq same_type_in_def scalar_key_inject)
qed

lemma max_commute:
  assumes "not_float s" "not_float u" "not_float v"
  shows "and_then (max_accumulate s u) (\<lambda>s. max_accumulate s v) = and_then (max_accumulate s v) (\<lambda>s. max_accumulate s u)"
proof (cases "s = V_Null \<or> u = V_Null \<or> v = V_Null")
  case True
  then show ?thesis using assms
    by (auto simp: max_accumulate_def is_null_def scalar_gt_eq same_type_in_sym scalar_key_inject)
next
  case False
  then have n: "\<not> is_null s" "\<not> is_null u" "\<not> is_null v" by auto
  show ?thesis using assms False n
    by (cases "scalar_type u = scalar_type s"; cases "scalar_type v = scalar_type s"; cases "scalar_type s \<in> set ord_types")
      (auto simp: max_accumulate_def scalar_gt_eq same_type_in_def scalar_key_inject)
qed

lemma sum_sym: "not_float u \<Longrightarrow> not_float v \<Longrightarrow> sum_accumulate u v = sum_accumulate v u"
  by (cases u; cases v) (auto simp: sum_accumulate_def scalar_add_def not_float_def is_null_def add.commute)

lemma sum_commute:
  assumes "not_float s" "not_float u" "not_float v"
  shows "and_then (sum_accumulate s u) (\<lambda>s. sum_accumulate s v) = and_then (sum_accumulate s v) (\<lambda>s. sum_accumulate s u)"
  using sum_assoc [OF assms] sum_assoc [OF assms(1,3,2)] sum_sym [OF assms(2,3)] by simp

lemma count_commute:
  "and_then (count_accumulate n u) (\<lambda>n. count_accumulate n v) = and_then (count_accumulate n v) (\<lambda>n. count_accumulate n u)"
  by (auto simp: count_accumulate_def)

lemma lift_commute:
  assumes "and_then (f s u) (\<lambda>s. f s v) = and_then (f s v) (\<lambda>s. f s u)" "\<And>s x. A (C s) x = map_res C (f s x)"
  shows "and_then (A (C s) u) (\<lambda>s. A s v) = and_then (A (C s) v) (\<lambda>s. A s u)"
  by (simp add: assms(2) and_then_map_res map_res_and_then_distrib [symmetric] assms(1))

interpretation min_parts: commuting_aggregation "new_accumulator Agg_Min" accumulate intermediate_value merge min_inv not_float
  by unfold_locales (auto simp: min_inv_def acc_defs intro!: lift_commute [OF min_commute])

interpretation max_parts: commuting_aggregation "new_accumulator Agg_Max" accumulate intermediate_value merge max_inv not_float
  by unfold_locales (auto simp: max_inv_def acc_defs intro!: lift_commute [OF max_commute])

interpretation sum_parts: commuting_aggregation "new_accumulator Agg_Sum" accumulate intermediate_value merge sum_inv not_float
  by unfold_locales (auto simp: sum_inv_def acc_defs intro!: lift_commute [OF sum_commute])

interpretation count_parts: commuting_aggregation "new_accumulator Agg_Count" accumulate intermediate_value merge count_inv "\<lambda>_. True"
  by unfold_locales (auto simp: count_inv_def acc_defs intro!: lift_commute [where f = count_accumulate and C = Count_Acc, OF count_commute])

text \<open>One fact for all four.\<close>

lemma merge_partials:
  assumes "k \<noteq> Agg_Avg" "k \<noteq> Agg_Count \<Longrightarrow> list_all (list_all not_float) parts" "mset (concat parts) = mset vs"
    "fold_res accumulate (new_accumulator k) vs = Ok s"
  shows "mset xs = mset (List.map (\<lambda>p. intermediate_value (the_ok (fold_res accumulate (new_accumulator k) p))) parts) \<Longrightarrow>
      fold_res merge (new_accumulator k) xs = Ok s"
    and "p \<in> set parts \<Longrightarrow> is_ok (fold_res accumulate (new_accumulator k) p)"
proof -
  have t: "list_all (list_all (\<lambda>_. True)) parts" by (simp add: list_all_iff)
  show "mset xs = mset (List.map (\<lambda>p. intermediate_value (the_ok (fold_res accumulate (new_accumulator k) p))) parts) \<Longrightarrow>
      fold_res merge (new_accumulator k) xs = Ok s"
    using assms t
    by (cases k) (auto intro: min_parts.merge_parts max_parts.merge_parts sum_parts.merge_parts count_parts.merge_parts)
  show "p \<in> set parts \<Longrightarrow> is_ok (fold_res accumulate (new_accumulator k) p)"
    using assms t
    by (cases k) (auto intro: min_parts.parts_run max_parts.parts_run sum_parts.parts_run count_parts.parts_run)
qed

section \<open>What a run of typed cells returns\<close>

text \<open>The types the aggregates but AVG run on, and the type of what they return.\<close>

definition aggregates_type :: "aggr_kind \<Rightarrow> DataType \<Rightarrow> bool" where
  "aggregates_type k t = (case k of Agg_Min \<Rightarrow> t \<in> set ord_types | Agg_Max \<Rightarrow> t \<in> set ord_types
     | Agg_Sum \<Rightarrow> t \<in> set int_types | Agg_Count \<Rightarrow> True | Agg_Avg \<Rightarrow> False)"

definition aggregate_type :: "aggr_kind \<Rightarrow> DataType \<Rightarrow> DataType" where
  "aggregate_type k t = (if k = Agg_Count then T_Int32 else t)"

definition acc_ok :: "aggr_kind \<Rightarrow> DataType \<Rightarrow> nat \<Rightarrow> accumulator \<Rightarrow> bool" where
  "acc_ok k t n a = (case k of Agg_Min \<Rightarrow> \<exists>s. a = Min_Acc s \<and> fits t s | Agg_Max \<Rightarrow> \<exists>s. a = Max_Acc s \<and> fits t s
     | Agg_Sum \<Rightarrow> \<exists>s. a = Sum_Acc s \<and> fits t s | Agg_Count \<Rightarrow> \<exists>c. a = Count_Acc c \<and> 0 \<le> sint c \<and> sint c \<le> int n
     | Agg_Avg \<Rightarrow> False)"

lemma int_ord: "t \<in> set int_types \<Longrightarrow> t \<in> set ord_types"
  by (auto simp: int_types_def ord_types_def)

lemma aggregates_not_float: "aggregates_type k t \<Longrightarrow> k \<noteq> Agg_Count \<Longrightarrow> fits t v \<Longrightarrow> not_float v"
  by (auto simp: aggregates_type_def intro: ord_types_not_float int_ord split: aggr_kind.splits)

lemma pick_ok:
  assumes "t \<in> set ord_types" "fits t s" "fits t v"
  shows "\<exists>x. min_accumulate s v = Ok x \<and> fits t x" "\<exists>x. max_accumulate s v = Ok x \<and> fits t x"
proof -
  have "not_float s" "not_float v" using ord_types_not_float assms by auto
  moreover have "s \<noteq> V_Null \<Longrightarrow> v \<noteq> V_Null \<Longrightarrow> same_type_in ord_types v s" using fits_same_type [OF assms(1,3,2)] by blast
  ultimately show "\<exists>x. min_accumulate s v = Ok x \<and> fits t x" "\<exists>x. max_accumulate s v = Ok x \<and> fits t x"
    using assms by (auto simp: min_accumulate_def max_accumulate_def is_null_def scalar_lt_eq scalar_gt_eq)
qed

lemma sum_ok:
  assumes "t \<in> set int_types" "fits t s" "fits t v"
  shows "\<exists>x. sum_accumulate s v = Ok x \<and> fits t x"
proof (cases "s = V_Null \<or> v = V_Null")
  case True
  then show ?thesis using assms(2,3) by auto
next
  case False
  then have "same_type_in int_types s v" using fits_same_type [OF assms] by blast
  moreover have "not_float s" "not_float v" using ord_types_not_float [OF int_ord [OF assms(1)]] assms(2,3) by auto
  ultimately obtain c where "scalar_add s v = Ok c" "scalar_type c = scalar_type s" using scalar_add_eq by blast
  then show ?thesis using False assms(2) by (auto simp: sum_accumulate_add fits_def)
qed

lemma step_ok:
  assumes "aggregates_type k t" "acc_ok k t n a" "fits t v" "int (Suc n) < 2 ^ 31"
  shows "\<exists>a'. accumulate a v = Ok a' \<and> acc_ok k t (Suc n) a'"
proof (cases k)
  case Agg_Min
  then show ?thesis using assms pick_ok(1) [of t _ v] by (auto simp: aggregates_type_def acc_ok_def accumulate_def) fastforce
next
  case Agg_Max
  then show ?thesis using assms pick_ok(2) [of t _ v] by (auto simp: aggregates_type_def acc_ok_def accumulate_def) fastforce
next
  case Agg_Sum
  then show ?thesis using assms sum_ok [of t _ v] by (auto simp: aggregates_type_def acc_ok_def accumulate_def) fastforce
next
  case Agg_Count
  then obtain c where "a = Count_Acc c" "0 \<le> sint c" "sint c \<le> int n" using assms(2) by (auto simp: acc_ok_def)
  then obtain d where d: "add_i32 c 1 = Ok d" using assms(4) by (auto simp: add_i32_eq)
  have "sint d = sint c + 1" using add_i32_sint [OF d] by simp
  then show ?thesis using Agg_Count d \<open>a = Count_Acc c\<close> \<open>0 \<le> sint c\<close> \<open>sint c \<le> int n\<close>
    by (auto simp: acc_ok_def accumulate_def count_accumulate_def)
qed (use assms in \<open>simp add: aggregates_type_def\<close>)

lemma run_ok:
  assumes "aggregates_type k t" "list_all (fits t) vs" "int (length vs) < 2 ^ 31"
  shows "\<exists>a. fold_res accumulate (new_accumulator k) vs = Ok a \<and> acc_ok k t (length vs) a"
  using assms(2,3)
proof (induction vs rule: rev_induct)
  case Nil
  then show ?case using assms(1) by (cases k) (auto simp: new_accumulator_def acc_ok_def aggregates_type_def)
next
  case (snoc v vs)
  then obtain a where "fold_res accumulate (new_accumulator k) vs = Ok a" "acc_ok k t (length vs) a" by auto
  then show ?case using step_ok [OF assms(1), of "length vs" a v] snoc.prems by (simp add: fold_res_append)
qed

lemma acc_ok_value:
  "acc_ok k t n a \<Longrightarrow> fits (aggregate_type k t) (final_value a) \<and> output_value m a = Ok (final_value a)
     \<and> intermediate_value a = Scalar (final_value a)"
  by (cases k) (auto simp: acc_ok_def aggregate_type_def final_value_def output_value_def intermediate_value_def fits_def)

section \<open>Groups of rows\<close>

text \<open>Both stages use the same expressions, so they must mean the same on the rows of the table
  and on the rows of partial aggregates: the group columns come first, the columns of the
  aggregates follow in their order.\<close>

definition aligned :: "phys_expr list \<Rightarrow> phys_aggr list \<Rightarrow> bool" where
  "aligned gs as = (gs = List.map Column_Expr [0..<length gs]
     \<and> List.map input_expression as = List.map Column_Expr [length gs..<length gs + length as])"

definition stage_types :: "Schema \<Rightarrow> Schema \<Rightarrow> nat \<Rightarrow> phys_aggr list \<Rightarrow> bool" where
  "stage_types s s' k as = (k + length as \<le> width s \<and> width s' = k + length as
     \<and> (\<forall>i<k. col_types s' ! i = col_types s ! i)
     \<and> (\<forall>j<length as. aggregates_type (aggr_fun (as ! j)) (col_types s ! (k + j))
          \<and> col_types s' ! (k + j) = aggregate_type (aggr_fun (as ! j)) (col_types s ! (k + j))))"

definition group_cells :: "nat \<Rightarrow> nat \<Rightarrow> ScalarValue list list \<Rightarrow> ScalarValue list \<Rightarrow> ScalarValue list" where
  "group_cells k j R \<kappa> = List.map (\<lambda>r. r ! (k + j)) (List.filter (\<lambda>r. take k r = \<kappa>) R)"

definition group_value :: "nat \<Rightarrow> phys_aggr list \<Rightarrow> ScalarValue list list \<Rightarrow> ScalarValue list \<Rightarrow> nat \<Rightarrow> ScalarValue" where
  "group_value k as R \<kappa> j = final_value (the_ok (fold_res accumulate (create_accumulator (as ! j)) (group_cells k j R \<kappa>)))"

definition stage_row :: "nat \<Rightarrow> phys_aggr list \<Rightarrow> ScalarValue list list \<Rightarrow> ScalarValue list \<Rightarrow> ScalarValue list" where
  "stage_row k as R \<kappa> = \<kappa> @ List.map (group_value k as R \<kappa>) [0..<length as]"

definition keys_of :: "nat \<Rightarrow> ScalarValue list list \<Rightarrow> ScalarValue list set" where
  "keys_of k R = take k ` set R"

definition rows_fit :: "DataType list \<Rightarrow> ScalarValue list list \<Rightarrow> bool" where
  "rows_fit ts R = (\<forall>r\<in>set R. row_fits ts r)"

lemma aligned_key:
  assumes "aligned gs as" "length gs \<le> length r"
  shows "project_row E ts gs r = take (length gs) r"
proof -
  have "project_row E ts (List.map Column_Expr [0..<n]) r = take n r" if "n \<le> length r" for n
    using that by (auto simp: project_row_def row_value_def idx_def intro!: nth_equalityI)
  then show ?thesis using assms unfolding aligned_def by metis
qed

lemma aligned_input:
  assumes "aligned gs as" "j < length as" "length gs + j < length r"
  shows "row_value E ts (input_expression (as ! j)) r = r ! (length gs + j)"
proof -
  have "List.map input_expression as ! j = List.map Column_Expr [length gs..<length gs + length as] ! j"
    using assms(1) unfolding aligned_def by metis
  then have "input_expression (as ! j) = Column_Expr (length gs + j)" using assms(2) by simp
  then show ?thesis using assms(3) by (simp add: row_value_def idx_def)
qed

lemma fits_rows_nth: "rows_fit ts R \<Longrightarrow> r \<in> set R \<Longrightarrow> i < length ts \<Longrightarrow> length r = length ts \<and> fits (ts ! i) (r ! i)"
  by (auto simp: rows_fit_def row_fits_def list_all2_conv_all_nth)

lemma group_cells_run:
  assumes "stage_types s s' k as" "rows_fit (col_types s) R" "int (length R) < 2 ^ 31" "j < length as"
  shows "\<exists>a. fold_res accumulate (create_accumulator (as ! j)) (group_cells k j R \<kappa>) = Ok a
     \<and> acc_ok (aggr_fun (as ! j)) (col_types s ! (k + j)) (length (group_cells k j R \<kappa>)) a"
proof -
  have t: "aggregates_type (aggr_fun (as ! j)) (col_types s ! (k + j))" "k + j < length (col_types s)"
    using assms(1,4) by (auto simp: stage_types_def)
  have "list_all (fits (col_types s ! (k + j))) (group_cells k j R \<kappa>)"
    using fits_rows_nth [OF assms(2) _ t(2)] by (auto simp: group_cells_def list_all_iff)
  moreover have "length (group_cells k j R \<kappa>) \<le> length R" by (simp add: group_cells_def)
  ultimately show ?thesis using run_ok [OF t(1), of "group_cells k j R \<kappa>"] assms(3) by (simp add: create_accumulator_def)
qed

lemma stage_row_fits:
  assumes "stage_types s s' k as" "rows_fit (col_types s) R" "int (length R) < 2 ^ 31" "\<kappa> \<in> keys_of k R"
  shows "row_fits (col_types s') (stage_row k as R \<kappa>)" "length \<kappa> = k"
proof -
  obtain r where r: "r \<in> set R" "\<kappa> = take k r" using assms(4) by (auto simp: keys_of_def)
  have w: "k \<le> length (col_types s)" "length (col_types s') = k + length as" using assms(1) by (auto simp: stage_types_def)
  have len: "length r = length (col_types s)" using row_fits_length [of "col_types s" r] assms(2) r(1) by (simp add: rows_fit_def)
  then show k: "length \<kappa> = k" using r(2) w(1) by simp
  have "fits (col_types s' ! i) (stage_row k as R \<kappa> ! i)" if "i < k + length as" for i
  proof (cases "i < k")
    case True
    then have "fits (col_types s ! i) (r ! i)" using fits_rows_nth [OF assms(2) r(1)] w(1) by simp
    moreover have "col_types s' ! i = col_types s ! i" using assms(1) True unfolding stage_types_def by blast
    moreover have "stage_row k as R \<kappa> ! i = r ! i" using True k r(2) by (simp add: stage_row_def nth_append)
    ultimately show ?thesis by metis
  next
    case False
    then have j: "i = k + (i - k)" "i - k < length as" using that by simp_all
    define j where "j = i - k"
    have j: "i = k + j" "j < length as" using j by (simp_all add: j_def)
    obtain a where "fold_res accumulate (create_accumulator (as ! j)) (group_cells k j R \<kappa>) = Ok a"
      "acc_ok (aggr_fun (as ! j)) (col_types s ! (k + j)) (length (group_cells k j R \<kappa>)) a"
      using group_cells_run [OF assms(1-3) j(2)] by blast
    then have "fits (aggregate_type (aggr_fun (as ! j)) (col_types s ! (k + j))) (group_value k as R \<kappa> j)"
      using acc_ok_value unfolding group_value_def by fastforce
    moreover have "col_types s' ! i = aggregate_type (aggr_fun (as ! j)) (col_types s ! (k + j))"
      using assms(1) j unfolding stage_types_def by blast
    moreover have "stage_row k as R \<kappa> ! i = group_value k as R \<kappa> j" using j k by (simp add: stage_row_def nth_append)
    ultimately show ?thesis by metis
  qed
  then show "row_fits (col_types s') (stage_row k as R \<kappa>)"
    using w(2) k by (simp add: row_fits_def list_all2_conv_all_nth stage_row_def)
qed

text \<open>A first stage, or a complete aggregate: the row of a group.\<close>

lemma first_stage_row:
  assumes "aligned gs as" "stage_types s s' (length gs) as" "rows_fit (col_types s) R" "int (length R) < 2 ^ 31" "m \<noteq> Final"
  shows "group_row E (col_types s) m gs as R \<kappa> = Ok (stage_row (length gs) as R \<kappa>)"
proof -
  let ?k = "length gs" and ?ts = "col_types s"
  have w: "?k + length as \<le> length ?ts" using assms(2) by (simp add: stage_types_def)
  have len: "length r = length ?ts" if "r \<in> set R" for r using assms(3) that row_fits_length by (auto simp: rows_fit_def)
  have filt: "List.filter (\<lambda>r. project_row E ?ts gs r = \<kappa>) R = List.filter (\<lambda>r. take ?k r = \<kappa>) R"
    by (rule filter_cong [OF refl]) (use aligned_key [OF assms(1)] len w in auto)
  have out: "group_output E ?ts m (as ! j) (List.filter (\<lambda>r. take ?k r = \<kappa>) R) = Ok (group_value ?k as R \<kappa> j)" if j: "j < length as" for j
  proof -
    have cells: "List.map (row_value E ?ts (input_expression (as ! j))) (List.filter (\<lambda>r. take ?k r = \<kappa>) R) = group_cells ?k j R \<kappa>"
      unfolding group_cells_def by (rule map_cong [OF refl]) (use aligned_input [OF assms(1) j] len w j in auto)
    obtain a where a: "fold_res accumulate (create_accumulator (as ! j)) (group_cells ?k j R \<kappa>) = Ok a"
      "acc_ok (aggr_fun (as ! j)) (?ts ! (?k + j)) (length (group_cells ?k j R \<kappa>)) a"
      using group_cells_run [OF assms(2-4) j] by blast
    have "accumulate_mode m = accumulate" using assms(5) by (auto simp: accumulate_mode_def fun_eq_iff)
    then show ?thesis using a acc_ok_value [OF a(2), of m] by (simp add: group_output_def group_accumulator_def cells group_value_def)
  qed
  have "traverse (\<lambda>a. group_output E ?ts m a (List.filter (\<lambda>r. take ?k r = \<kappa>) R)) as
      = Ok (List.map (group_value ?k as R \<kappa>) [0..<length as])"
    using out by (simp add: traverse_eq_Ok list_all2_conv_all_nth)
  then show ?thesis by (simp add: group_row_def filt stage_row_def)
qed

section \<open>The second stage\<close>

text \<open>The parts of a table with the order in which the first stage returned their groups.\<close>

type_synonym parts = "(ScalarValue list list \<times> ScalarValue list list) list"

definition parts_of :: "nat \<Rightarrow> ScalarValue list list \<Rightarrow> parts \<Rightarrow> bool" where
  "parts_of k R ps = ((\<forall>(P, ks)\<in>set ps. distinct ks \<and> set ks = keys_of k P) \<and> mset (concat (List.map fst ps)) = mset R)"

definition stage_output :: "nat \<Rightarrow> phys_aggr list \<Rightarrow> parts \<Rightarrow> ScalarValue list list" where
  "stage_output k as ps = concat (List.map (\<lambda>(P, ks). List.map (stage_row k as P) ks) ps)"

lemma parts_set: "parts_of k R ps \<Longrightarrow> (P, ks) \<in> set ps \<Longrightarrow> set P \<subseteq> set R"
proof -
  assume "parts_of k R ps" "(P, ks) \<in> set ps"
  then have "set (concat (List.map fst ps)) = set R" by (metis parts_of_def set_mset_mset)
  then show ?thesis using \<open>(P, ks) \<in> set ps\<close> by force
qed

lemma parts_length: "parts_of k R ps \<Longrightarrow> (P, ks) \<in> set ps \<Longrightarrow> length P \<le> length R"
proof -
  assume p: "parts_of k R ps" "(P, ks) \<in> set ps"
  then have "length (concat (List.map fst ps)) = length R" by (metis parts_of_def size_mset)
  moreover have "length P \<le> length (concat (List.map fst ps))"
    using p(2) member_le_sum_list [of "length P" "List.map length (List.map fst ps)"] by (force simp: length_concat)
  ultimately show ?thesis by simp
qed

lemma keys_of_parts: "parts_of k R ps \<Longrightarrow> keys_of k R = \<Union> ((\<lambda>(P, ks). set ks) ` set ps)"
proof -
  assume p: "parts_of k R ps"
  then have "set R = set (concat (List.map fst ps))" by (metis parts_of_def set_mset_mset)
  then have "keys_of k R = \<Union> ((\<lambda>(P, ks). keys_of k P) ` set ps)" by (force simp: keys_of_def)
  also have "\<dots> = \<Union> ((\<lambda>(P, ks). set ks) ` set ps)" using p by (force simp: parts_of_def)
  finally show ?thesis .
qed

lemma filter_distinct: "distinct ks \<Longrightarrow> List.filter (\<lambda>x. x = \<kappa>) ks = (if \<kappa> \<in> set ks then [\<kappa>] else [])"
  by (induction ks) auto

lemma group_cells_concat: "group_cells k j (concat Ps) \<kappa> = concat (List.map (\<lambda>P. group_cells k j P \<kappa>) Ps)"
  by (simp add: group_cells_def filter_concat map_concat comp_def)

lemma group_cells_absent: "\<kappa> \<notin> keys_of k P \<Longrightarrow> group_cells k j P \<kappa> = []"
  by (auto simp: group_cells_def keys_of_def filter_empty_conv)

lemma concat_filter: "(\<And>x. x \<in> set xs \<Longrightarrow> \<not> Q x \<Longrightarrow> f x = []) \<Longrightarrow> concat (List.map f (List.filter Q xs)) = concat (List.map f xs)"
  by (induction xs) auto

text \<open>The cells a group has in the output of the first stage: one per part that has the group.\<close>

lemma output_cells:
  assumes "list_all (\<lambda>(P, ks). distinct ks \<and> (\<forall>\<kappa>' \<in> set ks. length \<kappa>' = k)) ps" "j < length as"
  shows "group_cells k j (stage_output k as ps) \<kappa>
     = List.map (\<lambda>(P, ks). group_value k as P \<kappa> j) (List.filter (\<lambda>(P, ks). \<kappa> \<in> set ks) ps)"
  using assms(1)
proof (induction ps)
  case (Cons p ps)
  obtain P ks where p: "p = (P, ks)" by fastforce
  have k: "\<kappa>' \<in> set ks \<Longrightarrow> length \<kappa>' = k" for \<kappa>' using Cons.prems p by simp
  have "List.filter (\<lambda>r. take k r = \<kappa>) (List.map (stage_row k as P) ks) = List.map (stage_row k as P) (List.filter (\<lambda>x. x = \<kappa>) ks)"
    unfolding filter_map comp_def by (rule arg_cong [where f = "List.map _"], rule filter_cong [OF refl]) (use k in \<open>auto simp: stage_row_def\<close>)
  also have "\<dots> = (if \<kappa> \<in> set ks then [stage_row k as P \<kappa>] else [])"
    using filter_distinct [of ks \<kappa>] Cons.prems p by simp
  finally have head: "group_cells k j (List.map (stage_row k as P) ks) \<kappa> = (if \<kappa> \<in> set ks then [group_value k as P \<kappa> j] else [])"
    using k assms(2) by (auto simp: group_cells_def stage_row_def nth_append)
  have "group_cells k j (stage_output k as ps) \<kappa> = List.map (\<lambda>(P, ks). group_value k as P \<kappa> j) (List.filter (\<lambda>(P, ks). \<kappa> \<in> set ks) ps)"
    by (rule Cons.IH) (use Cons.prems in simp)
  moreover have "group_cells k j (xs @ ys) \<kappa> = group_cells k j xs \<kappa> @ group_cells k j ys \<kappa>" for xs ys by (simp add: group_cells_def)
  ultimately show ?case using head by (simp add: p stage_output_def)
qed (simp add: stage_output_def group_cells_def)

lemma second_stage_cells:
  assumes "stage_types s s' k as" "rows_fit (col_types s) R" "int (length R) < 2 ^ 31" "parts_of k R ps"
    "mset Q = mset (stage_output k as ps)" "j < length as"
  shows "\<exists>a. fold_res merge (create_accumulator (as ! j)) (List.map Scalar (group_cells k j Q \<kappa>)) = Ok a
     \<and> final_value a = group_value k as R \<kappa> j \<and> output_value Final a = Ok (group_value k as R \<kappa> j)"
proof -
  let ?n = "aggr_fun (as ! j)" and ?have = "List.filter (\<lambda>(P, ks). \<kappa> \<in> set ks) ps"
  let ?parts = "List.map (\<lambda>(P, ks). group_cells k j P \<kappa>) ?have"
  obtain a where a: "fold_res accumulate (new_accumulator ?n) (group_cells k j R \<kappa>) = Ok a"
    "acc_ok ?n (col_types s ! (k + j)) (length (group_cells k j R \<kappa>)) a"
    using group_cells_run [OF assms(1-3,6)] unfolding create_accumulator_def by blast
  have sub: "rows_fit (col_types s) P \<and> int (length P) < 2 ^ 31" if "(P, ks) \<in> set ps" for P ks
    using parts_set [OF assms(4) that] parts_length [OF assms(4) that] assms(2,3) by (auto simp: rows_fit_def)
  have keys: "(P, ks) \<in> set ps \<Longrightarrow> \<kappa>' \<in> set ks \<Longrightarrow> length \<kappa>' = k" for P ks \<kappa>'
    using stage_row_fits(2) [OF assms(1)] sub [of P ks] assms(4) unfolding parts_of_def by fastforce
  have "list_all (\<lambda>(P, ks). distinct ks \<and> (\<forall>\<kappa>' \<in> set ks. length \<kappa>' = k)) ps"
    using assms(4) keys by (auto simp: parts_of_def list_all_iff)
  note cells = output_cells [OF this assms(6), of \<kappa>]
  have "mset (group_cells k j Q \<kappa>) = mset (group_cells k j (stage_output k as ps) \<kappa>)"
    using assms(5) by (simp add: group_cells_def)
  then have "mset (List.map Scalar (group_cells k j Q \<kappa>)) = mset (List.map Scalar (List.map (\<lambda>(P, ks). group_value k as P \<kappa> j) ?have))"
    unfolding mset_map cells by (rule arg_cong)
  also have "List.map Scalar (List.map (\<lambda>(P, ks). group_value k as P \<kappa> j) ?have)
      = List.map (\<lambda>p. intermediate_value (the_ok (fold_res accumulate (new_accumulator ?n) p))) ?parts"
  proof -
    have "Scalar (group_value k as P \<kappa> j) = intermediate_value (the_ok (fold_res accumulate (new_accumulator ?n) (group_cells k j P \<kappa>)))"
      if "(P, ks) \<in> set ps" for P ks
      using group_cells_run [OF assms(1) conjunct1 [OF sub [OF that]] conjunct2 [OF sub [OF that]] assms(6), of \<kappa>] acc_ok_value
      by (fastforce simp: group_value_def create_accumulator_def)
    then show ?thesis by auto
  qed
  finally have xs: "mset (List.map Scalar (group_cells k j Q \<kappa>))
      = mset (List.map (\<lambda>p. intermediate_value (the_ok (fold_res accumulate (new_accumulator ?n) p))) ?parts)" .
  have "concat ?parts = concat (List.map (\<lambda>(P, ks). group_cells k j P \<kappa>) ps)"
    by (rule concat_filter) (use assms(4) group_cells_absent in \<open>fastforce simp: parts_of_def\<close>)
  also have "\<dots> = group_cells k j (concat (List.map fst ps)) \<kappa>" by (simp add: group_cells_concat comp_def case_prod_unfold)
  finally have all: "mset (concat ?parts) = mset (group_cells k j R \<kappa>)"
    using assms(4) by (simp add: parts_of_def group_cells_def)
  have t: "aggregates_type ?n (col_types s ! (k + j))" "k + j < length (col_types s)" using assms(1,6) by (auto simp: stage_types_def)
  have "list_all not_float (group_cells k j P \<kappa>)" if "?n \<noteq> Agg_Count" "(P, ks) \<in> set ps" for P ks
    using aggregates_not_float [OF t(1) that(1)] fits_rows_nth [OF conjunct1 [OF sub [OF that(2)]] _ t(2)]
    by (auto simp: group_cells_def list_all_iff)
  then have nf: "?n \<noteq> Agg_Count \<Longrightarrow> list_all (list_all not_float) ?parts" by (fastforce simp: list_all_iff)
  have "?n \<noteq> Agg_Avg" using t(1) by (auto simp: aggregates_type_def)
  from merge_partials(1) [OF this nf all a(1) xs] show ?thesis
    using acc_ok_value [OF a(2), of Final] a(1) by (simp add: create_accumulator_def group_value_def)
qed

end
