(* ===== verification/Parallel_Props.thy ===== *)
theory Parallel_Props
  imports Two_Stage Shuffle_Props Execution
begin

text \<open>
  Parallel aggregation (@ParallelContext@): the batches are dealt to the workers, every worker
  runs a partial aggregate over its bucket and a final aggregate merges the results.  On rows
  laid out as both stages read them, this gives the rows of the sequential aggregate.
\<close>

section \<open>The row of a group in the second stage\<close>

lemma fold_res_scalars: "fold_res (\<lambda>a v. merge a (Scalar v)) a vs = fold_res merge a (List.map Scalar vs)"
  by (induction vs arbitrary: a) (auto intro: and_then_cong)

lemma second_stage_row:
  assumes "aligned gs as" "stage_types s s' (length gs) as" "rows_fit (col_types s) R" "int (length R) < 2 ^ 31"
    "parts_of (length gs) R ps" "mset Q = mset (stage_output (length gs) as ps)" "rows_fit (col_types s') Q"
  shows "group_row E (col_types s') Final gs as Q \<kappa> = Ok (stage_row (length gs) as R \<kappa>)"
proof -
  let ?k = "length gs" and ?ts = "col_types s'"
  have w: "length ?ts = ?k + length as" using assms(2) by (simp add: stage_types_def)
  have len: "length r = ?k + length as" if "r \<in> set Q" for r using assms(7) that row_fits_length w by (fastforce simp: rows_fit_def)
  have filt: "List.filter (\<lambda>r. project_row E ?ts gs r = \<kappa>) Q = List.filter (\<lambda>r. take ?k r = \<kappa>) Q"
    by (rule filter_cong [OF refl]) (use aligned_key [OF assms(1)] len in auto)
  have out: "group_output E ?ts Final (as ! j) (List.filter (\<lambda>r. take ?k r = \<kappa>) Q) = Ok (group_value ?k as R \<kappa> j)" if j: "j < length as" for j
  proof -
    have cells: "List.map (row_value E ?ts (input_expression (as ! j))) (List.filter (\<lambda>r. take ?k r = \<kappa>) Q) = group_cells ?k j Q \<kappa>"
      unfolding group_cells_def by (rule map_cong [OF refl]) (use aligned_input [OF assms(1) j] len j in auto)
    obtain a where "fold_res merge (create_accumulator (as ! j)) (List.map Scalar (group_cells ?k j Q \<kappa>)) = Ok a"
      "output_value Final a = Ok (group_value ?k as R \<kappa> j)"
      using second_stage_cells [OF assms(2-6) j, of \<kappa>] by blast
    moreover have "accumulate_mode Final = (\<lambda>a v. merge a (Scalar v))" by (simp add: accumulate_mode_def fun_eq_iff)
    ultimately show ?thesis by (simp add: group_output_def group_accumulator_def cells fold_res_scalars)
  qed
  have "traverse (\<lambda>a. group_output E ?ts Final a (List.filter (\<lambda>r. take ?k r = \<kappa>) Q)) as
      = Ok (List.map (group_value ?k as R \<kappa>) [0..<length as])"
    using out by (simp add: traverse_eq_Ok list_all2_conv_all_nth)
  then show ?thesis by (simp add: group_row_def filt stage_row_def)
qed

lemma aligned_evaluates:
  assumes "aligned gs as" "length gs + length as \<le> width s" "rows_fit (col_types s) R"
  shows "evaluates_on E s (gs @ List.map input_expression as) R"
proof -
  have col: "evaluates_on E s (List.map Column_Expr is) R" if "\<forall>i\<in>set is. i < width s" for "is"
    using that assms(3) row_fits_length by (fastforce simp: evaluates_on_def rows_fit_def idx_def)
  have "\<forall>i\<in>set [0..<length gs]. i < width s" "\<forall>i\<in>set [length gs..<length gs + length as]. i < width s" using assms(2) by auto
  then have "evaluates_on E s gs R" "evaluates_on E s (List.map input_expression as) R"
    using col assms(1) unfolding aligned_def by metis+
  then show ?thesis by simp
qed

section \<open>The two stages as operators\<close>

lemma aligned_keys:
  assumes "aligned gs as" "length gs \<le> width s" "rows_fit (col_types s) R"
  shows "project_row E (col_types s) gs ` set R = keys_of (length gs) R"
  unfolding keys_of_def
proof (rule image_cong [OF refl])
  fix r assume "r \<in> set R"
  then have "length r = width s" using assms(3) row_fits_length by (fastforce simp: rows_fit_def)
  then show "project_row E (col_types s) gs r = take (length gs) r" using aligned_key [OF assms(1)] assms(2) by simp
qed

lemma stream_rows_fit: "list_all (typed s) bs \<Longrightarrow> rows_fit (col_types s) (stream_rows bs)"
  using stream_row_fits by (auto simp: rows_fit_def)

lemma first_stage:
  assumes "env_ok E" "schema_ok s'" "list_all (typed s) bs" "aligned gs as" "stage_types s s' (length gs) as"
    "int (length (stream_rows bs)) < 2 ^ 31" "m \<noteq> Final"
  shows "\<exists>ks b. distinct ks \<and> set ks = keys_of (length gs) (stream_rows bs)
     \<and> aggregate_stream E gs as s' m (List.map Ok bs) = Ok b \<and> typed s' b
     \<and> batch_rows b = List.map (stage_row (length gs) as (stream_rows bs)) ks"
proof -
  let ?R = "stream_rows bs" and ?k = "length gs"
  have R: "rows_fit (col_types s) ?R" and w: "?k + length as \<le> width s"
    using stream_rows_fit [OF assms(3)] assms(5) by (simp_all add: stage_types_def)
  note row = first_stage_row [OF assms(4,5) R assms(6,7), of E]
  note keys = aligned_keys [OF assms(4) _ R, of E]
  have "\<exists>r. group_row E (col_types s) m gs as ?R \<kappa> = Ok r \<and> row_fits (col_types s') r"
    if "\<kappa> \<in> project_row E (col_types s) gs ` set ?R" for \<kappa>
    using that keys w row stage_row_fits(1) [OF assms(5) R assms(6)] by simp
  from aggregate_correct [OF assms(1-3) aligned_evaluates [OF assms(4) w R] this] show ?thesis using keys w row by simp
qed

lemma second_stage:
  assumes "env_ok E" "schema_ok s'" "list_all (typed s') cs" "aligned gs as" "stage_types s s' (length gs) as"
    "rows_fit (col_types s) R" "int (length R) < 2 ^ 31" "parts_of (length gs) R ps"
    "mset (stream_rows cs) = mset (stage_output (length gs) as ps)"
  shows "\<exists>ks b. distinct ks \<and> set ks = keys_of (length gs) R
     \<and> aggregate_stream E gs as s' Final (List.map Ok cs) = Ok b \<and> typed s' b
     \<and> batch_rows b = List.map (stage_row (length gs) as R) ks"
proof -
  let ?Q = "stream_rows cs" and ?k = "length gs"
  have Q: "rows_fit (col_types s') ?Q" and w: "?k + length as \<le> width s'"
    using stream_rows_fit [OF assms(3)] assms(5) by (simp_all add: stage_types_def)
  note row = second_stage_row [OF assms(4-9) Q, of E]
  have keys: "keys_of ?k ?Q = keys_of ?k R"
  proof -
    have "length \<kappa> = ?k" if "\<kappa> \<in> keys_of ?k R" for \<kappa> using stage_row_fits(2) [OF assms(5-7) that] .
    moreover have "keys_of ?k R = \<Union> ((\<lambda>(P, ks). set ks) ` set ps)" by (rule keys_of_parts [OF assms(8)])
    moreover have "set ?Q = set (stage_output ?k as ps)" using assms(9) by (metis set_mset_mset)
    ultimately show ?thesis by (fastforce simp: keys_of_def stage_output_def stage_row_def image_iff)
  qed
  note keys' = trans [OF aligned_keys [OF assms(4) _ Q, of E] keys]
  have "\<exists>r. group_row E (col_types s') Final gs as ?Q \<kappa> = Ok r \<and> row_fits (col_types s') r"
    if "\<kappa> \<in> project_row E (col_types s') gs ` set ?Q" for \<kappa>
    using that keys' w row stage_row_fits(1) [OF assms(5-7)] by simp
  from aggregate_correct [OF assms(1-3) aligned_evaluates [OF assms(4) w Q] this] show ?thesis using keys' w row by simp
qed

section \<open>Dealing the batches to the workers\<close>

definition worker_buckets :: "nat \<Rightarrow> RecordBatch list \<Rightarrow> RecordBatch list list" where
  "worker_buckets n bs = List.filter (\<lambda>bucket. bucket \<noteq> []) (List.map (worker_bucket n bs) [0..<n])"

lemma worker_buckets_mset: "0 < n \<Longrightarrow> mset (concat (worker_buckets n bs)) = mset bs"
proof -
  assume n: "0 < n"
  have "concat (worker_buckets n bs) = concat (List.map (worker_bucket n bs) [0..<n])"
    unfolding worker_buckets_def using concat_filter [of "List.map (worker_bucket n bs) [0..<n]" "\<lambda>x. x \<noteq> []" "\<lambda>x. x"] by simp
  also have "\<dots> = concat (List.map (\<lambda>w. if w \<in> {} then [] else List.map snd (List.filter (\<lambda>x. fst x mod n = w) (enumerate 0 bs))) [0..<n])"
    by (simp add: worker_bucket_def [abs_def] case_prod_unfold)
  finally have split: "mset (concat (worker_buckets n bs))
      = mset (List.map snd (List.filter (\<lambda>x. fst x mod n \<in> set [0..<n] \<and> fst x mod n \<notin> {}) (enumerate 0 bs)))"
    by (simp only: group_partition_mset [OF distinct_upt])
  have "List.filter (\<lambda>x. fst x mod n \<in> set [0..<n] \<and> fst x mod n \<notin> {}) (enumerate 0 bs) = enumerate 0 bs"
    using n by simp
  then show ?thesis using split by simp
qed

lemma mset_stream_rows: "mset xs = mset ys \<Longrightarrow> mset (stream_rows xs) = mset (stream_rows ys)"
  unfolding stream_rows_def mset_concat by (metis mset_map sum_mset_sum_list)

text \<open>The workers' results: one batch per bucket, the groups of the bucket in some order.\<close>

lemma workers_run:
  assumes "env_ok E" "schema_ok s'" "phys_schema E i = Ok s" "aligned gs as" "stage_types s s' (length gs) as"
    "\<forall>bucket\<in>set buckets. list_all (typed s) bucket \<and> int (length (stream_rows bucket)) < 2 ^ 31"
  shows "\<exists>ps cs. traverse (execute_partial_aggregate E i gs as s') buckets = Ok cs \<and> list_all (typed s') cs
     \<and> List.map fst ps = List.map stream_rows buckets \<and> (\<forall>(P, ks)\<in>set ps. distinct ks \<and> set ks = keys_of (length gs) P)
     \<and> stream_rows cs = stage_output (length gs) as ps"
  using assms(6)
proof (induction buckets)
  case Nil
  then show ?case by (auto simp: stage_output_def intro: exI [of _ "[]"])
next
  case (Cons b bs)
  then obtain ps cs where IH: "traverse (execute_partial_aggregate E i gs as s') bs = Ok cs" "list_all (typed s') cs"
    "List.map fst ps = List.map stream_rows bs" "\<forall>(P, ks)\<in>set ps. distinct ks \<and> set ks = keys_of (length gs) P"
    "stream_rows cs = stage_output (length gs) as ps" by auto
  obtain ks c where "distinct ks" "set ks = keys_of (length gs) (stream_rows b)"
    "aggregate_stream E gs as s' Partial (List.map Ok b) = Ok c" "typed s' c"
    "batch_rows c = List.map (stage_row (length gs) as (stream_rows b)) ks"
    using first_stage [OF assms(1,2) _ assms(4,5), of b Partial] Cons.prems by auto
  moreover from this(3) have part: "execute_partial_aggregate E i gs as s' b = Ok c"
    using assms(3) by (simp add: execute_partial_aggregate_def)
  ultimately show ?case using IH
    by (intro exI [of _ "(stream_rows b, ks) # ps"] exI [of _ "c # cs"])
       (auto simp: part stage_output_def)
qed

lemma same_groups:
  assumes "distinct ks" "distinct ks'" "set ks = set ks'"
  shows "mset (List.map f ks) = mset (List.map f ks')"
  using assms by (metis mset_map set_eq_iff_mset_eq_distinct)

lemma stream_rows_member: "b \<in> set bbs \<Longrightarrow> length (stream_rows b) \<le> length (stream_rows (concat bbs))"
  by (induction bbs) auto

lemma parallel_rows:
  assumes "env_ok E" "schema_ok s'" "phys_schema E i = Ok s" "execute E ctx i = Ok (List.map Ok bs)" "list_all (typed s) bs"
    "aligned gs as" "stage_types s s' (length gs) as" "int (length (stream_rows bs)) < 2 ^ 31" "m \<noteq> Final" "1 < n"
  shows "\<exists>ks cs. distinct ks \<and> set ks = keys_of (length gs) (stream_rows bs)
     \<and> execute_parallel_aggregate E n ctx i gs as s' m = Ok (List.map Ok cs) \<and> list_all (typed s') cs
     \<and> stream_rows cs = List.map (stage_row (length gs) as (stream_rows bs)) ks"
proof -
  let ?R = "stream_rows bs" and ?k = "length gs" and ?buckets = "worker_buckets n bs"
  have b: "mset (concat ?buckets) = mset bs" using worker_buckets_mset assms(10) by simp
  have "list_all (typed s) bucket \<and> int (length (stream_rows bucket)) < 2 ^ 31" if "bucket \<in> set ?buckets" for bucket
  proof -
    have "set bucket \<subseteq> set bs" using b that by (metis UN_upper set_concat set_mset_mset)
    moreover have "length (stream_rows bucket) \<le> length (stream_rows (concat ?buckets))"
      by (rule stream_rows_member [OF that])
    moreover have "length (stream_rows (concat ?buckets)) = length ?R" using mset_stream_rows [OF b] by (metis size_mset)
    ultimately show ?thesis using assms(5,8) by (auto simp: list_all_iff)
  qed
  then obtain ps cs where cs: "traverse (execute_partial_aggregate E i gs as s') ?buckets = Ok cs" "list_all (typed s') cs"
    "List.map fst ps = List.map stream_rows ?buckets" "\<forall>(P, ks)\<in>set ps. distinct ks \<and> set ks = keys_of ?k P"
    "stream_rows cs = stage_output ?k as ps"
    using workers_run [OF assms(1-3,6,7), of ?buckets] by blast
  have run: "execute_parallel_aggregate E n ctx i gs as s' m
      = (if cs = [] then Ok [] else execute_final_aggregate E gs as s' cs)"
    using assms(4,10) cs(1) by (simp add: execute_parallel_aggregate_def worker_buckets_def [symmetric])
  have ps: "parts_of ?k ?R ps"
    unfolding parts_of_def cs(3) stream_rows_concat [symmetric] using cs(4) mset_stream_rows [OF b] by blast
  obtain ks c where "distinct ks" "set ks = keys_of ?k ?R" "aggregate_stream E gs as s' Final (List.map Ok cs) = Ok c"
    "typed s' c" "batch_rows c = List.map (stage_row ?k as ?R) ks"
    using second_stage [OF assms(1,2) cs(2) assms(6,7) stream_rows_fit [OF assms(5)] assms(8) ps] cs(5) by auto
  moreover have "keys_of ?k ?R = {}" if "cs = []"
  proof -
    have "?buckets = []" using cs(1) that by (auto dest: traverse_length)
    then show ?thesis using b by (simp add: keys_of_def)
  qed
  ultimately show ?thesis
  proof (cases "cs = []")
    case True
    then show ?thesis using \<open>cs = [] \<Longrightarrow> keys_of ?k ?R = {}\<close>
      by (intro exI [of _ "[]"] exI [of _ "[]"]) (simp add: run)
  next
    case False
    assume *: "distinct ks" "set ks = keys_of ?k ?R" "aggregate_stream E gs as s' Final (List.map Ok cs) = Ok c"
      "typed s' c" "batch_rows c = List.map (stage_row ?k as ?R) ks"
    then show ?thesis using False
      by (intro exI [of _ ks] exI [of _ "[c]"]) (simp add: run execute_final_aggregate_def)
  qed
qed

lemma parallel_equals:
  assumes "env_ok E" "schema_ok s'" "phys_schema E i = Ok s" "execute E ctx i = Ok (List.map Ok bs)" "list_all (typed s) bs"
    "aligned gs as" "stage_types s s' (length gs) as" "int (length (stream_rows bs)) < 2 ^ 31" "m \<noteq> Final"
  shows "\<exists>xs ys. execute_parallel E n ctx (Hash_Aggregate_Exec i gs as s' m) = Ok (List.map Ok xs)
     \<and> execute E ctx (Hash_Aggregate_Exec i gs as s' m) = Ok (List.map Ok ys)
     \<and> list_all (typed s') xs \<and> mset (stream_rows xs) = mset (stream_rows ys)"
proof -
  obtain ks b where b: "distinct ks" "set ks = keys_of (length gs) (stream_rows bs)"
    "aggregate_stream E gs as s' m (List.map Ok bs) = Ok b" "typed s' b"
    "batch_rows b = List.map (stage_row (length gs) as (stream_rows bs)) ks"
    using first_stage [OF assms(1,2,5-9)] by blast
  then have seq: "execute E ctx (Hash_Aggregate_Exec i gs as s' m) = Ok (List.map Ok [b])" using assms(3,4) by simp
  show ?thesis
  proof (cases "n \<le> 1")
    case True
    then show ?thesis using seq b(4) by (intro exI [of _ "[b]"]) (simp add: execute_parallel_def execute_parallel_aggregate_def)
  next
    case False
    then obtain ks' cs where "distinct ks'" "set ks' = keys_of (length gs) (stream_rows bs)"
      "execute_parallel_aggregate E n ctx i gs as s' m = Ok (List.map Ok cs)" "list_all (typed s') cs"
      "stream_rows cs = List.map (stage_row (length gs) as (stream_rows bs)) ks'"
      using parallel_rows [OF assms, of n] by auto
    then show ?thesis using seq b same_groups [of ks' ks]
      by (intro exI [of _ cs] exI [of _ "[b]"]) (simp add: execute_parallel_def)
  qed
qed

section \<open>Properties\<close>

text \<open>C10: Parallel aggregation agrees with sequential aggregation: when the group columns of the
  input come first and the aggregated columns follow in the order of the aggregates (each MIN,
  MAX, COUNT or a SUM of integers), then for any number of workers @execute_parallel@
  succeeds and returns the rows of @HashAggregateExec::execute@, in some order.\<close>

theorem parallel_aggregate_equals_sequential:
  assumes "env_ok E" "schema_ok s'" "phys_schema E i = Ok s" "execute E ctx i = Ok (List.map Ok bs)" "list_all (typed s) bs"
    "aligned gs as" "stage_types s s' (length gs) as" "int (length (stream_rows bs)) < 2 ^ 31" "m \<noteq> Final"
  shows "\<exists>xs ys. execute_parallel E n ctx (Hash_Aggregate_Exec i gs as s' m) = Ok (List.map Ok xs)
     \<and> execute E ctx (Hash_Aggregate_Exec i gs as s' m) = Ok (List.map Ok ys)
     \<and> list_all (typed s') xs \<and> mset (stream_rows xs) = mset (stream_rows ys)"
  by (rule parallel_equals [OF assms])

abbreviation max_name_schema :: Schema where
  "max_name_schema \<equiv> new_schema [new_field ''id'' T_Int32, new_field ''max_name'' T_Utf8]"

lemma max_name_ok:
  "schema_ok max_name_schema" "aligned [Column_Expr 0] [Aggr Agg_Max (Column_Expr 1)]"
  "stage_types sample_schema max_name_schema 1 [Aggr Agg_Max (Column_Expr 1)]"
  by (simp_all add: schema_ok_def supported_def new_schema_def new_field_def aligned_def stage_types_def aggregates_type_def
      ord_types_def aggregate_type_def)

theorem parallel_aggregate_equals_sequential_witness:
  "\<exists>xs ys. execute_parallel ref_env 2 sample_ctx (Hash_Aggregate_Exec sample_plan [Column_Expr 0]
        [Aggr Agg_Max (Column_Expr 1)] max_name_schema Complete) = Ok (List.map Ok xs)
     \<and> execute ref_env sample_ctx (Hash_Aggregate_Exec sample_plan [Column_Expr 0]
        [Aggr Agg_Max (Column_Expr 1)] max_name_schema Complete) = Ok (List.map Ok ys)
     \<and> mset (stream_rows xs) = mset (stream_rows ys)"
proof -
  have "int (length (stream_rows [sample_batch, sample_batch])) < 2 ^ 31" unfolding sample_rows by simp
  then show ?thesis
    using parallel_aggregate_equals_sequential [OF ref_env_ok max_name_ok(1) sample_plan_ok max_name_ok(2) _ _, of Complete 2 sample_ctx]
      max_name_ok(3) by (simp del: execute.simps stream_rows_simps) blast
qed

section \<open>The layout is needed\<close>

text \<open>Both stages evaluate the same expressions, so MAX over a column whose place is taken by the
  partial MIN is the largest partial minimum.\<close>

definition min_max_query :: phys_plan where
  "min_max_query = Hash_Aggregate_Exec sample_plan [] [Aggr Agg_Min (Column_Expr 0), Aggr Agg_Max (Column_Expr 0)]
     (new_schema [new_field ''lo'' T_Int32, new_field ''hi'' T_Int32]) Complete"

definition result_rows :: "stream res \<Rightarrow> ScalarValue list list list res" where
  "result_rows r = and_then r (traverse (map_res batch_rows))"

lemma min_max_sequential: "result_rows (execute ref_env sample_ctx min_max_query) = Ok [[[V_Int32 7, V_Int32 9]]]"
  by code_simp

lemma min_max_parallel: "result_rows (execute_parallel ref_env 2 sample_ctx min_max_query) = Ok [[[V_Int32 7, V_Int32 7]]]"
  by code_simp

end
