(* ===== verification/Flight.thy ===== *)
theory Flight
  imports Wire_Physical
begin

text \<open>
  Execution over Arrow Flight (crates @flight-server@ and @client@).  A server is the executor
  context it holds; its handlers take and return it.  A panic inside a handler is the value
  @Panic@; for the caller it is a failed call.  What is not in the repository is the argument
  @C@ of type @codec@: prost's encoding of messages as bytes (type @'b@), and the trip of
  a stream of batches through Flight's encoder and decoder.
\<close>

record PbAction =
  pb_query :: "LogicalPlanNode option"
  pb_task :: "TaskInfo option"
  pb_settings :: "(string \<times> string) list"

record 'b codec =
  enc_task_info :: "TaskInfo \<Rightarrow> 'b"
  dec_task_info :: "'b \<Rightarrow> TaskInfo option"
  enc_task_result :: "TaskResult \<Rightarrow> 'b"
  dec_task_result :: "'b \<Rightarrow> TaskResult option"
  enc_action :: "PbAction \<Rightarrow> 'b"
  dec_action :: "'b \<Rightarrow> PbAction option"
  flight_trip :: "RecordBatch list \<Rightarrow> RecordBatch list res"

text \<open>The actions a request is deserialized to (@physical-plan/src/action.rs@,
  @datatypes/src/shuffle_id.rs@); only the query action is built from a message.\<close>

record ShuffleId =
  si_job_uuid :: string
  si_stage_id :: "32 word"
  si_partition_id :: "32 word"

definition shuffle_id_new :: "string \<Rightarrow> 32 word \<Rightarrow> 32 word \<Rightarrow> ShuffleId" where
  "shuffle_id_new job st p = \<lparr>si_job_uuid = job, si_stage_id = st, si_partition_id = p\<rparr>"

datatype action = QueryAction LogicalPlan | ShuffleIdAction ShuffleId

definition deserialize_action :: "env \<Rightarrow> PbAction \<Rightarrow> action res" where
  "deserialize_action E a = (case pb_query a of
      Some n \<Rightarrow> map_res QueryAction (deserialize_logical_plan E n)
    | None \<Rightarrow> Panic (Panicked ''not implemented: Action is not implemented''))"

datatype status = Invalid_Argument string | Unimplemented string | Internal string

section \<open>The server\<close>

datatype flight_method = Handshake | List_Flights | Get_Flight_Info | Poll_Flight_Info | Get_Schema
  | Do_Put | Do_Exchange | List_Actions

text \<open>The methods that are stubs.\<close>

definition stub_method :: "flight_method \<Rightarrow> status + 'a" where
  "stub_method m = Inl (Unimplemented (case m of Handshake \<Rightarrow> ''handshake'' | List_Flights \<Rightarrow> ''list_flights''
     | Get_Flight_Info \<Rightarrow> ''get_flight_info'' | Poll_Flight_Info \<Rightarrow> ''poll_flight_info'' | Get_Schema \<Rightarrow> ''get_schema''
     | Do_Put \<Rightarrow> ''do_put'' | Do_Exchange \<Rightarrow> ''do_exchange'' | List_Actions \<Rightarrow> ''list_actions''))"

text \<open>An intermediate task: a shuffle writer writes its partitions, any other plan is drained.\<close>

definition run_task :: "env \<Rightarrow> ExecutorContext \<Rightarrow> phys_plan \<Rightarrow> (ShuffleLocation list \<times> ExecutorContext) res" where
  "run_task E ctx p = (case p of
      Shuffle_Writer_Exec i es job st n \<Rightarrow> write_shuffle E ctx i es job st n
    | _ \<Rightarrow> map_res (\<lambda>bs. ([], ctx)) (and_then (execute E ctx p) collect))"

definition task_result :: "Task \<Rightarrow> ShuffleLocation list \<Rightarrow> TaskResult" where
  "task_result t ls = \<lparr>tr_job_uuid = t_job_uuid t, tr_stage_id = t_stage_id t, tr_task_id = t_task_id t,
     tr_partition_id = t_partition_id t, tr_shuffle_locations = List.map location_to_proto ls\<rparr>"

definition do_action :: "env \<Rightarrow> 'b codec \<Rightarrow> ExecutorContext \<Rightarrow> string \<Rightarrow> 'b
    \<Rightarrow> ((status + 'b list) \<times> ExecutorContext) res" where
  "do_action E C ctx ty body =
     (if ty = ''execute_task'' then
        (case dec_task_info C body of
          None \<Rightarrow> Ok (Inl (Invalid_Argument ''failed to decode TaskInfo''), ctx)
        | Some info \<Rightarrow> and_then (deserialize_task info) (\<lambda>t.
            map_res (\<lambda>(ls, ctx'). (Inr [enc_task_result C (task_result t ls)], ctx')) (run_task E ctx (t_plan t))))
      else Ok (Inl (Invalid_Argument ''Unknown action type''), ctx))"

text \<open>The blocking task of @do_get@ sends batch after batch into the channel.  When it panics, the
  sender is dropped and the stream simply ends.\<close>

fun sent_batches :: "stream \<Rightarrow> RecordBatch list" where
  "sent_batches [] = []"
| "sent_batches (Ok b # xs) = b # sent_batches xs"
| "sent_batches (Panic p # xs) = []"

definition pumped :: "stream res \<Rightarrow> RecordBatch list" where
  "pumped r = (case r of Ok xs \<Rightarrow> sent_batches xs | Panic p \<Rightarrow> [])"

definition do_get :: "env \<Rightarrow> 'b codec \<Rightarrow> ExecutorContext \<Rightarrow> 'b \<Rightarrow> (status + RecordBatch list) res" where
  "do_get E C ctx ticket = (case dec_action C ticket of
      None \<Rightarrow> Ok (Inl (Invalid_Argument ''failed to decode Action''))
    | Some action \<Rightarrow> (case pb_task action of
        Some info \<Rightarrow> map_res (\<lambda>t. Inr (pumped (execute E ctx (t_plan t)))) (deserialize_task info)
      | None \<Rightarrow> (case pb_query action of
          Some n \<Rightarrow> map_res (\<lambda>p. Inr (pumped (context_execute E p))) (deserialize_logical_plan E n)
        | None \<Rightarrow> Ok (Inl (Invalid_Argument ''Action must have either `query` (logical plan) or `task` (final task)'')))))"

section \<open>The client\<close>

record Endpoint =
  ep_host :: string
  ep_port :: "32 word"

definition endpoint_new :: "string \<Rightarrow> 32 word \<Rightarrow> Endpoint" where
  "endpoint_new h p = \<lparr>ep_host = h, ep_port = p\<rparr>"

definition endpoint_url :: "Endpoint \<Rightarrow> string" where
  "endpoint_url e = ''http://'' @ ep_host e @ '':'' @ show_signed (ep_port e)"

definition endpoint_of :: "ExecutorConfig \<Rightarrow> Endpoint" where
  "endpoint_of c = endpoint_new (ec_host c) (ec_port c)"

text \<open>The servers that are up, by their address.\<close>

type_synonym cluster = "Endpoint \<rightharpoonup> ExecutorContext"

datatype client_error = Not_Connected | Call_Status status | Call_Broken | Empty_Response | Not_Select

definition client_do_action :: "((status + 'b list) \<times> ExecutorContext) res \<Rightarrow> client_error + 'b \<times> ExecutorContext" where
  "client_do_action reply = (case reply of
      Panic p \<Rightarrow> Inl Call_Broken
    | Ok (Inl s, ctx) \<Rightarrow> Inl (Call_Status s)
    | Ok (Inr [], ctx) \<Rightarrow> Inl Empty_Response
    | Ok (Inr (b # bs), ctx) \<Rightarrow> Inr (b, ctx))"

definition client_do_get :: "'b codec \<Rightarrow> (status + RecordBatch list) res \<Rightarrow> client_error + RecordBatch list" where
  "client_do_get C reply = (case reply of
      Panic p \<Rightarrow> Inl Call_Broken
    | Ok (Inl s) \<Rightarrow> Inl (Call_Status s)
    | Ok (Inr bs) \<Rightarrow> (case flight_trip C bs of Ok bs' \<Rightarrow> Inr bs' | Panic p \<Rightarrow> Inl Call_Broken))"

type_synonym connections = "string \<rightharpoonup> Endpoint"

fun flight_executor_client_new :: "cluster \<Rightarrow> ExecutorConfig list \<Rightarrow> client_error + connections" where
  "flight_executor_client_new w [] = Inr Map.empty"
| "flight_executor_client_new w (c # cs) = (if w (endpoint_of c) = None then Inl Not_Connected
     else (case flight_executor_client_new w cs of
        Inl e \<Rightarrow> Inl e
      | Inr k \<Rightarrow> Inr (if ec_id c \<in> dom k then k else k(ec_id c \<mapsto> endpoint_of c))))"

definition client_for :: "connections \<Rightarrow> cluster \<Rightarrow> string \<Rightarrow> (Endpoint \<times> ExecutorContext option) res" where
  "client_for k w i = map_res (\<lambda>e. (e, w e)) (expect ''FlightExecutorClient: no connection to executor'' (k i))"

definition server_of :: "ExecutorContext option \<Rightarrow> (ExecutorContext \<Rightarrow> client_error + 'a) \<Rightarrow> client_error + 'a" where
  "server_of s f = (case s of None \<Rightarrow> Inl Call_Broken | Some ctx \<Rightarrow> f ctx)"

definition flight_execute_task :: "env \<Rightarrow> 'b codec \<Rightarrow> connections \<Rightarrow> cluster \<Rightarrow> ExecutorConfig \<Rightarrow> Task
    \<Rightarrow> (ShuffleLocation list \<times> cluster) res" where
  "flight_execute_task E C k w e t = and_then (serialize_task E t) (\<lambda>info.
     and_then (client_for k w (ec_id e)) (\<lambda>(ep, s).
       (case server_of s (\<lambda>ctx. client_do_action (do_action E C ctx ''execute_task'' (enc_task_info C info))) of
          Inl err \<Rightarrow> Panic (Panicked ''execute_task do_action failed'')
        | Inr (body, ctx') \<Rightarrow> map_res (\<lambda>r. (List.map deserialize_shuffle_location (tr_shuffle_locations r), w(ep \<mapsto> ctx')))
            (expect ''execute_task: failed to decode TaskResult'' (dec_task_result C body)))))"

definition flight_execute_final_task :: "env \<Rightarrow> 'b codec \<Rightarrow> connections \<Rightarrow> cluster \<Rightarrow> ExecutorConfig \<Rightarrow> Task \<Rightarrow> stream res" where
  "flight_execute_final_task E C k w e t = and_then (serialize_task E t) (\<lambda>info.
     and_then (client_for k w (ec_id e)) (\<lambda>(ep, s).
       (case server_of s (\<lambda>ctx. client_do_get C (do_get E C ctx
            (enc_action C \<lparr>pb_query = None, pb_task = Some info, pb_settings = []\<rparr>))) of
          Inl err \<Rightarrow> Panic (Panicked ''execute_final_task do_get failed'')
        | Inr bs \<Rightarrow> Ok (List.map Ok bs))))"

definition fetch_shuffle :: "ExecutorConfig \<Rightarrow> ShuffleLocation \<Rightarrow> stream" where
  "fetch_shuffle e l = []"

definition flight_executor_client :: "env \<Rightarrow> 'b codec \<Rightarrow> connections \<Rightarrow> cluster executor_client" where
  "flight_executor_client E C k = \<lparr>cl_execute_task = flight_execute_task E C k,
     cl_execute_final_task = flight_execute_final_task E C k\<rparr>"

section \<open>The interactive context\<close>

record FlightContext =
  f_tables :: "string \<rightharpoonup> DataFrame"
  f_endpoint :: Endpoint

definition flight_context_new :: "cluster \<Rightarrow> Endpoint \<Rightarrow> client_error + FlightContext" where
  "flight_context_new w ep = (if w ep = None then Inl Not_Connected else Inr \<lparr>f_tables = Map.empty, f_endpoint = ep\<rparr>)"

definition f_register :: "FlightContext \<Rightarrow> string \<Rightarrow> DataFrame \<Rightarrow> FlightContext" where
  "f_register c n df = c\<lparr>f_tables := (f_tables c)(n \<mapsto> df)\<rparr>"

definition f_register_csv :: "env \<Rightarrow> FlightContext \<Rightarrow> string \<Rightarrow> string \<Rightarrow> bool \<Rightarrow> FlightContext res" where
  "f_register_csv E c n path h =
     map_res (\<lambda>p. f_register c n \<lparr>df_plan = p\<rparr>) (scan_new E path (Csv (csv_new path None h 1024)) [])"

definition f_execute :: "env \<Rightarrow> 'b codec \<Rightarrow> cluster \<Rightarrow> FlightContext \<Rightarrow> LogicalPlan \<Rightarrow> (client_error + RecordBatch list) res" where
  "f_execute E C w c p = map_res (\<lambda>n. server_of (w (f_endpoint c)) (\<lambda>ctx. client_do_get C (do_get E C ctx
      (enc_action C \<lparr>pb_query = Some n, pb_task = None, pb_settings = []\<rparr>)))) (serialize_logical_plan p)"

definition f_sql :: "env \<Rightarrow> 'b codec \<Rightarrow> cluster \<Rightarrow> FlightContext \<Rightarrow> string \<Rightarrow> (client_error + RecordBatch list) res" where
  "f_sql E C w c sql = and_then (read_sql sql) (\<lambda>e. case e of
      Some (S_Select q) \<Rightarrow> and_then (create_data_frame E q (f_tables c)) (\<lambda>df. f_execute E C w c (df_plan df))
    | _ \<Rightarrow> Ok (Inl Not_Select))"

definition table_count :: "FlightContext \<Rightarrow> nat" where
  "table_count c = card (dom (f_tables c))"

end
