(* ===== verification/Flight_Props.thy ===== *)
theory Flight_Props
  imports Flight Wire_Props Distributed_Props
begin

text \<open>
  Running tasks over Flight does on the server what running them in process would do, and what
  happens to panics on the way.
\<close>

section \<open>The documented behaviour of prost and arrow-flight\<close>

text \<open>Messages decode to what was encoded.  The Flight encoder writes one schema, that of the first
  batch, ahead of the batches, so record batches are only promised to arrive when all of them
  have the column types of the first.\<close>

definition same_types :: "RecordBatch list \<Rightarrow> bool" where
  "same_types bs = list_all (\<lambda>b. batch_types b = batch_types (hd bs)) bs"

lemma typed_same_types: "list_all (typed s) bs \<Longrightarrow> same_types bs"
  by (cases bs) (auto simp: same_types_def list_all_iff typed_def)

lemma same_types_simps [simp]: "same_types []" "same_types [b]"
  by (simp_all add: same_types_def)

definition codec_ok :: "'b codec \<Rightarrow> bool" where
  "codec_ok C = ((\<forall>m. dec_task_info C (enc_task_info C m) = Some m) \<and> (\<forall>m. dec_task_result C (enc_task_result C m) = Some m)
     \<and> (\<forall>m. dec_action C (enc_action C m) = Some m)
     \<and> (\<forall>bs. same_types bs \<longrightarrow> (\<exists>bs'. flight_trip C bs = Ok bs' \<and> stream_rows bs' = stream_rows bs)))"

text \<open>A concrete instance: messages stand for themselves, batches arrive as they were sent.\<close>

datatype message = M_Task_Info TaskInfo | M_Task_Result TaskResult | M_Action PbAction

definition ref_codec :: "message codec" where
  "ref_codec = \<lparr>enc_task_info = M_Task_Info, dec_task_info = (\<lambda>m. case m of M_Task_Info x \<Rightarrow> Some x | _ \<Rightarrow> None),
     enc_task_result = M_Task_Result, dec_task_result = (\<lambda>m. case m of M_Task_Result x \<Rightarrow> Some x | _ \<Rightarrow> None),
     enc_action = M_Action, dec_action = (\<lambda>m. case m of M_Action x \<Rightarrow> Some x | _ \<Rightarrow> None), flight_trip = Ok\<rparr>"

lemma ref_codec_ok: "codec_ok ref_codec"
  by (simp add: codec_ok_def ref_codec_def)

section \<open>Tasks over the wire\<close>

lemma task_trip:
  assumes "serialize_task E t = Ok m" "small_plan (t_plan t)"
  shows "deserialize_task m = Ok (t\<lparr>t_plan := received E (t_plan t)\<rparr>)"
proof -
  obtain n where n: "serialize_physical_plan E (t_plan t) = Ok n" "m = \<lparr>ti_job_uuid = t_job_uuid t, ti_stage_id = t_stage_id t,
      ti_task_id = t_task_id t, ti_partition_id = t_partition_id t, ti_plan = Some n\<rparr>"
    using assms(1) by (auto simp: serialize_task_def map_res_eq_Ok)
  show ?thesis using plan_back [OF n(1) assms(2)] by (simp add: deserialize_task_def n(2) task_new_def)
qed

lemma task_serialized: "serialize_task E t = Ok m \<Longrightarrow> is_ok (serialize_physical_plan E (t_plan t))"
  by (auto simp: serialize_task_def map_res_eq_Ok is_ok_iff)

lemma run_task_received:
  assumes "is_ok (serialize_physical_plan E p)" "default_sources p"
  shows "run_task E ctx (received E p) = run_task E ctx p"
proof (cases p)
  case (Shuffle_Writer_Exec i es job st n)
  have "is_ok (serialize_physical_plan E i)" "default_sources i"
    using assms unfolding Shuffle_Writer_Exec by (auto simp: is_ok_iff and_then_eq_Ok map_res_eq_Ok)
  then show ?thesis using received_same [of E i] unfolding Shuffle_Writer_Exec by (simp add: run_task_def write_shuffle_def)
qed (use received_same [OF assms, of ctx] in \<open>simp_all add: run_task_def del: execute.simps\<close>)

definition task_outcome :: "cluster \<Rightarrow> Endpoint \<Rightarrow> (ShuffleLocation list \<times> ExecutorContext) res \<Rightarrow> (ShuffleLocation list \<times> cluster) res" where
  "task_outcome w ep r = (case r of Ok (ls, ctx) \<Rightarrow> Ok (ls, w(ep \<mapsto> ctx))
     | Panic p \<Rightarrow> Panic (Panicked ''execute_task do_action failed''))"

lemma flight_task_outcome:
  assumes "codec_ok C" "serialize_task E t = Ok m" "small_plan (t_plan t)" "default_sources (t_plan t)"
    "k (ec_id e) = Some ep" "w ep = Some ctx"
  shows "flight_execute_task E C k w e t = task_outcome w ep (run_task E ctx (t_plan t))"
proof -
  have run: "run_task E ctx (received E (t_plan t)) = run_task E ctx (t_plan t)"
    by (rule run_task_received [OF task_serialized [OF assms(2)] assms(4)])
  have dec: "dec_task_info C (enc_task_info C m) = Some m" "\<And>r. dec_task_result C (enc_task_result C r) = Some r"
    using assms(1) by (simp_all add: codec_ok_def)
  show ?thesis
    by (cases "run_task E ctx (t_plan t)")
      (auto simp: flight_execute_task_def assms(2,5,6) client_for_def server_of_def do_action_def dec task_trip [OF assms(2,3)] run
        client_do_action_def task_result_def comp_def task_outcome_def split: prod.splits)
qed

lemma flight_final_outcome:
  assumes "codec_ok C" "serialize_task E t = Ok m" "small_plan (t_plan t)" "default_sources (t_plan t)"
    "k (ec_id e) = Some ep" "w ep = Some ctx" "same_types (pumped (execute E ctx (t_plan t)))"
  shows "\<exists>bs. flight_execute_final_task E C k w e t = Ok (List.map Ok bs)
     \<and> stream_rows bs = stream_rows (pumped (execute E ctx (t_plan t)))"
proof -
  have run: "execute E ctx (received E (t_plan t)) = execute E ctx (t_plan t)"
    using received_same [OF task_serialized [OF assms(2)] assms(4)] by blast
  obtain bs where bs: "flight_trip C (pumped (execute E ctx (t_plan t))) = Ok bs"
    "stream_rows bs = stream_rows (pumped (execute E ctx (t_plan t)))"
    using assms(1,7) unfolding codec_ok_def by blast
  have "\<And>a. dec_action C (enc_action C a) = Some a" using assms(1) by (simp add: codec_ok_def)
  then show ?thesis using bs(2)
    by (intro exI [of _ bs]) (simp add: bs(1) flight_execute_final_task_def assms(2,5,6) client_for_def server_of_def do_get_def task_trip [OF assms(2,3)] run
        client_do_get_def)
qed

lemma pumped_Ok [simp]: "pumped (Ok (List.map Ok bs)) = bs"
  by (simp add: pumped_def) (induction bs, auto)

section \<open>Properties\<close>


text \<open>C38: Errors of a final task are lost: when running its plan panics, the server's stream just
  ends, and the client reports success with no rows at all.\<close>

theorem remote_panic_is_silent:
  assumes "codec_ok C" "serialize_task E t = Ok m" "small_plan (t_plan t)" "default_sources (t_plan t)"
    "k (ec_id e) = Some ep" "w ep = Some ctx" "execute E ctx (t_plan t) = Panic p"
  shows "\<exists>bs. flight_execute_final_task E C k w e t = Ok (List.map Ok bs) \<and> stream_rows bs = []"
  using flight_final_outcome [where k = k and w = w and e = e and ep = ep and ctx = ctx, OF assms(1-6)] assms(7)
  by (simp add: pumped_def)

section \<open>A concrete cluster\<close>

definition sample_executor :: ExecutorConfig where
  "sample_executor = executor_config_new ''e0'' ''localhost'' 50051"

definition sample_server :: ExecutorContext where
  "sample_server = executor_context_new ''e0'' ''localhost'' 50051 ''/tmp/rquery-shuffle''"

definition sample_reader :: "ShuffleLocation list \<Rightarrow> Task" where
  "sample_reader ls = task_new ''j'' 1 0 0 (Shuffle_Reader_Exec (new_schema [new_field ''n'' T_Int64]) ls)"

lemma sample_reader_facts:
  "\<exists>m. serialize_task ref_env (sample_reader ls) = Ok m" "small_plan (t_plan (sample_reader ls))" "default_sources (t_plan (sample_reader ls))"
  by (simp_all add: sample_reader_def task_new_def serialize_task_def schema_to_proto_def new_schema_def field_to_proto_def
      data_type_to_proto_def arrow_numbers_def new_field_def)


theorem remote_panic_is_silent_witness:
  "\<exists>bs. flight_execute_final_task ref_env ref_codec [''e0'' \<mapsto> endpoint_of sample_executor] [endpoint_of sample_executor \<mapsto> sample_server]
      sample_executor (sample_reader [new_location ''j'' 0 1 ''e1'' ''localhost'' 50052]) = Ok (List.map Ok bs) \<and> stream_rows bs = []"
proof -
  let ?t = "sample_reader [new_location ''j'' 0 1 ''e1'' ''localhost'' 50052]"
  obtain m where m: "serialize_task ref_env ?t = Ok m" using sample_reader_facts(1) by blast
  have "execute ref_env sample_server (t_plan ?t) = Panic (Panicked ''ShuffleReaderExec: remote shuffle reads require an Arrow Flight client'')"
    by (simp add: sample_reader_def task_new_def shuffle_read_def new_location_def sample_server_def executor_context_new_def)
  then show ?thesis
    using remote_panic_is_silent [OF ref_codec_ok m sample_reader_facts(2,3), of "[''e0'' \<mapsto> endpoint_of sample_executor]" sample_executor
        "endpoint_of sample_executor" "[endpoint_of sample_executor \<mapsto> sample_server]" sample_server]
    by (simp add: sample_executor_def executor_config_new_def)
qed

end
