(* ===== verification/Cluster_Props.thy ===== *)
theory Cluster_Props
  imports Parallel_Props Flight_Props
begin

text \<open>
  Distributed aggregation end to end: the scheduler, the two stages it plans, the shuffle between
  them and the client that ships the tasks.  The interface the scheduler needs from a client is
  a locale; the Flight client provides it.
\<close>

section \<open>Clients that run tasks where they are sent\<close>

locale faithful_client =
  fixes E :: env and cl :: "'s executor_client" and home :: "'s \<Rightarrow> ExecutorConfig \<Rightarrow> ExecutorContext option"
    and sendable :: "phys_plan \<Rightarrow> bool"
  assumes runs_task: "home w e = Some ctx \<Longrightarrow> sendable (t_plan t) \<Longrightarrow> run_task E ctx (t_plan t) = Ok (ls, ctx')
      \<Longrightarrow> \<exists>w'. cl_execute_task cl w e t = Ok (ls, w') \<and> home w' e = Some ctx'"
    and runs_final: "home w e = Some ctx \<Longrightarrow> sendable (t_plan t) \<Longrightarrow> execute E ctx (t_plan t) = Ok (List.map Ok bs) \<Longrightarrow> same_types bs
      \<Longrightarrow> \<exists>bs'. cl_execute_final_task cl w e t = Ok (List.map Ok bs') \<and> stream_rows bs' = stream_rows bs"
begin

text \<open>Every task of a stage runs the whole plan of the stage, here on the only executor.\<close>

lemma tasks_run:
  assumes "executors c = [e]" "sendable (st_plan st)" "home w e = Some ctx"
    "\<And>ctx. run_task E ctx (st_plan st) = Ok (locs ctx, after ctx)" "\<And>ctx. locs (after ctx) = locs ctx"
  shows "\<exists>w'. fold_res (dispatch_task cl c job st) (acc, w) ps = Ok (acc @ concat (replicate (length ps) (locs ctx)), w')
     \<and> home w' e = Some ((after ^^ length ps) ctx)"
  using assms(3)
proof (induction ps arbitrary: acc w ctx)
  case (Cons p ps)
  obtain w1 where w1: "cl_execute_task cl w e (stage_task job st p) = Ok (locs ctx, w1)" "home w1 e = Some (after ctx)"
    using runs_task [OF Cons.prems, of "stage_task job st p"] assms(2,4) by (auto simp: stage_task_def task_new_def)
  then have "dispatch_task cl c job st (acc, w) p = Ok (acc @ locs ctx, w1)"
    using assms(1) by (simp add: dispatch_task_def task_executor_def)
  then show ?case using Cons.IH [OF w1(2), of "acc @ locs ctx"] assms(5) by (simp add: funpow_swap1)
qed simp

end

definition home_of :: "connections \<Rightarrow> cluster \<Rightarrow> ExecutorConfig \<Rightarrow> ExecutorContext option" where
  "home_of k w e = (case k (ec_id e) of None \<Rightarrow> None | Some ep \<Rightarrow> w ep)"

definition sendable_over :: "env \<Rightarrow> 'b codec \<Rightarrow> phys_plan \<Rightarrow> bool" where
  "sendable_over E C p = (codec_ok C \<and> is_ok (serialize_physical_plan E p) \<and> small_plan p \<and> default_sources p)"

lemma sendable_task: "sendable_over E C (t_plan t) \<Longrightarrow> \<exists>m. codec_ok C \<and> serialize_task E t = Ok m \<and> small_plan (t_plan t) \<and> default_sources (t_plan t)"
  by (auto simp: sendable_over_def serialize_task_def is_ok_iff)

interpretation flight: faithful_client E "flight_executor_client E C k" "home_of k" "sendable_over E C"
  for E :: env and C :: "'b codec" and k :: connections
proof
  fix w e ctx and t :: Task and ls ctx'
  assume h: "home_of k w e = Some ctx" and s: "sendable_over E C (t_plan t)" and r: "run_task E ctx (t_plan t) = Ok (ls, ctx')"
  obtain ep where ep: "k (ec_id e) = Some ep" "w ep = Some ctx" using h by (auto simp: home_of_def split: option.splits)
  obtain m where m: "codec_ok C" "serialize_task E t = Ok m" "small_plan (t_plan t)" "default_sources (t_plan t)"
    using sendable_task [OF s] by blast
  show "\<exists>w'. cl_execute_task (flight_executor_client E C k) w e t = Ok (ls, w') \<and> home_of k w' e = Some ctx'"
    using flight_task_outcome [where k = k and w = w and e = e and ep = ep and ctx = ctx, OF m ep] ep(1)
    by (simp add: flight_executor_client_def task_outcome_def r home_of_def)
next
  fix w e ctx and t :: Task and bs
  assume h: "home_of k w e = Some ctx" and s: "sendable_over E C (t_plan t)" and r: "execute E ctx (t_plan t) = Ok (List.map Ok bs)"
    and y: "same_types bs"
  obtain ep where ep: "k (ec_id e) = Some ep" "w ep = Some ctx" using h by (auto simp: home_of_def split: option.splits)
  obtain m where m: "codec_ok C" "serialize_task E t = Ok m" "small_plan (t_plan t)" "default_sources (t_plan t)"
    using sendable_task [OF s] by blast
  show "\<exists>bs'. cl_execute_final_task (flight_executor_client E C k) w e t = Ok (List.map Ok bs') \<and> stream_rows bs' = stream_rows bs"
    using flight_final_outcome [where k = k and w = w and e = e and ep = ep and ctx = ctx, OF m ep]
    by (simp add: flight_executor_client_def r y)
qed

section \<open>The two stages of a job\<close>

definition first_plan :: "DistributedConfig \<Rightarrow> string \<Rightarrow> phys_plan \<Rightarrow> phys_expr list \<Rightarrow> phys_aggr list \<Rightarrow> Schema \<Rightarrow> phys_plan" where
  "first_plan c job i gs as s = Shuffle_Writer_Exec (Hash_Aggregate_Exec i gs as s Partial) gs job 0 (partition_count c)"

definition last_plan :: "phys_expr list \<Rightarrow> phys_aggr list \<Rightarrow> Schema \<Rightarrow> ShuffleLocation list \<Rightarrow> phys_plan" where
  "last_plan gs as s locs = Hash_Aggregate_Exec (Shuffle_Reader_Exec s locs) gs as s Final"

definition first_of :: "DistributedConfig \<Rightarrow> string \<Rightarrow> phys_plan \<Rightarrow> phys_expr list \<Rightarrow> phys_aggr list \<Rightarrow> Schema \<Rightarrow> QueryStage" where
  "first_of c job i gs as s = with_partition_count (stage_new 0 (first_plan c job i gs as s)) (partition_count c)"

lemma job_of_stages:
  assumes "executors c = [e]" "execute_stage cl c job (first_of c job i gs as s) w = Ok (locs, w')"
  shows "scheduler_execute cl c job (Hash_Aggregate_Exec i gs as s m) w
    = map_res (\<lambda>xs. (xs, w')) (cl_execute_final_task cl w' e (task_new job 1 0 0 (last_plan gs as s locs)))"
proof -
  have "plan_stages c (Hash_Aggregate_Exec i gs as s m) job = [first_of c job i gs as s,
      as_final_stage (with_dependencies (stage_new 1 (last_plan gs as s [])) [0])]"
    by (simp add: plan_stages_def plan_aggregate_def Let_def first_of_def first_plan_def last_plan_def)
  moreover have "updated_stage Map.empty (first_of c job i gs as s) = Ok (first_of c job i gs as s)"
    by (simp add: updated_stage_def check_dependencies_def input_locations_def first_of_def stage_new_def with_partition_count_def)
  ultimately show ?thesis using assms
    by (simp add: scheduler_execute_def plan_stages_sorted)
      (simp add: first_of_def stage_new_def with_partition_count_def updated_stage_def check_dependencies_def
        as_final_stage_def with_dependencies_def input_locations_def update_shuffle_locations_def last_plan_def only_child_def
        with_plan_def execute_final_stage_def)
qed

lemma partitions_positive: "executors c = [e] \<Longrightarrow> 0 < sint (partition_count c)"
  by (simp add: partition_count_def word_sless_alt)

lemma read_replicated:
  "execute E ctx (Shuffle_Reader_Exec s ls) = Ok (List.map Ok bs) \<Longrightarrow>
     execute E ctx (Shuffle_Reader_Exec s (concat (replicate n ls))) = Ok (List.map Ok (concat (replicate n bs)))"
  by (induction n) (simp_all add: shuffle_read_def split: if_splits)

text \<open>What the tasks of the first stage write is the same for each of them, so the locations they
  report are read once per task.\<close>

definition written :: "ExecutorContext \<Rightarrow> string \<Rightarrow> RecordBatch list list \<Rightarrow> ExecutorContext" where
  "written ctx job bufs = ctx\<lparr>shuffle_manager := snd (write_buffers ctx job 0 bufs)\<rparr>"

lemma written_locations: "fst (write_buffers (written ctx job bufs) job 0 bufs) = fst (write_buffers ctx job 0 bufs)"
  by (simp add: write_buffers_locations written_def partition_location_def)

lemma written_again: "fst (write_buffers (((\<lambda>ctx. written ctx job bufs) ^^ n) ctx) job 0 bufs) = fst (write_buffers ctx job 0 bufs)"
  by (induction n) (simp_all add: written_locations)

lemma read_all_written:
  assumes "env_ok E" "length bufs \<le> 2 ^ 31" "0 < n" "one_schema_each bufs"
  shows "execute E (((\<lambda>ctx. written ctx job bufs) ^^ n) ctx) (Shuffle_Reader_Exec s
      (concat (replicate n (fst (write_buffers ctx job 0 bufs))))) = Ok (List.map Ok (concat (replicate n (concat bufs))))"
proof (rule read_replicated)
  obtain j where "n = Suc j" using assms(3) gr0_conv_Suc by blast
  then show "execute E (((\<lambda>ctx. written ctx job bufs) ^^ n) ctx) (Shuffle_Reader_Exec s (fst (write_buffers ctx job 0 bufs)))
      = Ok (List.map Ok (concat bufs))"
    using read_written_locations [OF assms(1,2,4), of "((\<lambda>ctx. written ctx job bufs) ^^ j) ctx" job 0 s]
    by (simp only: funpow.simps comp_def written_again) (simp add: written_def)
qed

text \<open>The final aggregate over the shuffled partial aggregates, read once per task.\<close>

lemma stream_rows_replicate: "stream_rows (concat (replicate n bs)) = concat (replicate n (stream_rows bs))"
  by (induction n) simp_all

lemma second_stage_copies:
  assumes "env_ok E" "schema_ok s'" "list_all (typed s) bs" "aligned gs as" "stage_types s s' (length gs) as"
    "int (n * length (stream_rows bs)) < 2 ^ 31" "distinct ks" "set ks = keys_of (length gs) (stream_rows bs)"
    "list_all (typed s') cs" "mset (stream_rows cs) = mset (List.map (stage_row (length gs) as (stream_rows bs)) ks)"
  shows "\<exists>b b'. aggregate_stream E gs as s' Final (List.map Ok (concat (replicate n cs))) = Ok b
     \<and> aggregate_stream E gs as s' Complete (List.map Ok (concat (replicate n bs))) = Ok b'
     \<and> mset (batch_rows b) = mset (batch_rows b')"
proof -
  let ?k = "length gs" and ?R = "stream_rows (concat (replicate n bs))" and ?ps = "replicate n (stream_rows bs, ks)"
  have bs: "list_all (typed s) (concat (replicate n bs))" and cs: "list_all (typed s') (concat (replicate n cs))"
    using assms(3,9) by (auto simp: list_all_iff split: if_splits)
  have "length ?R = n * length (stream_rows bs)" by (induction n) simp_all
  then have len: "int (length ?R) < 2 ^ 31" using assms(6) by simp
  have "parts_of ?k ?R ?ps"
    using assms(7,8) by (auto simp: parts_of_def stream_rows_replicate map_replicate_const split: if_splits)
  moreover have "mset (stream_rows (concat (replicate n cs))) = mset (stage_output ?k as ?ps)"
    using assms(10) by (induction n) (simp_all add: stage_output_def)
  ultimately obtain ks1 b where b: "distinct ks1" "set ks1 = keys_of ?k ?R"
    "aggregate_stream E gs as s' Final (List.map Ok (concat (replicate n cs))) = Ok b"
    "batch_rows b = List.map (stage_row ?k as ?R) ks1"
    using second_stage [OF assms(1,2) cs assms(4,5) stream_rows_fit [OF bs] len] by blast
  obtain ks2 b' where b': "distinct ks2" "set ks2 = keys_of ?k ?R"
    "aggregate_stream E gs as s' Complete (List.map Ok (concat (replicate n bs))) = Ok b'"
    "batch_rows b' = List.map (stage_row ?k as ?R) ks2"
    using first_stage [OF assms(1,2) bs assms(4,5) len, of Complete] by blast
  show ?thesis using b b' same_groups [of ks1 ks2] by (intro exI [of _ b] exI [of _ b']) simp
qed

context faithful_client
begin

lemma job_result:
  assumes "env_ok E" "schema_ok s'" "phys_schema E i = Ok s" "\<And>ctx. execute E ctx i = Ok (List.map Ok bs)" "list_all (typed s) bs"
    "aligned gs as" "stage_types s s' (length gs) as" "n = nat (sint (partition_count c))"
    "int (n * length (stream_rows bs)) < 2 ^ 31" "executors c = [e]" "home w e = Some ctx"
    "sendable (first_plan c job i gs as s')" "\<And>locs. sendable (last_plan gs as s' locs)"
  shows "\<exists>xs w' b. scheduler_execute cl c job (Hash_Aggregate_Exec i gs as s' m) w = Ok (List.map Ok xs, w')
     \<and> aggregate_stream E gs as s' Complete (List.map Ok (concat (replicate n bs))) = Ok b
     \<and> mset (stream_rows xs) = mset (batch_rows b)"
proof -
  let ?R = "stream_rows bs" and ?p = "Hash_Aggregate_Exec i gs as s' Partial" and ?L = "\<lambda>bufs ctx. fst (write_buffers ctx job 0 bufs)"
  have n: "0 < sint (partition_count c)" "0 < n" using partitions_positive [OF assms(10)] assms(8) by simp_all
  have w: "length gs + length as \<le> width s'" using assms(7) by (simp add: stage_types_def)
  have "length ?R \<le> n * length ?R" using n(2) by simp
  then have len: "int (length ?R) < 2 ^ 31" using assms(9) by linarith
  obtain ks b1 where b1: "distinct ks" "set ks = keys_of (length gs) ?R" "typed s' b1"
    "aggregate_stream E gs as s' Partial (List.map Ok bs) = Ok b1" "batch_rows b1 = List.map (stage_row (length gs) as ?R) ks"
    using first_stage [OF assms(1,2,5-7) len, of Partial] by blast
  have p: "phys_schema E ?p = Ok s'" "execute E ctx ?p = Ok (List.map Ok [b1])" for ctx using assms(3,4) b1(4) by simp_all
  have "evaluates_on E s' gs (stream_rows [b1])"
    using aligned_evaluates [OF assms(6) w stream_rows_fit [of s' "[b1]"]] b1(3) by simp
  then obtain bufs where bufs: "buffers_ok E s' gs (nat (sint (partition_count c))) (stream_rows [b1]) bufs"
    "\<And>ctx. write_shuffle E ctx ?p gs job 0 (partition_count c) = Ok (?L bufs ctx, written ctx job bufs)"
    using write_shuffle_any [OF assms(1) p(1), of "[b1]" gs "partition_count c" job 0] b1(3) n(1) p(2)
    unfolding written_def by auto
  have cs: "list_all (typed s') (concat bufs)" "mset (stream_rows (concat bufs)) = mset (batch_rows b1)" "length bufs \<le> 2 ^ 31"
    using buffers_rows [OF bufs(1)] buffers_bound [OF n(1) bufs(1)] n(1) by auto
  have ids: "length (partition_ids (first_of c job i gs as s')) = n"
    by (simp add: partition_ids_def first_of_def with_partition_count_def assms(8))
  have "\<exists>w'. execute_stage cl c job (first_of c job i gs as s') w = Ok (concat (replicate n (?L bufs ctx)), w')
     \<and> home w' e = Some (((\<lambda>ctx. written ctx job bufs) ^^ n) ctx)"
    using tasks_run [of c e "first_of c job i gs as s'" w ctx "?L bufs" "\<lambda>ctx. written ctx job bufs" job "[]"
        "partition_ids (first_of c job i gs as s')"] assms(10-12) bufs(2) written_locations ids
    by (simp add: execute_stage_def first_of_def stage_new_def with_partition_count_def first_plan_def run_task_def)
  then obtain w' where w': "execute_stage cl c job (first_of c job i gs as s') w = Ok (concat (replicate n (?L bufs ctx)), w')"
    "home w' e = Some (((\<lambda>ctx. written ctx job bufs) ^^ n) ctx)" by blast
  obtain b2 b' where b2: "aggregate_stream E gs as s' Final (List.map Ok (concat (replicate n (concat bufs)))) = Ok b2"
    "aggregate_stream E gs as s' Complete (List.map Ok (concat (replicate n bs))) = Ok b'" "mset (batch_rows b2) = mset (batch_rows b')"
    using second_stage_copies [OF assms(1,2,5-7,9) b1(1,2) cs(1)] cs(2) b1(5) by auto
  let ?last = "task_new job 1 0 0 (last_plan gs as s' (concat (replicate n (?L bufs ctx))))"
  have "execute E (((\<lambda>ctx. written ctx job bufs) ^^ n) ctx) (t_plan ?last) = Ok (List.map Ok [b2])"
    using read_all_written [OF assms(1) cs(3) n(2) buffers_one_schema [OF bufs(1)]] b2(1) by (simp add: last_plan_def task_new_def)
  moreover have "sendable (t_plan ?last)" using assms(13) by (simp add: task_new_def)
  ultimately obtain xs where "cl_execute_final_task cl w' e ?last = Ok (List.map Ok xs)" "stream_rows xs = stream_rows [b2]"
    using runs_final [OF w'(2)] same_types_simps(2) by blast
  then show ?thesis using job_of_stages [OF assms(10) w'(1)] b2
    by (intro exI [of _ xs] exI [of _ w'] exI [of _ b']) simp
qed

end

lemma plans_sendable:
  assumes "codec_ok C" "is_ok (serialize_physical_plan E (Hash_Aggregate_Exec i gs as s' m))" "small_plan (Hash_Aggregate_Exec i gs as s' m)"
    "default_sources i"
  shows "sendable_over E C (first_plan c job i gs as s')" "sendable_over E C (last_plan gs as s' locs)"
  using assms by (auto simp: sendable_over_def first_plan_def last_plan_def is_ok_iff and_then_eq_Ok map_res_eq_Ok)

section \<open>Properties\<close>


text \<open>A file with the sample rows, counted on one executor in two partitions.\<close>

definition file_env :: env where
  "file_env = ref_env\<lparr>parquet_schema := \<lambda>f. Ok (to_arrow sample_schema), 
     parquet_read := \<lambda>f ns. memory_scan ref_env sample_schema [sample_batch] (case ns of None \<Rightarrow> [] | Some ns \<Rightarrow> ns)\<rparr>"

definition file_plan :: phys_plan where
  "file_plan = Scan_Exec (Parquet ''t.parquet'') [''id'', ''name'']"

definition two_partitions :: DistributedConfig where
  "two_partitions = with_default_partitions (distributed_config_new [sample_executor]) 2"

abbreviation count_schema :: Schema where
  "count_schema \<equiv> new_schema [new_field ''id'' T_Int32, new_field ''n'' T_Int32]"

lemma file_plan_ok:
  "env_ok file_env" "phys_schema file_env file_plan = Ok sample_schema" "execute file_env ctx file_plan = Ok (List.map Ok [sample_batch])"
  "list_all (typed sample_schema) [sample_batch]"
  using ref_env_ok sample_plan_ok(3)
  by (simp_all add: file_env_def env_ok_def file_plan_def ds_schema_def ds_scan_def parquet_scan_def from_arrow_def to_arrow_def
      field_to_arrow_def new_schema_def new_field_def select_def select_field_def memory_scan_def column_position_def
      sample_batch_def try_new_def try_new_spec_def)

lemma count_query_ok:
  "schema_ok count_schema" "aligned [Column_Expr 0] [Aggr Agg_Count (Column_Expr 1)]"
  "stage_types sample_schema count_schema (length [Column_Expr 0]) [Aggr Agg_Count (Column_Expr 1)]"
  by (simp_all add: schema_ok_def supported_def new_schema_def new_field_def aligned_def stage_types_def aggregates_type_def
      aggregate_type_def)

lemma count_twice:
  "map_res (\<lambda>b. mset (batch_rows b)) (aggregate_stream file_env [Column_Expr 0] [Aggr Agg_Count (Column_Expr 1)] count_schema Complete
      (List.map Ok (concat (replicate 2 [sample_batch]))))
    = Ok {#[V_Int32 7, V_Int32 2], [V_Null, V_Int32 2], [V_Int32 9, V_Int32 0]#}"
  by code_simp

lemma count_query_sendable:
  "is_ok (serialize_physical_plan file_env (Hash_Aggregate_Exec file_plan [Column_Expr 0] [Aggr Agg_Count (Column_Expr 1)] count_schema Complete))"
  "small_plan (Hash_Aggregate_Exec file_plan [Column_Expr 0] [Aggr Agg_Count (Column_Expr 1)] count_schema Complete)" "default_sources file_plan"
proof -
  show "is_ok (serialize_physical_plan file_env (Hash_Aggregate_Exec file_plan [Column_Expr 0] [Aggr Agg_Count (Column_Expr 1)] count_schema Complete))"
    by code_simp
qed (simp_all add: file_plan_def)


end
