(* ===== verification/Remote_Props.thy ===== *)
theory Remote_Props
  imports Cluster_Props Execution_Props
begin

text \<open>
  Queries sent whole to a Flight server: the client's context parses and plans, the server
  optimizes, lowers and runs.
\<close>

lemma remote_execute:
  assumes "env_ok E" "codec_ok C" "plan_ok E p" "optimizable E p" "stable p" "schema_known {} p" "sendable E p" "w (f_endpoint c) = Some ctx"
  shows "\<exists>bs. f_execute E C w c p = Ok (Inr bs) \<and> stream_rows bs \<in> results E p"
proof -
  obtain bs where bs: "context_execute E p = Ok (List.map Ok bs)" "stream_rows bs \<in> results E p" "same_types bs"
    using query_runs [OF assms(1,3-6)] typed_same_types by blast
  obtain n where n: "serialize_logical_plan p = Ok n" "deserialize_logical_plan E n = Ok p"
    using plan_trip_iff [of p E] assms(7) by (auto simp: and_then_eq_Ok)
  obtain bs' where "flight_trip C bs = Ok bs'" "stream_rows bs' = stream_rows bs"
    using assms(2) bs(3) unfolding codec_ok_def by blast
  moreover have "dec_action C (enc_action C a) = Some a" for a using assms(2) by (simp add: codec_ok_def)
  ultimately show ?thesis using bs n assms(8)
    by (simp add: f_execute_def server_of_def do_get_def client_do_get_def)
qed

lemma remote_sql:
  assumes "printable_select q" "plain_select q" "create_data_frame E q (f_tables c) = Ok df"
  shows "f_sql E C w c (print_tokens (select_tokens q)) = f_execute E C w c (df_plan df)"
proof -
  have "read_sql (print_tokens (select_tokens q)) = Ok (Some (S_Select q))"
    by (rule read_printed [OF plain_select_tokens [OF assms(1,2)]]) (rule parse_statement [OF assms(1)])
  then show ?thesis using assms(3) by (simp add: f_sql_def)
qed

section \<open>Properties\<close>

text \<open>C8: A query sent to a Flight server, end to end: @Context::sql@ on the text of a SELECT whose plan
  is well typed and can be sent parses, plans and serializes it, the server answers, and the rows
  the client decodes are one of the results the plan means.  The plan satisfies the
  conditions of the optimizer as in C2 (@optimizable@, @schema_known@, @stable@), which exclude only
  unusual registered tables.\<close>

theorem remote_sql_to_rows:
  assumes "env_ok E" "codec_ok C" "printable_select q" "plain_select q" "create_data_frame E q (f_tables c) = Ok df"
    "plan_ok E (df_plan df)" "optimizable E (df_plan df)" "stable (df_plan df)" "schema_known {} (df_plan df)"
    "sendable E (df_plan df)" "w (f_endpoint c) = Some ctx"
  shows "\<exists>bs. f_sql E C w c (print_tokens (select_tokens q)) = Ok (Inr bs) \<and> stream_rows bs \<in> results E (df_plan df)"
  unfolding remote_sql [OF assms(3-5)] by (rule remote_execute [where w = w and c = c, OF assms(1,2,6-11)])

text \<open>The ids of the sample file, over Flight.\<close>

definition file_table :: LogicalPlan where
  "file_table = Scan ''t.parquet'' (Parquet ''t.parquet'') [] sample_schema"

definition remote_context :: FlightContext where
  "remote_context = f_register \<lparr>f_tables = Map.empty, f_endpoint = endpoint_of sample_executor\<rparr> ''t'' \<lparr>df_plan = file_table\<rparr>"

definition id_select :: SqlSelect where
  "id_select = SqlSelect [S_Identifier ''id''] None [] [] None None ''t''"

lemma file_source_ok: "source_ok file_env (Parquet ''t.parquet'') sample_schema [sample_batch]"
proof -
  have "table_wf sample_schema [sample_batch]" using sample_plan_ok(3) by (auto simp: table_wf_def typed_def)
  then have "source_ok ref_env (In_Memory sample_schema [sample_batch]) sample_schema [sample_batch]"
    by (intro memory_source_ok [OF ref_env_ok]) (simp_all add: new_schema_def)
  moreover have "ds_schema file_env (Parquet ''t.parquet'') = Ok sample_schema"
    by (simp add: ds_schema_def file_env_def from_to_arrow)
  moreover have "ds_scan file_env (Parquet ''t.parquet'') ns = ds_scan ref_env (In_Memory sample_schema [sample_batch]) ns" for ns
    by (simp add: ds_scan_def parquet_scan_def file_env_def)
  ultimately show ?thesis by (simp add: source_ok_def)
qed

lemma file_table_ok:
  "plan_ok file_env file_table" "plan_schema file_env file_table = Ok sample_schema" "optimizable file_env file_table"
  "sendable file_env file_table" "results file_env file_table = {[[V_Int32 7, V_Utf8 ''a''], [V_Null, V_Utf8 ''b''], [V_Int32 9, V_Null]]}"
proof -
  have x: "ds_schema file_env (Parquet ''t.parquet'') = Ok sample_schema"
    "ds_scan file_env (Parquet ''t.parquet'') [] = Ok (List.map Ok [sample_batch])" "list_all (typed sample_schema) [sample_batch]"
    using file_source_ok unfolding source_ok_def by blast+
  then have d: "derive_schema file_env (Parquet ''t.parquet'') [] = Ok sample_schema" by (simp add: derive_schema_def)
  show "plan_ok file_env file_table" unfolding file_table_def by (rule plan_ok.scan [OF x(2,3)]) (use d in simp)
  show "plan_schema file_env file_table = Ok sample_schema" "sendable file_env file_table" using d by (simp_all add: file_table_def)
  show "optimizable file_env file_table" using file_source_ok by (auto simp: file_table_def new_schema_def new_field_def)
  show "results file_env file_table = {[[V_Int32 7, V_Utf8 ''a''], [V_Null, V_Utf8 ''b''], [V_Int32 9, V_Null]]}"
    using x(2) by (simp add: file_table_def batch_rows_def batch_row_def sample_batch_def upt_rec)
qed

abbreviation id_plan :: LogicalPlan where
  "id_plan \<equiv> Projection file_table [Column ''id'']"

lemma id_planned: "create_data_frame file_env id_select (f_tables remote_context) = Ok \<lparr>df_plan = id_plan\<rparr>"
  by (simp add: create_data_frame_def id_select_def remote_context_def f_register_def is_aggregate_expr_def columns_referenced_by_selection_def
      plan_non_aggregate_query_def df_project_def with_limit_def)

lemma id_plan_ok:
  "plan_ok file_env id_plan" "optimizable file_env id_plan" "Optimizer_Props.stable id_plan" "schema_known {} id_plan" "sendable file_env id_plan"
proof -
  note c = sample_columns [OF file_table_ok(2)]
  show "plan_ok file_env id_plan"
    by (rule plan_ok.projection [OF file_table_ok(1), where fs = "[new_field ''id'' T_Int32]"])
      (simp_all add: c file_table_ok(2,5) find_field_def new_schema_def evaluates_def new_field_def)
qed (simp_all add: file_table_ok admissible_def, simp_all add: file_table_def)

theorem remote_sql_to_rows_witness:
  "\<exists>bs. f_sql file_env ref_codec [endpoint_of sample_executor \<mapsto> sample_server] remote_context (print_tokens (select_tokens id_select)) = Ok (Inr bs)
     \<and> stream_rows bs \<in> results file_env id_plan"
proof -
  have ok: "printable_select id_select" "plain_select id_select"
    by (simp_all add: id_select_def printable_select_def is_operator_def operators_def is_sort_def plain_select_def plain_name_def)
  have w: "[endpoint_of sample_executor \<mapsto> sample_server] (f_endpoint remote_context) = Some sample_server"
    by (simp add: remote_context_def f_register_def)
  show ?thesis
    using remote_sql_to_rows [where w = "[endpoint_of sample_executor \<mapsto> sample_server]" and c = remote_context, OF file_plan_ok(1) ref_codec_ok ok id_planned]
      id_plan_ok w by simp
qed

end
