(* ===== verification/Fuzzer.thy ===== *)
theory Fuzzer
  imports Environment Logical_Plan
begin

text \<open>
  The random generator of batches, expressions and plans (crate @fuzzer@).  The generator
  @StdRng@ of the crate @rand@ is the argument @R@: what its methods return from a state
  @'g@ and the state they leave.  A method that takes @&mut self@ is a computation over the
  generator state, which may panic.
\<close>

record 'g rng =
  seed_from_u64 :: "64 word \<Rightarrow> 'g"
  rand_range :: "nat \<Rightarrow> nat \<Rightarrow> 'g \<Rightarrow> nat \<times> 'g"
  rand_i32 :: "'g \<Rightarrow> 32 word \<times> 'g"
  rand_i64 :: "'g \<Rightarrow> 64 word \<times> 'g"
  rand_f32 :: "'g \<Rightarrow> f32 \<times> 'g"
  rand_f64 :: "'g \<Rightarrow> f64 \<times> 'g"

type_synonym ('g, 'a) gen = "'g \<Rightarrow> ('a \<times> 'g) res"

definition gen_return :: "'a \<Rightarrow> ('g, 'a) gen" where
  "gen_return x g = Ok (x, g)"

definition gen_bind :: "('g, 'a) gen \<Rightarrow> ('a \<Rightarrow> ('g, 'b) gen) \<Rightarrow> ('g, 'b) gen" where
  "gen_bind m f g = and_then (m g) (\<lambda>(x, g'). f x g')"

definition gen_lift :: "'a res \<Rightarrow> ('g, 'a) gen" where
  "gen_lift r g = map_res (\<lambda>x. (x, g)) r"

text \<open>@(0..n).map(..).collect()@ and @iter().map(..).collect()@.\<close>

fun gen_times :: "nat \<Rightarrow> ('g, 'a) gen \<Rightarrow> ('g, 'a list) gen" where
  "gen_times 0 m = gen_return []"
| "gen_times (Suc n) m = gen_bind m (\<lambda>x. gen_bind (gen_times n m) (\<lambda>xs. gen_return (x # xs)))"

fun gen_each :: "('b \<Rightarrow> ('g, 'a) gen) \<Rightarrow> 'b list \<Rightarrow> ('g, 'a list) gen" where
  "gen_each f [] = gen_return []"
| "gen_each f (b # bs) = gen_bind (f b) (\<lambda>x. gen_bind (gen_each f bs) (\<lambda>xs. gen_return (x # xs)))"

section \<open>Biased scalars\<close>

text \<open>@random_range@ panics on an empty range.\<close>

definition random_range :: "'g rng \<Rightarrow> nat \<Rightarrow> nat \<Rightarrow> ('g, nat) gen" where
  "random_range R lo hi g = (if lo < hi then Ok (rand_range R lo hi g) else Panic (Panicked ''cannot sample empty range''))"

definition random_value :: "('g \<Rightarrow> 'a \<times> 'g) \<Rightarrow> ('g, 'a) gen" where
  "random_value f g = Ok (f g)"

definition enhanced_random_new :: "'g rng \<Rightarrow> 64 word \<Rightarrow> 'g" where
  "enhanced_random_new R seed = seed_from_u64 R seed"

definition fuzzer_new :: "'g rng \<Rightarrow> 'g" where
  "fuzzer_new R = enhanced_random_new R 0"

text \<open>One of the listed values by its number; every further number draws a value.\<close>

definition biased :: "'g rng \<Rightarrow> 'a list \<Rightarrow> ('g \<Rightarrow> 'a \<times> 'g) \<Rightarrow> ('g, 'a) gen" where
  "biased R vs f = gen_bind (random_range R 0 (Suc (length vs)))
     (\<lambda>k. if k < length vs then gen_return (vs ! k) else random_value f)"

definition next_byte :: "'g rng \<Rightarrow> ('g, 8 word) gen" where
  "next_byte R = biased R [0x80, 0x7F, 0, 0] (\<lambda>g. let (n, g') = rand_i32 R g in (ucast n, g'))"

definition next_short :: "'g rng \<Rightarrow> ('g, 16 word) gen" where
  "next_short R = biased R [0x8000, 0x7FFF, 0, 0] (\<lambda>g. let (n, g') = rand_i32 R g in (ucast n, g'))"

definition next_int :: "'g rng \<Rightarrow> ('g, 32 word) gen" where
  "next_int R = biased R [0x80000000, 0x7FFFFFFF, 0, 0] (rand_i32 R)"

definition next_long :: "'g rng \<Rightarrow> ('g, 64 word) gen" where
  "next_long R = biased R [0x8000000000000000, 0x7FFFFFFFFFFFFFFF, 0, 0] (rand_i64 R)"

text \<open>@MIN_POSITIVE@, @MAX@, the infinities, @NAN@ and both zeros, as bit patterns.\<close>

definition next_float :: "'g rng \<Rightarrow> ('g, f32) gen" where
  "next_float R = biased R [0x00800000, 0x7F7FFFFF, 0x7F800000, 0xFF800000, 0x7FC00000, 0x80000000, 0] (rand_f32 R)"

definition next_double :: "'g rng \<Rightarrow> ('g, f64) gen" where
  "next_double R = biased R [0x0010000000000000, 0x7FEFFFFFFFFFFFFF, 0x7FF0000000000000, 0xFFF0000000000000,
     0x7FF8000000000000, 0x8000000000000000, 0] (rand_f64 R)"

definition char_pool :: string where
  "char_pool = ''abcdefghijklmnopqrstuvwxyzABCDEFGHIJKLMNOPQRSTUVWXYZ0123456789''"

definition next_string :: "'g rng \<Rightarrow> nat \<Rightarrow> ('g, string) gen" where
  "next_string R len = gen_times len (gen_bind (random_range R 0 (length char_pool)) (\<lambda>k. gen_lift (idx char_pool k)))"

section \<open>Batches\<close>

definition random_string :: "'g rng \<Rightarrow> ('g, string) gen" where
  "random_string R = gen_bind (random_range R 0 64) (next_string R)"

definition gen_map :: "('a \<Rightarrow> 'b) \<Rightarrow> ('g, 'a) gen \<Rightarrow> ('g, 'b) gen" where
  "gen_map f m = gen_bind m (\<lambda>x. gen_return (f x))"

definition create_value :: "'g rng \<Rightarrow> DataType \<Rightarrow> ('g, ScalarValue) gen" where
  "create_value R t = (case t of
      T_Int8 \<Rightarrow> gen_map V_Int8 (next_byte R)
    | T_Int16 \<Rightarrow> gen_map V_Int16 (next_short R)
    | T_Int32 \<Rightarrow> gen_map V_Int32 (next_int R)
    | T_Int64 \<Rightarrow> gen_map V_Int64 (next_long R)
    | T_Float32 \<Rightarrow> gen_map V_Float32 (next_float R)
    | T_Float64 \<Rightarrow> gen_map V_Float64 (next_double R)
    | T_Utf8 \<Rightarrow> gen_map V_Utf8 (random_string R)
    | _ \<Rightarrow> gen_lift (Panic (Panicked ''Fuzzer::create_values: unsupported data type'')))"

definition create_values :: "'g rng \<Rightarrow> DataType \<Rightarrow> nat \<Rightarrow> ('g, ScalarValue list) gen" where
  "create_values R t n = gen_times n (create_value R t)"

text \<open>@zip@ stops at the shorter of the fields and the columns.\<close>

definition create_column :: "nat \<Rightarrow> Field \<times> ScalarValue list \<Rightarrow> ColumnVector res" where
  "create_column n = (\<lambda>(f, col).
     and_then (guard_res (length col = n) Assert_Failed) (\<lambda>_.
     and_then (builder_new (f_type f)) (\<lambda>b.
     map_res (\<lambda>b. Arrow_Field (build b)) (fold_res append_value b col))))"

definition create_record_batch :: "env \<Rightarrow> Schema \<Rightarrow> ScalarValue list list \<Rightarrow> RecordBatch res" where
  "create_record_batch E s columns =
     and_then (guard_res (columns \<noteq> []) Assert_Failed) (\<lambda>_.
     and_then (traverse (create_column (length (hd columns))) (zip (s_fields s) columns)) (create E s))"

definition create_random_record_batch :: "env \<Rightarrow> 'g rng \<Rightarrow> Schema \<Rightarrow> nat \<Rightarrow> ('g, RecordBatch) gen" where
  "create_random_record_batch E R s n =
     gen_bind (gen_each (\<lambda>f. create_values R (f_type f) n) (s_fields s)) (\<lambda>cols. gen_lift (create_record_batch E s cols))"

section \<open>Expressions and plans\<close>

text \<open>@LogicalExpr::Eq { l, r }@ and its seven companions, by the number drawn.\<close>

definition binary_operator :: "nat \<Rightarrow> LogicalExpr \<Rightarrow> LogicalExpr \<Rightarrow> LogicalExpr" where
  "binary_operator k l r = (if k = 0 then L_Eq l r else if k = 1 then L_Neq l r else if k = 2 then L_Lt l r
     else if k = 3 then L_LtEq l r else if k = 4 then L_Gt l r else if k = 5 then L_GtEq l r
     else if k = 6 then L_And l r else L_Or l r)"

definition create_leaf :: "env \<Rightarrow> 'g rng \<Rightarrow> DataFrame \<Rightarrow> ('g, LogicalExpr) gen" where
  "create_leaf E R input = gen_bind (gen_lift (df_schema E input)) (\<lambda>s. gen_bind (random_range R 0 4) (\<lambda>k.
     if k = 0 then gen_map ColumnIndex (random_range R 0 (width s))
     else if k = 1 then gen_map LiteralDouble (next_double R)
     else if k = 2 then gen_map LiteralLong (next_long R)
     else gen_map LiteralString (random_string R)))"

text \<open>The recursion stops at @depth == max_depth@ only: from beyond it, the source recurs until the
  stack is exhausted, which aborts the process.\<close>

function create_expression :: "env \<Rightarrow> 'g rng \<Rightarrow> DataFrame \<Rightarrow> nat \<Rightarrow> nat \<Rightarrow> ('g, LogicalExpr) gen" where
  "create_expression E R input depth max_depth =
     (if depth = max_depth then create_leaf E R input
      else if depth > max_depth then gen_lift (Panic (Panicked ''stack overflow''))
      else gen_bind (create_expression E R input (depth + 1) max_depth) (\<lambda>l.
           gen_bind (create_expression E R input (depth + 1) max_depth) (\<lambda>r.
           gen_map (\<lambda>k. binary_operator k l r) (random_range R 0 8))))"
  by pat_completeness auto
termination by (relation "measure (\<lambda>(E, R, input, depth, max_depth). max_depth - depth)") auto

declare create_expression.simps [simp del]

function create_plan :: "env \<Rightarrow> 'g rng \<Rightarrow> DataFrame \<Rightarrow> nat \<Rightarrow> nat \<Rightarrow> nat \<Rightarrow> ('g, DataFrame) gen" where
  "create_plan E R input depth max_depth max_expr_depth =
     (if depth = max_depth then gen_return input
      else if depth > max_depth then gen_lift (Panic (Panicked ''stack overflow''))
      else gen_bind (create_plan E R input (depth + 1) max_depth max_expr_depth) (\<lambda>child.
           gen_bind (random_range R 0 2) (\<lambda>k.
           if k = 0 then gen_bind (random_range R 1 5) (\<lambda>n.
             gen_map (df_project child) (gen_times n (create_expression E R child 0 max_expr_depth)))
           else gen_map (df_filter child) (create_expression E R input 0 max_expr_depth))))"
  by pat_completeness auto
termination by (relation "measure (\<lambda>(E, R, input, depth, max_depth, m). max_depth - depth)") auto

declare create_plan.simps [simp del]

end
