(* ===== verification/Fuzzer_Props.thy ===== *)
theory Fuzzer_Props
  imports Fuzzer Phys_Props
begin

text \<open>
  Whatever the random generator draws within the ranges it is asked for, the fuzzer returns: its
  batches have the schema and the size asked for, its plans have the depth asked for and their
  schema can be computed.
\<close>

section \<open>Computations that return\<close>

text \<open>The documented range of @random_range@.\<close>

definition rng_ok :: "'g rng \<Rightarrow> bool" where
  "rng_ok R = (\<forall>lo hi g. lo < hi \<longrightarrow> lo \<le> fst (rand_range R lo hi g) \<and> fst (rand_range R lo hi g) < hi)"

definition gen_ok :: "('g, 'a) gen \<Rightarrow> ('a \<Rightarrow> bool) \<Rightarrow> bool" where
  "gen_ok m P = (\<forall>g. \<exists>x g'. m g = Ok (x, g') \<and> P x)"

named_theorems gen_intros \<open>rules for computations that return\<close>

lemma gen_ok_return [gen_intros]: "P x \<Longrightarrow> gen_ok (gen_return x) P"
  by (simp add: gen_ok_def gen_return_def)

lemma gen_ok_value [gen_intros]: "(\<And>x. P x) \<Longrightarrow> gen_ok (random_value f) P"
  unfolding gen_ok_def random_value_def by (metis prod.exhaust)

lemma gen_ok_lift [gen_intros]: "r = Ok x \<Longrightarrow> P x \<Longrightarrow> gen_ok (gen_lift r) P"
  by (simp add: gen_ok_def gen_lift_def)

lemma gen_ok_bind:
  assumes "gen_ok m Q" "\<And>x. Q x \<Longrightarrow> gen_ok (f x) P"
  shows "gen_ok (gen_bind m f) P"
  unfolding gen_ok_def
proof
  fix g
  obtain x g' where x: "m g = Ok (x, g')" "Q x" using assms(1) unfolding gen_ok_def by blast
  then show "\<exists>x g'. gen_bind m f g = Ok (x, g') \<and> P x" using assms(2) [OF x(2)] by (auto simp: gen_ok_def gen_bind_def)
qed

lemma gen_ok_map [gen_intros]: "gen_ok m (\<lambda>x. P (f x)) \<Longrightarrow> gen_ok (gen_map f m) P"
  unfolding gen_map_def by (erule gen_ok_bind) (rule gen_ok_return)

lemma gen_ok_mono: "gen_ok m Q \<Longrightarrow> (\<And>x. Q x \<Longrightarrow> P x) \<Longrightarrow> gen_ok m P"
  unfolding gen_ok_def by blast

lemma gen_ok_range: "rng_ok R \<Longrightarrow> lo < hi \<Longrightarrow> gen_ok (random_range R lo hi) (\<lambda>k. lo \<le> k \<and> k < hi)"
  by (simp add: gen_ok_def random_range_def rng_ok_def) (metis prod.collapse)

lemma gen_ok_times: "gen_ok m P \<Longrightarrow> gen_ok (gen_times n m) (\<lambda>xs. length xs = n \<and> list_all P xs)"
proof (induction n)
  case (Suc n)
  show ?case unfolding gen_times.simps
    by (rule gen_ok_bind [OF Suc.prems], rule gen_ok_bind [OF Suc.IH [OF Suc.prems]], rule gen_ok_return) simp
qed (simp add: gen_ok_return)

lemma gen_ok_each: "(\<And>b. b \<in> set bs \<Longrightarrow> gen_ok (f b) (P b)) \<Longrightarrow> gen_ok (gen_each f bs) (list_all2 P bs)"
proof (induction bs)
  case (Cons b bs)
  show ?case unfolding gen_each.simps
    by (rule gen_ok_bind [OF Cons.prems [of b]], simp, rule gen_ok_bind [OF Cons.IH], rule Cons.prems, simp, rule gen_ok_return) simp
qed (simp add: gen_ok_return)

section \<open>Scalars\<close>

lemma biased_ok: "rng_ok R \<Longrightarrow> (\<And>x. P x) \<Longrightarrow> gen_ok (biased R vs f) P"
  unfolding biased_def by (rule gen_ok_bind [OF gen_ok_range]) (auto intro: gen_intros)

lemma numbers_ok:
  assumes "rng_ok R"
  shows "gen_ok (next_byte R) (\<lambda>_. True)" "gen_ok (next_short R) (\<lambda>_. True)" "gen_ok (next_int R) (\<lambda>_. True)"
    "gen_ok (next_long R) (\<lambda>_. True)" "gen_ok (next_float R) (\<lambda>_. True)" "gen_ok (next_double R) (\<lambda>_. True)"
  using assms by (simp_all add: next_byte_def next_short_def next_int_def next_long_def next_float_def next_double_def biased_ok)

lemma char_pool_length: "length char_pool = 62"
  by (simp add: char_pool_def)

lemma next_string_ok: "rng_ok R \<Longrightarrow> gen_ok (next_string R n) (\<lambda>t. length t = n \<and> set t \<subseteq> set char_pool)"
proof -
  assume "rng_ok R"
  then have "gen_ok (gen_bind (random_range R 0 (length char_pool)) (\<lambda>k. gen_lift (idx char_pool k))) (\<lambda>c. c \<in> set char_pool)"
    using gen_ok_range [of R 0 "length char_pool"]
    by (intro gen_ok_bind [where Q = "\<lambda>k. k < length char_pool"]) (auto simp: char_pool_length idx_def intro!: gen_ok_lift elim: gen_ok_mono)
  from gen_ok_times [OF this] show ?thesis unfolding next_string_def by (rule gen_ok_mono) (auto simp: list_all_iff)
qed

lemma random_string_ok: "rng_ok R \<Longrightarrow> gen_ok (random_string R) (\<lambda>t. length t < 64 \<and> set t \<subseteq> set char_pool)"
  unfolding random_string_def
  by (rule gen_ok_bind [OF gen_ok_range]) (auto elim: gen_ok_mono [OF next_string_ok])

definition fuzzed_types :: "DataType list" where
  "fuzzed_types = [T_Int8, T_Int16, T_Int32, T_Int64, T_Float32, T_Float64, T_Utf8]"

lemma create_value_ok:
  assumes "rng_ok R" "t \<in> set fuzzed_types"
  shows "gen_ok (create_value R t) (\<lambda>v. scalar_type v = t \<and> v \<noteq> V_Null)"
  using assms(2) numbers_ok [OF assms(1)] gen_ok_mono [OF random_string_ok [OF assms(1)], of "\<lambda>_. True"]
  by (auto simp: fuzzed_types_def create_value_def intro!: gen_ok_map elim: gen_ok_mono)

section \<open>Batches\<close>

lemma create_column_ok:
  assumes "length col = n" "supported (f_type f)" "list_all (fits (f_type f)) col"
  shows "create_column n (f, col) = Ok (Arrow_Field \<lparr>arr_type = f_type f, arr_cells = col\<rparr>)"
proof -
  have "fold_res append_value \<lparr>b_type = f_type f, b_cells = []\<rparr> col = Ok \<lparr>b_type = f_type f, b_cells = col\<rparr>"
    using append_rows [of Ok "\<lparr>b_type = f_type f, b_cells = []\<rparr>" col] assms(3) by simp
  then show ?thesis using assms(1,2) by (simp add: create_column_def builder_new_def build_def)
qed

lemma fuzzed_supported: "t \<in> set fuzzed_types \<Longrightarrow> supported t"
  by (auto simp: fuzzed_types_def supported_def)

text \<open>The columns of a batch: cells of the type of their field, none of them null.\<close>

definition fuzzed_column :: "nat \<Rightarrow> Field \<Rightarrow> ScalarValue list \<Rightarrow> bool" where
  "fuzzed_column n f col = (length col = n \<and> list_all (\<lambda>v. scalar_type v = f_type f \<and> v \<noteq> V_Null) col)"

lemma batch_of_columns:
  assumes "env_ok E" "s_fields s \<noteq> []" "\<forall>f\<in>set (s_fields s). f_type f \<in> set fuzzed_types" "list_all2 (fuzzed_column n) (s_fields s) cols"
  shows "\<exists>b. create_record_batch E s cols = Ok b \<and> typed s b \<and> rb_rows b = n \<and> (\<forall>r\<in>set (batch_rows b). V_Null \<notin> set r)"
proof -
  let ?cs = "List.map (\<lambda>(f, col). Arrow_Field \<lparr>arr_type = f_type f, arr_cells = col\<rparr>) (zip (s_fields s) cols)"
  have ne: "cols \<noteq> []" using assms(2,4) by auto
  have n: "length (hd cols) = n" using ne assms(4) by (cases cols) (auto simp: list_all2_Cons2 fuzzed_column_def)
  have "create_column n x = Ok ((\<lambda>(f, col). Arrow_Field \<lparr>arr_type = f_type f, arr_cells = col\<rparr>) x)" if "x \<in> set (zip (s_fields s) cols)" for x
  proof -
    obtain f col where p: "x = (f, col)" by fastforce
    moreover have "f \<in> set (s_fields s)" using that p by (auto dest: set_zip_leftD)
    moreover have "fuzzed_column n f col" using that p assms(4) unfolding list_all2_iff by blast
    ultimately have x: "x = (f, col)" "f \<in> set (s_fields s)" "fuzzed_column n f col" by simp_all
    then have "length col = n" "list_all (fits (f_type f)) col" by (auto simp: fuzzed_column_def fits_def list_all_iff)
    then show ?thesis using create_column_ok x assms(3) fuzzed_supported by simp
  qed
  then have run: "create_record_batch E s cols = create E s ?cs"
    using ne n by (simp add: create_record_batch_def traverse_all_Ok)
  have good: "list_all2 (\<lambda>c f. good_col (f_type f) n c) ?cs (s_fields s)"
    using assms(3,4) fuzzed_supported
    by (fastforce simp: list_all2_conv_all_nth good_col_def fuzzed_column_def array_wf_def fits_def list_all_iff)
  have "?cs \<noteq> []" using ne assms(2) by simp
  from create_cells [OF assms(1) good this] obtain b where b: "create E s ?cs = Ok b" "typed s b" "rb_rows b = n"
    "\<forall>i<n. list_all2 (\<lambda>c v. cv_value c i = Ok v) ?cs (batch_row b i)" by blast
  have "V_Null \<notin> set (batch_row b i)" if "i < n" for i
  proof
    assume "V_Null \<in> set (batch_row b i)"
    then obtain j where j: "j < length (batch_row b i)" "batch_row b i ! j = V_Null" by (metis in_set_conv_nth)
    have l2: "list_all2 (\<lambda>c v. cv_value c i = Ok v) ?cs (batch_row b i)" using b(4) that by blast
    then have "j < length ?cs" using j(1) list_all2_lengthD by metis
    moreover have "cv_value (?cs ! j) i = Ok V_Null" using list_all2_nthD2 [OF l2 j(1)] j(2) by simp
    ultimately show False using assms(4) that
      by (auto simp: list_all2_conv_all_nth fuzzed_column_def list_all_length arrow_value_def idx_def split: if_splits)
  qed
  then show ?thesis using b run by (intro exI [of _ b]) (auto simp: batch_rows_def)
qed

lemma random_batch_ok:
  assumes "rng_ok R" "env_ok E" "s_fields s \<noteq> []" "\<forall>f\<in>set (s_fields s). f_type f \<in> set fuzzed_types"
  shows "gen_ok (create_random_record_batch E R s n) (\<lambda>b. typed s b \<and> rb_rows b = n \<and> (\<forall>r\<in>set (batch_rows b). V_Null \<notin> set r))"
  unfolding create_random_record_batch_def
proof (rule gen_ok_bind)
  show "gen_ok (gen_each (\<lambda>f. create_values R (f_type f) n) (s_fields s)) (list_all2 (fuzzed_column n) (s_fields s))"
    unfolding fuzzed_column_def create_values_def
    by (rule gen_ok_each, rule gen_ok_times, rule create_value_ok [OF assms(1)]) (use assms(4) in blast)
next
  fix cols assume "list_all2 (fuzzed_column n) (s_fields s) cols"
  from batch_of_columns [OF assms(2-4) this]
  show "gen_ok (gen_lift (create_record_batch E s cols)) (\<lambda>b. typed s b \<and> rb_rows b = n \<and> (\<forall>r\<in>set (batch_rows b). V_Null \<notin> set r))"
    by (auto intro: gen_ok_lift)
qed

section \<open>Expressions\<close>

definition comparison :: "LogicalExpr \<Rightarrow> (LogicalExpr \<times> LogicalExpr) option" where
  "comparison e = (case e of L_Eq l r \<Rightarrow> Some (l, r) | L_Neq l r \<Rightarrow> Some (l, r) | L_Lt l r \<Rightarrow> Some (l, r) | L_LtEq l r \<Rightarrow> Some (l, r)
     | L_Gt l r \<Rightarrow> Some (l, r) | L_GtEq l r \<Rightarrow> Some (l, r) | L_And l r \<Rightarrow> Some (l, r) | L_Or l r \<Rightarrow> Some (l, r) | _ \<Rightarrow> None)"

text \<open>A complete tree of depth @d@ over @w@ columns.\<close>

fun complete_tree :: "nat \<Rightarrow> nat \<Rightarrow> LogicalExpr \<Rightarrow> bool" where
  "complete_tree w 0 e = (case e of ColumnIndex i \<Rightarrow> i < w | LiteralDouble x \<Rightarrow> True | LiteralLong n \<Rightarrow> True
     | LiteralString t \<Rightarrow> length t < 64 \<and> set t \<subseteq> set char_pool | _ \<Rightarrow> False)"
| "complete_tree w (Suc d) e = (case comparison e of Some (l, r) \<Rightarrow> complete_tree w d l \<and> complete_tree w d r | None \<Rightarrow> False)"

lemma comparison_binary [simp]: "comparison (binary_operator k l r) = Some (l, r)"
  by (simp add: comparison_def binary_operator_def)

lemma create_leaf_ok:
  assumes "rng_ok R" "df_schema E input = Ok s" "s_fields s \<noteq> []"
  shows "gen_ok (create_leaf E R input) (complete_tree (width s) 0)"
  unfolding create_leaf_def
proof (rule gen_ok_bind [OF gen_ok_lift [OF assms(2), of "\<lambda>x. x = s"]], simp, rule gen_ok_bind [OF gen_ok_range [OF assms(1)]])
  show "(0::nat) < 4" by simp
next
  fix x k assume "x = s" "0 \<le> (k::nat) \<and> k < 4"
  have "gen_ok (random_range R 0 (width s)) (\<lambda>i. i < width s)"
    using gen_ok_range [OF assms(1), of 0 "width s"] assms(3) by (auto elim: gen_ok_mono)
  then show "gen_ok (if k = 0 then gen_map ColumnIndex (random_range R 0 (width x))
      else if k = 1 then gen_map LiteralDouble (next_double R) else if k = 2 then gen_map LiteralLong (next_long R)
      else gen_map LiteralString (random_string R)) (complete_tree (width s) 0)"
    using numbers_ok [OF assms(1)] random_string_ok [OF assms(1)] by (auto simp: \<open>x = s\<close> intro!: gen_ok_map)
qed

lemma create_expression_ok:
  assumes "rng_ok R" "df_schema E input = Ok s" "s_fields s \<noteq> []" "depth \<le> max_depth"
  shows "gen_ok (create_expression E R input depth max_depth) (complete_tree (width s) (max_depth - depth))"
  using assms(4)
proof (induction "max_depth - depth" arbitrary: depth)
  case 0
  then show ?case using create_leaf_ok [OF assms(1-3)] by (subst create_expression.simps) simp
next
  case (Suc d)
  then have less: "depth < max_depth" "d = max_depth - (depth + 1)" "depth + 1 \<le> max_depth" by auto
  have sub: "gen_ok (create_expression E R input (depth + 1) max_depth) (complete_tree (width s) d)"
    using Suc.hyps(1) [OF less(2,3)] less(2) by simp
  have "gen_ok (gen_bind (create_expression E R input (depth + 1) max_depth) (\<lambda>l. gen_bind (create_expression E R input (depth + 1) max_depth)
      (\<lambda>r. gen_map (\<lambda>k. binary_operator k l r) (random_range R 0 8)))) (complete_tree (width s) (Suc d))"
    by (rule gen_ok_bind [OF sub], rule gen_ok_bind [OF sub], rule gen_ok_map, rule gen_ok_mono [OF gen_ok_range [OF assms(1)]]) auto
  then show ?case using less(1) Suc.hyps(2) by (subst create_expression.simps) simp
qed

section \<open>Plans\<close>

text \<open>@d@ layers over the plan @b@: projections of one to four complete trees over the columns of
  the layer below, and selections by a complete tree over the columns of @b@.\<close>

fun layered :: "env \<Rightarrow> LogicalPlan \<Rightarrow> nat \<Rightarrow> nat \<Rightarrow> LogicalPlan \<Rightarrow> bool" where
  "layered E b m 0 p = (p = b)"
| "layered E b m (Suc d) p = (case p of
      Projection c es \<Rightarrow> layered E b m d c \<and> length es \<in> {1..4}
        \<and> (case plan_schema E c of Ok s \<Rightarrow> list_all (complete_tree (width s) m) es | Panic q \<Rightarrow> False)
    | Selection c e \<Rightarrow> layered E b m d c \<and> (case plan_schema E b of Ok s \<Rightarrow> complete_tree (width s) m e | Panic q \<Rightarrow> False)
    | _ \<Rightarrow> False)"

lemma tree_to_field: "complete_tree (width s) m e \<Longrightarrow> \<exists>f. to_field E (Ok s) e = Ok f"
  by (cases m; cases e) (auto simp: comparison_def idx_def)

lemma project_schema:
  assumes "plan_schema E c = Ok s" "list_all (complete_tree (width s) m) es" "es \<noteq> []"
  shows "\<exists>s'. plan_schema E (Projection c es) = Ok s' \<and> s_fields s' \<noteq> []"
proof -
  have "is_ok (traverse (to_field E (Ok s)) es)"
    unfolding traverse_is_ok using assms(2) tree_to_field by (auto simp: list_all_iff is_ok_iff)
  then obtain fs where fs: "traverse (to_field E (Ok s)) es = Ok fs" by (auto simp: is_ok_iff)
  then have "fs \<noteq> []" using traverse_length [OF fs] assms(3) by auto
  then show ?thesis using assms(1) fs by (simp add: new_schema_def)
qed

lemma create_plan_ok:
  assumes "rng_ok R" "df_schema E input = Ok s" "s_fields s \<noteq> []" "depth \<le> max_depth"
  shows "gen_ok (create_plan E R input depth max_depth m) (\<lambda>d. layered E (df_plan input) m (max_depth - depth) (df_plan d)
     \<and> (\<exists>s'. df_schema E d = Ok s' \<and> s_fields s' \<noteq> []))"
  using assms(4)
proof (induction "max_depth - depth" arbitrary: depth)
  case 0
  then show ?case using assms(2,3) by (subst create_plan.simps) (simp add: gen_ok_return)
next
  case (Suc n)
  then have less: "depth < max_depth" "n = max_depth - (depth + 1)" "depth + 1 \<le> max_depth" by auto
  let ?P = "\<lambda>n d. layered E (df_plan input) m n (df_plan d) \<and> (\<exists>s'. df_schema E d = Ok s' \<and> s_fields s' \<noteq> [])"
  have sub: "gen_ok (create_plan E R input (depth + 1) max_depth m) (?P n)"
    using Suc.hyps(1) [OF less(2,3)] less(2) by simp
  have layer: "gen_ok (gen_bind (random_range R 0 2) (\<lambda>k.
       if k = 0 then gen_bind (random_range R 1 5) (\<lambda>n. gen_map (df_project c) (gen_times n (create_expression E R c 0 m)))
       else gen_map (df_filter c) (create_expression E R input 0 m))) (?P (Suc n))" if c: "?P n c" for c
  proof -
    obtain s' where s': "df_schema E c = Ok s'" "s_fields s' \<noteq> []" using c by blast
    have project: "?P (Suc n) (df_project c es)" if "length es \<in> {1..4}" "list_all (complete_tree (width s') m) es" for es
    proof -
      have "es \<noteq> []" using that(1) by auto
      then show ?thesis using c s' that project_schema [of E "df_plan c" s' m es] by (simp add: df_project_def df_schema_def del: plan_schema.simps)
    qed
    have "gen_ok (gen_map (df_project c) (gen_times j (create_expression E R c 0 m))) (?P (Suc n))" if "1 \<le> j \<and> j < 5" for j
      by (rule gen_ok_map, rule gen_ok_mono [OF gen_ok_times [OF create_expression_ok [OF assms(1) s' le0]]], rule project)
        (use that in auto)
    moreover have "gen_ok (gen_map (df_filter c) (create_expression E R input 0 m)) (?P (Suc n))"
      using create_expression_ok [OF assms(1-3), of 0 m] c s' assms(2)
      by (intro gen_ok_map) (auto simp: df_filter_def df_schema_def elim!: gen_ok_mono)
    ultimately show ?thesis
      by (intro gen_ok_bind [OF gen_ok_range [OF assms(1)]]) (auto intro: gen_ok_bind [OF gen_ok_range [OF assms(1)]])
  qed
  show ?case using gen_ok_bind [OF sub layer] less(1) Suc.hyps(2) by (subst create_plan.simps) simp
qed

section \<open>Properties\<close>

text \<open>C39: @create_plan@ returns on every table with a column, whatever is drawn: the plan has
  exactly the number of layers asked for over the given one, each a projection of one to four
  expressions or a selection, every expression is a complete tree of the depth asked for whose
  column numbers exist, and the schema of the plan can be computed.\<close>

theorem fuzzed_plans:
  assumes "rng_ok R" "df_schema E input = Ok s" "s_fields s \<noteq> []" "depth \<le> max_depth"
  shows "\<exists>d g'. create_plan E R input depth max_depth m g = Ok (d, g')
     \<and> layered E (df_plan input) m (max_depth - depth) (df_plan d) \<and> is_ok (df_schema E d)"
  using create_plan_ok [OF assms, of m] unfolding gen_ok_def is_ok_iff by blast

text \<open>C40: @create_random_record_batch@ returns for every schema of the numeric types and strings, and the
  batch has that schema, the number of rows asked for and no null cell.\<close>

theorem fuzzed_batches:
  assumes "rng_ok R" "env_ok E" "s_fields s \<noteq> []" "\<forall>f\<in>set (s_fields s). f_type f \<in> set fuzzed_types"
  shows "\<exists>b g'. create_random_record_batch E R s n g = Ok (b, g') \<and> typed s b \<and> rb_rows b = n
     \<and> (\<forall>r\<in>set (batch_rows b). V_Null \<notin> set r)"
  using random_batch_ok [OF assms, of n] unfolding gen_ok_def by blast

text \<open>A generator that counts.\<close>

definition counting_rng :: "nat rng" where
  "counting_rng = \<lparr>seed_from_u64 = unat, rand_range = (\<lambda>lo hi g. (lo + g mod (hi - lo), Suc g)),
     rand_i32 = (\<lambda>g. (word_of_nat g, Suc g)), rand_i64 = (\<lambda>g. (word_of_nat g, Suc g)),
     rand_f32 = (\<lambda>g. (word_of_nat g, Suc g)), rand_f64 = (\<lambda>g. (word_of_nat g, Suc g))\<rparr>"

lemma counting_rng_ok: "rng_ok counting_rng"
  by (auto simp: rng_ok_def counting_rng_def) (metis less_diff_conv mod_less_divisor zero_less_diff add.commute)

theorem fuzzed_plans_witness:
  "\<exists>d g'. create_plan ref_env counting_rng \<lparr>df_plan = Scan ''t'' (In_Memory sample_schema []) [] sample_schema\<rparr> 0 2 3 (fuzzer_new counting_rng)
     = Ok (d, g') \<and> is_ok (df_schema ref_env d)"
  using fuzzed_plans [OF counting_rng_ok, of ref_env "\<lparr>df_plan = Scan ''t'' (In_Memory sample_schema []) [] sample_schema\<rparr>" sample_schema 0 2 3
      "fuzzer_new counting_rng"] by (fastforce simp: df_schema_def new_schema_def)

theorem fuzzed_batches_witness:
  "\<exists>b g'. create_random_record_batch ref_env counting_rng sample_schema 5 (fuzzer_new counting_rng) = Ok (b, g')
     \<and> typed sample_schema b \<and> rb_rows b = 5"
  using fuzzed_batches [OF counting_rng_ok ref_env_ok, of sample_schema 5 "fuzzer_new counting_rng"]
  by (fastforce simp: new_schema_def new_field_def fuzzed_types_def)

end
