(* ===== verification/Integer_Columns.thy ===== *)
theory Integer_Columns
  imports Row_Semantics
begin

text \<open>
  What integer arithmetic on columns computes, against the mathematical integers: a
  specification on @int option@ (NULL is @None@) that mentions neither words nor cells, and the
  refinement of it by the expression evaluator, at every signed width.
\<close>

section \<open>Specification on the integers\<close>

definition int_range :: "nat \<Rightarrow> int \<Rightarrow> bool" where
  "int_range w i = (- (2 ^ (w - 1)) \<le> i \<and> i < 2 ^ (w - 1))"

text \<open>The representative of @i@ modulo @2 ^ w@ in the range, and the quotient rounded toward zero.\<close>

definition wrapped :: "nat \<Rightarrow> int \<Rightarrow> int" where
  "wrapped w i = (i + 2 ^ (w - 1)) mod 2 ^ w - 2 ^ (w - 1)"

definition quotient :: "int \<Rightarrow> int \<Rightarrow> int" where
  "quotient x y = (if (x < 0) = (y < 0) then \<bar>x\<bar> div \<bar>y\<bar> else - (\<bar>x\<bar> div \<bar>y\<bar>))"

definition exact_int :: "nat \<Rightarrow> math_op \<Rightarrow> int \<Rightarrow> int \<Rightarrow> int res" where
  "exact_int w op x y = (case op of
      Op_Add \<Rightarrow> Ok (wrapped w (x + y))
    | Op_Subtract \<Rightarrow> Ok (wrapped w (x - y))
    | Op_Multiply \<Rightarrow> Ok (wrapped w (x * y))
    | Op_Divide \<Rightarrow> if y = 0 then Panic Divide_By_Zero
        else if int_range w (quotient x y) then Ok (quotient x y) else Panic Arith_Overflow)"

definition exact :: "nat \<Rightarrow> math_op \<Rightarrow> int option \<Rightarrow> int option \<Rightarrow> int option res" where
  "exact w op a b = (case (a, b) of (Some x, Some y) \<Rightarrow> map_res Some (exact_int w op x y) | _ \<Rightarrow> Ok None)"

section \<open>Cells as integers\<close>

definition int_width :: "DataType \<Rightarrow> nat option" where
  "int_width t = (case t of T_Int8 \<Rightarrow> Some 8 | T_Int16 \<Rightarrow> Some 16 | T_Int32 \<Rightarrow> Some 32 | T_Int64 \<Rightarrow> Some 64 | _ \<Rightarrow> None)"

definition cell_int :: "ScalarValue \<Rightarrow> int option" where
  "cell_int v = (case v of V_Int8 n \<Rightarrow> Some (sint n) | V_Int16 n \<Rightarrow> Some (sint n) | V_Int32 n \<Rightarrow> Some (sint n)
     | V_Int64 n \<Rightarrow> Some (sint n) | _ \<Rightarrow> None)"

definition int_cell :: "DataType \<Rightarrow> int option \<Rightarrow> ScalarValue" where
  "int_cell t i = (case i of None \<Rightarrow> V_Null | Some n \<Rightarrow> (case t of T_Int8 \<Rightarrow> V_Int8 (word_of_int n)
     | T_Int16 \<Rightarrow> V_Int16 (word_of_int n) | T_Int32 \<Rightarrow> V_Int32 (word_of_int n) | _ \<Rightarrow> V_Int64 (word_of_int n)))"

section \<open>The kernel on words\<close>

lemma word_of_wrapped: "(word_of_int (wrapped LENGTH('a::len) i) :: 'a word) = word_of_int i"
  unfolding wrapped_def word_of_int_eq_iff take_bit_eq_mod by (simp add: mod_diff_left_eq)

lemma sint_zero: "sint (w :: 'a::len word) = 0 \<longleftrightarrow> w = 0"
  by (auto dest: arg_cong [where f = "word_of_int :: int \<Rightarrow> 'a::len word"])

lemma quotient_sign: "quotient x y = sgn x * sgn y * (\<bar>x\<bar> div \<bar>y\<bar>)" if "y \<noteq> 0"
  using that by (auto simp: quotient_def sgn_if)

lemma quotient_range:
  assumes "int_range w x" "y \<noteq> 0" "0 < w"
  shows "int_range w (quotient x y) \<longleftrightarrow> \<not> (x = - (2 ^ (w - 1)) \<and> y = - 1)"
proof -
  let ?m = "(2 :: int) ^ (w - 1)"
  have m: "0 < ?m" by simp
  have x: "\<bar>x\<bar> \<le> ?m" using assms(1) by (auto simp: int_range_def)
  have q: "0 \<le> \<bar>x\<bar> div \<bar>y\<bar>" "\<bar>x\<bar> div \<bar>y\<bar> \<le> \<bar>x\<bar>" using assms(2) zdiv_mono2 [of "\<bar>x\<bar>" 1 "\<bar>y\<bar>"] by (simp_all add: pos_imp_zdiv_nonneg_iff)
  show ?thesis
  proof (cases "\<bar>y\<bar> = 1")
    case True
    then have "y = 1 \<or> y = - 1" by linarith
    then show ?thesis using assms(1) m by (auto simp: quotient_def int_range_def)
  next
    case False
    then have "2 \<le> \<bar>y\<bar>" using assms(2) by linarith
    then have "\<bar>x\<bar> div \<bar>y\<bar> \<le> \<bar>x\<bar> div 2" by (intro zdiv_mono2) simp_all
    then have "\<bar>x\<bar> div \<bar>y\<bar> < ?m" using x m by linarith
    then show ?thesis using q False by (auto simp: quotient_def int_range_def)
  qed
qed

lemma int_kernel_exact:
  "int_kernel op a (b :: 'a::len word) = map_res word_of_int (exact_int LENGTH('a) op (sint a) (sint b))"
proof (cases op)
  case Op_Divide
  show ?thesis
  proof (cases "b = 0")
    case False
    then have "sint b \<noteq> 0" by (simp add: sint_zero)
    moreover have "int_range LENGTH('a) (sint a)" using sint_ge [of a] sint_lt [of a] by (simp add: int_range_def)
    ultimately show ?thesis using False quotient_range [of "LENGTH('a)" "sint a" "sint b"]
      by (simp add: Op_Divide int_kernel_def exact_int_def div_signed_def quotient_sign)
  qed (simp add: Op_Divide int_kernel_def exact_int_def div_signed_def)
qed (simp_all add: int_kernel_def exact_int_def word_of_wrapped wi_hom_add [symmetric] wi_hom_sub [symmetric] wi_hom_mult [symmetric])

lemma map_res_twice: "map_res f (map_res g z) = map_res (\<lambda>x. f (g x)) z"
  by (cases z) simp_all

lemma cell_exact:
  assumes "int_width t = Some w" "fits t a" "fits t b"
  shows "math_evaluate_cell op a b t = map_res (int_cell t) (exact w op (cell_int a) (cell_int b))"
proof -
  have "t \<in> {T_Int8, T_Int16, T_Int32, T_Int64}" using assms(1) by (auto simp: int_width_def split: DataType.splits)
  then show ?thesis using assms
    by (cases a; cases b)
      (auto simp: fits_def int_width_def math_evaluate_cell_def math_arm_def as_i8_def as_i16_def as_i32_def as_i64_def
        int_kernel_exact exact_def cell_int_def int_cell_def map_res_twice)
qed

section \<open>Properties\<close>

text \<open>C28: Integer arithmetic on columns is exact: for two operand expressions of one signed integer
  type (8, 16, 32 or 64 bits) whose columns evaluate, the operation evaluates exactly when, in
  every row, either operand is NULL or the operation is not a division by zero or by -1 of the
  least integer; and then every cell is NULL where either operand is NULL and otherwise holds the
  integer sum, difference or product wrapped into the range of the type, or the quotient
  rounded toward zero.\<close>

theorem integer_columns:
  assumes "batch_wf b" "expr_type (batch_types b) l = Some t" "expr_type (batch_types b) r = Some t" "int_width t = Some w"
    "evaluate E l b = Ok cl" "evaluate E r b = Ok cr"
  shows "\<exists>x y. (\<forall>k<rb_rows b. cv_value cl k = Ok (x k) \<and> cv_value cr k = Ok (y k))
     \<and> (is_ok (evaluate E (Math_Expr op l r) b) \<longleftrightarrow> (\<forall>k<rb_rows b. is_ok (exact w op (cell_int (x k)) (cell_int (y k)))))
     \<and> (\<forall>c k. evaluate E (Math_Expr op l r) b = Ok c \<longrightarrow> k < rb_rows b \<longrightarrow>
          cv_value c k = map_res (int_cell t) (exact w op (cell_int (x k)) (cell_int (y k))))"
proof -
  let ?ts = "batch_types b" and ?e = "Math_Expr op l r"
  have t: "t \<in> {T_Int8, T_Int16, T_Int32, T_Int64}" using assms(4) by (auto simp: int_width_def split: DataType.splits)
  then have e: "expr_type ?ts ?e = Some t" using assms(2,3) by (auto simp: opt2_def math_type_def math_types_def)
  let ?x = "\<lambda>k. row_value E ?ts l (batch_row b k)" and ?y = "\<lambda>k. row_value E ?ts r (batch_row b k)"
  note L = evaluate_Ok_cells [OF assms(1,2,5)] and R = evaluate_Ok_cells [OF assms(1,3,6)]
  have row: "eval_row E ?ts ?e (batch_row b k) = map_res (int_cell t) (exact w op (cell_int (?x k)) (cell_int (?y k)))"
    if "k < rb_rows b" for k
    using L(2) [OF that] R(2) [OF that] assms(2,3) cell_exact [OF assms(4) L(4) [OF that] R(4) [OF that]]
    by (simp add: math_row_def)
  have ok: "is_ok (map_res f z) = is_ok z" for f :: "int option \<Rightarrow> ScalarValue" and z by (cases z) simp_all
  have "(is_ok (evaluate E ?e b) \<longleftrightarrow> (\<forall>k<rb_rows b. is_ok (eval_row E ?ts ?e (batch_row b k))))
     \<and> (\<forall>c k. evaluate E ?e b = Ok c \<longrightarrow> k < rb_rows b \<longrightarrow> cv_value c k = eval_row E ?ts ?e (batch_row b k))"
    using evaluate_agrees [OF assms(1) e, of E] by (cases "evaluate E ?e b") (fastforce simp: agrees_def)+
  then show ?thesis using L(3) R(3)
    by - (rule exI [of _ ?x], rule exI [of _ ?y], simp add: row ok del: evaluate.simps eval_row.simps)
qed

theorem integer_columns_witness:
  "is_ok (evaluate ref_env (Math_Expr Op_Divide (Column_Expr 0) (Column_Expr 0)) sample_batch)"
proof -
  let ?c = "Arrow_Field (rb_columns sample_batch ! 0)"
  have c: "evaluate ref_env (Column_Expr 0) sample_batch = Ok ?c"
    by (simp add: batch_field_def sample_batch_def)
  have t: "expr_type (batch_types sample_batch) (Column_Expr 0) = Some T_Int32" by (simp add: sample_batch_def)
  obtain x y where xy: "\<And>k. k < rb_rows sample_batch \<Longrightarrow> cv_value ?c k = Ok (x k) \<and> cv_value ?c k = Ok (y k)"
    "is_ok (evaluate ref_env (Math_Expr Op_Divide (Column_Expr 0) (Column_Expr 0)) sample_batch)
       \<longleftrightarrow> (\<forall>k<rb_rows sample_batch. is_ok (exact 32 Op_Divide (cell_int (x k)) (cell_int (y k))))"
    using integer_columns [OF sample_batch_wf t t _ c c, of 32 Op_Divide] by (auto simp: int_width_def)
  have "is_ok (exact 32 Op_Divide (cell_int (x k)) (cell_int (y k)))" if "k < rb_rows sample_batch" for k
  proof -
    have "cv_wf ?c" "length (arr_cells (rb_columns sample_batch ! 0)) = 3"
      using sample_batch_wf by (simp_all add: batch_wf_def sample_batch_def)
    then have "cv_value ?c k = Ok (arr_cells (rb_columns sample_batch ! 0) ! k)" using arrow_value_ok that by (simp add: sample_batch_def)
    then have "x k = y k" "y k = [V_Int32 7, V_Null, V_Int32 9] ! k" using xy(1) [OF that] by (auto simp: sample_batch_def)
    moreover have "[V_Int32 7, V_Null, V_Int32 9] ! k \<in> {V_Int32 7, V_Null, V_Int32 9}"
      using that by (auto simp: sample_batch_def less_Suc_eq numeral_3_eq_3)
    ultimately have "x k = y k" "y k \<in> {V_Int32 7, V_Null, V_Int32 9}" by simp_all
    then show ?thesis by (auto simp: exact_def exact_int_def cell_int_def quotient_def int_range_def)
  qed
  then show ?thesis using xy(2) by simp
qed

end
