(* ===== verification/Phys_Show.thy ===== *)
theory Phys_Show
  imports Phys_Plan
begin

text \<open>
  The textual form of a physical plan (crate @physical-plan@: the @Display@ of every operator
  and @format@ of physical_plan.rs): one line per operator, indented by its depth.  A scan prints
  its schema, so printing a plan can panic where looking up that schema does.  The theory also
  holds the private group key of the hash aggregate, a copy of the row key of @Row_Key@.
\<close>

section \<open>Debug output of the standard library\<close>

definition hex_digit :: "nat \<Rightarrow> char" where
  "hex_digit n = char_of (if n < 10 then 48 + n else 87 + n)"

definition show_hex :: "nat \<Rightarrow> string" where
  "show_hex n = (if n < 16 then [hex_digit n] else [hex_digit (n div 16), hex_digit (n mod 16)])"

text \<open>The escapes of the debug format of a string: named escapes, and code points that do not print.\<close>

definition escape_debug :: "char \<Rightarrow> string" where
  "escape_debug c = (if c = CHR 0x00 then [CHR 0x5C, CHR ''0'']
     else if c = CHR 0x09 then [CHR 0x5C, CHR ''t'']
     else if c = CHR 0x0A then [CHR 0x5C, CHR ''n'']
     else if c = CHR 0x0D then [CHR 0x5C, CHR ''r'']
     else if c = CHR 0x22 \<or> c = CHR 0x5C then [CHR 0x5C, c]
     else if code c < 0x20 \<or> 0x7F \<le> code c \<and> code c \<le> 0xA0 \<or> code c = 0xAD
     then [CHR 0x5C, CHR ''u'', CHR ''{''] @ show_hex (code c) @ ''}''
     else [c])"

definition debug_string :: "string \<Rightarrow> string" where
  "debug_string s = [CHR 0x22] @ concat (List.map escape_debug s) @ [CHR 0x22]"

definition debug_list :: "('a \<Rightarrow> string) \<Rightarrow> 'a list \<Rightarrow> string" where
  "debug_list f xs = ''['' @ join_with '', '' (List.map f xs) @ '']''"

definition debug_field :: "env \<Rightarrow> Field \<Rightarrow> string" where
  "debug_field E f = ''Field { name: '' @ debug_string (f_name f) @ '', data_type: '' @ debug_type E (f_type f) @ '' }''"

definition debug_schema :: "env \<Rightarrow> Schema \<Rightarrow> string" where
  "debug_schema E s = ''Schema { fields: '' @ debug_list (debug_field E) (s_fields s) @ '' }''"

definition debug_mode :: "AggregateMode \<Rightarrow> string" where
  "debug_mode m = (case m of Complete \<Rightarrow> ''Complete'' | Partial \<Rightarrow> ''Partial'' | Final \<Rightarrow> ''Final'')"

section \<open>Display of the operators\<close>

definition show_exprs :: "env \<Rightarrow> phys_expr list \<Rightarrow> string" where
  "show_exprs E es = join_with '', '' (List.map (show_phys_expr E) es)"

definition show_scan_exec :: "env \<Rightarrow> data_source \<Rightarrow> string list \<Rightarrow> string res" where
  "show_scan_exec E ds ns = map_res (\<lambda>s. ''ScanExec: schema='' @ debug_schema E s
     @ '', projection='' @ debug_list debug_string ns) (phys_schema E (Scan_Exec ds ns))"

definition show_projection_exec :: "env \<Rightarrow> phys_expr list \<Rightarrow> string" where
  "show_projection_exec E es = ''ProjectionExec: ['' @ show_exprs E es @ '']''"

definition show_selection_exec :: "env \<Rightarrow> phys_expr \<Rightarrow> string" where
  "show_selection_exec E e = ''SelectionExec: '' @ show_phys_expr E e"

definition show_limit_exec :: "nat \<Rightarrow> string" where
  "show_limit_exec n = ''LimitExec: limit='' @ show_nat n"

definition show_hash_aggregate_exec :: "env \<Rightarrow> phys_expr list \<Rightarrow> phys_aggr list \<Rightarrow> AggregateMode \<Rightarrow> string" where
  "show_hash_aggregate_exec E gs as m = ''HashAggregateExec: groupExpr=['' @ show_exprs E gs
     @ ''], aggrExpr=['' @ join_with '', '' (List.map (show_aggr E) as) @ ''], mode='' @ debug_mode m"

definition show_hash_join_exec :: "JoinType \<Rightarrow> nat list \<Rightarrow> nat list \<Rightarrow> string" where
  "show_hash_join_exec jt lk rk = ''HashJoinExec: joinType='' @ show_join_type jt
     @ '', leftKeys='' @ debug_list show_nat lk @ '', rightKeys='' @ debug_list show_nat rk"

definition show_shuffle_writer_exec :: "env \<Rightarrow> phys_expr list \<Rightarrow> string \<Rightarrow> 32 word \<Rightarrow> 32 word \<Rightarrow> string" where
  "show_shuffle_writer_exec E es job st n = ''ShuffleWriterExec: jobUuid='' @ job @ '', stageId='' @ show_signed st
     @ '', partitionCount='' @ show_signed n @ '', partitionExpr=['' @ show_exprs E es @ '']''"

definition show_shuffle_reader_exec :: "env \<Rightarrow> Schema \<Rightarrow> ShuffleLocation list \<Rightarrow> string" where
  "show_shuffle_reader_exec E s locs =
     ''ShuffleReaderExec: schema='' @ debug_schema E s @ '', locations='' @ show_nat (length locs)"

fun show_phys_node :: "env \<Rightarrow> phys_plan \<Rightarrow> string res" where
  "show_phys_node E (Scan_Exec ds ns) = show_scan_exec E ds ns"
| "show_phys_node E (Projection_Exec i s es) = Ok (show_projection_exec E es)"
| "show_phys_node E (Selection_Exec i e) = Ok (show_selection_exec E e)"
| "show_phys_node E (Limit_Exec i n) = Ok (show_limit_exec n)"
| "show_phys_node E (Hash_Aggregate_Exec i gs as s m) = Ok (show_hash_aggregate_exec E gs as m)"
| "show_phys_node E (Hash_Join_Exec l r jt lk rk s ex) = Ok (show_hash_join_exec jt lk rk)"
| "show_phys_node E (Shuffle_Writer_Exec i es job st n) = Ok (show_shuffle_writer_exec E es job st n)"
| "show_phys_node E (Shuffle_Reader_Exec s locs) = Ok (show_shuffle_reader_exec E s locs)"

section \<open>The printed plan\<close>

text \<open>The buffer grows by this operator's line, then by those of its children.\<close>

lemma children_smaller: "c \<in> set (children p) \<Longrightarrow> size c < size p"
  by (cases p) auto

function format_from :: "env \<Rightarrow> phys_plan \<Rightarrow> nat \<Rightarrow> string \<Rightarrow> string res" where
  "format_from E p k out = and_then (show_phys_node E p) (\<lambda>t.
     fold (\<lambda>c acc. and_then acc (format_from E c (k + 1))) (children p)
       (Ok (out @ replicate k (CHR 0x09) @ t @ [CHR 0x0A])))"
  by pat_completeness auto
termination by (relation "measure (\<lambda>(E, p, k, out). size p)") (auto dest: children_smaller)

declare format_from.simps [simp del]

definition format_phys :: "env \<Rightarrow> phys_plan \<Rightarrow> string res" where
  "format_phys E p = format_from E p 0 []"

text \<open>The operators of a plan in depth-first order, each with its depth.\<close>

function operators_at :: "phys_plan \<Rightarrow> nat \<Rightarrow> (nat \<times> phys_plan) list" where
  "operators_at p k = (k, p) # concat (List.map (\<lambda>c. operators_at c (k + 1)) (children p))"
  by pat_completeness auto
termination by (relation "measure (\<lambda>(p, k). size p)") (auto dest: children_smaller)

declare operators_at.simps [simp del]

definition plan_line :: "env \<Rightarrow> nat \<times> phys_plan \<Rightarrow> string res" where
  "plan_line E kp = map_res (\<lambda>t. replicate (fst kp) (CHR 0x09) @ t @ [CHR 0x0A]) (show_phys_node E (snd kp))"

lemma fold_panic: "fold (\<lambda>c acc. and_then acc (f c)) cs (Panic e) = Panic e"
  by (induction cs) auto

lemma fold_lines:
  assumes "\<And>c out. c \<in> set cs \<Longrightarrow> g c out = map_res (\<lambda>ls. out @ concat ls) (traverse f (h c))"
  shows "fold (\<lambda>c acc. and_then acc (g c)) cs (Ok out)
    = map_res (\<lambda>ls. out @ concat ls) (traverse f (concat (List.map h cs)))"
  using assms
proof (induction cs arbitrary: out)
  case (Cons c cs)
  show ?case
  proof (cases "traverse f (h c)")
    case (Ok ls)
    then show ?thesis using Cons
      by (cases "traverse f (concat (List.map h cs))") (simp_all add: traverse_append)
  next
    case (Panic e)
    then show ?thesis using Cons.prems by (simp add: traverse_append fold_panic)
  qed
qed simp

text \<open>Printing a plan prints the lines of its operators in depth-first order, each once, and
  panics with the first panic of a line, in the same order.\<close>

lemma format_from_lines:
  "format_from E p k out = map_res (\<lambda>ls. out @ concat ls) (traverse (plan_line E) (operators_at p k))"
proof (induction E p k out rule: format_from.induct)
  case (1 E p k out)
  show ?case
  proof (cases "show_phys_node E p")
    case (Ok t)
    have "fold (\<lambda>c acc. and_then acc (format_from E c (k + 1))) (children p) (Ok (out @ replicate k (CHR 0x09) @ t @ [CHR 0x0A]))
      = map_res (\<lambda>ls. (out @ replicate k (CHR 0x09) @ t @ [CHR 0x0A]) @ concat ls)
          (traverse (plan_line E) (concat (List.map (\<lambda>c. operators_at c (k + 1)) (children p))))"
      by (rule fold_lines [where f = "plan_line E" and h = "\<lambda>c. operators_at c (k + 1)"]) (rule 1 [OF Ok _ refl])
    then show ?thesis using Ok
      by (subst format_from.simps, subst operators_at.simps)
        (cases "traverse (plan_line E) (concat (List.map (\<lambda>c. operators_at c (k + 1)) (children p)))"; simp add: plan_line_def)
  next
    case (Panic e)
    then show ?thesis
      by (subst format_from.simps, subst operators_at.simps) (simp add: plan_line_def)
  qed
qed

lemma format_phys_lines: "format_phys E p = map_res concat (traverse (plan_line E) (operators_at p 0))"
  by (simp add: format_phys_def format_from_lines)

text \<open>Rebuilding an operator on its own children gives it back.\<close>

lemma with_own_children: "with_new_children p (children p) = Ok p"
  by (cases p) (simp_all add: only_child_def)

section \<open>The group key of the hash aggregate\<close>

definition scalar_key_eq :: "ScalarValue \<Rightarrow> ScalarValue \<Rightarrow> bool" where
  "scalar_key_eq a b = (case (a, b) of
      (V_Float32 x, V_Float32 y) \<Rightarrow> x = y
    | (V_Float64 x, V_Float64 y) \<Rightarrow> x = y
    | _ \<Rightarrow> scalar_partial_eq a b)"

definition group_key_eq :: "ScalarValue list \<Rightarrow> ScalarValue list \<Rightarrow> bool" where
  "group_key_eq a b = (length a = length b \<and> list_all (\<lambda>(x, y). scalar_key_eq x y) (zip a b))"

definition group_hash_scalar :: "ScalarValue \<Rightarrow> hash_write list" where
  "group_hash_scalar v = (case v of
      V_Null \<Rightarrow> [H_Discr 0]
    | V_Boolean b \<Rightarrow> [H_Discr 1, H_U8 (if b then 1 else 0)]
    | V_Int8 n \<Rightarrow> [H_Discr 2, H_U8 n] | V_Int16 n \<Rightarrow> [H_Discr 3, H_U16 n]
    | V_Int32 n \<Rightarrow> [H_Discr 4, H_U32 n] | V_Int64 n \<Rightarrow> [H_Discr 5, H_U64 n]
    | V_UInt8 n \<Rightarrow> [H_Discr 6, H_U8 n] | V_UInt16 n \<Rightarrow> [H_Discr 7, H_U16 n]
    | V_UInt32 n \<Rightarrow> [H_Discr 8, H_U32 n] | V_UInt64 n \<Rightarrow> [H_Discr 9, H_U64 n]
    | V_Float32 x \<Rightarrow> [H_Discr 10, H_U32 x] | V_Float64 x \<Rightarrow> [H_Discr 11, H_U64 x]
    | V_Utf8 s \<Rightarrow> H_Discr 12 # hash_string s
    | V_Binary b \<Rightarrow> [H_Discr 13, H_U64 (word_of_nat (length b)), H_Bytes b]
    | V_Date32 d \<Rightarrow> [H_Discr 14, H_U32 d])"

definition hash_group_key :: "ScalarValue list \<Rightarrow> hash_write list" where
  "hash_group_key k = concat (List.map group_hash_scalar k)"

text \<open>The copy agrees with the original, which @upsert@ uses for both operators.\<close>

lemma group_key_is_row_key:
  "group_key_eq = row_key_eq" "hash_group_key = hash_row_key"
proof -
  have "scalar_key_eq = scalar_eq"
    by (intro ext) (simp add: scalar_key_eq_def scalar_eq_def scalar_partial_eq_def split: ScalarValue.split)
  then show "group_key_eq = row_key_eq" by (intro ext) (simp only: group_key_eq_def row_key_eq_def)
  have "group_hash_scalar = hash_scalar" by (intro ext) (simp add: group_hash_scalar_def hash_scalar_def)
  then show "hash_group_key = hash_row_key" by (intro ext) (simp only: hash_group_key_def hash_row_key_def)
qed

interpretation group_key: hash_key group_key_eq hash_group_key
  unfolding group_key_is_row_key by (rule row_key.hash_key_axioms)

end
