(* ===== verification/Expr_Builders.thy ===== *)
theory Expr_Builders
  imports Sql_Planner
begin

text \<open>
  The builder interface of crate @logical-plan@ (the methods of @LogicalExpr@ and the free
  functions of expressions.rs), with which the SQL planner and other crates write expressions.
\<close>

section \<open>Expressions\<close>

definition expr_eq :: "LogicalExpr \<Rightarrow> LogicalExpr \<Rightarrow> LogicalExpr" where
  "expr_eq l r = L_Eq l r"
definition expr_neq :: "LogicalExpr \<Rightarrow> LogicalExpr \<Rightarrow> LogicalExpr" where
  "expr_neq l r = L_Neq l r"
definition expr_gt :: "LogicalExpr \<Rightarrow> LogicalExpr \<Rightarrow> LogicalExpr" where
  "expr_gt l r = L_Gt l r"
definition expr_gteq :: "LogicalExpr \<Rightarrow> LogicalExpr \<Rightarrow> LogicalExpr" where
  "expr_gteq l r = L_GtEq l r"
definition expr_lt :: "LogicalExpr \<Rightarrow> LogicalExpr \<Rightarrow> LogicalExpr" where
  "expr_lt l r = L_Lt l r"
definition expr_lteq :: "LogicalExpr \<Rightarrow> LogicalExpr \<Rightarrow> LogicalExpr" where
  "expr_lteq l r = L_LtEq l r"
definition expr_and :: "LogicalExpr \<Rightarrow> LogicalExpr \<Rightarrow> LogicalExpr" where
  "expr_and l r = L_And l r"
definition expr_or :: "LogicalExpr \<Rightarrow> LogicalExpr \<Rightarrow> LogicalExpr" where
  "expr_or l r = L_Or l r"
definition expr_add :: "LogicalExpr \<Rightarrow> LogicalExpr \<Rightarrow> LogicalExpr" where
  "expr_add l r = L_Add l r"
definition expr_subtract :: "LogicalExpr \<Rightarrow> LogicalExpr \<Rightarrow> LogicalExpr" where
  "expr_subtract l r = L_Subtract l r"
definition expr_mult :: "LogicalExpr \<Rightarrow> LogicalExpr \<Rightarrow> LogicalExpr" where
  "expr_mult l r = L_Multiply l r"
definition expr_div :: "LogicalExpr \<Rightarrow> LogicalExpr \<Rightarrow> LogicalExpr" where
  "expr_div l r = L_Divide l r"
definition expr_modulus :: "LogicalExpr \<Rightarrow> LogicalExpr \<Rightarrow> LogicalExpr" where
  "expr_modulus l r = L_Modulus l r"
definition expr_alias :: "LogicalExpr \<Rightarrow> string \<Rightarrow> LogicalExpr" where
  "expr_alias e a = L_Alias e a"

definition col :: "string \<Rightarrow> LogicalExpr" where
  "col n = Column n"
definition lit_string :: "string \<Rightarrow> LogicalExpr" where
  "lit_string s = LiteralString s"
definition lit_long :: "64 word \<Rightarrow> LogicalExpr" where
  "lit_long v = LiteralLong v"
definition lit_float :: "f32 \<Rightarrow> LogicalExpr" where
  "lit_float v = LiteralFloat v"
definition lit_double :: "f64 \<Rightarrow> LogicalExpr" where
  "lit_double v = LiteralDouble v"
definition lit_date :: "int \<Rightarrow> LogicalExpr" where
  "lit_date d = LiteralDate d"
definition cast_expr :: "LogicalExpr \<Rightarrow> DataType \<Rightarrow> LogicalExpr" where
  "cast_expr e t = L_Cast e t"

section \<open>Aggregates\<close>

definition aggr_sum :: "LogicalExpr \<Rightarrow> AggregateExpr" where
  "aggr_sum e = A_Sum e"
definition aggr_min :: "LogicalExpr \<Rightarrow> AggregateExpr" where
  "aggr_min e = A_Min e"
definition aggr_max :: "LogicalExpr \<Rightarrow> AggregateExpr" where
  "aggr_max e = A_Max e"
definition aggr_avg :: "LogicalExpr \<Rightarrow> AggregateExpr" where
  "aggr_avg e = A_Avg e"
definition aggr_count :: "LogicalExpr \<Rightarrow> AggregateExpr" where
  "aggr_count e = A_Count e"
definition aggr_count_distinct :: "LogicalExpr \<Rightarrow> AggregateExpr" where
  "aggr_count_distinct e = A_CountDistinct e"
definition expr_from_aggregate :: "AggregateExpr \<Rightarrow> LogicalExpr" where
  "expr_from_aggregate a = L_Aggregate a"

lemmas builder_defs = expr_eq_def expr_neq_def expr_gt_def expr_gteq_def expr_lt_def expr_lteq_def expr_and_def expr_or_def expr_add_def expr_subtract_def expr_mult_def expr_div_def expr_modulus_def
  expr_alias_def col_def lit_string_def lit_long_def lit_float_def lit_double_def lit_date_def cast_expr_def
  aggr_sum_def aggr_min_def aggr_max_def aggr_avg_def aggr_count_def aggr_count_distinct_def expr_from_aggregate_def

section \<open>The SQL planner writes its expressions with the builders\<close>

lemma binary_expr_builds:
  "binary_expr op l r =
     (if op = ''+'' \<and> date_and_interval l r then Ok (L_DateAdd l r)
      else if op = ''-'' \<and> date_and_interval l r then Ok (L_DateSubtract l r)
      else case map_of [(''='', expr_eq), (''!='', expr_neq), (''<>'', expr_neq), (''>'', expr_gt), (''>='', expr_gteq),
          (''<'', expr_lt), (''<='', expr_lteq), (''AND'', expr_and), (''OR'', expr_or), (''+'', expr_add),
          (''-'', expr_subtract), (''*'', expr_mult), (''/'', expr_div), (''%'', expr_modulus)] op of
        Some f \<Rightarrow> Ok (f l r) | None \<Rightarrow> Panic (Panicked ''Invalid operator''))"
  by (simp add: binary_expr_def builder_defs)

lemma aggregate_call_builds:
  "aggregate_call f e = (case map_of [(''MIN'', aggr_min), (''MAX'', aggr_max), (''SUM'', aggr_sum), (''AVG'', aggr_avg)] f of
     Some g \<Rightarrow> Ok (expr_from_aggregate (g e)) | None \<Rightarrow> Panic (Panicked ''Unexpected aggregate function''))"
  by (simp add: aggregate_call_def builder_defs)

text \<open>What a builder puts in, the collectors of column names find again: the columns of an
  expression written with the builders are those of its operands.\<close>

lemma builder_columns:
  "set (visit (expr_eq l r) acc) = set (visit r (visit l acc))"
  "set (visit (expr_and l r) acc) = set (visit r (visit l acc))"
  "set (visit (col n) acc) = insert n (set acc)"
  "set (visit (expr_alias e a) acc) = set (visit e acc)"
  by (auto simp: builder_defs)

end
