(* ===== verification/Token_Show.thy ===== *)
theory Token_Show
  imports Sql_Tokens Environment
begin

text \<open>
  The printed form of tokens and of the token stream (@Display@ in tokens.rs and
  token_stream.rs), which the parser puts into its messages.
\<close>

definition debug_symbol :: "Symbol \<Rightarrow> string" where
  "debug_symbol s = (case s of
      Sym_LeftParen \<Rightarrow> ''LeftParen'' | Sym_RightParen \<Rightarrow> ''RightParen'' | Sym_LeftBrace
      \<Rightarrow> ''LeftBrace'' | Sym_RightBrace \<Rightarrow> ''RightBrace'' | Sym_LeftBracket \<Rightarrow>
      ''LeftBracket'' | Sym_RightBracket \<Rightarrow> ''RightBracket'' | Sym_Semi \<Rightarrow> ''Semi'' |
      Sym_Comma \<Rightarrow> ''Comma'' | Sym_Dot \<Rightarrow> ''Dot'' | Sym_DoubleDot \<Rightarrow> ''DoubleDot''
      | Sym_Plus \<Rightarrow> ''Plus'' | Sym_Sub \<Rightarrow> ''Sub'' | Sym_Star \<Rightarrow> ''Star'' |
      Sym_Slash \<Rightarrow> ''Slash'' | Sym_Question \<Rightarrow> ''Question'' | Sym_Eq \<Rightarrow> ''Eq'' |
      Sym_Gt \<Rightarrow> ''Gt'' | Sym_Lt \<Rightarrow> ''Lt'' | Sym_Bang \<Rightarrow> ''Bang'' | Sym_Tilde
      \<Rightarrow> ''Tilde'' | Sym_Caret \<Rightarrow> ''Caret'' | Sym_Percent \<Rightarrow> ''Percent'' |
      Sym_Colon \<Rightarrow> ''Colon'' | Sym_DoubleColon \<Rightarrow> ''DoubleColon'' | Sym_ColonEq \<Rightarrow>
      ''ColonEq'' | Sym_LtEq \<Rightarrow> ''LtEq'' | Sym_GtEq \<Rightarrow> ''GtEq'' | Sym_LtEqGt \<Rightarrow>
      ''LtEqGt'' | Sym_LtGt \<Rightarrow> ''LtGt'' | Sym_BangEq \<Rightarrow> ''BangEq'' | Sym_BangGt \<Rightarrow>
      ''BangGt'' | Sym_BangLt \<Rightarrow> ''BangLt'' | Sym_Amp \<Rightarrow> ''Amp'' | Sym_Bar \<Rightarrow>
      ''Bar'' | Sym_DoubleAmp \<Rightarrow> ''DoubleAmp'' | Sym_DoubleBar \<Rightarrow> ''DoubleBar'' | Sym_DoubleLt
      \<Rightarrow> ''DoubleLt'' | Sym_DoubleGt \<Rightarrow> ''DoubleGt'' | Sym_At \<Rightarrow> ''At'' | Sym_Pound
      \<Rightarrow> ''Pound'')"

definition debug_literal :: "Literal \<Rightarrow> string" where
  "debug_literal l = (case l of Lit_Long \<Rightarrow> ''Long'' | Lit_Double \<Rightarrow> ''Double'' | Lit_String \<Rightarrow> ''String'' | Lit_Identifier \<Rightarrow> ''Identifier'')"

definition show_token :: "Token \<Rightarrow> string" where
  "show_token t = (let (category, name) = (case token_type t of
       TT_Keyword k \<Rightarrow> (''Keyword'', kw_name k)
     | TT_Symbol s \<Rightarrow> (''Symbol'', debug_symbol s)
     | TT_Literal l \<Rightarrow> (''Literal'', debug_literal l))
   in ''Token('' @ [CHR 0x22] @ tok_text t @ [CHR 0x22] @ '', '' @ category @ ''.'' @ name @ '', '' @ show_nat (end_offset t) @ '')'')"

definition show_token_stream :: "TokenStream \<Rightarrow> string" where
  "show_token_stream ts = join_with '' '' (List.map (\<lambda>(i, t). if i = ts_i ts then ''*'' @ show_token t else show_token t)
     (enumerate 0 (ts_tokens ts)))"

lemma debug_symbol_inj: "debug_symbol a = debug_symbol b \<longleftrightarrow> a = b"
  by (cases a; cases b) (simp_all add: debug_symbol_def)

text \<open>The cursor marks the token @peek@ returns and no other.\<close>

lemma show_token_stream_cursor:
  "show_token_stream ts = join_with '' '' (List.map show_token (take (ts_i ts) (ts_tokens ts))
     @ (case peek ts of None \<Rightarrow> [] | Some t \<Rightarrow> [''*'' @ show_token t]) @ List.map show_token (drop (Suc (ts_i ts)) (ts_tokens ts)))"
proof -
  have "List.map (\<lambda>(i, t). if i = ts_i ts then ''*'' @ show_token t else show_token t) (enumerate 0 (ts_tokens ts))
    = List.map show_token (take (ts_i ts) (ts_tokens ts))
     @ (case peek ts of None \<Rightarrow> [] | Some t \<Rightarrow> [''*'' @ show_token t]) @ List.map show_token (drop (Suc (ts_i ts)) (ts_tokens ts))"
    (is "?l = ?r")
  proof (rule nth_equalityI)
    show "length ?l = length ?r" by (auto simp: peek_def)
  next
    fix i assume "i < length ?l"
    then show "?l ! i = ?r ! i"
      by (cases "i < ts_i ts"; cases "i = ts_i ts") (auto simp: peek_def nth_append nth_enumerate_eq nth_Cons')
  qed
  then show ?thesis by (simp only: show_token_stream_def)
qed

end
