(* ===== verification/Spec2Isabelle.thy ===== *)
theory Spec2Isabelle
  imports Join_Props Hash_Props Shuffle_Props Sql_Group_Props Sql_Total Execution_Props Distributed_Props Wire_Props Cluster_Props Remote_Props Fuzzer_Props Integer_Columns Phys_Show Expr_Builders Token_Show
begin

text \<open>
  A verification development of the query engine of @how-query-engines-work-rust@.

  A query is text, tokens, a syntax tree, a logical plan, an optimized logical plan, a physical
  plan and finally a stream of record batches; every arrow is a crate, and the theories follow
  the arrows.  Beside this single-process pipeline, an aggregate can be spread over worker
  threads, or over executors that exchange rows through shuffle files and receive their tasks
  over Arrow Flight.

  \<^bold>\<open>Shared base\<close>

  \<^item> @Prelude@: panics as values (@res@), loops over lists that may panic, checked indexing.
  \<^item> @Rust_Text@: characters and strings, number printing and parsing of the standard library.
  \<^item> @Floats@: IEEE single and double precision on bit patterns.

  \<^bold>\<open>Data\<close>

  \<^item> @Arrow_Data@, @Environment@ (@datatypes/src@): types, scalars, schemas, columns, builders and
    batches; the record @env@ collects what is not in the repository (arrow-rs, the CSV and
    Parquet readers, the default hasher, map iteration order, libm, date formatting) and
    @env_ok@ the documented behaviour of it the theorems use.  An Arrow IPC file is only promised
    to give back batches that share one schema, as the shuffle manager assumes of them.
  \<^item> @Data_Source@ (@datasource/src@): in-memory, CSV and Parquet sources.

  \<^bold>\<open>Plans and their execution\<close>

  \<^item> @Phys_Expr@, @Expr_Typing@, @Row_Semantics@ (@physical-plan/src/*_expression.rs@): expressions,
    their type system and its soundness, and a row-at-a-time semantics the column-at-a-time
    evaluation is proved equal to.
  \<^item> @Integer_Columns@: integer arithmetic on columns, at every signed width, against a specification
    on the mathematical integers with NULL as @None@.
  \<^item> @Accumulators@: MIN, MAX, SUM, COUNT, AVG, whole and in two stages.
  \<^item> @Row_Key@, @Shuffle@: hash keys, equal exactly when what they feed the hasher is; the shuffle file
    store, on paths joined as @PathBuf::join@ does, a locale of keyed stores.
  \<^item> @Phys_Plan@ (@physical-plan/src/*_exec.rs@) with @Phys_Props@, @Hash_Props@, @Join_Props@ and
    @Shuffle_Props@: the operators; each computes, on the rows of its input, the function its
    name promises (filter, map, prefix, one row per group, nested-loop join, partitions by key).
  \<^item> @Phys_Show@: the printed form of a physical plan, one line per operator in depth-first order;
    the group key of the hash aggregate, equal to the row key of the join.
  \<^item> @Logical_Plan@ (@logical-plan/src@): expressions, plans, schemas, printing, the data frame.
  \<^item> @Expr_Builders@ (@expressions.rs@): the builder interface, which the SQL planner writes with.
  \<^item> @Query_Planner@ (@query-planner/src@): lowering to physical plans.
  \<^item> @Logical_Semantics@: types and values of logical expressions read off the expression itself, by
    column name, and the function of an aggregate; the lowered expression has this type and value.
  \<^item> @Plan_Semantics@: the denotation @results@ of a logical plan, the set of row lists it may
    return, over these values and without reference to the lowering; lowering a well-typed plan
    and running it refines this.
  \<^item> @Optimizer_Rules@, @Optimizer_Props@, @Optimizer_Join@ (@optimizer/src@): projection push-down
    preserves the results of plans with selections, projections, aggregates, limits and joins,
    and the columns of those whose root names them.

  \<^bold>\<open>SQL\<close>

  \<^item> @Sql_Tokens@, @Token_Props@ (@sql_tokenizer.rs@, @token_stream.rs@): the tokenizer, with one unit of
    fuel per character, which is enough; printing and tokenizing round trips.
  \<^item> @Token_Show@: the form of tokens and of the token cursor in error messages.
  \<^item> @Sql_Parser@, @Parser_Props@, @Select_Props@ (@sql_parser.rs@, @pratt_parser.rs@): the Pratt parser, with
    one unit of fuel per token, which is enough; expressions and statements round trip.
  \<^item> @Sql_Planner@, @Sql_Plan_Props@, @Sql_Group_Props@ (@sql_planner.rs@): from syntax trees to logical
    plans; what the plan of a query without aggregates means, and of one with WHERE, GROUP BY,
    aggregates, HAVING and LIMIT.

  \<^bold>\<open>Contexts\<close>

  \<^item> @Execution@, @Execution_Props@ (@execution_context.rs@): the whole pipeline, from SQL text to rows;
    what a plan returns whose root names no columns, and an instance that loses a column.
  \<^item> @Sql_Total@: SELECT of columns with a WHERE of comparisons and a LIMIT needs no hypothesis on
    its plan: it always runs, and returns exactly the rows SQL promises.
  \<^item> @Two_Stage@, @Parallel_Props@ (@parallel_context.rs@): aggregation in two stages.  The locale
    @commuting_aggregation@ states what makes partial results mergeable in any order, and is
    interpreted on the four aggregates that have it; the parallel aggregate returns the rows of
    the sequential one when both stages read the same layout, and a concrete query on which it
    does not when they do not.

  \<^bold>\<open>Distribution\<close>

  \<^item> @Distributed@, @Distributed_Props@ (@distributed/src@): configuration, stages, tasks, planner and
    scheduler.  What a job computes is written out as its calls to the client, for any client.
    The scheduler's function is also the state machine @sched_step@, on which the invariant
    (order of tasks, round robin, dependencies first) is a rule induction and progress a count of
    the remaining steps.
  \<^item> @Wire_Logical@, @Wire_Physical@, @Wire_Props@ (@protobuf/src@): messages, serializers and
    deserializers of both kinds of plans; what survives the trip.
  \<^item> @Flight@, @Flight_Props@ (@flight-server/src@, @client/src@): the server's handlers, the client and
    the executor client; a remote task does what a local one does, and what happens to panics.
    The codec is a parameter; batches are promised to arrive when they have the same column types.
  \<^item> @Cluster_Props@: whole distributed aggregates.  The locale @faithful_client@ is what the
    scheduler needs of a client, interpreted on the Flight client.
  \<^item> @Remote_Props@: a SELECT sent whole to a server, from its text to the rows the client decodes.
  \<^item> @Fuzzer@, @Fuzzer_Props@ (@fuzzer/src@): the random generator of batches and plans, over any
    random source that keeps to the ranges it is asked for.

  \<^bold>\<open>Conventions\<close>

  Panics carry the literal text of the message only.  Integer arithmetic written with plain
  operators is the checked arithmetic of the development profile; @usize@ is @nat@ and @i32@,
  @i64@ are words.  An iterator is the list of the outcomes of its pulls; laziness is observable
  only in which panics are reached, and the operators keep those.

  \<^bold>\<open>Not modelled\<close>

  Reading files, sockets and the tokio runtime (parameters, or a map of the servers that are
  up); the generated prost code (messages are the types of @rquery.proto@, their bytes a
  parameter); thread interleavings of the parallel context, whose workers share nothing; the
  command line programs of @benchmarks@, @examples@ and @flight-server/src/bin@; the test modules.
\<close>

end
